(* ===== verification/C_Prelude.thy ===== *)
theory C_Prelude
  imports Main "HOL-Library.Word"
begin

text \<open>
  Shared vocabulary of the development: the C integer types of the firmware as
  fixed-width words, the byte order helpers the communication code writes by hand
  (\<open>x >> 8\<close>, \<open>x\<close> stored into a \<open>uint8_t\<close>), and the list lemmas about ring
  indices that the queues and the log FIFOs share. Nothing in this theory is specific to
  one source file.
\<close>

unbundle bit_operations_syntax

type_synonym u8 = "8 word"
type_synonym u16 = "16 word"
type_synonym u32 = "32 word"
type_synonym u64 = "64 word"
type_synonym bytes = "8 word list"

named_theorems c_bytes \<open>facts about splitting words into bytes and back\<close>
named_theorems ring_index \<open>index arithmetic of ring buffers\<close>

subsection \<open>Bytes of a 16-bit word\<close>

text \<open>
  Storing a \<open>uint16_t\<close> expression into a \<open>uint8_t\<close> keeps its low byte, and storing
  \<open>w >> 8\<close> keeps the high one. \<open>be16\<close> is the expression
  \<open>(uint16_t)(hi << 8) + lo\<close> of the frame parsers.
\<close>

definition lo8 :: "u16 \<Rightarrow> u8" where
  "lo8 w = ucast w"

definition hi8 :: "u16 \<Rightarrow> u8" where
  "hi8 w = ucast (drop_bit 8 w)"

definition be16 :: "u8 \<Rightarrow> u8 \<Rightarrow> u16" where
  "be16 h l = push_bit 8 (ucast h) + ucast l"

lemma be16_or: "be16 h l = push_bit 8 (ucast h) OR ucast l"
proof -
  have "push_bit 8 (ucast h :: u16) AND ucast l = 0"
    by (rule bit_word_eqI) (auto simp: bit_simps dest: bit_imp_le_length)
  then show ?thesis
    by (simp add: be16_def disjunctive_add_eq_or)
qed

lemma lo8_be16 [c_bytes, simp]: "lo8 (be16 h l) = l"
  by (rule bit_word_eqI)
    (auto simp: be16_or lo8_def bit_simps dest: bit_imp_le_length)

lemma hi8_be16 [c_bytes, simp]: "hi8 (be16 h l) = h"
  by (rule bit_word_eqI)
    (auto simp: be16_or hi8_def bit_simps dest: bit_imp_le_length)

lemma be16_hi8_lo8 [c_bytes, simp]: "be16 (hi8 w) (lo8 w) = w"
  by (rule bit_word_eqI)
    (auto simp: be16_or hi8_def lo8_def bit_simps dest: bit_imp_le_length
      simp flip: less_Suc_eq_le)

lemma be16_inject [c_bytes]: "be16 h l = be16 h' l' \<longleftrightarrow> h = h' \<and> l = l'"
  by (metis hi8_be16 lo8_be16)

subsection \<open>Addresses as natural numbers\<close>

named_theorems u16_nat \<open>comparisons and sums of 16-bit addresses as natural numbers\<close>

lemma unat_add_of_nat [u16_nat]:
  "unat (a :: u16) + n < 65536 \<Longrightarrow> unat (a + of_nat n) = unat a + n"
proof -
  assume n: "unat a + n < 65536"
  then have "unat (of_nat n :: u16) = n" by (simp only: unat_of_nat) simp
  then show ?thesis using n by (simp add: unat_word_ariths)
qed

lemma unat_diff [u16_nat]: "b \<le> a \<Longrightarrow> unat (a - b) = unat a - unat (b :: u16)"
  by (simp add: unat_sub)

lemma u16_less_65536 [simp]: "unat (a :: u16) < 65536"
  using unsigned_less [of a] by simp

lemma u16_eq_nat: "(a :: u16) = b \<longleftrightarrow> unat a = unat b"
  by (simp add: word_unat_eq_iff)

lemmas u16_cmp = word_less_nat_alt [where 'a = 16] word_le_nat_alt [where 'a = 16]

subsection \<open>Little-endian memory images\<close>

text \<open>
  How the target lays integers out in memory, files and frames: \<open>le_bytes n w\<close> are the \<open>n\<close>
  bytes of \<open>w\<close>, the lowest first, and \<open>le_word\<close> reads them back.
\<close>

definition le_bytes :: "nat \<Rightarrow> 'a::len word \<Rightarrow> bytes" where
  "le_bytes n w = map (\<lambda>i. ucast (drop_bit (8 * i) w)) [0..<n]"

fun le_word :: "bytes \<Rightarrow> 'a::len word" where
  "le_word [] = 0"
| "le_word (b # bs) = ucast b OR push_bit 8 (le_word bs)"

lemma length_le_bytes [simp]: "length (le_bytes n w) = n"
  by (simp add: le_bytes_def)

lemma bit_le_word:
  "bit (le_word bs :: 'a::len word) k \<longleftrightarrow>
    k < LENGTH('a) \<and> k div 8 < length bs \<and> bit (bs ! (k div 8)) (k mod 8)"
proof (induction bs arbitrary: k)
  case (Cons b bs)
  have b8: "bit b m \<Longrightarrow> m < 8" for m by (auto dest: bit_imp_le_length)
  show ?case
  proof (cases "k < 8")
    case True
    then show ?thesis by (auto simp: bit_simps)
  next
    case False
    then have "k div 8 = Suc ((k - 8) div 8)" "k mod 8 = (k - 8) mod 8"
      by (simp_all add: le_div_geq le_mod_geq)
    then show ?thesis using False b8 [of k] Cons.IH [of "k - 8"]
      by (auto simp: bit_simps)
  qed
qed simp

lemma le_word_bytes [simp]:
  "LENGTH('a) = 8 * n \<Longrightarrow> le_word (le_bytes n (w :: 'a::len word)) = w"
  by (rule bit_word_eqI) (auto simp: bit_le_word le_bytes_def bit_simps)

lemma le_bytes_2: "le_bytes 2 w = [lo8 w, hi8 w]"
  by (simp add: le_bytes_def lo8_def hi8_def numeral_2_eq_2)

text \<open>Arrays of words.\<close>

definition le_array :: "nat \<Rightarrow> 'a::len word list \<Rightarrow> bytes" where
  "le_array n ws = concat (map (le_bytes n) ws)"

fun le_words :: "nat \<Rightarrow> nat \<Rightarrow> bytes \<Rightarrow> 'a::len word list" where
  "le_words n 0 bs = []"
| "le_words n (Suc k) bs = le_word (take n bs) # le_words n k (drop n bs)"

lemma length_le_array [simp]: "length (le_array n ws) = n * length ws"
  by (induction ws) (simp_all add: le_array_def)

lemma le_words_array [simp]:
  "LENGTH('a) = 8 * n \<Longrightarrow> length ws = k \<Longrightarrow> le_words n k (le_array n (ws :: 'a::len word list) @ bs) = ws"
  by (induction ws arbitrary: k) (auto simp: le_array_def)

end
