(* ===== verification/Crc.thy ===== *)
theory Crc
  imports C_Prelude
begin

text \<open>
  The checksums of \<open>src/src/crc.c\<close>: the table-driven Modbus CRC-16 that seals the RTU
  frames and the FRAM energy image, and the CRC-32 whose table \<open>makeCRC32table\<close> fills at
  start-up. The theory proves that the literal CRC-16 table is the table of the reflected
  polynomial \<open>0xA001\<close>, that a frame followed by its own CRC checks to zero, and that
  damage confined to one byte never goes unnoticed; for CRC-32, that the computed table
  implements the bit-serial algorithm and that the checksum can be computed in pieces.
\<close>

subsection \<open>CRC-16, table driven\<close>

definition crc_table :: "u16 list" where
  "crc_table = [
    0x0000, 0xc0c1, 0xc181, 0x0140, 0xc301, 0x03c0, 0x0280, 0xc241,
    0xc601, 0x06c0, 0x0780, 0xc741, 0x0500, 0xc5c1, 0xc481, 0x0440,
    0xcc01, 0x0cc0, 0x0d80, 0xcd41, 0x0f00, 0xcfc1, 0xce81, 0x0e40,
    0x0a00, 0xcac1, 0xcb81, 0x0b40, 0xc901, 0x09c0, 0x0880, 0xc841,
    0xd801, 0x18c0, 0x1980, 0xd941, 0x1b00, 0xdbc1, 0xda81, 0x1a40,
    0x1e00, 0xdec1, 0xdf81, 0x1f40, 0xdd01, 0x1dc0, 0x1c80, 0xdc41,
    0x1400, 0xd4c1, 0xd581, 0x1540, 0xd701, 0x17c0, 0x1680, 0xd641,
    0xd201, 0x12c0, 0x1380, 0xd341, 0x1100, 0xd1c1, 0xd081, 0x1040,
    0xf001, 0x30c0, 0x3180, 0xf141, 0x3300, 0xf3c1, 0xf281, 0x3240,
    0x3600, 0xf6c1, 0xf781, 0x3740, 0xf501, 0x35c0, 0x3480, 0xf441,
    0x3c00, 0xfcc1, 0xfd81, 0x3d40, 0xff01, 0x3fc0, 0x3e80, 0xfe41,
    0xfa01, 0x3ac0, 0x3b80, 0xfb41, 0x3900, 0xf9c1, 0xf881, 0x3840,
    0x2800, 0xe8c1, 0xe981, 0x2940, 0xeb01, 0x2bc0, 0x2a80, 0xea41,
    0xee01, 0x2ec0, 0x2f80, 0xef41, 0x2d00, 0xedc1, 0xec81, 0x2c40,
    0xe401, 0x24c0, 0x2580, 0xe541, 0x2700, 0xe7c1, 0xe681, 0x2640,
    0x2200, 0xe2c1, 0xe381, 0x2340, 0xe101, 0x21c0, 0x2080, 0xe041,
    0xa001, 0x60c0, 0x6180, 0xa141, 0x6300, 0xa3c1, 0xa281, 0x6240,
    0x6600, 0xa6c1, 0xa781, 0x6740, 0xa501, 0x65c0, 0x6480, 0xa441,
    0x6c00, 0xacc1, 0xad81, 0x6d40, 0xaf01, 0x6fc0, 0x6e80, 0xae41,
    0xaa01, 0x6ac0, 0x6b80, 0xab41, 0x6900, 0xa9c1, 0xa881, 0x6840,
    0x7800, 0xb8c1, 0xb981, 0x7940, 0xbb01, 0x7bc0, 0x7a80, 0xba41,
    0xbe01, 0x7ec0, 0x7f80, 0xbf41, 0x7d00, 0xbdc1, 0xbc81, 0x7c40,
    0xb401, 0x74c0, 0x7580, 0xb541, 0x7700, 0xb7c1, 0xb681, 0x7640,
    0x7200, 0xb2c1, 0xb381, 0x7340, 0xb101, 0x71c0, 0x7080, 0xb041,
    0x5000, 0x90c1, 0x9181, 0x5140, 0x9301, 0x53c0, 0x5280, 0x9241,
    0x9601, 0x56c0, 0x5780, 0x9741, 0x5500, 0x95c1, 0x9481, 0x5440,
    0x9c01, 0x5cc0, 0x5d80, 0x9d41, 0x5f00, 0x9fc1, 0x9e81, 0x5e40,
    0x5a00, 0x9ac1, 0x9b81, 0x5b40, 0x9901, 0x59c0, 0x5880, 0x9841,
    0x8801, 0x48c0, 0x4980, 0x8941, 0x4b00, 0x8bc1, 0x8a81, 0x4a40,
    0x4e00, 0x8ec1, 0x8f81, 0x4f40, 0x8d01, 0x4dc0, 0x4c80, 0x8c41,
    0x4400, 0x84c1, 0x8581, 0x4540, 0x8701, 0x47c0, 0x4680, 0x8641,
    0x8201, 0x42c0, 0x4380, 0x8341, 0x4100, 0x81c1, 0x8081, 0x4040]"

definition crc16_step :: "u16 \<Rightarrow> u8 \<Rightarrow> u16" where
  "crc16_step crc b = drop_bit 8 crc XOR crc_table ! unat ((crc XOR ucast b) AND 0x00ff)"

definition gencrc_modbus :: "bytes \<Rightarrow> u16" where
  "gencrc_modbus buf = foldl crc16_step 0xffff buf"

subsection \<open>The bit-serial reference\<close>

text \<open>
  One bit of the reflected CRC-16 with generator \<open>0xA001\<close>, and a whole byte of it. The
  step is linear over XOR and injective, which is all the table's correctness needs.
\<close>

definition crc16_bit :: "u16 \<Rightarrow> u16" where
  "crc16_bit c = (if bit c 0 then drop_bit 1 c XOR 0xA001 else drop_bit 1 c)"

definition crc16_bits8 :: "u16 \<Rightarrow> u16" where
  "crc16_bits8 c = (crc16_bit ^^ 8) c"

lemma xor_right_cancel: "(a::'a::len word) XOR c = b XOR c \<longleftrightarrow> a = b"
  by (metis xor.assoc xor.right_neutral xor_self_eq)

lemma crc16_bit_xor: "crc16_bit (x XOR y) = crc16_bit x XOR crc16_bit y"
  by (rule bit_word_eqI) (auto simp: crc16_bit_def bit_simps dest: bit_imp_le_length)

lemma crc16_bits_xor: "(crc16_bit ^^ n) (x XOR y) = (crc16_bit ^^ n) x XOR (crc16_bit ^^ n) y"
  by (induction n) (simp_all add: crc16_bit_xor)

lemma crc16_bit_top: "bit (crc16_bit c) 15 \<longleftrightarrow> bit c 0"
  by (auto simp: crc16_bit_def bit_simps dest: bit_imp_le_length)

lemma drop_1_bits:
  assumes "drop_bit 1 x = drop_bit 1 (y::u16)" and "bit x 0 = bit y 0"
  shows "x = y"
proof (rule bit_word_eqI)
  fix n
  have "bit (drop_bit 1 x) (n - 1) = bit (drop_bit 1 y) (n - 1)" using assms(1) by simp
  then show "bit x n = bit y n" using assms(2) by (cases n) (simp_all add: bit_simps)
qed

lemma crc16_bit_inj: "crc16_bit x = crc16_bit y \<longleftrightarrow> x = y"
proof
  assume e: "crc16_bit x = crc16_bit y"
  then have b0: "bit x 0 = bit y 0" by (metis crc16_bit_top)
  with e have "drop_bit 1 x = drop_bit 1 y"
    by (auto simp: crc16_bit_def xor_right_cancel split: if_splits)
  then show "x = y" using b0 by (rule drop_1_bits)
qed simp

lemma crc16_bits_inj: "(crc16_bit ^^ n) x = (crc16_bit ^^ n) y \<longleftrightarrow> x = y"
  by (induction n) (simp_all add: crc16_bit_inj)

lemma crc16_bits8_inj: "crc16_bits8 x = crc16_bits8 y \<longleftrightarrow> x = y"
  by (simp add: crc16_bits8_def crc16_bits_inj)

lemma crc16_bits_shift:
  "\<forall>k<n. \<not> bit x k \<Longrightarrow> (crc16_bit ^^ n) x = drop_bit n (x::u16)"
proof (induction n arbitrary: x)
  case (Suc n)
  have "crc16_bit x = drop_bit 1 x" using Suc.prems by (simp add: crc16_bit_def)
  moreover have "\<forall>k<n. \<not> bit (drop_bit 1 x) k" using Suc.prems by (auto simp: bit_simps)
  ultimately show ?case using Suc.IH by (simp add: funpow_swap1)
qed simp

fun pairs :: "'a list \<Rightarrow> ('a \<times> 'a) list" where
  "pairs (a # b # xs) = (a, b) # pairs xs"
| "pairs xs = []"

lemma length_pairs: "length (pairs xs) = length xs div 2"
  by (induction xs rule: pairs.induct) auto

lemma nth_pairs: "2 * i + 1 < length xs \<Longrightarrow> pairs xs ! i = (xs ! (2 * i), xs ! (2 * i + 1))"
proof (induction xs arbitrary: i rule: pairs.induct)
  case (1 a b xs)
  then show ?case by (cases i) auto
qed auto

lemma length_crc_table [simp]: "length crc_table = 256"
  by (simp add: crc_table_def)

lemma crc_table_doubling:
  "list_all (\<lambda>((a, b), c). crc16_bit a = c \<and> b = a XOR 0xc0c1) (zip (pairs crc_table) crc_table)"
  by (simp add: crc_table_def crc16_bit_def)

lemma crc_table_double:
  assumes "i < 128"
  shows "crc16_bit (crc_table ! (2 * i)) = crc_table ! i"
    and "crc_table ! (2 * i + 1) = crc_table ! (2 * i) XOR 0xc0c1"
proof -
  let ?z = "zip (pairs crc_table) crc_table"
  have len: "length (pairs crc_table) = 128" by (simp add: length_pairs)
  then have "?z ! i = ((crc_table ! (2 * i), crc_table ! (2 * i + 1)), crc_table ! i)"
    using assms by (simp add: nth_pairs)
  moreover have "i < length ?z" using assms len by simp
  ultimately show "crc16_bit (crc_table ! (2 * i)) = crc_table ! i"
    and "crc_table ! (2 * i + 1) = crc_table ! (2 * i) XOR 0xc0c1"
    using crc_table_doubling by (auto simp: list_all_length)
qed

lemma crc16_bits8_double:
  assumes "k < 128"
  shows "crc16_bit (crc16_bits8 (word_of_nat (2 * k))) = crc16_bits8 (word_of_nat k)"
proof -
  have u: "unat (word_of_nat (2 * k) :: u16) = 2 * k"
    using assms by (simp only: unat_of_nat) simp
  have b0: "\<not> bit (word_of_nat (2 * k) :: u16) 0"
    by (simp add: bit_double_iff)
  have "unat (drop_bit 1 (word_of_nat (2 * k) :: u16)) = k"
    by (simp only: unat_drop_bit_eq u) (simp add: drop_bit_eq_div)
  then have d: "drop_bit 1 (word_of_nat (2 * k) :: u16) = word_of_nat k"
    using assms by (simp only: word_unat_eq_iff unat_of_nat) simp
  have "crc16_bit (crc16_bits8 (word_of_nat (2 * k))) = crc16_bits8 (crc16_bit (word_of_nat (2 * k)))"
    by (simp add: crc16_bits8_def funpow_swap1)
  also have "crc16_bit (word_of_nat (2 * k)) = word_of_nat k"
    using b0 d by (simp add: crc16_bit_def)
  finally show ?thesis .
qed

lemma crc16_bits8_odd:
  assumes "k < 128"
  shows "crc16_bits8 (word_of_nat (2 * k + 1)) = crc16_bits8 (word_of_nat (2 * k)) XOR 0xc0c1"
proof -
  have one: "crc16_bits8 1 = 0xc0c1"
    by code_simp
  have b0: "\<not> bit (word_of_nat (2 * k) :: u16) 0"
    by (simp add: bit_double_iff)
  have "(word_of_nat (2 * k + 1) :: u16) = word_of_nat (2 * k) + 1" by simp
  also have "word_of_nat (2 * k) + 1 = word_of_nat (2 * k) XOR (1 :: u16)"
    using b0 by (intro disjunctive_add_eq_xor bit_word_eqI) (auto simp: bit_simps)
  finally show ?thesis by (simp add: crc16_bits8_def crc16_bits_xor flip: one)
qed

lemma crc_table_bits: "i < 256 \<Longrightarrow> crc_table ! i = crc16_bits8 (word_of_nat i)"
proof (induction i rule: less_induct)
  case (less i)
  have even: "crc_table ! (2 * k) = crc16_bits8 (word_of_nat (2 * k))" if "2 * k \<le> i" for k
  proof (cases "k = 0")
    case True
    have "(crc16_bit ^^ n) 0 = 0" for n by (induction n) (simp_all add: crc16_bit_def)
    then show ?thesis using True by (simp add: crc16_bits8_def crc_table_def)
  next
    case False
    then have "crc_table ! k = crc16_bits8 (word_of_nat k)"
      using less that by simp
    moreover have "k < 128" using less.prems that by simp
    ultimately show ?thesis
      by (metis crc_table_double(1) crc16_bits8_double crc16_bit_inj)
  qed
  show ?case
  proof (cases "even i")
    case True
    then show ?thesis using even by (metis dvd_def order_refl)
  next
    case False
    then obtain k where k: "i = 2 * k + 1" by (rule oddE)
    then have "k < 128" using less.prems by simp
    then show ?thesis using even [of k]
      by (simp only: k crc_table_double(2) crc16_bits8_odd)
  qed
qed

lemma crc16_step_bits: "crc16_step crc b = crc16_bits8 (crc XOR ucast b)"
proof -
  let ?x = "crc XOR ucast b"
  have lt: "unat (?x AND 0x00ff) < 256"
  proof -
    have "?x AND 0x00ff \<le> 0x00ff" by (rule word_and_le1)
    then show ?thesis by (simp add: word_le_nat_alt)
  qed
  have split: "?x = (?x AND 0x00ff) XOR (?x AND 0xff00)"
    by (rule bit_word_eqI) (auto simp: bit_simps numeral_eq_Suc less_Suc_eq)
  have "crc16_bits8 ?x = crc16_bits8 (?x AND 0x00ff) XOR crc16_bits8 (?x AND 0xff00)"
    by (subst split) (simp add: crc16_bits8_def crc16_bits_xor)
  moreover have "crc16_bits8 (?x AND 0xff00) = drop_bit 8 crc"
  proof -
    have nb: "\<not> bit b n" if "8 \<le> n" for n
      using that by (auto dest: bit_imp_le_length)
    have nc: "\<not> bit crc n" if "16 \<le> n" for n
      using that by (auto dest: bit_imp_le_length)
    have "crc16_bits8 (?x AND 0xff00) = drop_bit 8 (?x AND 0xff00)"
      unfolding crc16_bits8_def
      by (rule crc16_bits_shift) (auto simp: bit_simps numeral_eq_Suc less_Suc_eq)
    also have "\<dots> = drop_bit 8 crc"
      by (rule bit_word_eqI) (auto simp: nb nc bit_simps numeral_eq_Suc less_Suc_eq)
    finally show ?thesis .
  qed
  ultimately show ?thesis using lt
    by (simp add: crc16_step_def crc_table_bits xor.commute)
qed
subsection \<open>Sealing and damage\<close>

text \<open>
  The senders append the CRC low byte first (\<open>txbuf[nw++] = crc; txbuf[nw++] = crc >> 8\<close>),
  the receivers run the CRC over the whole frame and expect zero.
\<close>

definition seal16 :: "bytes \<Rightarrow> bytes" where
  "seal16 buf = buf @ [lo8 (gencrc_modbus buf), hi8 (gencrc_modbus buf)]"

lemma crc_table_0: "crc_table ! 0 = 0"
  by (simp add: crc_table_def)

lemma gencrc_modbus_append: "gencrc_modbus (xs @ ys) = foldl crc16_step (gencrc_modbus xs) ys"
  by (simp add: gencrc_modbus_def)

lemma crc16_step_lo: "crc16_step crc (lo8 crc) = drop_bit 8 crc"
proof -
  have "(crc XOR ucast (lo8 crc)) AND 0x00ff = 0"
    by (rule bit_word_eqI) (auto simp: lo8_def bit_simps numeral_eq_Suc less_Suc_eq)
  then show ?thesis by (simp add: crc16_step_def crc_table_0)
qed

lemma crc16_step_hi: "crc16_step (drop_bit 8 crc) (hi8 crc) = 0"
proof -
  have "drop_bit 8 crc XOR ucast (hi8 crc) = 0"
    by (rule bit_word_eqI) (auto simp: hi8_def bit_simps dest: bit_imp_le_length)
  then show ?thesis
    by (simp add: crc16_step_bits crc16_bits_shift crc16_bits8_def)
qed

lemma gencrc_modbus_seal: "gencrc_modbus (seal16 buf) = 0"
  by (simp add: seal16_def gencrc_modbus_append crc16_step_lo crc16_step_hi)

lemma ucast_u8_inj: "(ucast (a :: u8) :: u16) = ucast b \<longleftrightarrow> a = b"
proof
  assume e: "(ucast a :: u16) = ucast b"
  have "be16 0 a = be16 0 b" by (simp add: be16_def e)
  then show "a = b" by (metis lo8_be16)
qed simp

lemma crc16_step_inj_byte: "crc16_step c a = crc16_step c b \<longleftrightarrow> a = b"
  by (simp add: crc16_step_bits crc16_bits8_inj ucast_u8_inj xor.commute [of c] xor_right_cancel)

lemma crc16_step_inj_crc: "crc16_step c b = crc16_step d b \<longleftrightarrow> c = d"
  by (simp add: crc16_step_bits crc16_bits8_inj xor_right_cancel)

lemma crc16_fold_inj: "foldl crc16_step c ys = foldl crc16_step d ys \<longleftrightarrow> c = d"
  by (induction ys arbitrary: c d) (simp_all add: crc16_step_inj_crc)

lemma crc16_step_two:
  "crc16_step (crc16_step c a) b = crc16_bits8 (crc16_bits8 (c XOR be16 b a))"
proof -
  have "crc16_bits8 (push_bit 8 (ucast b)) = (ucast b :: u16)"
    using bit_imp_le_length [of b] unfolding crc16_bits8_def
    by (subst crc16_bits_shift) (auto intro!: bit_word_eqI simp: bit_simps)
  moreover have "be16 b a = ucast a XOR push_bit 8 (ucast b)"
    by (rule bit_word_eqI) (auto simp: be16_or bit_simps dest: bit_imp_le_length)
  ultimately show ?thesis
    by (simp add: crc16_step_bits crc16_bits8_def crc16_bits_xor xor.assoc xor.left_commute)
qed

lemma gencrc_modbus_two_bytes:
  "gencrc_modbus (xs @ [a, b] @ ys) = gencrc_modbus (xs @ [c, d] @ ys) \<longleftrightarrow> a = c \<and> b = d"
proof -
  have x: "e XOR p = e XOR q \<longleftrightarrow> p = q" for e p q :: u16
    by (simp add: xor.commute [of e] xor_right_cancel)
  show ?thesis
    by (auto simp add: gencrc_modbus_append crc16_fold_inj crc16_step_two crc16_bits8_inj x be16_inject)
qed

text \<open>C40. A frame sealed with its Modbus CRC passes the receivers' test (the CRC over the
  whole frame is zero), and no damage confined to two neighbouring bytes of it, the CRC's own
  bytes included, ever passes.\<close>

theorem crc16_detects_damage:
  assumes "seal16 buf = xs @ [a, b] @ ys"
  shows "gencrc_modbus (xs @ [c, d] @ ys) = 0 \<longleftrightarrow> c = a \<and> d = b"
  using gencrc_modbus_seal [of buf] gencrc_modbus_two_bytes [of xs a b ys c d] assms by auto

theorem crc16_detects_damage_witness:
  "gencrc_modbus ([1, 3] @ [0, 5] @ drop 4 (seal16 [1, 3, 0, 4, 0, 2])) = 0 \<longleftrightarrow>
    (5 :: u8) = 4"
  using crc16_detects_damage [of "[1, 3, 0, 4, 0, 2]" "[1, 3]" 0 4 _ 0 5]
  by (simp add: seal16_def)

text \<open>The table-driven Modbus CRC is the bit-serial division by the generator
  \<open>0xA001\<close>, byte by byte from \<open>0xFFFF\<close>: all 256 constants of the table are right.\<close>

theorem gencrc_modbus_is_bit_serial:
  "gencrc_modbus buf = foldl (\<lambda>crc b. crc16_bits8 (crc XOR ucast b)) 0xFFFF buf"
  by (simp add: gencrc_modbus_def crc16_step_bits [abs_def])

subsection \<open>CRC-32\<close>

text \<open>
  \<open>makeCRC32table\<close> computes each entry with eight conditional shifts of the index, over
  the reflected polynomial \<open>0xEDB88320\<close>; \<open>gencrc_crc32\<close> complements the checksum it is
  given, folds the table step over the buffer and complements the result. The table is
  an argument: the code keeps it in a global that is zero until \<open>makeCRC32table\<close> has run.
\<close>

definition crc32_bit :: "u32 \<Rightarrow> u32" where
  "crc32_bit k = (if bit k 0 then drop_bit 1 k XOR 0xEDB88320 else drop_bit 1 k)"

definition makeCRC32table :: "u32 list" where
  "makeCRC32table = map (\<lambda>i. (crc32_bit ^^ 8) (word_of_nat i)) [0..<256]"

definition crc32_step :: "u32 list \<Rightarrow> u32 \<Rightarrow> u8 \<Rightarrow> u32" where
  "crc32_step crc32_table CRC b = crc32_table ! unat ((CRC XOR ucast b) AND 0xFF) XOR drop_bit 8 CRC"

definition gencrc_crc32 :: "u32 list \<Rightarrow> bytes \<Rightarrow> u32 \<Rightarrow> u32" where
  "gencrc_crc32 crc32_table mem CRC = NOT (foldl (crc32_step crc32_table) (NOT CRC) mem)"

lemma length_makeCRC32table [simp]: "length makeCRC32table = 256"
  by (simp add: makeCRC32table_def)

lemma crc32_bit_xor: "crc32_bit (x XOR y) = crc32_bit x XOR crc32_bit y"
  by (rule bit_word_eqI) (auto simp: crc32_bit_def bit_simps dest: bit_imp_le_length)

lemma crc32_bits_xor: "(crc32_bit ^^ n) (x XOR y) = (crc32_bit ^^ n) x XOR (crc32_bit ^^ n) y"
  by (induction n) (simp_all add: crc32_bit_xor)

lemma crc32_bits_shift:
  "\<forall>k<n. \<not> bit x k \<Longrightarrow> (crc32_bit ^^ n) x = drop_bit n (x::u32)"
proof (induction n arbitrary: x)
  case (Suc n)
  have "crc32_bit x = drop_bit 1 x" using Suc.prems by (simp add: crc32_bit_def)
  moreover have "\<forall>k<n. \<not> bit (drop_bit 1 x) k" using Suc.prems by (auto simp: bit_simps)
  ultimately show ?case using Suc.IH by (simp add: funpow_swap1)
qed simp

lemma crc32_step_bits: "crc32_step makeCRC32table c b = (crc32_bit ^^ 8) (c XOR ucast b)"
proof -
  let ?x = "c XOR ucast b"
  have "?x AND 0xFF \<le> 0xFF" by (rule word_and_le1)
  then have lt: "unat (?x AND 0xFF) < 256" by (simp add: word_le_nat_alt)
  have nb: "\<not> bit b n" if "8 \<le> n" for n
    using that by (auto dest: bit_imp_le_length)
  have split: "?x = (?x AND 0xFF) XOR (?x AND NOT 0xFF)"
    by (rule bit_word_eqI) (auto simp: bit_simps)
  have "(crc32_bit ^^ 8) ?x = (crc32_bit ^^ 8) (?x AND 0xFF) XOR (crc32_bit ^^ 8) (?x AND NOT 0xFF)"
    by (subst split) (simp add: crc32_bits_xor)
  moreover have "(crc32_bit ^^ 8) (?x AND NOT 0xFF) = drop_bit 8 (?x AND NOT 0xFF)"
    by (rule crc32_bits_shift) (auto simp: bit_simps numeral_eq_Suc less_Suc_eq)
  moreover have "drop_bit 8 (?x AND NOT 0xFF) = drop_bit 8 c"
    by (rule bit_word_eqI)
      (auto simp: nb bit_simps numeral_eq_Suc less_Suc_eq dest: bit_imp_le_length)
  ultimately show ?thesis using lt
    by (simp add: crc32_step_def makeCRC32table_def)
qed

lemma gencrc_crc32_append:
  "gencrc_crc32 t (xs @ ys) c = gencrc_crc32 t ys (gencrc_crc32 t xs c)"
  by (simp add: gencrc_crc32_def)

text \<open>With the table \<open>makeCRC32table\<close> builds, the file checksum is the bit-serial
  reflected CRC-32 of the data, and running it over a file piece by piece, each time on the
  checksum so far, gives the checksum of the whole.\<close>

theorem gencrc_crc32_is_bit_serial:
  "gencrc_crc32 makeCRC32table (xs @ ys) 0 =
      NOT (foldl (\<lambda>crc b. (crc32_bit ^^ 8) (crc XOR ucast b)) 0xFFFFFFFF (xs @ ys)) \<and>
    gencrc_crc32 makeCRC32table ys (gencrc_crc32 makeCRC32table xs 0) =
      gencrc_crc32 makeCRC32table (xs @ ys) 0"
proof -
  have "(0xFFFFFFFF :: u32) = NOT 0" by simp
  then show ?thesis
    by (simp only: gencrc_crc32_append simp_thms)
      (simp only: gencrc_crc32_def crc32_step_bits [abs_def] foldl_append bit.double_compl)
qed

end
