(* ===== verification/Ring.thy ===== *)
theory Ring
  imports C_Prelude
begin

text \<open>
  Ring buffers. Every queue of the firmware is an array with a front index \<open>fr\<close> (next slot
  to write) and a rear index \<open>re\<close> (next slot to read), empty when the two are equal.
  \<open>ring_items\<close> reads such an array as the list of pending items. The locale \<open>fifo_queue\<close> is
  the contract a client of a queue relies on (for the items \<open>acc\<close> lets in), with what follows from it for whole batches
  of puts and gets; \<open>drop_newest_queue\<close> and \<open>drop_oldest_queue\<close> extend it by what happens
  when the queue is full. The interpretations on the firmware's queues are in \<open>Queues\<close>.
\<close>

subsection \<open>The items between two indices\<close>

definition ring_items :: "nat \<Rightarrow> nat \<Rightarrow> nat \<Rightarrow> 'a list \<Rightarrow> 'a list" where
  "ring_items n re fr xs = map (\<lambda>i. xs ! ((re + i) mod n)) [0..<(fr + n - re) mod n]"

lemma length_ring_items [simp]: "length (ring_items n re fr xs) = (fr + n - re) mod n"
  by (simp add: ring_items_def)

lemma ring_items_self [simp]: "re < n \<Longrightarrow> ring_items n re re xs = []"
  by (simp add: ring_items_def)

lemma ring_dist [ring_index]:
  "re < n \<Longrightarrow> fr < n \<Longrightarrow> (fr + n - re) mod n = (if re \<le> fr then fr - re else fr + n - re)"
  for n :: nat
  by (auto simp: mod_if)

lemma ring_wrap [ring_index]:
  "re < n \<Longrightarrow> i < n \<Longrightarrow> (re + i) mod n = (if re + i < n then re + i else re + i - n)" for n :: nat
  by (auto simp: mod_if)

lemma ring_succ [ring_index]:
  "fr < n \<Longrightarrow> Suc fr mod n = (if Suc fr = n then 0 else Suc fr)" for n :: nat
  by auto

lemma ring_items_empty_iff:
  "re < n \<Longrightarrow> fr < n \<Longrightarrow> ring_items n re fr xs = [] \<longleftrightarrow> fr = re"
  by (auto simp: ring_items_def ring_index)

lemma ring_items_nth:
  "i < (fr + n - re) mod n \<Longrightarrow> ring_items n re fr xs ! i = xs ! ((re + i) mod n)"
  by (simp add: ring_items_def)

lemma ring_items_put:
  assumes "re < n" "fr < n" "length xs = n" "(fr + 1) mod n \<noteq> re"
  shows "ring_items n re ((fr + 1) mod n) (xs[fr := x]) = ring_items n re fr xs @ [x]"
proof (rule nth_equalityI)
  show len: "length (ring_items n re ((fr + 1) mod n) (xs[fr := x])) =
    length (ring_items n re fr xs @ [x])"
    using assms by (auto simp: ring_index split: if_splits)
  fix i assume "i < length (ring_items n re ((fr + 1) mod n) (xs[fr := x]))"
  then have i: "i < ((fr + 1) mod n + n - re) mod n" by simp
  then have i': "i \<le> (fr + n - re) mod n" using len by simp
  show "ring_items n re ((fr + 1) mod n) (xs[fr := x]) ! i = (ring_items n re fr xs @ [x]) ! i"
  proof (cases "i = (fr + n - re) mod n")
    case True
    then have "(re + i) mod n = fr" using assms by (auto simp: ring_index split: if_splits)
    then show ?thesis using True assms i by (simp add: ring_items_nth nth_append)
  next
    case False
    with i' have lt: "i < (fr + n - re) mod n" by simp
    then have "(re + i) mod n \<noteq> fr" using assms by (auto simp: ring_index split: if_splits)
    then show ?thesis using lt i by (simp add: ring_items_nth nth_append)
  qed
qed

lemma ring_items_put_full:
  "re < n \<Longrightarrow> (fr + 1) mod n = re \<Longrightarrow> ring_items n re ((fr + 1) mod n) ys = []"
  by simp

lemma ring_items_get:
  assumes "re < n" "fr < n" "fr \<noteq> re"
  shows "ring_items n re fr xs = xs ! re # ring_items n ((re + 1) mod n) fr xs"
proof (rule nth_equalityI)
  show len: "length (ring_items n re fr xs) =
    length (xs ! re # ring_items n ((re + 1) mod n) fr xs)"
    using assms by (auto simp: ring_index split: if_splits)
  fix i assume "i < length (ring_items n re fr xs)"
  then have i: "i < (fr + n - re) mod n" by simp
  show "ring_items n re fr xs ! i = (xs ! re # ring_items n ((re + 1) mod n) fr xs) ! i"
  proof (cases i)
    case 0
    then show ?thesis using assms i by (simp add: ring_items_nth)
  next
    case (Suc j)
    then have j: "j < (fr + n - (re + 1) mod n) mod n" using len i by simp
    have "((re + 1) mod n + j) mod n = (re + i) mod n"
      by (simp add: Suc mod_simps)
    then show ?thesis using Suc i j by (simp add: ring_items_nth del: add_Suc_right)
  qed
qed

lemma ring_items_full_iff:
  "re < n \<Longrightarrow> fr < n \<Longrightarrow> length (ring_items n re fr xs) = n - 1 \<longleftrightarrow> (fr + 1) mod n = re"
  by (auto simp: ring_index split: if_splits)

text \<open>A ring that keeps a count of its items instead of comparing indices.\<close>

definition ring_count :: "nat \<Rightarrow> nat \<Rightarrow> nat \<Rightarrow> 'a list \<Rightarrow> 'a list" where
  "ring_count n r k xs = map (\<lambda>i. xs ! ((r + i) mod n)) [0..<k]"

lemma length_ring_count [simp]: "length (ring_count n r k xs) = k"
  by (simp add: ring_count_def)

lemma ring_count_0 [simp]: "ring_count n r 0 xs = []"
  by (simp add: ring_count_def)

lemma ring_count_put:
  assumes "r < n" "k < n" "length xs = n"
  shows "ring_count n r (Suc k) (xs[(r + k) mod n := x]) = ring_count n r k xs @ [x]"
proof -
  have "(r + i) mod n \<noteq> (r + k) mod n" if "i < k" for i
    using assms that by (auto simp: ring_index)
  then show ?thesis using assms by (auto simp: ring_count_def) (metis nth_list_update_neq)
qed

lemma ring_count_get:
  "ring_count n r (Suc k) xs = xs ! (r mod n) # ring_count n ((r + 1) mod n) k xs"
  by (simp add: ring_count_def upt_conv_Cons map_Suc_upt [symmetric] mod_simps
      del: upt_Suc)

subsection \<open>The queue contract\<close>

locale fifo_queue =
  fixes acc :: "'a \<Rightarrow> bool"
    and put :: "'a \<Rightarrow> 'q \<Rightarrow> 'q"
    and get :: "'q \<Rightarrow> ('a \<times> 'q) option"
    and items :: "'q \<Rightarrow> 'a list"
    and inv :: "'q \<Rightarrow> bool"
    and cap :: nat
  assumes put_inv: "inv q \<Longrightarrow> acc x \<Longrightarrow> inv (put x q)"
    and put_items: "inv q \<Longrightarrow> acc x \<Longrightarrow> length (items q) < cap \<Longrightarrow> items (put x q) = items q @ [x]"
    and get_empty: "inv q \<Longrightarrow> get q = None \<longleftrightarrow> items q = []"
    and get_head: "inv q \<Longrightarrow> get q = Some (x, q') \<Longrightarrow> items q = x # items q' \<and> inv q'"
    and items_le_cap: "inv q \<Longrightarrow> length (items q) \<le> cap"
begin

lemma puts_items:
  "inv q \<Longrightarrow> list_all acc xs \<Longrightarrow> length (items q) + length xs \<le> cap \<Longrightarrow>
    inv (fold put xs q) \<and> items (fold put xs q) = items q @ xs"
  by (induction xs arbitrary: q) (auto simp: put_inv put_items)

text \<open>Taking everything out: the consumer's loop, which stops at the first empty read.\<close>

fun drain :: "nat \<Rightarrow> 'q \<Rightarrow> 'a list \<times> 'q" where
  "drain 0 q = ([], q)"
| "drain (Suc n) q =
     (case get q of None \<Rightarrow> ([], q)
      | Some (x, q') \<Rightarrow> (let (xs, r) = drain n q' in (x # xs, r)))"

lemma drain_items:
  "inv q \<Longrightarrow> length (items q) \<le> n \<Longrightarrow>
    fst (drain n q) = items q \<and> items (snd (drain n q)) = [] \<and> inv (snd (drain n q))"
proof (induction n arbitrary: q)
  case 0
  then show ?case by simp
next
  case (Suc n)
  show ?case
  proof (cases "get q")
    case None
    then have "items q = []" using get_empty Suc.prems(1) by blast
    then show ?thesis using None Suc.prems by simp
  next
    case (Some p)
    obtain x q' where p: "p = (x, q')" by (cases p)
    then have "items q = x # items q'" "inv q'"
      using get_head Suc.prems(1) Some by auto
    then show ?thesis using Suc.IH [of q'] Suc.prems Some p
      by (auto simp: split_beta)
  qed
qed

lemma puts_then_drain:
  assumes "inv q" "items q = []" "list_all acc xs" "length xs \<le> cap"
  shows "fst (drain cap (fold put xs q)) = xs"
  using assms drain_items [of "fold put xs q" cap] puts_items [of q xs] by simp

end

text \<open>A full queue either ignores the new item or loses the oldest one.\<close>

locale drop_newest_queue = fifo_queue +
  assumes put_full: "inv q \<Longrightarrow> acc x \<Longrightarrow> length (items q) = cap \<Longrightarrow> items (put x q) = items q"
begin

lemma puts_take:
  "inv q \<Longrightarrow> list_all acc xs \<Longrightarrow> items (fold put xs q) = take cap (items q @ xs) \<and> inv (fold put xs q)"
proof (induction xs arbitrary: q)
  case Nil
  then show ?case using items_le_cap by simp
next
  case (Cons x xs)
  have IH: "items (fold put (x # xs) q) = take cap (items (put x q) @ xs) \<and>
      inv (fold put (x # xs) q)"
    using Cons by (simp add: put_inv)
  show ?case
  proof (cases "length (items q) < cap")
    case True
    then have "items (put x q) = items q @ [x]" using Cons.prems by (simp add: put_items)
    then show ?thesis using IH by (simp del: take_append drop_append)
  next
    case False
    then have "length (items q) = cap" using items_le_cap Cons.prems by (simp add: le_antisym)
    then show ?thesis using IH Cons.prems by (simp add: put_full)
  qed
qed

end

locale drop_oldest_queue = fifo_queue +
  assumes put_full: "inv q \<Longrightarrow> acc x \<Longrightarrow> length (items q) = cap \<Longrightarrow> items (put x q) = tl (items q) @ [x]"
    and cap_pos: "0 < cap"
begin

lemma puts_last:
  "inv q \<Longrightarrow> list_all acc xs \<Longrightarrow> items (fold put xs q) = drop (length (items q) + length xs - cap) (items q @ xs) \<and>
    inv (fold put xs q)"
proof (induction xs arbitrary: q)
  case Nil
  then show ?case using items_le_cap by simp
next
  case (Cons x xs)
  have IH: "items (fold put (x # xs) q) =
      drop (length (items (put x q)) + length xs - cap) (items (put x q) @ xs) \<and>
      inv (fold put (x # xs) q)"
    using Cons by (simp add: put_inv)
  show ?case
  proof (cases "length (items q) < cap")
    case True
    then have "items (put x q) = items q @ [x]" using Cons.prems by (simp add: put_items)
    then show ?thesis using IH by (simp del: take_append drop_append)
  next
    case False
    then have full: "length (items q) = cap" using items_le_cap Cons.prems by (simp add: le_antisym)
    then obtain y ys where q: "items q = y # ys" using cap_pos by (cases "items q") auto
    have "drop (length xs - length ys) [x] @ drop (length xs - Suc (length ys)) xs =
        drop (length xs - length ys) (x # xs)"
      by (cases "length xs - length ys") (simp_all flip: diff_Suc_eq_diff_pred add: diff_Suc)
    then show ?thesis using IH Cons.prems full q by (auto simp: put_full)
  qed
qed

end

end
