(* ===== verification/Queues.thy ===== *)
theory Queues
  imports Ring
begin

text \<open>
  The queues between the firmware's tasks, each with the operations of its source file:
  the Modbus command queue (\<open>CMD_Q\<close>, \<open>modbus.c\<close>), the file-system job queue (\<open>FS_Q\<close>,
  \<open>meter.c\<close>), the SNMP trap queue (\<open>snmp_trap.c\<close>) and the two proxy rings (\<open>proxy.c\<close>).
  Waking the consumer (\<open>os_evt_set\<close>, \<open>xTaskNotify\<close>, \<open>osSetEvent\<close>) has no effect on the
  queue's state and is left out; interrupts are disabled or the scheduler is suspended
  around each access, so an operation is one step. Every queue interprets the contract of
  \<open>Ring\<close> that it really meets; the command queue has no full test and loses everything
  on its eighth pending command.
\<close>

subsection \<open>The Modbus command queue\<close>

abbreviation N_CMD_Q :: nat where
  "N_CMD_Q \<equiv> 8"

record cmd_q =
  cq_fr :: nat
  cq_re :: nat
  cq_tid :: nat
  cq_item :: "(u16 \<times> u16) list"

definition initCmdQ :: "nat \<Rightarrow> cmd_q \<Rightarrow> cmd_q" where
  "initCmdQ tid cmdQ = cmdQ\<lparr>cq_tid := tid\<rparr>"

definition putCmdQ :: "u16 \<times> u16 \<Rightarrow> cmd_q \<Rightarrow> cmd_q" where
  "putCmdQ sc cmdQ = cmdQ\<lparr>
     cq_item := (cq_item cmdQ)[cq_fr cmdQ := sc],
     cq_fr := (cq_fr cmdQ + 1) mod N_CMD_Q\<rparr>"

definition getCmdQ :: "cmd_q \<Rightarrow> ((u16 \<times> u16) \<times> cmd_q) option" where
  "getCmdQ cmdQ =
     (if cq_fr cmdQ = cq_re cmdQ then None
      else Some (cq_item cmdQ ! cq_re cmdQ, cmdQ\<lparr>cq_re := (cq_re cmdQ + 1) mod N_CMD_Q\<rparr>))"

definition cmd_q_ok :: "cmd_q \<Rightarrow> bool" where
  "cmd_q_ok q \<longleftrightarrow> cq_fr q < N_CMD_Q \<and> cq_re q < N_CMD_Q \<and> length (cq_item q) = N_CMD_Q"

definition cmd_pending :: "cmd_q \<Rightarrow> (u16 \<times> u16) list" where
  "cmd_pending q = ring_items N_CMD_Q (cq_re q) (cq_fr q) (cq_item q)"

definition cmd_q_empty :: cmd_q where
  "cmd_q_empty = \<lparr>cq_fr = 0, cq_re = 0, cq_tid = 0, cq_item = replicate N_CMD_Q (0, 0)\<rparr>"

lemma cmd_q_empty_ok: "cmd_q_ok cmd_q_empty" "cmd_pending cmd_q_empty = []"
  by (simp_all add: cmd_q_empty_def cmd_q_ok_def cmd_pending_def)

lemma initCmdQ_pending: "cmd_pending (initCmdQ tid q) = cmd_pending q"
  by (simp add: initCmdQ_def cmd_pending_def)

lemma putCmdQ_pending:
  assumes "cmd_q_ok q" "length (cmd_pending q) < 7"
  shows "cmd_pending (putCmdQ x q) = cmd_pending q @ [x]"
proof -
  have "(cq_fr q + 1) mod N_CMD_Q \<noteq> cq_re q"
    using assms ring_items_full_iff [of "cq_re q" N_CMD_Q "cq_fr q" "cq_item q"]
    by (auto simp: cmd_q_ok_def cmd_pending_def)
  then show ?thesis
    using assms ring_items_put [of "cq_re q" N_CMD_Q "cq_fr q" "cq_item q" x]
    by (simp add: cmd_q_ok_def cmd_pending_def putCmdQ_def)
qed

lemma putCmdQ_wraps:
  assumes "cmd_q_ok q" "length (cmd_pending q) = 7"
  shows "cmd_pending (putCmdQ x q) = []"
proof -
  have "(cq_fr q + 1) mod N_CMD_Q = cq_re q"
    using assms ring_items_full_iff [of "cq_re q" N_CMD_Q "cq_fr q" "cq_item q"]
    by (auto simp: cmd_q_ok_def cmd_pending_def)
  then show ?thesis using assms by (simp add: cmd_q_ok_def cmd_pending_def putCmdQ_def)
qed

interpretation cmdq: fifo_queue "\<lambda>_. True" putCmdQ getCmdQ cmd_pending cmd_q_ok 7
proof unfold_locales
  fix q x q'
  assume ok: "cmd_q_ok q"
  show "cmd_q_ok (putCmdQ x q)" using ok by (simp add: cmd_q_ok_def putCmdQ_def)
  show "length (cmd_pending q) < 7 \<Longrightarrow> cmd_pending (putCmdQ x q) = cmd_pending q @ [x]"
    using ok by (rule putCmdQ_pending)
  show "getCmdQ q = None \<longleftrightarrow> cmd_pending q = []"
    using ok by (auto simp: getCmdQ_def cmd_pending_def cmd_q_ok_def ring_items_empty_iff)
  show "getCmdQ q = Some (x, q') \<Longrightarrow> cmd_pending q = x # cmd_pending q' \<and> cmd_q_ok q'"
    using ok ring_items_get [of "cq_re q" N_CMD_Q "cq_fr q" "cq_item q"]
    by (auto simp: getCmdQ_def cmd_pending_def cmd_q_ok_def split: if_splits)
  show "length (cmd_pending q) \<le> 7"
    using ok by (auto simp: cmd_pending_def cmd_q_ok_def less_Suc_eq_le [symmetric])
qed

text \<open>Up to seven commands put into an empty command queue come out of it again,
  all of them, in the order in which the Modbus handler queued them.\<close>

theorem cmd_queue_fifo:
  assumes "cmd_q_ok q" "cmd_pending q = []" "length xs \<le> 7"
  shows "fst (cmdq.drain 7 (fold putCmdQ xs q)) = xs"
  using assms by (simp add: cmdq.puts_then_drain list_all_iff)

theorem cmd_queue_fifo_witness:
  "fst (cmdq.drain 7 (fold putCmdQ [(7798, 1), (7799, 0x1234)] cmd_q_empty)) =
    [(7798, 1), (7799, 0x1234)]"
  by (rule cmd_queue_fifo) (simp_all add: cmd_q_empty_ok)

text \<open>The command queue has no full test: the command that finds seven others pending
  makes the two indices meet, so the next read finds the queue empty and all eight
  commands are lost.\<close>

theorem cmd_queue_eighth_loses_all:
  assumes "cmd_q_ok q" "length (cmd_pending q) = 7"
  shows "getCmdQ (putCmdQ x q) = None"
  using putCmdQ_wraps [OF assms] cmdq.get_empty [OF cmdq.put_inv [OF assms(1)], OF TrueI] by simp

theorem cmd_queue_eighth_loses_all_witness:
  "getCmdQ (putCmdQ (7798, 1) (fold putCmdQ (replicate 7 (7800, 2)) cmd_q_empty)) = None"
proof (rule cmd_queue_eighth_loses_all)
  have *: "list_all (\<lambda>_. True) (replicate 7 (7800, 2) :: (u16 \<times> u16) list)"
    by (simp add: list_all_iff)
  show "cmd_q_ok (fold putCmdQ (replicate 7 (7800, 2)) cmd_q_empty)"
    using cmdq.puts_items [OF cmd_q_empty_ok(1) *] by (simp add: cmd_q_empty_ok)
  show "length (cmd_pending (fold putCmdQ (replicate 7 (7800, 2)) cmd_q_empty)) = 7"
    using cmdq.puts_items [OF cmd_q_empty_ok(1) *] by (simp add: cmd_q_empty_ok)
qed

subsection \<open>The file-system job queue\<close>

text \<open>
  \<open>putFsQ\<close> copies the caller's message and, when the payload fits the 32 data bytes of the
  message, copies the payload too, so that the caller may reuse its buffer. A larger
  payload stays a pointer that \<open>FS_task\<close> follows when it gets to the job. Memory is a map
  from addresses to bytes; a null pointer is \<open>None\<close>. The queue is full with one free slot
  left; a producer that finds it full sleeps and retries, 200 times at most, and then drops
  the message. What the consumer does to the queue during the \<open>i\<close>-th sleep is the
  parameter \<open>sleep i\<close>.
\<close>

abbreviation FS_MSG_CNT :: nat where
  "FS_MSG_CNT \<equiv> 32"

abbreviation FS_MSG_DATA_SZ :: nat where
  "FS_MSG_DATA_SZ \<equiv> 32"

record fs_msg =
  fm_fname :: string
  fm_mode :: string
  fm_argv :: int
  fm_pbuf :: "nat option"
  fm_size :: int
  fm_data :: bytes
  fm_useData :: bool

record fs_q =
  fq_fr :: nat
  fq_re :: nat
  fq_mQ :: "fs_msg list"

definition mem_read :: "(nat \<Rightarrow> u8) \<Rightarrow> nat \<Rightarrow> nat \<Rightarrow> bytes" where
  "mem_read mem a n = map (\<lambda>i. mem (a + i)) [0..<n]"

definition fsMsgPayload :: "(nat \<Rightarrow> u8) \<Rightarrow> fs_msg \<Rightarrow> bytes option" where
  "fsMsgPayload mem p =
     (if fm_useData p then Some (take (nat (fm_size p)) (fm_data p))
      else map_option (\<lambda>a. mem_read mem a (nat (fm_size p))) (fm_pbuf p))"

definition fs_inline :: "(nat \<Rightarrow> u8) \<Rightarrow> fs_msg \<Rightarrow> fs_msg" where
  "fs_inline mem p =
     (case fm_pbuf p of
        None \<Rightarrow> p
      | Some a \<Rightarrow>
          if 0 < fm_size p \<and> fm_size p \<le> int FS_MSG_DATA_SZ
          then p\<lparr>fm_data := mem_read mem a (nat (fm_size p)) @ drop (nat (fm_size p)) (fm_data p),
                 fm_useData := True, fm_pbuf := None\<rparr>
          else p\<lparr>fm_useData := False\<rparr>)"

definition fsq_next :: "nat \<Rightarrow> nat" where
  "fsq_next fr = (if fr + 1 \<ge> FS_MSG_CNT then 0 else fr + 1)"

function putFsQ_loop :: "(nat \<Rightarrow> fs_q \<Rightarrow> fs_q) \<Rightarrow> nat \<Rightarrow> fs_msg \<Rightarrow> fs_q \<Rightarrow> fs_q" where
  "putFsQ_loop sleep tries copy fsQ =
     (if fsq_next (fq_fr fsQ) \<noteq> fq_re fsQ
      then fsQ\<lparr>fq_mQ := (fq_mQ fsQ)[fq_fr fsQ := copy], fq_fr := fsq_next (fq_fr fsQ)\<rparr>
      else if tries + 1 > 200 then fsQ
      else putFsQ_loop sleep (tries + 1) copy (sleep tries fsQ))"
  by pat_completeness auto
termination
  by (relation "measure (\<lambda>(sleep, tries, copy, fsQ). 200 - tries)") auto

declare putFsQ_loop.simps [simp del]

definition putFsQ ::
  "(nat \<Rightarrow> u8) \<Rightarrow> (nat \<Rightarrow> fs_q \<Rightarrow> fs_q) \<Rightarrow> fs_msg option \<Rightarrow> fs_q \<Rightarrow> fs_q" where
  "putFsQ mem sleep p fsQ =
     (case p of None \<Rightarrow> fsQ | Some m \<Rightarrow> putFsQ_loop sleep 0 (fs_inline mem m) fsQ)"

text \<open>\<open>FS_task\<close> handles \<open>mQ[re]\<close> and then advances \<open>re\<close>, while the two indices differ.\<close>

definition fsq_take :: "fs_q \<Rightarrow> (fs_msg \<times> fs_q) option" where
  "fsq_take fsQ =
     (if fq_fr fsQ \<noteq> fq_re fsQ
      then Some (fq_mQ fsQ ! fq_re fsQ, fsQ\<lparr>fq_re := fsq_next (fq_re fsQ)\<rparr>)
      else None)"

definition fs_q_ok :: "fs_q \<Rightarrow> bool" where
  "fs_q_ok q \<longleftrightarrow> fq_fr q < FS_MSG_CNT \<and> fq_re q < FS_MSG_CNT \<and> length (fq_mQ q) = FS_MSG_CNT"

definition fs_pending :: "fs_q \<Rightarrow> fs_msg list" where
  "fs_pending q = ring_items FS_MSG_CNT (fq_re q) (fq_fr q) (fq_mQ q)"

lemma fsq_next_mod: "fr < FS_MSG_CNT \<Longrightarrow> fsq_next fr = (fr + 1) mod FS_MSG_CNT"
  by (cases "fr = 31") (auto simp: fsq_next_def)

lemma fsq_next_less: "fsq_next fr < FS_MSG_CNT"
  by (simp add: fsq_next_def)

text \<open>A put into a queue whose consumer does not run meanwhile.\<close>

definition fs_put :: "fs_msg \<Rightarrow> fs_q \<Rightarrow> fs_q" where
  "fs_put m q = putFsQ_loop (\<lambda>_ q. q) 0 m q"

lemma putFsQ_loop_stuck:
  "fsq_next (fq_fr q) = fq_re q \<Longrightarrow> putFsQ_loop (\<lambda>_ q. q) n m q = q"
proof (induction "200 - n" arbitrary: n)
  case 0
  then show ?case by (simp add: putFsQ_loop.simps [of _ n])
next
  case (Suc k)
  then have "putFsQ_loop (\<lambda>_ q. q) (n + 1) m q = q" by simp
  then show ?case using Suc.prems by (simp add: putFsQ_loop.simps [of _ n])
qed

lemma fs_put_eq:
  "fs_put m q =
     (if fsq_next (fq_fr q) \<noteq> fq_re q
      then q\<lparr>fq_mQ := (fq_mQ q)[fq_fr q := m], fq_fr := fsq_next (fq_fr q)\<rparr> else q)"
  by (simp add: fs_put_def putFsQ_loop_stuck putFsQ_loop.simps [of _ 0])

lemma fs_full_iff:
  "fs_q_ok q \<Longrightarrow> length (fs_pending q) = 31 \<longleftrightarrow> fsq_next (fq_fr q) = fq_re q"
  using ring_items_full_iff [of "fq_re q" FS_MSG_CNT "fq_fr q" "fq_mQ q"]
  by (auto simp: fs_q_ok_def fs_pending_def fsq_next_mod)

interpretation fsq: drop_newest_queue "\<lambda>_. True" fs_put fsq_take fs_pending fs_q_ok 31
proof unfold_locales
  fix q x q'
  assume ok: "fs_q_ok q"
  show "fs_q_ok (fs_put x q)"
    using ok fsq_next_less [of "fq_fr q"] by (simp add: fs_put_eq fs_q_ok_def)
  show "length (fs_pending q) < 31 \<Longrightarrow> fs_pending (fs_put x q) = fs_pending q @ [x]"
    using ok fs_full_iff [OF ok] ring_items_put [of "fq_re q" FS_MSG_CNT "fq_fr q" "fq_mQ q" x]
    by (auto simp: fs_put_eq fs_q_ok_def fs_pending_def fsq_next_mod)
  show "fsq_take q = None \<longleftrightarrow> fs_pending q = []"
    using ok by (auto simp: fsq_take_def fs_pending_def fs_q_ok_def ring_items_empty_iff)
  show "fsq_take q = Some (x, q') \<Longrightarrow> fs_pending q = x # fs_pending q' \<and> fs_q_ok q'"
    using ok ring_items_get [of "fq_re q" FS_MSG_CNT "fq_fr q" "fq_mQ q"]
    by (auto simp: fsq_take_def fs_pending_def fs_q_ok_def fsq_next_mod split: if_splits)
  show "length (fs_pending q) \<le> 31"
    using ok by (auto simp: fs_pending_def fs_q_ok_def less_Suc_eq_le [symmetric])
  show "length (fs_pending q) = 31 \<Longrightarrow> fs_pending (fs_put x q) = fs_pending q"
    using fs_full_iff [OF ok] by (simp add: fs_put_eq)
qed

lemma mem_read_length [simp]: "length (mem_read mem a n) = n"
  by (simp add: mem_read_def)

lemma fs_inline_payload:
  assumes "0 < fm_size p" "fm_size p \<le> 32"
    and "fm_pbuf p = Some a"
  shows "fsMsgPayload mem' (fs_inline mem p) = Some (mem_read mem a (nat (fm_size p)))"
  using assms by (simp add: fsMsgPayload_def fs_inline_def)

lemma fs_inline_large:
  assumes "32 < fm_size p" "fm_pbuf p = Some a"
  shows "fsMsgPayload mem' (fs_inline mem p) = Some (mem_read mem' a (nat (fm_size p)))"
  using assms by (simp add: fsMsgPayload_def fs_inline_def)

text \<open>A job whose payload fits the message is handed to \<open>FS_task\<close> with the bytes its
  buffer held when it was queued, whatever the producer writes into that buffer (or anywhere
  else in memory) before the job is run.\<close>

theorem putFsQ_small_payload_by_value:
  assumes "fs_q_ok q" "fs_pending q = []"
    and "fm_pbuf p = Some a" "0 < fm_size p" "fm_size p \<le> 32"
  shows "\<exists>m q'. fsq_take (putFsQ mem sleep (Some p) q) = Some (m, q') \<and>
    fsMsgPayload mem' m = Some (mem_read mem a (nat (fm_size p)))"
proof -
  let ?q = "putFsQ mem sleep (Some p) q"
  have room: "fsq_next (fq_fr q) \<noteq> fq_re q"
    using assms(1,2) fs_full_iff by fastforce
  then have "?q = fs_put (fs_inline mem p) q"
    by (simp add: putFsQ_def fs_put_eq putFsQ_loop.simps [of _ 0])
  then have pend: "fs_pending ?q = [fs_inline mem p]" and ok: "fs_q_ok ?q"
    using fsq.put_items [OF assms(1), of "fs_inline mem p"] assms(1,2) fsq.put_inv by auto
  then obtain m q' where take: "fsq_take ?q = Some (m, q')"
    using fsq.get_empty [OF ok] by (cases "fsq_take ?q") auto
  then have "m = fs_inline mem p" using fsq.get_head [OF ok take] pend by simp
  then show ?thesis using take fs_inline_payload [OF assms(4,5,3)] by auto
qed

definition fs_q_empty :: fs_q where
  "fs_q_empty = \<lparr>fq_fr = 0, fq_re = 0,
     fq_mQ = replicate FS_MSG_CNT \<lparr>fm_fname = [], fm_mode = [], fm_argv = 0, fm_pbuf = None,
       fm_size = 0, fm_data = replicate FS_MSG_DATA_SZ 0, fm_useData = False\<rparr>\<rparr>"

lemma fs_q_empty_ok: "fs_q_ok fs_q_empty" "fs_pending fs_q_empty = []"
  by (simp_all add: fs_q_empty_def fs_q_ok_def fs_pending_def)

theorem putFsQ_small_payload_by_value_witness:
  "\<exists>m q'. fsq_take (putFsQ (\<lambda>a. of_nat a) (\<lambda>_ q. q)
      (Some \<lparr>fm_fname = ''evt_elog0_202611.d'', fm_mode = ''ab'', fm_argv = 0, fm_pbuf = Some 100,
         fm_size = 24, fm_data = replicate 32 0, fm_useData = False\<rparr>) fs_q_empty) = Some (m, q') \<and>
    fsMsgPayload (\<lambda>_. 0) m = Some (mem_read (\<lambda>a. of_nat a) 100 24)"
  using putFsQ_small_payload_by_value [OF fs_q_empty_ok, of "\<lparr>fm_fname = ''evt_elog0_202611.d'',
      fm_mode = ''ab'', fm_argv = 0, fm_pbuf = Some 100, fm_size = 24, fm_data = replicate 32 0,
      fm_useData = False\<rparr>" 100]
  by simp

text \<open>The job queue never loses a job that was accepted: whatever is offered to it
  while the file-system task is busy, the jobs that wait are the first 31 offered, in order.\<close>

theorem fs_queue_keeps_oldest:
  assumes "fs_q_ok q"
  shows "fs_pending (fold fs_put ms q) = take 31 (fs_pending q @ ms)"
  using fsq.puts_take [OF assms, of ms] by (simp add: list_all_iff)

theorem fs_queue_keeps_oldest_witness:
  "fs_pending (fold fs_put (replicate 40 (hd (fq_mQ fs_q_empty))) fs_q_empty) =
    take 31 (fs_pending fs_q_empty @ replicate 40 (hd (fq_mQ fs_q_empty)))"
  by (rule fs_queue_keeps_oldest) (rule fs_q_empty_ok)

subsection \<open>The SNMP trap queue\<close>

text \<open>
  The trap queue counts its items. Floating-point fields are kept as their bit patterns and
  the channel name as the address of its static string. \<open>tq_ctx\<close> says whether the SNMP
  agent is running (\<open>trapCtx\<close> is not null); without it pushes are ignored.
\<close>

abbreviation TRAP_Q_SIZE :: nat where
  "TRAP_Q_SIZE \<equiv> 16"

datatype trap_code = TRAP_ALARM_RAISED | TRAP_ALARM_CLEARED | TRAP_ALARM_RESET

record trap_evt =
  te_code :: trap_code
  te_meter :: u8
  te_slot :: u8
  te_chan :: u8
  te_cond :: u8
  te_chanName :: "nat option"
  te_level :: u32
  te_value :: u32
  te_ts :: u32

record trap_q =
  tq_ctx :: bool
  tq_r :: nat
  tq_w :: nat
  tq_n :: nat
  tq_Q :: "trap_evt list"

definition trapPush :: "trap_evt \<Rightarrow> trap_q \<Rightarrow> trap_q" where
  "trapPush e q =
     (if \<not> tq_ctx q then q
      else let q1 = (if tq_n q = TRAP_Q_SIZE
                     then q\<lparr>tq_r := (tq_r q + 1) mod TRAP_Q_SIZE, tq_n := tq_n q - 1\<rparr> else q)
           in q1\<lparr>tq_Q := (tq_Q q1)[tq_w q1 := e], tq_w := (tq_w q1 + 1) mod TRAP_Q_SIZE,
                 tq_n := tq_n q1 + 1\<rparr>)"

definition trapPop :: "trap_q \<Rightarrow> (trap_evt \<times> trap_q) option" where
  "trapPop q =
     (if tq_n q > 0
      then Some (tq_Q q ! tq_r q, q\<lparr>tq_r := (tq_r q + 1) mod TRAP_Q_SIZE, tq_n := tq_n q - 1\<rparr>)
      else None)"

definition snmpTrapAlarm ::
  "int \<Rightarrow> int \<Rightarrow> int \<Rightarrow> int \<Rightarrow> int \<Rightarrow> u32 \<Rightarrow> u32 \<Rightarrow> u32 \<Rightarrow> nat option \<Rightarrow> trap_q \<Rightarrow> trap_q" where
  "snmpTrapAlarm mid slot status chan cond level value ts chanName q =
     trapPush \<lparr>te_code = (if status \<noteq> 0 then TRAP_ALARM_RAISED else TRAP_ALARM_CLEARED),
       te_meter = of_int (mid + 1), te_slot = of_int (slot + 1), te_chan = of_int chan,
       te_cond = of_int cond, te_chanName = chanName, te_level = level, te_value = value,
       te_ts = ts\<rparr> q"

definition snmpTrapAlarmReset :: "u32 \<Rightarrow> int \<Rightarrow> trap_q \<Rightarrow> trap_q" where
  "snmpTrapAlarmReset sysTick1s mid q =
     trapPush \<lparr>te_code = TRAP_ALARM_RESET, te_meter = of_int (mid + 1), te_slot = 0,
       te_chan = 0, te_cond = 0, te_chanName = None, te_level = 0, te_value = 0,
       te_ts = sysTick1s\<rparr> q"

definition trap_q_ok :: "trap_q \<Rightarrow> bool" where
  "trap_q_ok q \<longleftrightarrow> tq_ctx q \<and> tq_r q < TRAP_Q_SIZE \<and> tq_n q \<le> TRAP_Q_SIZE \<and>
     tq_w q = (tq_r q + tq_n q) mod TRAP_Q_SIZE \<and> length (tq_Q q) = TRAP_Q_SIZE"

definition trap_pending :: "trap_q \<Rightarrow> trap_evt list" where
  "trap_pending q = ring_count TRAP_Q_SIZE (tq_r q) (tq_n q) (tq_Q q)"

lemma trapPush_room:
  assumes "trap_q_ok q" "length (trap_pending q) < 16"
  shows "trap_pending (trapPush e q) = trap_pending q @ [e] \<and> trap_q_ok (trapPush e q)"
  using assms ring_count_put [of "tq_r q" TRAP_Q_SIZE "tq_n q" "tq_Q q" e]
  by (simp add: trap_q_ok_def trap_pending_def trapPush_def mod_simps)

lemma trapPop_some:
  assumes "trap_q_ok q" "trapPop q = Some (e, q')"
  shows "trap_pending q = e # trap_pending q' \<and> trap_q_ok q'"
proof -
  obtain k where k: "tq_n q = Suc k" using assms(2) by (cases "tq_n q") (auto simp: trapPop_def)
  have "(Suc (tq_r q) mod 16 + k) mod 16 = (tq_r q + Suc k) mod 16" by (simp add: mod_simps)
  then show ?thesis using assms k
    by (auto simp: trap_q_ok_def trap_pending_def trapPop_def ring_count_get)
qed

lemma trapPush_full:
  assumes "trap_q_ok q" "length (trap_pending q) = 16"
  shows "trap_pending (trapPush e q) = tl (trap_pending q) @ [e] \<and> trap_q_ok (trapPush e q)"
proof -
  obtain x q' where pop: "trapPop q = Some (x, q')"
    using assms by (auto simp: trapPop_def trap_pending_def)
  have "trap_pending q = x # trap_pending q'" and ok: "trap_q_ok q'"
    using trapPop_some [OF assms(1) pop] by auto
  moreover have "trapPush e q = trapPush e q'"
    using pop assms by (auto simp: trapPush_def trapPop_def trap_pending_def trap_q_ok_def)
  ultimately show ?thesis using trapPush_room [OF ok] assms(2) by simp
qed

interpretation trapq: drop_oldest_queue "\<lambda>_. True" trapPush trapPop trap_pending trap_q_ok 16
proof unfold_locales
  fix q x q'
  assume ok: "trap_q_ok q"
  show le: "length (trap_pending q) \<le> 16" using ok by (simp add: trap_q_ok_def trap_pending_def)
  show "trap_q_ok (trapPush x q)"
    using trapPush_room [OF ok] trapPush_full [OF ok] le by (cases "length (trap_pending q) = 16") auto
  show "length (trap_pending q) < 16 \<Longrightarrow> trap_pending (trapPush x q) = trap_pending q @ [x]"
    using trapPush_room [OF ok] by simp
  show "trapPop q = None \<longleftrightarrow> trap_pending q = []"
    by (auto simp: trapPop_def trap_pending_def ring_count_def)
  show "trapPop q = Some (x, q') \<Longrightarrow> trap_pending q = x # trap_pending q' \<and> trap_q_ok q'"
    using trapPop_some [OF ok] by simp
  show "length (trap_pending q) = 16 \<Longrightarrow> trap_pending (trapPush x q) = tl (trap_pending q) @ [x]"
    using trapPush_full [OF ok] by simp
qed simp

text \<open>Traps raised while the sender is held up are queued in order, and when more than
  sixteen wait it is always the newest sixteen that remain.\<close>

theorem trap_queue_keeps_newest:
  assumes "trap_q_ok q"
  shows "trap_pending (fold trapPush es q) =
    drop (length (trap_pending q) + length es - 16) (trap_pending q @ es)"
  using trapq.puts_last [OF assms, of es] by (simp add: list_all_iff)

definition trap_q_empty :: "trap_q" where
  "trap_q_empty = \<lparr>tq_ctx = True, tq_r = 0, tq_w = 0, tq_n = 0,
     tq_Q = replicate TRAP_Q_SIZE \<lparr>te_code = TRAP_ALARM_RESET, te_meter = 0, te_slot = 0,
       te_chan = 0, te_cond = 0, te_chanName = None, te_level = 0, te_value = 0, te_ts = 0\<rparr>\<rparr>"

theorem trap_queue_keeps_newest_witness:
  "trap_pending (fold trapPush (replicate 20 (hd (tq_Q trap_q_empty))) trap_q_empty) =
    drop (length (trap_pending trap_q_empty) + length (replicate 20 (hd (tq_Q trap_q_empty))) - 16)
      (trap_pending trap_q_empty @ replicate 20 (hd (tq_Q trap_q_empty)))"
  by (rule trap_queue_keeps_newest) (simp add: trap_q_ok_def trap_q_empty_def)

subsection \<open>The proxy rings\<close>

text \<open>
  Two rings of sixteen slots of 2048 bytes carry data between the gateway's server and client
  sides. A push copies \<open>length\<close> bytes into the slot whatever its size: a longer block runs
  over the end of the slot, which is the outcome \<open>None\<close>. Neither push looks whether the ring
  is full; the callers ask \<open>isSvrQFull\<close> and \<open>isCliQFull\<close> first.
\<close>

abbreviation N_PROXY_Q :: nat where
  "N_PROXY_Q \<equiv> 16"

abbreviation N_PROXY_BUF :: nat where
  "N_PROXY_BUF \<equiv> 2048"

record proxy_slot =
  ps_cmd :: int
  ps_length :: nat
  ps_buf :: bytes

record proxy_ring =
  pr_fr :: nat
  pr_re :: nat
  pr_tid :: nat
  pr_que :: "proxy_slot list"

record proxy_buf =
  pb_tQ :: proxy_ring
  pb_rQ :: proxy_ring

definition ring_push :: "int \<Rightarrow> bytes \<Rightarrow> proxy_ring \<Rightarrow> proxy_ring option" where
  "ring_push cmd buf r =
     (if length buf \<le> N_PROXY_BUF
      then let fr = pr_fr r; s = pr_que r ! fr
           in Some (r\<lparr>pr_que := (pr_que r)[fr := s\<lparr>ps_cmd := cmd, ps_length := length buf,
                        ps_buf := buf @ drop (length buf) (ps_buf s)\<rparr>],
                      pr_fr := (fr + 1) mod N_PROXY_Q\<rparr>)
      else None)"

definition ring_pop :: "proxy_ring \<Rightarrow> ((int \<times> bytes) \<times> proxy_ring) option" where
  "ring_pop r =
     (let re = pr_re r
      in if pr_fr r \<noteq> re
         then let s = pr_que r ! re
              in Some ((ps_cmd s, take (ps_length s) (ps_buf s)), r\<lparr>pr_re := (re + 1) mod N_PROXY_Q\<rparr>)
         else None)"

definition ring_full :: "proxy_ring \<Rightarrow> bool" where
  "ring_full r \<longleftrightarrow> (pr_fr r + 1) mod N_PROXY_Q = pr_re r"

definition pushSvrData :: "int \<Rightarrow> bytes \<Rightarrow> proxy_buf \<Rightarrow> proxy_buf option" where
  "pushSvrData cmd buf p = map_option (\<lambda>r. p\<lparr>pb_rQ := r\<rparr>) (ring_push cmd buf (pb_rQ p))"

definition pushSvrCmd :: "int \<Rightarrow> proxy_buf \<Rightarrow> proxy_buf option" where
  "pushSvrCmd cmd p = map_option (\<lambda>r. p\<lparr>pb_rQ := r\<rparr>) (ring_push cmd [] (pb_rQ p))"

definition popSvrData :: "proxy_buf \<Rightarrow> ((int \<times> bytes) \<times> proxy_buf) option" where
  "popSvrData p = map_option (\<lambda>(x, r). (x, p\<lparr>pb_rQ := r\<rparr>)) (ring_pop (pb_rQ p))"

definition isSvrQFull :: "proxy_buf \<Rightarrow> bool" where
  "isSvrQFull p = ring_full (pb_rQ p)"

definition pushCliData :: "int \<Rightarrow> bytes \<Rightarrow> proxy_buf \<Rightarrow> proxy_buf option" where
  "pushCliData cmd buf p = map_option (\<lambda>r. p\<lparr>pb_tQ := r\<rparr>) (ring_push cmd buf (pb_tQ p))"

definition pushCliCmd :: "int \<Rightarrow> proxy_buf \<Rightarrow> proxy_buf option" where
  "pushCliCmd cmd p = map_option (\<lambda>r. p\<lparr>pb_tQ := r\<rparr>) (ring_push cmd [] (pb_tQ p))"

definition popCliData :: "proxy_buf \<Rightarrow> ((int \<times> bytes) \<times> proxy_buf) option" where
  "popCliData p = map_option (\<lambda>(x, r). (x, p\<lparr>pb_tQ := r\<rparr>)) (ring_pop (pb_tQ p))"

definition isCliQFull :: "proxy_buf \<Rightarrow> bool" where
  "isCliQFull p = ring_full (pb_tQ p)"

definition initProxyAgent :: proxy_buf where
  "initProxyAgent =
     (let z = \<lparr>pr_fr = 0, pr_re = 0, pr_tid = 0, pr_que = replicate N_PROXY_Q
                \<lparr>ps_cmd = 0, ps_length = 0, ps_buf = replicate N_PROXY_BUF 0\<rparr>\<rparr>
      in \<lparr>pb_tQ = z, pb_rQ = z\<rparr>)"

text \<open>Appending a block of any legal size to the ring of slots and reading it back.\<close>

definition slot_item :: "proxy_slot \<Rightarrow> int \<times> bytes" where
  "slot_item s = (ps_cmd s, take (ps_length s) (ps_buf s))"

definition proxy_pending :: "proxy_ring \<Rightarrow> (int \<times> bytes) list" where
  "proxy_pending r = map slot_item (ring_items N_PROXY_Q (pr_re r) (pr_fr r) (pr_que r))"

definition proxy_ok :: "proxy_ring \<Rightarrow> bool" where
  "proxy_ok r \<longleftrightarrow> pr_fr r < N_PROXY_Q \<and> pr_re r < N_PROXY_Q \<and> length (pr_que r) = N_PROXY_Q"

definition proxy_put :: "int \<times> bytes \<Rightarrow> proxy_ring \<Rightarrow> proxy_ring" where
  "proxy_put x r = (case ring_push (fst x) (snd x) r of None \<Rightarrow> r | Some r' \<Rightarrow> r')"

lemma proxy_full_iff:
  "proxy_ok r \<Longrightarrow> length (proxy_pending r) = 15 \<longleftrightarrow> ring_full r"
  using ring_items_full_iff [of "pr_re r" N_PROXY_Q "pr_fr r" "pr_que r"]
  by (simp add: proxy_ok_def proxy_pending_def ring_full_def)

interpretation proxyq: fifo_queue "\<lambda>x. length (snd x) \<le> N_PROXY_BUF" proxy_put ring_pop
  proxy_pending proxy_ok 15
proof unfold_locales
  fix r x r'
  assume ok: "proxy_ok r"
  show "length (snd x) \<le> N_PROXY_BUF \<Longrightarrow> proxy_ok (proxy_put x r)"
    using ok by (simp add: proxy_ok_def proxy_put_def ring_push_def Let_def)
  show "proxy_pending (proxy_put x r) = proxy_pending r @ [x]"
    if "length (snd x) \<le> N_PROXY_BUF" "length (proxy_pending r) < 15"
  proof -
    have "\<not> ring_full r" using proxy_full_iff [OF ok] that by simp
    then show ?thesis
      using ok that ring_items_put [of "pr_re r" N_PROXY_Q "pr_fr r" "pr_que r"]
      by (simp add: proxy_ok_def proxy_put_def ring_push_def proxy_pending_def ring_full_def
          slot_item_def Let_def)
  qed
  show "ring_pop r = None \<longleftrightarrow> proxy_pending r = []"
    using ok by (auto simp: ring_pop_def Let_def proxy_pending_def proxy_ok_def ring_items_empty_iff)
  show "ring_pop r = Some (x, r') \<Longrightarrow> proxy_pending r = x # proxy_pending r' \<and> proxy_ok r'"
    using ok ring_items_get [of "pr_re r" N_PROXY_Q "pr_fr r" "pr_que r"]
    by (auto simp: ring_pop_def Let_def proxy_pending_def proxy_ok_def slot_item_def split: if_splits)
  show "length (proxy_pending r) \<le> 15"
    using ok by (auto simp: proxy_pending_def proxy_ok_def less_Suc_eq_le [symmetric])
qed

text \<open>A block of at most 2048 bytes that the server side pushes into a ring it has found
  not full reaches the client unchanged: it is pending behind the earlier blocks, and popping
  an otherwise empty ring returns exactly it. The other direction's ring is untouched.\<close>

theorem proxy_server_block_arrives:
  assumes "proxy_ok (pb_rQ p)" "\<not> isSvrQFull p" "length buf \<le> 2048"
  shows "\<exists>p'. pushSvrData cmd buf p = Some p' \<and> pb_tQ p' = pb_tQ p \<and>
    proxy_pending (pb_rQ p') = proxy_pending (pb_rQ p) @ [(cmd, buf)] \<and>
    (proxy_pending (pb_rQ p) = [] \<longrightarrow> (\<exists>p''. popSvrData p' = Some ((cmd, buf), p'')))"
proof -
  let ?r = "pb_rQ p" and ?r' = "proxy_put (cmd, buf) (pb_rQ p)"
  have room: "length (proxy_pending ?r) < 15"
    using proxy_full_iff [OF assms(1)] assms(2) proxyq.items_le_cap [OF assms(1)]
    by (fastforce simp: isSvrQFull_def)
  have push: "pushSvrData cmd buf p = Some (p\<lparr>pb_rQ := ?r'\<rparr>)"
    using assms(3) by (simp add: pushSvrData_def proxy_put_def ring_push_def Let_def)
  have pend: "proxy_pending ?r' = proxy_pending ?r @ [(cmd, buf)]"
    using proxyq.put_items [OF assms(1) _ room, of "(cmd, buf)"] assms(3) by simp
  have ok: "proxy_ok ?r'" using proxyq.put_inv [OF assms(1), of "(cmd, buf)"] assms(3) by simp
  have "\<exists>p''. popSvrData (p\<lparr>pb_rQ := ?r'\<rparr>) = Some ((cmd, buf), p'')" if "proxy_pending ?r = []"
  proof -
    obtain x r'' where pop: "ring_pop ?r' = Some (x, r'')"
      using proxyq.get_empty [OF ok] pend by (cases "ring_pop ?r'") auto
    then have "x = (cmd, buf)" using proxyq.get_head [OF ok pop] pend that by simp
    then show ?thesis using pop by (simp add: popSvrData_def)
  qed
  then show ?thesis using push pend by auto
qed

theorem proxy_server_block_arrives_witness:
  "\<exists>p'. pushSvrData 3 [1, 2, 3] initProxyAgent = Some p' \<and>
    pb_tQ p' = pb_tQ initProxyAgent \<and>
    proxy_pending (pb_rQ p') = proxy_pending (pb_rQ initProxyAgent) @ [(3, [1, 2, 3])] \<and>
    (proxy_pending (pb_rQ initProxyAgent) = [] \<longrightarrow>
      (\<exists>p''. popSvrData p' = Some ((3, [1, 2, 3]), p'')))"
  by (rule proxy_server_block_arrives)
    (simp_all add: Let_def initProxyAgent_def proxy_ok_def isSvrQFull_def ring_full_def)

end
