(* ===== verification/LogFifo.thy ===== *)
theory LogFifo
  imports Ring
begin

text \<open>
  The alarm and event histories. Each meter keeps its last 1024 alarms and its last 1024
  power-quality events in a circular array (\<open>ALARM_FIFO\<close>, \<open>EVENT_FIFO\<close>), shows them through
  32-entry windows in the Modbus map (\<open>fetchAlarm\<close>, \<open>fetchEvent\<close>, \<open>fetchItic\<close>), and keeps a
  file copy of each array (\<open>alarm.c\<close>, \<open>meter.c\<close>). The contract of a history is the locale
  \<open>newest_first_log\<close>: its \<open>view\<close> is the list of stored entries, newest first.
\<close>

subsection \<open>The contract of a history\<close>

locale newest_first_log =
  fixes push :: "'a \<Rightarrow> 'f \<Rightarrow> 'f option"
    and view :: "'f \<Rightarrow> 'a list"
    and inv :: "'f \<Rightarrow> bool"
    and cap :: nat
  assumes push_ok: "inv f \<Longrightarrow> \<exists>f'. push x f = Some f' \<and> inv f' \<and> view f' = take cap (x # view f)"
    and view_cap: "inv f \<Longrightarrow> length (view f) \<le> cap"
begin

fun pushes :: "'a list \<Rightarrow> 'f \<Rightarrow> 'f option" where
  "pushes [] f = Some f"
| "pushes (x # xs) f = (case push x f of None \<Rightarrow> None | Some f' \<Rightarrow> pushes xs f')"

lemma pushes_view:
  "inv f \<Longrightarrow> \<exists>f'. pushes xs f = Some f' \<and> inv f' \<and> view f' = take cap (rev xs @ view f)"
proof (induction xs arbitrary: f)
  case Nil
  then show ?case using view_cap by simp
next
  case (Cons x xs)
  obtain g where g: "push x f = Some g" "inv g" "view g = take cap (x # view f)"
    using push_ok Cons.prems by blast
  obtain f' where "pushes xs g = Some f'" "inv f'" "view f' = take cap (rev xs @ view g)"
    using Cons.IH [OF g(2)] by blast
  then show ?case using g by (simp add: min_def del: take_Suc_Cons)
qed

end

subsection \<open>The circular array\<close>

text \<open>
  \<open>fr\<close> is the slot the next entry goes to, \<open>re\<close> the oldest slot once the array is full and
  \<open>count\<close> the number of entries. Both C structs have this shape; the entry type is the
  parameter. Storing at an index outside the array is the outcome \<open>None\<close>.
\<close>

abbreviation LOG_CAP :: nat where
  "LOG_CAP \<equiv> 1024"

record 'a log_fifo =
  lf_fr :: nat
  lf_re :: nat
  lf_count :: nat
  lf_slot :: "'a list"

definition log_push :: "'a \<Rightarrow> 'a log_fifo \<Rightarrow> 'a log_fifo option" where
  "log_push x f =
     (if lf_fr f < length (lf_slot f)
      then
        let f1 = f\<lparr>lf_slot := (lf_slot f)[lf_fr f := x]\<rparr>;
            fr1 = (if lf_fr f + 1 \<ge> LOG_CAP then 0 else lf_fr f + 1)
        in Some (if lf_count f < LOG_CAP
                 then f1\<lparr>lf_count := lf_count f + 1, lf_fr := fr1\<rparr>
                 else f1\<lparr>lf_re := (if lf_re f + 1 \<ge> LOG_CAP then 0 else lf_re f + 1), lf_fr := fr1\<rparr>)
      else None)"

definition log_empty :: "'a \<Rightarrow> 'a log_fifo" where
  "log_empty z = \<lparr>lf_fr = 0, lf_re = 0, lf_count = 0, lf_slot = replicate LOG_CAP z\<rparr>"

definition log_ok :: "'a log_fifo \<Rightarrow> bool" where
  "log_ok f \<longleftrightarrow> length (lf_slot f) = LOG_CAP \<and> lf_count f \<le> LOG_CAP \<and>
     lf_fr f < LOG_CAP \<and> (if lf_count f < LOG_CAP then lf_re f = 0 \<and> lf_fr f = lf_count f
                          else lf_re f = lf_fr f)"

definition slot_back :: "nat \<Rightarrow> nat \<Rightarrow> nat" where
  "slot_back fr k = (if k < fr then fr - 1 - k else fr + LOG_CAP - 1 - k)"

definition log_view :: "'a log_fifo \<Rightarrow> 'a list" where
  "log_view f = map (\<lambda>k. lf_slot f ! slot_back (lf_fr f) k) [0..<lf_count f]"

lemma length_log_view [simp]: "length (log_view f) = lf_count f"
  by (simp add: log_view_def)

lemma log_empty_ok: "log_ok (log_empty z)" "log_view (log_empty z) = []"
  by (simp_all add: log_empty_def log_ok_def log_view_def)

lemma slot_back_less: "fr < LOG_CAP \<Longrightarrow> k < LOG_CAP \<Longrightarrow> slot_back fr k < LOG_CAP"
  by (auto simp: slot_back_def)

lemma log_push_view:
  assumes ok: "log_ok f"
  shows "\<exists>f'. log_push x f = Some f' \<and> log_ok f' \<and> log_view f' = take LOG_CAP (x # log_view f)"
proof -
  let ?fr = "lf_fr f" and ?c = "lf_count f"
  let ?fr' = "if ?fr + 1 \<ge> LOG_CAP then 0 else ?fr + 1"
  let ?c' = "if ?c < LOG_CAP then ?c + 1 else ?c"
  obtain f' where push: "log_push x f = Some f'"
    and fr': "lf_fr f' = ?fr'" and c': "lf_count f' = ?c'"
    and slot': "lf_slot f' = (lf_slot f)[?fr := x]"
    and ok': "log_ok f'"
    using ok by (auto simp: log_push_def log_ok_def Let_def split: if_splits)
  have fr: "?fr < LOG_CAP" and len: "length (lf_slot f) = LOG_CAP" and c: "?c \<le> LOG_CAP"
    using ok by (auto simp: log_ok_def)
  have "log_view f' = take LOG_CAP (x # log_view f)"
  proof (rule nth_equalityI)
    show "length (log_view f') = length (take LOG_CAP (x # log_view f))"
      using c by (auto simp: c')
    fix k assume "k < length (log_view f')"
    then have k: "k < ?c'" by (simp add: c')
    then have kc: "k < LOG_CAP" using c by (auto split: if_splits)
    show "log_view f' ! k = take LOG_CAP (x # log_view f) ! k"
    proof (cases k)
      case 0
      have "slot_back ?fr' 0 = ?fr" using fr by (auto simp: slot_back_def)
      then show ?thesis using 0 k fr len by (simp add: log_view_def c' fr' slot')
    next
      case (Suc j)
      have "slot_back ?fr' k = slot_back ?fr j" "slot_back ?fr j \<noteq> ?fr"
        using fr kc Suc by (auto simp: slot_back_def)
      then show ?thesis using Suc k kc c
        by (auto simp: log_view_def c' fr' slot' split: if_splits)
    qed
  qed
  then show ?thesis using push ok' by blast
qed

subsection \<open>The entries\<close>

text \<open>Floating-point fields are kept as their bit patterns.\<close>

record alarm_log =
  al_ts :: u32
  al_status :: u16
  al_chan :: u8
  al_cond :: u8
  al_level :: u32
  al_value :: u32

record event_log =
  el_startTs :: u32
  el_msec :: u16
  el_duration :: u16
  el_type :: u16
  el_mask :: u16
  el_level :: "u32 list"

record itic_log =
  il_event :: event_log
  il_norm :: u32

type_synonym alarm_fifo = "alarm_log log_fifo"
type_synonym event_fifo = "itic_log log_fifo"

definition alarm_log0 :: alarm_log where
  "alarm_log0 = \<lparr>al_ts = 0, al_status = 0, al_chan = 0, al_cond = 0, al_level = 0, al_value = 0\<rparr>"

definition event_log0 :: event_log where
  "event_log0 = \<lparr>el_startTs = 0, el_msec = 0, el_duration = 0, el_type = 0, el_mask = 0,
     el_level = [0, 0, 0]\<rparr>"

definition itic_log0 :: itic_log where
  "itic_log0 = \<lparr>il_event = event_log0, il_norm = 0\<rparr>"

text \<open>The entries as they lie in memory, in the registers of the windows and in the files.\<close>

definition alarm_log_bytes :: "alarm_log \<Rightarrow> bytes" where
  "alarm_log_bytes a = le_bytes 4 (al_ts a) @ le_bytes 2 (al_status a) @ [al_chan a, al_cond a] @
     le_bytes 4 (al_level a) @ le_bytes 4 (al_value a)"

definition event_log_bytes :: "event_log \<Rightarrow> bytes" where
  "event_log_bytes e =
     le_bytes 4 (el_startTs e) @ le_bytes 2 (el_msec e) @ le_bytes 2 (el_duration e) @ le_bytes 2 (el_type e) @
     le_bytes 2 (el_mask e) @ le_array 4 (el_level e)"

definition itic_log_bytes :: "itic_log \<Rightarrow> bytes" where
  "itic_log_bytes l =
     (let e = il_event l
      in le_bytes 4 (el_startTs e) @ le_bytes 2 (el_msec e) @ le_bytes 2 (el_duration e) @
         le_bytes 2 (el_type e) @ le_bytes 2 (el_mask e) @ le_array 4 (el_level e) @ le_bytes 4 (il_norm l))"

text \<open>The ends of \<open>storeAlarmLog\<close> and \<open>pushEvent\<close> that put the entry into the array.\<close>

definition alarm_push :: "alarm_log \<Rightarrow> alarm_fifo \<Rightarrow> alarm_fifo option" where
  "alarm_push = log_push"

definition event_push :: "itic_log \<Rightarrow> event_fifo \<Rightarrow> event_fifo option" where
  "event_push = log_push"

interpretation alarms: newest_first_log alarm_push log_view log_ok LOG_CAP
  by unfold_locales (unfold alarm_push_def, erule log_push_view, simp add: log_ok_def)

interpretation events: newest_first_log event_push log_view log_ok LOG_CAP
  by unfold_locales (unfold event_push_def, erule log_push_view, simp add: log_ok_def)

text \<open>C4. The alarm history never stores outside its array and always holds the newest 1024
  alarms: after any sequence of alarms it reads, newest first, as that sequence reversed in
  front of what it held, cut to 1024 entries.\<close>

theorem alarm_history_keeps_newest:
  assumes "log_ok f"
  shows "\<exists>f'. alarms.pushes xs f = Some f' \<and> log_ok f' \<and>
    log_view f' = take 1024 (rev xs @ log_view f)"
  using assms by (rule alarms.pushes_view)

theorem alarm_history_keeps_newest_witness:
  "\<exists>f'. alarms.pushes [alarm_log0\<lparr>al_ts := 7\<rparr>, alarm_log0] (log_empty alarm_log0) = Some f' \<and>
    log_ok f' \<and> log_view f' =
      take 1024 (rev [alarm_log0\<lparr>al_ts := 7\<rparr>, alarm_log0] @ log_view (log_empty alarm_log0))"
  by (rule alarm_history_keeps_newest) (rule log_empty_ok)

subsection \<open>The windows\<close>

text \<open>
  A window shows 32 entries from the cursor \<open>re\<close> on, newest first, zero-filled. Commands
  0--4 leave the cursor, page down, page up, go to the top and to the bottom. The loops
  walk the slot index \<open>ix\<close> backwards from \<open>fr - re\<close>.
\<close>

abbreviation N_LIST :: nat where
  "N_LIST \<equiv> 32"

record 'a log_list =
  ll_fr :: nat
  ll_re :: nat
  ll_count :: nat
  ll_ent :: "'a list"

definition alarmFifoSanitizeRam :: "'a log_fifo \<Rightarrow> 'a log_fifo" where
  "alarmFifoSanitizeRam f =
     (let f1 = (if lf_count f > LOG_CAP then f\<lparr>lf_count := LOG_CAP\<rparr> else f);
          f2 = (if lf_fr f1 \<ge> LOG_CAP then f1\<lparr>lf_fr := 0\<rparr> else f1)
      in if lf_re f2 \<ge> LOG_CAP then f2\<lparr>lf_re := 0\<rparr> else f2)"

definition page_alarm :: "nat \<Rightarrow> nat \<Rightarrow> nat \<Rightarrow> nat \<Rightarrow> nat" where
  "page_alarm cmd re lcount fcount =
     (if cmd = 0 then re
      else if cmd = 1 then (if re + N_LIST < fcount then re + N_LIST else re)
      else if cmd = 2 then (if int re - int N_LIST \<ge> 0 then re - N_LIST else re)
      else if cmd = 3 then 0
      else if cmd = 4 then (if lcount > 0 then (lcount - 1) div N_LIST * N_LIST else 0)
      else re)"

definition start_ix :: "nat \<Rightarrow> nat \<Rightarrow> int" where
  "start_ix fr re =
     (if int fr - int re \<ge> 0 then int fr - int re else int fr - int re + int LOG_CAP)"

definition prev_ix :: "int \<Rightarrow> int" where
  "prev_ix ix = (if ix - 1 < 0 then int LOG_CAP - 1 else ix - 1)"

fun fill_alarm :: "alarm_fifo \<Rightarrow> nat \<Rightarrow> int \<Rightarrow> nat \<Rightarrow> alarm_log list \<times> nat" where
  "fill_alarm f 0 ix fr = ([], fr)"
| "fill_alarm f (Suc n) ix fr =
     (if fr < lf_count f
      then let ix1 = prev_ix ix;
               e = (if ix1 < 0 \<or> ix1 \<ge> int LOG_CAP then alarm_log0 else lf_slot f ! nat ix1);
               (es, r) = fill_alarm f n ix1 (fr + 1)
           in (e # es, r)
      else let (es, r) = fill_alarm f n ix fr in (alarm_log0 # es, r))"

definition fetchAlarm ::
  "nat \<Rightarrow> alarm_fifo \<Rightarrow> alarm_log log_list \<Rightarrow> alarm_fifo \<times> alarm_log log_list" where
  "fetchAlarm cmd pFifo plist =
     (let f = alarmFifoSanitizeRam pFifo;
          re = page_alarm cmd (ll_re plist) (lf_count f) (lf_count f);
          (es, fr) = fill_alarm f N_LIST (start_ix (lf_fr f) re) re
      in (f, plist\<lparr>ll_count := lf_count f, ll_re := re, ll_fr := fr, ll_ent := es\<rparr>))"

text \<open>
  The event window copies the first 24 bytes of each entry (all of \<open>EVENT_LOG\<close>, not the
  nominal value) and reads the array without a range test; its bottom command divides
  \<open>count - 1\<close> as a signed number.
\<close>

definition page_event :: "nat \<Rightarrow> nat \<Rightarrow> nat \<Rightarrow> nat \<Rightarrow> nat" where
  "page_event cmd re lcount fcount =
     (if cmd = 0 then re
      else if cmd = 1 then (if re + N_LIST < fcount then re + N_LIST else re)
      else if cmd = 2 then (if int re - int N_LIST \<ge> 0 then re - N_LIST else re)
      else if cmd = 3 then 0
      else if cmd = 4 then (if lcount = 0 then 0 else (lcount - 1) div N_LIST * N_LIST)
      else re)"

fun fill_event :: "event_fifo \<Rightarrow> nat \<Rightarrow> int \<Rightarrow> nat \<Rightarrow> event_log list \<times> nat" where
  "fill_event f 0 ix fr = ([], fr)"
| "fill_event f (Suc n) ix fr =
     (if fr < lf_count f
      then let ix1 = prev_ix ix; (es, r) = fill_event f n ix1 (fr + 1)
           in (il_event (lf_slot f ! nat ix1) # es, r)
      else let (es, r) = fill_event f n ix fr in (event_log0 # es, r))"

definition fetchEvent :: "nat \<Rightarrow> event_fifo \<Rightarrow> event_log log_list \<Rightarrow> event_log log_list" where
  "fetchEvent cmd f plist =
     (let re = page_event cmd (ll_re plist) (lf_count f) (lf_count f);
          (es, fr) = fill_event f N_LIST (start_ix (lf_fr f) re) re
      in plist\<lparr>ll_count := lf_count f, ll_re := re, ll_fr := fr, ll_ent := es\<rparr>)"

text \<open>What a window shows of a list.\<close>

definition window :: "'a \<Rightarrow> nat \<Rightarrow> 'a list \<Rightarrow> 'a list" where
  "window z re xs = take N_LIST (drop re xs) @ replicate (N_LIST - length (take N_LIST (drop re xs))) z"

lemma prev_start:
  assumes "fr < LOG_CAP" "re < LOG_CAP"
  shows "nat (prev_ix (start_ix fr re)) = slot_back fr re"
    "0 \<le> prev_ix (start_ix fr re)" "prev_ix (start_ix fr re) < int LOG_CAP"
  using assms by (auto simp: prev_ix_def start_ix_def slot_back_def)

lemma prev_start_Suc:
  "fr < LOG_CAP \<Longrightarrow> Suc re < LOG_CAP \<Longrightarrow>
    prev_ix (prev_ix (start_ix fr re)) = prev_ix (start_ix fr (Suc re))"
  by (auto simp: prev_ix_def start_ix_def)

text \<open>
  Both loops, with the walking index described by the entry it reads next. \<open>ix\<close> only has to
  be right while entries remain, so it is any index whose predecessor is the slot of
  entry \<open>fr\<close>.
\<close>

lemma fill_alarm_window:
  assumes ok: "log_ok f"
  shows "(r < lf_count f \<Longrightarrow> prev_ix ix = prev_ix (start_ix (lf_fr f) r)) \<Longrightarrow>
    fill_alarm f n ix r = (take n (drop r (log_view f)) @
      replicate (n - (lf_count f - r)) alarm_log0, min (r + n) (max r (lf_count f)))"
proof (induction n arbitrary: ix r)
  case 0
  then show ?case by simp
next
  case (Suc n)
  show ?case
  proof (cases "r < lf_count f")
    case True
    let ?ix = "prev_ix (start_ix (lf_fr f) r)"
    have b: "lf_fr f < LOG_CAP" "r < LOG_CAP" "lf_count f \<le> LOG_CAP"
      using ok True by (auto simp: log_ok_def)
    have ix: "prev_ix ix = ?ix" using Suc.prems True by simp
    have next_ix: "Suc r < lf_count f \<Longrightarrow> prev_ix ?ix = prev_ix (start_ix (lf_fr f) (Suc r))"
      using b prev_start_Suc by simp
    have view: "drop r (log_view f) = lf_slot f ! nat ?ix # drop (Suc r) (log_view f)"
      using True prev_start(1) [OF b(1,2)]
      by (simp add: Cons_nth_drop_Suc [symmetric] log_view_def)
    show ?thesis
      using True prev_start [OF b(1,2)] Suc.IH [OF next_ix]
      by (simp add: ix view Let_def del: drop_map)
  next
    case False
    then have "fill_alarm f n ix r = (take n (drop r (log_view f)) @
      replicate (n - (lf_count f - r)) alarm_log0, min (r + n) (max r (lf_count f)))"
      by (intro Suc.IH) simp
    then show ?thesis using False by simp
  qed
qed
lemma fill_event_window:
  assumes ok: "log_ok f"
  shows "(r < lf_count f \<Longrightarrow> prev_ix ix = prev_ix (start_ix (lf_fr f) r)) \<Longrightarrow>
    fill_event f n ix r = (take n (drop r (map il_event (log_view f))) @
      replicate (n - (lf_count f - r)) event_log0, min (r + n) (max r (lf_count f)))"
proof (induction n arbitrary: ix r)
  case 0
  then show ?case by simp
next
  case (Suc n)
  show ?case
  proof (cases "r < lf_count f")
    case True
    let ?ix = "prev_ix (start_ix (lf_fr f) r)"
    have b: "lf_fr f < LOG_CAP" "r < LOG_CAP" "lf_count f \<le> LOG_CAP"
      using ok True by (auto simp: log_ok_def)
    have ix: "prev_ix ix = ?ix" using Suc.prems True by simp
    have next_ix: "Suc r < lf_count f \<Longrightarrow> prev_ix ?ix = prev_ix (start_ix (lf_fr f) (Suc r))"
      using b prev_start_Suc by simp
    have view: "drop r (map il_event (log_view f)) =
        il_event (lf_slot f ! nat ?ix) # drop (Suc r) (map il_event (log_view f))"
      using True prev_start(1) [OF b(1,2)]
      by (simp add: Cons_nth_drop_Suc [symmetric] log_view_def)
    show ?thesis
      using True prev_start [OF b(1,2)] Suc.IH [OF next_ix]
      by (simp add: ix view Let_def del: drop_map)
  next
    case False
    then have "fill_event f n ix r = (take n (drop r (map il_event (log_view f))) @
      replicate (n - (lf_count f - r)) event_log0, min (r + n) (max r (lf_count f)))"
      by (intro Suc.IH) simp
    then show ?thesis using False by simp
  qed
qed

lemma sanitize_ok: "log_ok f \<Longrightarrow> alarmFifoSanitizeRam f = f"
  by (auto simp: log_ok_def alarmFifoSanitizeRam_def Let_def split: if_splits)

lemma sanitize_bounds:
  "lf_count (alarmFifoSanitizeRam f) \<le> LOG_CAP" "lf_fr (alarmFifoSanitizeRam f) < LOG_CAP"
  "lf_re (alarmFifoSanitizeRam f) < LOG_CAP"
  by (auto simp: alarmFifoSanitizeRam_def Let_def)

lemma page_event_alarm: "page_event cmd re c c = page_alarm cmd re c c"
  by (simp add: page_event_def page_alarm_def)

text \<open>The cursor the two page functions compute, as arithmetic on pages.\<close>

lemma page_alarm_bounds:
  assumes "re mod N_LIST = 0" "re < LOG_CAP" "c \<le> LOG_CAP"
  shows "page_alarm cmd re c c mod N_LIST = 0 \<and> page_alarm cmd re c c < LOG_CAP"
proof -
  have "(c - 1) div N_LIST * N_LIST \<le> c - 1" by simp
  then have last: "0 < c \<Longrightarrow> (c - 1) div N_LIST * N_LIST < LOG_CAP" using assms(3) by linarith
  consider "cmd = 1" | "cmd = 2" | "cmd = 4" | "cmd \<notin> {1, 2, 4}" by blast
  then show ?thesis
  proof cases
    case 1
    then show ?thesis using assms by (simp add: page_alarm_def)
  next
    case 2
    then show ?thesis using assms by (auto simp: page_alarm_def le_mod_geq [symmetric])
  next
    case 3
    then show ?thesis using last by (simp add: page_alarm_def)
  next
    case 4
    then show ?thesis using assms by (simp add: page_alarm_def)
  qed
qed

lemma window_padding:
  "window z r xs = take N_LIST (drop r xs) @ replicate (N_LIST - (length xs - r)) z"
  by (auto simp: window_def)

lemma fetchAlarm_eq:
  assumes "log_ok f"
  shows "fetchAlarm cmd f l =
    (let r = page_alarm cmd (ll_re l) (lf_count f) (lf_count f)
     in (f, l\<lparr>ll_count := lf_count f, ll_re := r, ll_fr := min (r + N_LIST) (max r (lf_count f)),
              ll_ent := window alarm_log0 r (log_view f)\<rparr>))"
  using fill_alarm_window [OF assms, of _ "start_ix (lf_fr f) _" N_LIST]
  by (simp add: fetchAlarm_def sanitize_ok [OF assms] window_padding Let_def)

text \<open>The alarm window shows exactly the 32 alarms from its cursor on, newest first and
  padded with zero entries, for every page command and without changing the history; the
  cursor always stands on a page of the 1024 entries, and page down stops at the last page.\<close>

theorem fetchAlarm_shows_page:
  assumes "log_ok f" "ll_re l mod 32 = 0" "ll_re l < 1024" "fetchAlarm cmd f l = (f', l')"
  shows "f' = f \<and> ll_count l' = length (log_view f) \<and>
    ll_ent l' = window alarm_log0 (ll_re l') (log_view f) \<and>
    ll_re l' mod 32 = 0 \<and> ll_re l' < 1024 \<and>
    (cmd = 1 \<longrightarrow> ll_re l < length (log_view f) \<longrightarrow> ll_re l' < length (log_view f))"
  using assms page_alarm_bounds [of "ll_re l" "lf_count f" cmd]
  by (auto simp: fetchAlarm_eq Let_def log_ok_def page_alarm_def [of "Suc 0"])

definition alarm_list0 :: "alarm_log log_list" where
  "alarm_list0 = \<lparr>ll_fr = 0, ll_re = 0, ll_count = 0, ll_ent = replicate N_LIST alarm_log0\<rparr>"

theorem fetchAlarm_shows_page_witness:
  "let (f', l') = fetchAlarm 3 (log_empty alarm_log0) alarm_list0
   in f' = log_empty alarm_log0 \<and> ll_count l' = length (log_view (log_empty alarm_log0)) \<and>
    ll_ent l' = window alarm_log0 (ll_re l') (log_view (log_empty alarm_log0))"
  using fetchAlarm_shows_page [OF log_empty_ok(1), of alarm_list0 3]
  by (auto simp: alarm_list0_def split: prod.splits)

subsection \<open>The ITIC windows\<close>

text \<open>
  The two ITIC windows filter the event history for voltage events (types \<open>E_SAG\<close> = 1 to
  \<open>E_RVC\<close> = 6). One loop counts the matches from the oldest slot on, a second one walks
  backwards from the newest, skips the matches in front of the cursor and copies 32.
\<close>

definition iticTypeMatches :: "u16 \<Rightarrow> bool" where
  "iticTypeMatches t \<longleftrightarrow> 1 \<le> t \<and> t \<le> 6"

definition entry_itic :: "itic_log \<Rightarrow> bool" where
  "entry_itic e = iticTypeMatches (el_type (il_event e))"

fun count_itic :: "event_fifo \<Rightarrow> nat \<Rightarrow> nat" where
  "count_itic f 0 = 0"
| "count_itic f (Suc i) =
     (let slot = (if lf_count f < LOG_CAP then i else (lf_re f + i) mod LOG_CAP)
      in count_itic f i + (if entry_itic (lf_slot f ! slot) then 1 else 0))"

definition page_itic :: "nat \<Rightarrow> nat \<Rightarrow> nat \<Rightarrow> nat" where
  "page_itic cmd re matchTotal =
     (if cmd = 1 then (if re + N_LIST < matchTotal then re + N_LIST else re)
      else if cmd = 2 then (if re \<ge> N_LIST then re - N_LIST else 0)
      else if cmd = 3 then 0
      else if cmd = 4 then (if matchTotal > 0 then (matchTotal - 1) div N_LIST * N_LIST else 0)
      else re)"

fun copy_itic :: "event_fifo \<Rightarrow> nat \<Rightarrow> int \<Rightarrow> nat \<Rightarrow> nat \<Rightarrow> nat \<Rightarrow> itic_log list" where
  "copy_itic f 0 ix re seen dst = []"
| "copy_itic f (Suc n) ix re seen dst =
     (if dst < N_LIST
      then let ix1 = prev_ix ix; e = lf_slot f ! nat ix1
           in if \<not> entry_itic e then copy_itic f n ix1 re seen dst
              else if seen < re then copy_itic f n ix1 re (seen + 1) dst
              else e # copy_itic f n ix1 re (seen + 1) (dst + 1)
      else [])"

definition fetchIticCommon :: "nat \<Rightarrow> event_fifo \<Rightarrow> itic_log log_list \<Rightarrow> itic_log log_list" where
  "fetchIticCommon cmd f plist =
     (let matchTotal = count_itic f (lf_count f);
          re = page_itic cmd (ll_re plist) matchTotal;
          es = copy_itic f (lf_count f) (int (lf_fr f)) re 0 0
      in plist\<lparr>ll_count := matchTotal, ll_re := re, ll_fr := re + length es,
               ll_ent := es @ replicate (N_LIST - length es) itic_log0\<rparr>)"

lemma count_itic_filter:
  assumes "log_ok f" "i \<le> lf_count f"
  shows "count_itic f i = length (filter entry_itic (drop (lf_count f - i) (log_view f)))"
  using assms(2)
proof (induction i)
  case 0
  then show ?case by simp
next
  case (Suc i)
  let ?slot = "if lf_count f < LOG_CAP then i else (lf_re f + i) mod LOG_CAP"
  have "log_view f ! (lf_count f - Suc i) = lf_slot f ! ?slot"
  proof -
    have "slot_back (lf_fr f) (lf_count f - Suc i) = ?slot"
      using assms(1) Suc.prems by (auto simp: log_ok_def slot_back_def mod_if split: if_splits)
    then show ?thesis using Suc.prems by (simp add: log_view_def)
  qed
  moreover have "drop (lf_count f - Suc i) (log_view f) =
      log_view f ! (lf_count f - Suc i) # drop (lf_count f - i) (log_view f)"
    using Suc.prems by (simp add: Suc_diff_Suc Cons_nth_drop_Suc [symmetric])
  ultimately show ?case using Suc by (simp add: Let_def)
qed

lemma copy_itic_filter:
  assumes ok: "log_ok f"
  shows "n \<le> lf_count f \<Longrightarrow>
    (0 < n \<Longrightarrow> prev_ix ix = prev_ix (start_ix (lf_fr f) (lf_count f - n))) \<Longrightarrow>
    copy_itic f n ix re seen dst =
      take (N_LIST - dst) (drop (re - seen) (filter entry_itic (drop (lf_count f - n) (log_view f))))"
proof (induction n arbitrary: ix seen dst)
  case 0
  then show ?case by simp
next
  case (Suc n)
  let ?r = "lf_count f - Suc n"
  let ?ix = "prev_ix (start_ix (lf_fr f) ?r)"
  have b: "lf_fr f < LOG_CAP" "?r < LOG_CAP" "lf_count f \<le> LOG_CAP"
    using ok Suc.prems by (auto simp: log_ok_def)
  have ix: "prev_ix ix = ?ix" using Suc.prems by simp
  have r: "Suc ?r = lf_count f - n" using Suc.prems by simp
  have next_ix: "0 < n \<Longrightarrow> prev_ix ?ix = prev_ix (start_ix (lf_fr f) (lf_count f - n))"
    using b prev_start_Suc [of "lf_fr f" ?r] by (simp add: r)
  have view: "drop ?r (log_view f) = lf_slot f ! nat ?ix # drop (lf_count f - n) (log_view f)"
    using Suc.prems prev_start(1) [OF b(1,2)]
    by (simp add: Cons_nth_drop_Suc [symmetric] r) (simp add: log_view_def)
  note IH = Suc.IH [OF Suc_leD [OF Suc.prems(1)] next_ix]
  show ?case
  proof (cases "dst < N_LIST")
    case True
    then have "N_LIST - dst = Suc (31 - dst)" by simp
    moreover have "seen < re \<Longrightarrow> re - seen = Suc (re - Suc seen)" by simp
    ultimately show ?thesis using True
      by (cases "seen < re") (simp_all add: ix view IH Let_def)
  next
    case False
    then show ?thesis by simp
  qed
qed

lemma prev_ix_start_0: "fr < LOG_CAP \<Longrightarrow> prev_ix (int fr) = prev_ix (start_ix fr 0)"
  by (simp add: start_ix_def)

text \<open>An ITIC window shows exactly the 32 voltage events from its cursor on, newest first
  and zero-padded, and counts all voltage events of the history, whether or not the
  event array has wrapped; the two windows keep separate cursors and never affect the history.\<close>

theorem fetchItic_shows_voltage_events:
  assumes "log_ok f"
  shows "fetchIticCommon cmd f l =
    (let evs = filter entry_itic (log_view f); r = page_itic cmd (ll_re l) (length evs)
     in l\<lparr>ll_count := length evs, ll_re := r, ll_fr := r + length (take 32 (drop r evs)),
          ll_ent := window itic_log0 r evs\<rparr>)"
proof -
  have "lf_fr f < LOG_CAP" using assms by (simp add: log_ok_def)
  then have "copy_itic f (lf_count f) (int (lf_fr f)) re 0 0 =
      take N_LIST (drop re (filter entry_itic (log_view f)))" for re
    using copy_itic_filter [OF assms, of "lf_count f" "int (lf_fr f)" re 0 0]
    by (simp add: prev_ix_start_0)
  then show ?thesis
    using count_itic_filter [OF assms, of "lf_count f"]
    by (simp add: fetchIticCommon_def window_def Let_def)
qed

definition itic_list0 :: "itic_log log_list" where
  "itic_list0 = \<lparr>ll_fr = 0, ll_re = 0, ll_count = 0, ll_ent = replicate N_LIST itic_log0\<rparr>"

theorem fetchItic_shows_voltage_events_witness:
  "fetchIticCommon 3 (log_empty itic_log0) itic_list0 =
    (let evs = filter entry_itic (log_view (log_empty itic_log0));
         r = page_itic 3 (ll_re itic_list0) (length evs)
     in itic_list0\<lparr>ll_count := length evs, ll_re := r,
          ll_fr := r + length (take 32 (drop r evs)), ll_ent := window itic_log0 r evs\<rparr>)"
  by (rule fetchItic_shows_voltage_events) (rule log_empty_ok)

subsection \<open>The file copies\<close>

text \<open>
  A history file is a header of one record's size (\<open>magic\<close>, \<open>fr\<close>, \<open>count\<close>, time stamp)
  followed by \<open>count\<close> records in the order of the array's slots. Whatever lies in the file is
  seen through \<open>fifo_file\<close>: too short for a header, or a header, the whole records that
  follow and the number of bytes left over. \<open>file_io\<close> says how the library behaves on this
  run: whether seeking to the end works and how many records can be read before an error.
\<close>

datatype 'a fifo_file =
    Short_File nat
  | Fifo_File int int int u32 "'a list" nat

record file_io =
  io_seek :: bool
  io_reads :: nat

fun file_size :: "nat \<Rightarrow> 'a fifo_file \<Rightarrow> nat" where
  "file_size rec (Short_File n) = n"
| "file_size rec (Fifo_File magic fr cnt ts es extra) = rec + rec * length es + extra"

definition fifoHeaderOk :: "int \<Rightarrow> nat \<Rightarrow> int \<Rightarrow> int \<Rightarrow> int \<Rightarrow> int \<Rightarrow> bool" where
  "fifoHeaderOk MAGIC rec magic fr n fsize \<longleftrightarrow>
     \<not> (fsize < int rec) \<and> magic = MAGIC \<and> \<not> (n < 0 \<or> n > int LOG_CAP) \<and>
     \<not> (fr < 0 \<or> fr > int LOG_CAP) \<and> fsize \<ge> int rec + n * int rec"

definition alarmFifoHeaderOk :: "int \<Rightarrow> int \<Rightarrow> int \<Rightarrow> int \<Rightarrow> bool" where
  "alarmFifoHeaderOk = fifoHeaderOk 0x1234abcd 16"

definition eventFifoHeaderOk :: "int \<Rightarrow> int \<Rightarrow> int \<Rightarrow> int \<Rightarrow> bool" where
  "eventFifoHeaderOk = fifoHeaderOk 0x1234abcd 28"

text \<open>
  The reading both loaders share: the new contents of the array's struct, cleared first, and
  what becomes of the file (a file that fails any test is deleted).
\<close>

definition read_fifo ::
  "(int \<Rightarrow> int \<Rightarrow> int \<Rightarrow> int \<Rightarrow> bool) \<Rightarrow> nat \<Rightarrow> 'a \<Rightarrow> file_io \<Rightarrow> 'a fifo_file option \<Rightarrow>
     'a log_fifo \<times> 'a fifo_file option" where
  "read_fifo headerOk rec z io file =
     (case file of
        None \<Rightarrow> (log_empty z, None)
      | Some (Short_File n) \<Rightarrow> (log_empty z, None)
      | Some (Fifo_File magic fr cnt ts es extra) \<Rightarrow>
          let fsize = (if io_seek io then int (file_size rec (Fifo_File magic fr cnt ts es extra)) else - 1)
          in if \<not> headerOk magic fr cnt fsize then (log_empty z, None)
             else let n = nat cnt
                  in if io_reads io < n \<or> length es < n then (log_empty z, None)
                     else ((log_empty z)\<lparr>lf_slot := take n es @ replicate (LOG_CAP - n) z,
                             lf_count := n, lf_fr := n\<rparr>, file))"

definition loadAlarmFifo ::
  "nat \<Rightarrow> file_io \<Rightarrow> bool \<Rightarrow> alarm_log fifo_file option \<Rightarrow>
     alarm_fifo \<times> bool \<times> alarm_log fifo_file option" where
  "loadAlarmFifo mid io sentinel file =
     (let file1 = (if mid = 0 \<and> \<not> sentinel then None else file);
          sentinel1 = (if mid = 0 then True else sentinel);
          (f, file2) = read_fifo alarmFifoHeaderOk 16 alarm_log0 io file1
      in (alarmFifoSanitizeRam f, sentinel1, file2))"

definition loadEventFifo ::
  "file_io \<Rightarrow> itic_log fifo_file option \<Rightarrow> event_fifo \<times> itic_log fifo_file option" where
  "loadEventFifo io file = read_fifo eventFifoHeaderOk 28 itic_log0 io file"

definition alarmFifoFileAppend ::
  "u32 \<Rightarrow> bool \<Rightarrow> alarm_fifo \<Rightarrow> alarm_log fifo_file option \<Rightarrow> alarm_log fifo_file option" where
  "alarmFifoFileAppend sysTick1s can_open pFifo file =
     (if can_open
      then let n = (if lf_count pFifo > LOG_CAP then LOG_CAP else lf_count pFifo)
           in Some (Fifo_File 0x1234abcd (int (lf_fr pFifo)) (int n) sysTick1s (take n (lf_slot pFifo)) 0)
      else file)"

definition eventFifoFileWrite ::
  "u32 \<Rightarrow> bool \<Rightarrow> event_fifo \<Rightarrow> itic_log fifo_file option \<Rightarrow> itic_log fifo_file option" where
  "eventFifoFileWrite sysTick1s can_open pEF file =
     (if can_open
      then let en = (if lf_count pEF > LOG_CAP then LOG_CAP else lf_count pEF)
           in Some (Fifo_File 0x1234abcd (int (lf_fr pEF)) (int en) sysTick1s (take en (lf_slot pEF)) 0)
      else file)"

lemma fifoHeaderOk_count: "fifoHeaderOk M rec magic fr cnt fsize \<Longrightarrow> nat cnt \<le> LOG_CAP"
  by (auto simp: fifoHeaderOk_def)

lemma read_fifo_shape:
  assumes "read_fifo hok rec z io file = (f, file')" "\<And>a b c d. hok a b c d \<Longrightarrow> nat c \<le> LOG_CAP"
  shows "length (lf_slot f) = LOG_CAP \<and> lf_count f \<le> LOG_CAP \<and> lf_fr f = lf_count f \<and> lf_re f = 0"
  using assms
  by (auto simp: read_fifo_def log_empty_def Let_def
      split: option.splits fifo_file.splits if_splits)

text \<open>Whatever the alarm file contains, and whatever fails while it is read, the alarm
  history comes up well formed, so that every later store stays inside the array; a file that
  is refused is deleted and the history starts empty.\<close>

theorem loadAlarmFifo_always_ok:
  "log_ok (fst (loadAlarmFifo mid io sentinel file))"
proof -
  let ?file = "if mid = 0 \<and> \<not> sentinel then None else file"
  obtain f file2 where r: "read_fifo alarmFifoHeaderOk 16 alarm_log0 io ?file = (f, file2)"
    by (cases "read_fifo alarmFifoHeaderOk 16 alarm_log0 io ?file")
  have "length (lf_slot f) = LOG_CAP \<and> lf_count f \<le> LOG_CAP \<and> lf_fr f = lf_count f \<and> lf_re f = 0"
    using read_fifo_shape [OF r] by (simp add: alarmFifoHeaderOk_def fifoHeaderOk_count)
  then show ?thesis using r
    by (auto simp: loadAlarmFifo_def alarmFifoSanitizeRam_def log_ok_def Let_def split_def)
qed

lemma read_written:
  assumes "log_ok f" "io_seek io" "LOG_CAP \<le> io_reads io"
  shows "read_fifo (fifoHeaderOk m rec) rec z io
      (Some (Fifo_File m (int (lf_fr f)) (int (lf_count f)) ts (take (lf_count f) (lf_slot f)) 0)) =
    (\<lparr>lf_fr = lf_count f, lf_re = 0, lf_count = lf_count f,
       lf_slot = take (lf_count f) (lf_slot f) @ replicate (LOG_CAP - lf_count f) z\<rparr>,
     Some (Fifo_File m (int (lf_fr f)) (int (lf_count f)) ts (take (lf_count f) (lf_slot f)) 0))"
proof -
  have "\<not> int rec * int (lf_count f) < 0" by (simp add: not_less)
  then show ?thesis using assms
    by (auto simp: read_fifo_def fifoHeaderOk_def log_ok_def log_empty_def mult.commute Let_def)
qed

lemma view_reloaded:
  assumes "log_ok f" "lf_count f < LOG_CAP \<or> lf_fr f = 0" "fr' = lf_count f mod LOG_CAP"
  shows "log_view \<lparr>lf_fr = fr', lf_re = 0, lf_count = lf_count f,
      lf_slot = take (lf_count f) (lf_slot f) @ ys\<rparr> = log_view f"
proof (rule nth_equalityI)
  fix k
  assume "k < length (log_view \<lparr>lf_fr = fr', lf_re = 0, lf_count = lf_count f,
      lf_slot = take (lf_count f) (lf_slot f) @ ys\<rparr>)"
  then have k: "k < lf_count f" by simp
  have "fr' = lf_fr f" using assms by (auto simp: log_ok_def split: if_splits)
  moreover have "slot_back (lf_fr f) k < lf_count f" "lf_count f \<le> length (lf_slot f)"
    using assms k by (auto simp: log_ok_def slot_back_def split: if_splits)
  ultimately show "log_view \<lparr>lf_fr = fr', lf_re = 0, lf_count = lf_count f,
      lf_slot = take (lf_count f) (lf_slot f) @ ys\<rparr> ! k = log_view f ! k"
    using k by (simp add: log_view_def nth_append)
qed simp

text \<open>An alarm history that has not started to overwrite its oldest entries survives a
  restart: written to its file and loaded again it shows the same alarms in the same order.\<close>

theorem alarm_history_survives_restart:
  assumes "log_ok f" "lf_count f < 1024 \<or> lf_fr f = 0" "io_seek io" "1024 \<le> io_reads io"
  shows "log_view (fst (loadAlarmFifo mid io True (alarmFifoFileAppend now True f old))) = log_view f"
proof -
  have c: "lf_count f \<le> LOG_CAP" using assms(1) by (simp add: log_ok_def)
  have "fst (loadAlarmFifo mid io True (alarmFifoFileAppend now True f old)) =
      \<lparr>lf_fr = lf_count f mod LOG_CAP, lf_re = 0, lf_count = lf_count f,
       lf_slot = take (lf_count f) (lf_slot f) @ replicate (LOG_CAP - lf_count f) alarm_log0\<rparr>"
    using read_written [OF assms(1,3,4), of "0x1234abcd" 16 alarm_log0 now] c
    by (simp add: loadAlarmFifo_def alarmFifoFileAppend_def alarmFifoHeaderOk_def
        alarmFifoSanitizeRam_def Let_def)
  then show ?thesis using view_reloaded [OF assms(1,2) refl] by simp
qed

theorem alarm_history_survives_restart_witness:
  "log_view (fst (loadAlarmFifo 1 \<lparr>io_seek = True, io_reads = 2000\<rparr> True
      (alarmFifoFileAppend 99 True (log_empty alarm_log0) None))) = log_view (log_empty alarm_log0)"
  by (rule alarm_history_survives_restart [OF log_empty_ok(1)]) (simp_all add: log_empty_def)

text \<open>The event history is not protected in the same way: when its file holds a full
  history of 1024 events, the next event after the restart is stored behind the array.\<close>

theorem full_event_file_overflows:
  assumes "log_ok f" "lf_count f = 1024" "io_seek io" "1024 \<le> io_reads io"
  shows "event_push e (fst (loadEventFifo io (eventFifoFileWrite now True f old))) = None"
  using assms read_written [of f io "0x1234abcd" 28 itic_log0 now]
  by (auto simp: loadEventFifo_def eventFifoFileWrite_def eventFifoHeaderOk_def log_ok_def
      event_push_def log_push_def Let_def)

definition event_full :: event_fifo where
  "event_full = \<lparr>lf_fr = 0, lf_re = 0, lf_count = LOG_CAP, lf_slot = replicate LOG_CAP itic_log0\<rparr>"

theorem full_event_file_overflows_witness:
  "event_push itic_log0 (fst (loadEventFifo \<lparr>io_seek = True, io_reads = 2000\<rparr>
      (eventFifoFileWrite 99 True event_full None))) = None"
  by (rule full_event_file_overflows) (simp_all add: event_full_def log_ok_def)

end
