(* ===== verification/Modbus.thy ===== *)
theory Modbus
  imports Queues LogFifo
begin

text \<open>
  The Modbus slave (\<open>modbus.c\<close>): the register map of the three meters, the frame handler
  \<open>modbusSlvProcFrame\<close> that the serial port uses, and the register callbacks of the TCP
  server and the web pages. Registers are 16-bit words counted from \<open>&meter[id].meter\<close>;
  meter 0 answers at addresses 0--9999, meter 1 from 10000, meter 2 from 20000, and the
  simple map at 50000. The settings pointer \<open>pmset\<close> is register 6700 of meter 0.

  The waveform page is redrawn by \<open>copyModbusWaveData\<close>, a floating-point resampling of the
  capture buffers; it is the parameter \<open>copyWave\<close> of the readers. The 32-entry windows of
  the histories lie in the register map too: they are kept as records in \<open>mb_logs\<close>, and \<open>meter_reg\<close>
  reads their words (the entries as they lie in memory, two bytes a register) at their places in
  the map, and every other register in \<open>mb_reg\<close>. \<open>prx\<close> is the whole
  receive buffer, so that a frame that announces more data than it carries reads what an
  earlier frame left there, as in the program.
\<close>

subsection \<open>Register layout\<close>

abbreviation METER_CH_COUNT :: nat where "METER_CH_COUNT \<equiv> 3"
abbreviation ADD_ADE9000_M2 :: u16 where "ADD_ADE9000_M2 \<equiv> 10000"
abbreviation ADD_ADE9000_M3 :: u16 where "ADD_ADE9000_M3 \<equiv> 20000"
abbreviation ADD_SIMPLE_MAP :: u16 where "ADD_SIMPLE_MAP \<equiv> 50000"
abbreviation SMP_WORDS :: u16 where "SMP_WORDS \<equiv> 3134"
abbreviation MBAD_ENERGY_START :: u16 where "MBAD_ENERGY_START \<equiv> 240"
abbreviation MBAD_ENERGY_U64_START :: u16 where "MBAD_ENERGY_U64_START \<equiv> 384"
abbreviation MBAD_WV_REG :: u16 where "MBAD_WV_REG \<equiv> 3430"
abbreviation MBAD_RW_OFF_START :: u16 where "MBAD_RW_OFF_START \<equiv> 6700"
abbreviation MBAD_RW_OFF_END :: u16 where "MBAD_RW_OFF_END \<equiv> 7050"
abbreviation MBAD_M1_RW_START :: u16 where "MBAD_M1_RW_START \<equiv> 16700"
abbreviation MBAD_M1_RW_END :: u16 where "MBAD_M1_RW_END \<equiv> 17050"
abbreviation MBAD_M2_RW_START :: u16 where "MBAD_M2_RW_START \<equiv> 26700"
abbreviation MBAD_M2_RW_END :: u16 where "MBAD_M2_RW_END \<equiv> 27050"
abbreviation MBAD_SETTING_M2 :: u16 where "MBAD_SETTING_M2 \<equiv> 17050"
abbreviation MBAD_SETTING :: u16 where "MBAD_SETTING \<equiv> 6700"
abbreviation MBAD_SETTING_END :: u16 where "MBAD_SETTING_END \<equiv> 7050"
abbreviation MBAD_RXCNT :: u16 where "MBAD_RXCNT \<equiv> 7093"
abbreviation MBAD_P1_SETTING :: u16 where "MBAD_P1_SETTING \<equiv> 7110"
abbreviation MBAD_P1_SETTING_END :: u16 where "MBAD_P1_SETTING_END \<equiv> 7788"
abbreviation MBAD_SET_TS :: u16 where "MBAD_SET_TS \<equiv> 7788"
abbreviation MBAD_SET_CMD :: u16 where "MBAD_SET_CMD \<equiv> 7798"
abbreviation MBAD_SET_END :: u16 where "MBAD_SET_END \<equiv> 7915"
abbreviation MBAD_CMD_FETCH_EVENT :: u16 where "MBAD_CMD_FETCH_EVENT \<equiv> 7836"
abbreviation MBAD_CMD_FETCH_ALARM :: u16 where "MBAD_CMD_FETCH_ALARM \<equiv> 7840"
abbreviation MBAD_CMD_FETCH_ITIC :: u16 where "MBAD_CMD_FETCH_ITIC \<equiv> 7852"
abbreviation MBAD_CMD_FETCH_ITIC2 :: u16 where "MBAD_CMD_FETCH_ITIC2 \<equiv> 7853"

subsection \<open>State\<close>

type_synonym regs = "nat \<Rightarrow> nat \<Rightarrow> u16"

record ch_logs =
  cl_alarm :: alarm_fifo
  cl_alist :: "alarm_log log_list"
  cl_event :: event_fifo
  cl_elist :: "event_log log_list"
  cl_itic :: "itic_log log_list"
  cl_itic2 :: "itic_log log_list"

record mb =
  mb_ready :: bool
  mb_reg :: regs
  mb_snapbuf :: "nat \<Rightarrow> bool \<Rightarrow> nat \<Rightarrow> u16"
  mb_snap :: "nat \<Rightarrow> bool"
  mb_smpbuf :: "bool \<Rightarrow> nat \<Rightarrow> u16"
  mb_smp :: bool
  mb_cmdq :: cmd_q
  mb_logs :: "nat \<Rightarrow> ch_logs"
  mb_utc :: u32
  mb_clock :: u32

definition set_reg :: "nat \<Rightarrow> nat \<Rightarrow> u16 \<Rightarrow> mb \<Rightarrow> mb" where
  "set_reg mid off v st = st\<lparr>mb_reg := (mb_reg st)(mid := (mb_reg st mid)(off := v))\<rparr>"

definition count_rx :: "mb \<Rightarrow> mb" where
  "count_rx st = set_reg 0 (unat MBAD_RXCNT) (mb_reg st 0 (unat MBAD_RXCNT) + 1) st"

subsection \<open>The windows in the register map\<close>

text \<open>
  The four words in front of the entries are \<open>fr\<close>, \<open>re\<close>, \<open>count\<close> and \<open>seq\<close>; nothing writes \<open>seq\<close> and
  the reserved words behind the entries, which stay in \<open>mb_reg\<close>. \<open>n\<close> is the number of words of the
  32 entries.
\<close>

definition list_word :: "('a \<Rightarrow> bytes) \<Rightarrow> nat \<Rightarrow> 'a log_list \<Rightarrow> nat \<Rightarrow> u16 option" where
  "list_word enc n l k =
     (if k = 0 then Some (of_nat (ll_fr l)) else if k = 1 then Some (of_nat (ll_re l))
      else if k = 2 then Some (of_nat (ll_count l))
      else if 4 \<le> k \<and> k < 4 + n then Some (le_word (take 2 (drop (2 * (k - 4)) (concat (map enc (ll_ent l))))))
      else None)"

definition window_word :: "nat \<Rightarrow> ch_logs \<Rightarrow> u16 option" where
  "window_word off c =
     (if 2730 \<le> off \<and> off < 3030 then list_word alarm_log_bytes 256 (cl_alist c) (off - 2730)
      else if 3030 \<le> off \<and> off < 3420 then list_word event_log_bytes 384 (cl_elist c) (off - 3030)
      else if 5780 \<le> off \<and> off < 6240 then list_word itic_log_bytes 448 (cl_itic c) (off - 5780)
      else if 6240 \<le> off \<and> off < 6700 then list_word itic_log_bytes 448 (cl_itic2 c) (off - 6240)
      else None)"

definition meter_reg :: "nat \<Rightarrow> nat \<Rightarrow> mb \<Rightarrow> u16" where
  "meter_reg mid off st = (case window_word off (mb_logs st mid) of Some w \<Rightarrow> w | None \<Rightarrow> mb_reg st mid off)"

lemma meter_reg_plain:
  "off < 2730 \<or> 3420 \<le> off \<and> off < 5780 \<or> 6700 \<le> off \<Longrightarrow> meter_reg mid off st = mb_reg st mid off"
  by (auto simp: meter_reg_def window_word_def)

subsection \<open>Snapshots\<close>

text \<open>
  The scan task publishes the first 240 words of a meter by copying them into the buffer the
  readers do not look at and switching the pointer. \<open>True\<close> selects the second buffer.
\<close>

definition publishMeterSnap :: "int \<Rightarrow> mb \<Rightarrow> mb" where
  "publishMeterSnap mid st =
     (if mid < 0 \<or> mid \<ge> int METER_CH_COUNT then st
      else let i = nat mid; dst = (\<not> mb_snap st i)
           in st\<lparr>mb_snapbuf := (mb_snapbuf st)(i := (mb_snapbuf st i)(dst := \<lambda>off.
                   if off < unat MBAD_ENERGY_START then mb_reg st i off else mb_snapbuf st i dst off)),
                 mb_snap := (mb_snap st)(i := dst)\<rparr>)"

definition read_word :: "nat \<Rightarrow> u16 \<Rightarrow> mb \<Rightarrow> u16" where
  "read_word mid off st =
     (if off < MBAD_ENERGY_START then mb_snapbuf st mid (mb_snap st mid) (unat off)
      else meter_reg mid (unat off) st)"

subsection \<open>Block reads\<close>

fun read_loop :: "nat \<Rightarrow> nat \<Rightarrow> (nat \<Rightarrow> u16) \<Rightarrow> bytes" where
  "read_loop 0 i w = []"
| "read_loop (Suc n) i w = hi8 (w i) # lo8 (w i) # read_loop n (i + 1) w"

definition long_len :: "u16 \<Rightarrow> bytes" where
  "long_len count = [lo8 (push_bit 8 (push_bit 1 count)), lo8 (push_bit 1 count)]"

definition short_len :: "u16 \<Rightarrow> bytes" where
  "short_len count = [lo8 (push_bit 1 count)]"

definition meter_words :: "nat \<Rightarrow> u16 \<Rightarrow> u16 \<Rightarrow> mb \<Rightarrow> bytes" where
  "meter_words mid start count st =
     read_loop (unat count) 0 (\<lambda>i. read_word mid (start + of_nat i) st)"

definition readMem2 :: "u16 \<Rightarrow> u16 \<Rightarrow> mb \<Rightarrow> bytes" where
  "readMem2 start count st = long_len count @ meter_words 0 start count st"

definition readMem :: "(nat \<Rightarrow> regs \<Rightarrow> regs) \<Rightarrow> u16 \<Rightarrow> u16 \<Rightarrow> mb \<Rightarrow> bytes \<times> mb" where
  "readMem copyWave start count st =
     (let st1 = (if start = MBAD_WV_REG then st\<lparr>mb_reg := copyWave 0 (mb_reg st)\<rparr> else st)
      in (short_len count @ meter_words 0 start count st1, st1))"

definition readMem4 :: "u16 \<Rightarrow> u16 \<Rightarrow> mb \<Rightarrow> bytes" where
  "readMem4 start count st = long_len count @ meter_words 1 start count st"

definition readMem3 :: "u16 \<Rightarrow> u16 \<Rightarrow> mb \<Rightarrow> bytes" where
  "readMem3 start count st = short_len count @ meter_words 1 start count st"

definition readMem4_m3 :: "u16 \<Rightarrow> u16 \<Rightarrow> mb \<Rightarrow> bytes" where
  "readMem4_m3 start count st = long_len count @ meter_words 2 start count st"

definition readMem3_m3 :: "u16 \<Rightarrow> u16 \<Rightarrow> mb \<Rightarrow> bytes" where
  "readMem3_m3 start count st = short_len count @ meter_words 2 start count st"

definition readMemSmp :: "u16 \<Rightarrow> u16 \<Rightarrow> bool \<Rightarrow> mb \<Rightarrow> bytes" where
  "readMemSmp offset count longFrame st =
     (if longFrame then long_len count else short_len count) @
     read_loop (unat count) 0 (\<lambda>i. mb_smpbuf st (mb_smp st) (unat offset + i))"

subsection \<open>Frame checks\<close>

definition init_smb :: "nat \<Rightarrow> nat \<Rightarrow> int" where
  "init_smb mid fc = (if mid < METER_CH_COUNT \<and> (fc = 3 \<or> fc = 4) then 65000 else 0)"

definition modbusSlvChkFrame :: "u8 \<Rightarrow> u16 \<Rightarrow> u16 \<Rightarrow> bool \<Rightarrow> u8" where
  "modbusSlvChkFrame fc start count longFrame =
     (if fc = 1 \<or> fc = 2 then 1
      else if fc = 3 \<or> fc = 4 then
        (if (\<not> longFrame \<and> count > 125) \<or> (longFrame \<and> count > 1024) then 3
         else if int (unat start) + int (unat count) > init_smb 0 (unat fc) then 2 else 0)
      else if fc = 5 then 1
      else if fc = 6 then (if int (unat start) \<ge> init_smb 0 3 then 3 else 0)
      else if fc = 16 then
        (if count < 1 \<or> count > 123 then 3
         else if int (unat start) + int (unat count) > init_smb 0 3 then 2 else 0)
      else 1)"

definition makeExceptFrame :: "u8 \<Rightarrow> u8 \<Rightarrow> u8 \<Rightarrow> bytes" where
  "makeExceptFrame addr fc errCode = [addr, fc + 0x80, errCode]"

definition meterRwRangeValid :: "u16 \<Rightarrow> u16 \<Rightarrow> bool" where
  "meterRwRangeValid offset count =
     (if offset \<ge> MBAD_ENERGY_START \<and> unat offset + unat count \<le> unat MBAD_ENERGY_U64_START
      then True
      else if offset < MBAD_RW_OFF_START then False
      else if unat offset + unat count > unat MBAD_RW_OFF_END then False
      else True)"

definition readRangeBlocked :: "u16 \<Rightarrow> u16 \<Rightarrow> bool" where
  "readRangeBlocked start count =
     (let end = unat start + unat count
      in (start \<ge> ADD_ADE9000_M2 \<and> start < ADD_ADE9000_M3 \<and>
            (start \<ge> MBAD_M1_RW_END \<or> end > unat MBAD_M1_RW_END)) \<or>
         (start \<ge> ADD_ADE9000_M3 \<and> start < 30000 \<and>
            (start \<ge> MBAD_M2_RW_END \<or> end > unat MBAD_M2_RW_END)))"

definition readMeterChOffsetBlocked :: "nat \<Rightarrow> u16 \<Rightarrow> bool" where
  "readMeterChOffsetBlocked mid offset \<longleftrightarrow>
     (if mid = 1 \<or> mid = 2 then offset \<ge> MBAD_RW_OFF_END else False)"

definition decodeMeterAddress :: "u16 \<Rightarrow> (nat \<times> u16) option" where
  "decodeMeterAddress address =
     (if address < ADD_ADE9000_M2 then Some (0, address)
      else if address < ADD_ADE9000_M3 then Some (1, address - ADD_ADE9000_M2)
      else if address < 30000 then Some (2, address - ADD_ADE9000_M3)
      else None)"

subsection \<open>Writes\<close>

definition writeMeterHoldReg :: "nat \<Rightarrow> u16 \<Rightarrow> u16 \<Rightarrow> mb \<Rightarrow> mb option" where
  "writeMeterHoldReg mid offset v st =
     (if mid \<ge> METER_CH_COUNT \<or> \<not> meterRwRangeValid offset 1 then None
      else Some (set_reg mid (unat offset) v st))"

text \<open>
  The byte-swapping copies of \<open>writeMeterHoldRegs\<close> and \<open>putSettings\<close>: each register gets
  the big-endian pair of the frame (the target is little-endian).
\<close>

fun store_loop :: "nat \<Rightarrow> nat \<Rightarrow> nat \<Rightarrow> (nat \<Rightarrow> u8) \<Rightarrow> (nat \<Rightarrow> u16) \<Rightarrow> (nat \<Rightarrow> u16)" where
  "store_loop 0 a i src r = r"
| "store_loop (Suc n) a i src r =
     store_loop n (a + 1) (i + 2) src (r(a := be16 (src i) (src (i + 1))))"

definition writeMeterHoldRegs :: "nat \<Rightarrow> u16 \<Rightarrow> u16 \<Rightarrow> (nat \<Rightarrow> u8) \<Rightarrow> mb \<Rightarrow> mb option" where
  "writeMeterHoldRegs mid offset count pcmd st =
     (if mid \<ge> METER_CH_COUNT \<or> \<not> meterRwRangeValid offset count then None
      else Some (st\<lparr>mb_reg := (mb_reg st)(mid :=
             store_loop (unat count) (unat offset) 0 pcmd (mb_reg st mid))\<rparr>))"

definition putSettings :: "u16 \<Rightarrow> u16 \<Rightarrow> (nat \<Rightarrow> u8) \<Rightarrow> mb \<Rightarrow> mb" where
  "putSettings addr count psrc st =
     st\<lparr>mb_reg := (mb_reg st)(0 :=
       store_loop (unat count) (unat MBAD_SETTING + unat addr) 0 psrc (mb_reg st 0))\<rparr>"

definition putUTCtime :: "(nat \<Rightarrow> u8) \<Rightarrow> mb \<Rightarrow> mb" where
  "putUTCtime psrc st =
     st\<lparr>mb_clock := push_bit 16 (ucast (be16 (psrc 2) (psrc 3))) OR ucast (be16 (psrc 0) (psrc 1))\<rparr>"

subsection \<open>Commands\<close>

definition do_fetchEvent :: "nat \<Rightarrow> u16 \<Rightarrow> mb \<Rightarrow> mb" where
  "do_fetchEvent ch cmd st =
     (let c = mb_logs st ch
      in st\<lparr>mb_logs := (mb_logs st)(ch := c\<lparr>cl_elist := fetchEvent (unat cmd) (cl_event c) (cl_elist c)\<rparr>)\<rparr>)"

definition do_fetchAlarm :: "nat \<Rightarrow> u16 \<Rightarrow> mb \<Rightarrow> mb" where
  "do_fetchAlarm ch cmd st =
     (let c = mb_logs st ch; (f, l) = fetchAlarm (unat cmd) (cl_alarm c) (cl_alist c)
      in st\<lparr>mb_logs := (mb_logs st)(ch := c\<lparr>cl_alarm := f, cl_alist := l\<rparr>)\<rparr>)"

definition do_fetchItic :: "u16 \<Rightarrow> mb \<Rightarrow> mb" where
  "do_fetchItic cmd st =
     (let c = mb_logs st 0
      in st\<lparr>mb_logs := (mb_logs st)(0 := c\<lparr>cl_itic := fetchIticCommon (unat cmd) (cl_event c) (cl_itic c)\<rparr>)\<rparr>)"

definition do_fetchItic2 :: "u16 \<Rightarrow> mb \<Rightarrow> mb" where
  "do_fetchItic2 cmd st =
     (let c = mb_logs st 0
      in st\<lparr>mb_logs := (mb_logs st)(0 := c\<lparr>cl_itic2 := fetchIticCommon (unat cmd) (cl_event c) (cl_itic2 c)\<rparr>)\<rparr>)"

definition handleFetchCmd :: "u16 \<Rightarrow> u16 \<Rightarrow> mb \<Rightarrow> mb option" where
  "handleFetchCmd cmdAddr cmd st =
     (if cmdAddr \<ge> MBAD_CMD_FETCH_EVENT \<and> cmdAddr \<le> MBAD_CMD_FETCH_EVENT + of_nat METER_CH_COUNT then
        Some (if cmdAddr = MBAD_CMD_FETCH_EVENT
              then fold (\<lambda>ch. do_fetchEvent ch cmd) [0..<METER_CH_COUNT] st
              else do_fetchEvent (unat (cmdAddr - MBAD_CMD_FETCH_EVENT - 1)) cmd st)
      else if cmdAddr \<ge> MBAD_CMD_FETCH_ALARM \<and> cmdAddr \<le> MBAD_CMD_FETCH_ALARM + of_nat METER_CH_COUNT then
        Some (if cmdAddr = MBAD_CMD_FETCH_ALARM
              then fold (\<lambda>ch. do_fetchAlarm ch cmd) [0..<METER_CH_COUNT] st
              else do_fetchAlarm (unat (cmdAddr - MBAD_CMD_FETCH_ALARM - 1)) cmd st)
      else if cmdAddr = MBAD_CMD_FETCH_ITIC then Some (do_fetchItic cmd st)
      else if cmdAddr = MBAD_CMD_FETCH_ITIC2 then Some (do_fetchItic2 cmd st)
      else None)"

definition put_cmd :: "u16 \<Rightarrow> u16 \<Rightarrow> mb \<Rightarrow> mb" where
  "put_cmd s c st = st\<lparr>mb_cmdq := putCmdQ (s, c) (mb_cmdq st)\<rparr>"

definition writeSingleMem :: "u16 \<Rightarrow> u16 \<Rightarrow> mb \<Rightarrow> mb" where
  "writeSingleMem start cmd st =
     (if start \<ge> MBAD_SET_CMD \<and> start < MBAD_SET_END
      then (case handleFetchCmd start cmd st of Some st' \<Rightarrow> st' | None \<Rightarrow> put_cmd start cmd st)
      else st)"

definition writeMultiMem :: "u16 \<Rightarrow> u16 \<Rightarrow> (nat \<Rightarrow> u8) \<Rightarrow> mb \<Rightarrow> mb" where
  "writeMultiMem start count pcmd st =
     (if start \<ge> MBAD_SET_TS \<and> count = 2 \<and> start < MBAD_SET_CMD then putUTCtime pcmd st
      else if start \<ge> MBAD_SETTING \<and> start < MBAD_SETTING_END
        then putSettings (start - MBAD_SETTING) count pcmd st
      else if start \<ge> MBAD_P1_SETTING \<and> start < MBAD_P1_SETTING_END
        then putSettings (start - MBAD_SETTING) count pcmd st
      else st)"

subsection \<open>The frame handler\<close>

definition echo :: "u8 \<Rightarrow> u8 \<Rightarrow> u16 \<Rightarrow> u16 \<Rightarrow> bytes" where
  "echo addr fc start count = [addr, fc, hi8 start, lo8 start, hi8 count, lo8 count]"

definition frame_read ::
  "(nat \<Rightarrow> regs \<Rightarrow> regs) \<Rightarrow> u8 \<Rightarrow> u8 \<Rightarrow> u16 \<Rightarrow> u16 \<Rightarrow> bool \<Rightarrow> mb \<Rightarrow> bytes \<times> mb" where
  "frame_read copyWave addr fc start count longFrame st =
     (if start < ADD_ADE9000_M2 then
        (if longFrame then ([addr, fc] @ readMem2 start count st, st)
         else let (bs, st1) = readMem copyWave start count st in ([addr, fc] @ bs, st1))
      else if start < ADD_ADE9000_M3 then
        (if readRangeBlocked start count then (makeExceptFrame addr fc 2, st)
         else ([addr, fc] @ (if longFrame then readMem4 (start - ADD_ADE9000_M2) count st
                             else readMem3 (start - ADD_ADE9000_M2) count st), st))
      else if start < 30000 then
        (if readRangeBlocked start count then (makeExceptFrame addr fc 2, st)
         else ([addr, fc] @ (if longFrame then readMem4_m3 (start - ADD_ADE9000_M3) count st
                             else readMem3_m3 (start - ADD_ADE9000_M3) count st), st))
      else if start \<ge> ADD_SIMPLE_MAP \<and>
              unat start + unat count \<le> unat ADD_SIMPLE_MAP + unat SMP_WORDS then
        ([addr, fc] @ readMemSmp (start - ADD_SIMPLE_MAP) count longFrame st, st)
      else (makeExceptFrame addr fc 2, st))"

definition frame_write1 :: "u8 \<Rightarrow> u8 \<Rightarrow> u16 \<Rightarrow> u16 \<Rightarrow> mb \<Rightarrow> bytes \<times> mb" where
  "frame_write1 addr fc start v st =
     (if start < ADD_ADE9000_M2 then (echo addr fc start v, writeSingleMem start v st)
      else if start \<ge> MBAD_M1_RW_START \<and> start < MBAD_M1_RW_END then
        (case writeMeterHoldReg 1 (start - ADD_ADE9000_M2) v st of
           None \<Rightarrow> (makeExceptFrame addr fc 2, st) | Some st' \<Rightarrow> (echo addr fc start v, st'))
      else if start \<ge> MBAD_M2_RW_START \<and> start < MBAD_M2_RW_END then
        (case writeMeterHoldReg 2 (start - ADD_ADE9000_M3) v st of
           None \<Rightarrow> (makeExceptFrame addr fc 2, st) | Some st' \<Rightarrow> (echo addr fc start v, st'))
      else (makeExceptFrame addr fc 2, st))"

definition frame_write_block ::
  "u8 \<Rightarrow> u8 \<Rightarrow> u16 \<Rightarrow> u16 \<Rightarrow> (nat \<Rightarrow> u8) \<Rightarrow> mb \<Rightarrow> bytes \<times> mb" where
  "frame_write_block addr fc start count pcmd st =
     (if start \<ge> MBAD_SETTING_M2 then (makeExceptFrame addr fc 2, st)
      else if start \<ge> MBAD_SETTING \<and> unat start + unat count \<le> unat MBAD_SET_CMD then
        (echo addr fc start count, writeMultiMem start count pcmd st)
      else if start \<ge> MBAD_M1_RW_START \<and> unat start + unat count \<le> unat MBAD_M1_RW_END then
        (case writeMeterHoldRegs 1 (start - ADD_ADE9000_M2) count pcmd st of
           None \<Rightarrow> (makeExceptFrame addr fc 2, st) | Some st' \<Rightarrow> (echo addr fc start count, st'))
      else if start \<ge> MBAD_M2_RW_START \<and> unat start + unat count \<le> unat MBAD_M2_RW_END then
        (case writeMeterHoldRegs 2 (start - ADD_ADE9000_M3) count pcmd st of
           None \<Rightarrow> (makeExceptFrame addr fc 2, st) | Some st' \<Rightarrow> (echo addr fc start count, st'))
      else (makeExceptFrame addr fc 2, st))"

text \<open>\<open>[]\<close> is the return value 0: no reply is sent.\<close>

definition modbusSlvProcFrame ::
  "(nat \<Rightarrow> regs \<Rightarrow> regs) \<Rightarrow> (nat \<Rightarrow> u8) \<Rightarrow> bool \<Rightarrow> mb \<Rightarrow> bytes \<times> mb" where
  "modbusSlvProcFrame copyWave prx longFrame st0 =
     (let st = count_rx st0; addr = prx 0; fc = prx 1;
          start = be16 (prx 2) (prx 3); count = be16 (prx 4) (prx 5);
          err = modbusSlvChkFrame fc start count longFrame
      in if \<not> mb_ready st then ([], st)
         else if err > 0 then (makeExceptFrame addr fc err, st)
         else if fc = 3 \<or> fc = 4 then frame_read copyWave addr fc start count longFrame st
         else if fc = 6 then frame_write1 addr fc start count st
         else if fc = 16 then frame_write_block addr fc start count (\<lambda>i. prx (7 + i)) st
         else ([addr, fc], st))"

subsection \<open>The register callbacks\<close>

definition readMemCb :: "(nat \<Rightarrow> regs \<Rightarrow> regs) \<Rightarrow> u16 \<Rightarrow> mb \<Rightarrow> u16 option \<times> mb" where
  "readMemCb copyWave address st0 =
     (let st = count_rx st0
      in case decodeMeterAddress address of
           Some (mid, offset) \<Rightarrow>
             (let st1 = (if offset = MBAD_WV_REG then st\<lparr>mb_reg := copyWave mid (mb_reg st)\<rparr> else st)
              in if readMeterChOffsetBlocked mid offset then (None, st1)
                 else (Some (read_word mid offset st1), st1))
         | None \<Rightarrow>
             (if address \<ge> ADD_SIMPLE_MAP \<and> address < ADD_SIMPLE_MAP + SMP_WORDS
              then (Some (mb_smpbuf st (mb_smp st) (unat (address - ADD_SIMPLE_MAP))), st)
              else (None, st)))"

definition readMemCbMb :: "(nat \<Rightarrow> regs \<Rightarrow> regs) \<Rightarrow> u16 \<Rightarrow> mb \<Rightarrow> u16 option \<times> mb" where
  "readMemCbMb copyWave address st =
     (if \<not> mb_ready st then (None, count_rx st) else readMemCb copyWave address st)"

definition writeMemCb :: "u16 \<Rightarrow> u16 \<Rightarrow> mb \<Rightarrow> mb option" where
  "writeMemCb address v st =
     (if \<not> mb_ready st then None
      else case decodeMeterAddress address of
        None \<Rightarrow> None
      | Some (mid, offset) \<Rightarrow>
          (if offset \<ge> MBAD_ENERGY_START \<and> offset < MBAD_ENERGY_U64_START
             then writeMeterHoldReg mid offset v st
           else if mid = 1 \<and> offset \<ge> MBAD_RW_OFF_START \<and> offset < MBAD_RW_OFF_END
             then writeMeterHoldReg 1 offset v st
           else if mid = 2 \<and> offset \<ge> MBAD_RW_OFF_START \<and> offset < MBAD_RW_OFF_END
             then writeMeterHoldReg 2 offset v st
           else if mid = 0 \<and> offset = MBAD_SET_TS
             then Some (st\<lparr>mb_utc := push_bit 16 (drop_bit 16 (mb_utc st)) OR ucast v\<rparr>)
           else if mid = 0 \<and> offset = MBAD_SET_TS + 1
             then let utc = push_bit 16 (ucast v) OR (mb_utc st AND 0xFFFF)
                  in Some (st\<lparr>mb_utc := utc, mb_clock := utc\<rparr>)
           else if mid = 0 \<and> offset \<ge> MBAD_SETTING \<and> offset < MBAD_SETTING_END
             then Some (set_reg 0 (unat MBAD_SETTING + unat (offset - MBAD_SETTING)) v st)
           else if mid = 0 \<and> offset \<ge> MBAD_P1_SETTING \<and> offset < MBAD_P1_SETTING_END
             then Some (set_reg 0 (unat MBAD_SETTING + unat (offset - MBAD_SETTING)) v st)
           else if mid = 0 \<and> offset \<ge> MBAD_SET_CMD \<and> offset < MBAD_SET_END
             then (case handleFetchCmd offset v st of Some st' \<Rightarrow> Some st'
                   | None \<Rightarrow> Some (put_cmd offset v st))
           else None))"

subsection \<open>Reading: what a master decodes\<close>

fun be_words :: "bytes \<Rightarrow> u16 list" where
  "be_words (h # l # bs) = be16 h l # be_words bs"
| "be_words _ = []"

lemma be_words_read_loop: "be_words (read_loop n i w) = map w [i..<i + n]"
  by (induction n arbitrary: i) (simp_all add: upt_conv_Cons del: upt_Suc)

lemma length_read_loop [simp]: "length (read_loop n i w) = 2 * n"
  by (induction n arbitrary: i) simp_all

lemma read_loop_cong: "(\<And>j. i \<le> j \<Longrightarrow> j < i + n \<Longrightarrow> v j = w j) \<Longrightarrow> read_loop n i v = read_loop n i w"
  by (induction n arbitrary: i) simp_all

lemma chk_read_ok:
  assumes "fc = 3 \<or> fc = 4" "count \<le> 125" "unat start + unat count \<le> 65000"
  shows "modbusSlvChkFrame fc start count False = 0"
proof -
  have "int (unat start) + int (unat count) \<le> 65000" using assms(3) by linarith
  then show ?thesis using assms(1,2)
    by (elim disjE) (simp_all add: modbusSlvChkFrame_def init_smb_def)
qed

text \<open>Address decoding, over natural numbers.\<close>

lemma meter_of:
  fixes n :: nat
  assumes "10000 * j \<le> n" "n < 10000 * j + 10000" "j < 3"
  shows "mid < 3 \<and> n = 10000 * mid + k \<and> k < 10000 \<longleftrightarrow> mid = j \<and> k = n - 10000 * j"
proof
  assume a: "mid < 3 \<and> n = 10000 * mid + k \<and> k < 10000"
  have "mid = j" using a assms(1,2) by linarith
  then show "mid = j \<and> k = n - 10000 * j" using a by simp
qed (use assms in auto)

lemma decode_nat:
  "decodeMeterAddress a = Some (mid, off) \<longleftrightarrow>
    mid < 3 \<and> unat a = 10000 * mid + unat off \<and> unat off < 10000"
proof -
  consider "unat a < 10000" | "10000 \<le> unat a" "unat a < 20000" | "20000 \<le> unat a" "unat a < 30000"
    | "30000 \<le> unat a" by linarith
  then show ?thesis
  proof cases
    case 1
    then have d: "decodeMeterAddress a = Some (0, a)" by (simp add: decodeMeterAddress_def u16_cmp)
    have "mid < 3 \<and> unat a = 10000 * mid + unat off \<and> unat off < 10000 \<longleftrightarrow>
        mid = 0 \<and> unat off = unat a - 10000 * 0" by (rule meter_of) (use 1 in simp_all)
    then show ?thesis by (simp only: d option.inject prod.inject u16_eq_nat mult_0_right diff_zero) metis
  next
    case 2
    then have d: "decodeMeterAddress a = Some (1, a - 10000)"
      by (simp add: decodeMeterAddress_def u16_cmp)
    have "unat (a - 10000) = unat a - 10000" using 2 by (subst unat_diff) (simp_all add: u16_cmp)
    then have e: "a - 10000 = off \<longleftrightarrow> unat off = unat a - 10000 * 1"
      unfolding mult_1_right by (simp only: u16_eq_nat eq_commute)
    have "mid < 3 \<and> unat a = 10000 * mid + unat off \<and> unat off < 10000 \<longleftrightarrow>
        mid = 1 \<and> unat off = unat a - 10000 * 1" by (rule meter_of) (use 2 in simp_all)
    then show ?thesis by (simp only: d option.inject prod.inject e) blast
  next
    case 3
    then have d: "decodeMeterAddress a = Some (2, a - 20000)"
      by (simp add: decodeMeterAddress_def u16_cmp)
    have "unat (a - 20000) = unat a - 20000" using 3 by (subst unat_diff) (simp_all add: u16_cmp)
    then have e: "a - 20000 = off \<longleftrightarrow> unat off = unat a - 20000" by (simp only: u16_eq_nat eq_commute)
    have e2: "(10000 :: nat) * 2 = 20000" by simp
    have "mid < 3 \<and> unat a = 10000 * mid + unat off \<and> unat off < 10000 \<longleftrightarrow>
        mid = 2 \<and> unat off = unat a - 10000 * 2" by (rule meter_of) (use 3 in simp_all)
    then show ?thesis unfolding e2 by (simp only: d option.inject prod.inject e) blast
  next
    case 4
    then show ?thesis by (auto simp: decodeMeterAddress_def u16_cmp)
  qed
qed

lemma decode_some: "unat a < 30000 \<Longrightarrow> \<exists>mid off. decodeMeterAddress a = Some (mid, off)"
  by (simp add: decodeMeterAddress_def u16_cmp)

lemma decode_add:
  assumes "decodeMeterAddress start = Some (mid, off)"
    and "unat off + unat count \<le> 10000" "i < unat count"
  shows "decodeMeterAddress (start + of_nat i) = Some (mid, off + of_nat i)"
    and "unat (off + of_nat i) = unat off + i"
  using assms by (simp_all add: decode_nat unat_add_of_nat)

text \<open>The three meters' block reads, by logical address.\<close>

definition block_bytes :: "nat \<Rightarrow> u16 \<Rightarrow> u16 \<Rightarrow> mb \<Rightarrow> bytes" where
  "block_bytes mid off count st = short_len count @ meter_words mid off count st"

lemma frame_read_meter:
  assumes "decodeMeterAddress start = Some (mid, off)"
    and "unat off + unat count \<le> (if mid = 0 then 10000 else 7050)" "off \<noteq> 3430 \<or> mid \<noteq> 0"
    and "0 < unat count \<or> mid = 0 \<or> unat off < 7050"
  shows "frame_read cw addr fc start count False st = ([addr, fc] @ block_bytes mid off count st, st)"
proof -
  have d: "mid < 3" "unat start = 10000 * mid + unat off" "unat off < 10000"
    using assms(1) by (simp_all add: decode_nat)
  consider "mid = 0" | "mid = 1" | "mid = 2" using d(1) by linarith
  then show ?thesis
  proof cases
    case 1
    then have "start = off" "start < 10000" using d by (simp_all add: u16_eq_nat u16_cmp)
    then show ?thesis using 1 assms(3)
      by (simp add: frame_read_def readMem_def block_bytes_def)
  next
    case 2
    have lt: "unat off < 7050" using assms(2,4) 2 by auto
    have "start - 10000 = off" using d 2 by (simp add: u16_eq_nat unat_diff u16_cmp)
    moreover have "\<not> readRangeBlocked start count"
      using d 2 assms(2) lt by (simp add: readRangeBlocked_def u16_cmp Let_def)
    ultimately show ?thesis using d 2
      by (simp add: frame_read_def readMem3_def block_bytes_def u16_cmp)
  next
    case 3
    have lt: "unat off < 7050" using assms(2,4) 3 by auto
    have "start - 20000 = off" using d 3 by (simp add: u16_eq_nat unat_diff u16_cmp)
    moreover have "\<not> readRangeBlocked start count"
      using d 3 assms(2) lt by (simp add: readRangeBlocked_def u16_cmp Let_def)
    ultimately show ?thesis using d 3
      by (simp add: frame_read_def readMem3_m3_def block_bytes_def u16_cmp)
  qed
qed

lemma proc_read_meter:
  assumes "mb_ready st" "prx 1 = 3 \<or> prx 1 = 4" "be16 (prx 4) (prx 5) \<le> 125"
    and "decodeMeterAddress (be16 (prx 2) (prx 3)) = Some (mid, off)"
    and "unat off + unat (be16 (prx 4) (prx 5)) \<le> (if mid = 0 then 10000 else 7050)"
    and "off \<noteq> 3430 \<or> mid \<noteq> 0" "0 < unat (be16 (prx 4) (prx 5))"
  shows "modbusSlvProcFrame cw prx False st =
    ([prx 0, prx 1] @ block_bytes mid off (be16 (prx 4) (prx 5)) (count_rx st), count_rx st)"
proof -
  have u: "unat (be16 (prx 2) (prx 3)) = 10000 * mid + unat off" "mid < 3"
    using assms(4) by (simp_all add: decode_nat)
  have "unat (be16 (prx 2) (prx 3)) + unat (be16 (prx 4) (prx 5)) \<le> 65000"
    using u assms(5) by (auto split: if_splits)
  note chk = chk_read_ok [OF assms(2,3) this]
  have r: "mb_ready (count_rx st)" using assms(1) by (simp add: count_rx_def set_reg_def)
  show ?thesis
    using assms(2) chk r frame_read_meter [OF assms(4,5,6)] assms(7)
    by (auto simp: modbusSlvProcFrame_def Let_def)
qed

lemma read_cb_meter:
  assumes "decodeMeterAddress a = Some (mid, off)" "off \<noteq> 3430" "mid \<noteq> 0 \<Longrightarrow> unat off < 7050"
  shows "fst (readMemCb cw a st) = Some (read_word mid off (count_rx st))"
  using assms by (auto simp: readMemCb_def readMeterChOffsetBlocked_def u16_cmp Let_def)

text \<open>C1. Serial and TCP masters see the same registers: for every block of up to 125
  registers inside one meter's readable map (the waveform page apart), the reply to a read
  frame is the address, the function code, the byte count and then, word by word and high byte
  first, exactly what the TCP callback returns for each of these addresses.\<close>

theorem serial_read_equals_callbacks:
  assumes "mb_ready st" "prx 1 = 3 \<or> prx 1 = 4"
    and "start = be16 (prx 2) (prx 3)" "count = be16 (prx 4) (prx 5)" "0 < count" "count \<le> 125"
    and "decodeMeterAddress start = Some (mid, off)"
    and "unat off + unat count \<le> (if mid = 0 then 10000 else 7050)"
    and "unat off + unat count \<le> 3430 \<or> 3430 < unat off"
  shows "\<exists>bs. fst (modbusSlvProcFrame cw prx False st) = [prx 0, prx 1, lo8 (push_bit 1 count)] @ bs \<and>
    length bs = 2 * unat count \<and>
    map Some (be_words bs) = map (\<lambda>i. fst (readMemCb cw (start + of_nat i) st)) [0..<unat count]"
proof -
  have c0: "0 < unat count" using assms(5) by (simp add: word_less_nat_alt)
  then have off: "off \<noteq> 3430" using assms(9) by auto
  have "modbusSlvProcFrame cw prx False st =
      ([prx 0, prx 1] @ block_bytes mid off count (count_rx st), count_rx st)"
    using proc_read_meter [of st prx mid off cw] assms(1,2,3,4,6,7,8) off c0 by simp
  moreover have "map Some (be_words (meter_words mid off count (count_rx st))) =
      map (\<lambda>i. fst (readMemCb cw (start + of_nat i) st)) [0..<unat count]"
  proof -
    have "fst (readMemCb cw (start + of_nat i) st) = Some (read_word mid (off + of_nat i) (count_rx st))"
      if i: "i < unat count" for i
    proof (rule read_cb_meter)
      have le: "unat off + unat count \<le> 10000" using assms(8) by (auto split: if_splits)
      show "decodeMeterAddress (start + of_nat i) = Some (mid, off + of_nat i)"
        by (rule decode_add(1) [OF assms(7) le i])
      have u: "unat (off + of_nat i) = unat off + i" by (rule decode_add(2) [OF assms(7) le i])
      show "off + of_nat i \<noteq> 3430" using assms(9) i u by auto
      show "mid \<noteq> 0 \<Longrightarrow> unat (off + of_nat i) < 7050" using assms(8) i u by simp
    qed
    then show ?thesis by (simp add: meter_words_def be_words_read_loop)
  qed
  ultimately show ?thesis
    by (intro exI [of _ "meter_words mid off count (count_rx st)"])
      (simp add: block_bytes_def short_len_def meter_words_def)
qed

text \<open>A meter that has just become ready, with every register zero.\<close>

definition mb_start :: mb where
  "mb_start = \<lparr>mb_ready = True, mb_reg = (\<lambda>_ _. 0), mb_snapbuf = (\<lambda>_ _ _. 0), mb_snap = (\<lambda>_. False),
     mb_smpbuf = (\<lambda>_ _. 0), mb_smp = False, mb_cmdq = cmd_q_empty,
     mb_logs = (\<lambda>_. \<lparr>cl_alarm = log_empty alarm_log0, cl_alist = alarm_list0,
       cl_event = log_empty itic_log0,
       cl_elist = \<lparr>ll_fr = 0, ll_re = 0, ll_count = 0, ll_ent = replicate N_LIST event_log0\<rparr>,
       cl_itic = itic_list0, cl_itic2 = itic_list0\<rparr>), mb_utc = 0, mb_clock = 0\<rparr>"

definition frame_at :: "bytes \<Rightarrow> nat \<Rightarrow> u8" where
  "frame_at bs i = (if i < length bs then bs ! i else 0)"

theorem serial_read_equals_callbacks_witness:
  "\<exists>bs. fst (modbusSlvProcFrame (\<lambda>_ r. r) (frame_at [1, 3, 0x27, 0x74, 0, 2]) False mb_start) =
      [1, 3, lo8 (push_bit 1 2)] @ bs \<and> length bs = 2 * unat (2 :: u16) \<and>
    map Some (be_words bs) =
      map (\<lambda>i. fst (readMemCb (\<lambda>_ r. r) (10100 + of_nat i) mb_start)) [0..<unat (2 :: u16)]"
proof -
  have f: "frame_at [1, 3, 0x27, 0x74, 0, 2] 0 = 1" "frame_at [1, 3, 0x27, 0x74, 0, 2] 1 = 3"
    "be16 (frame_at [1, 3, 0x27, 0x74, 0, 2] 2) (frame_at [1, 3, 0x27, 0x74, 0, 2] 3) = 10100"
    "be16 (frame_at [1, 3, 0x27, 0x74, 0, 2] 4) (frame_at [1, 3, 0x27, 0x74, 0, 2] 5) = 2"
    by (simp_all add: frame_at_def be16_def)
  show ?thesis
    using serial_read_equals_callbacks [of mb_start "frame_at [1, 3, 0x27, 0x74, 0, 2]" 10100 2 1 100
        "\<lambda>_ r. r"] f
    by (simp add: mb_start_def decode_nat)
qed

subsection \<open>Writing\<close>

lemma store_loop_eq:
  "store_loop n a i src r k =
    (if a \<le> k \<and> k < a + n then be16 (src (i + 2 * (k - a))) (src (i + 2 * (k - a) + 1)) else r k)"
proof (induction n arbitrary: a i r k)
  case (Suc n)
  show ?case
  proof (cases "k = a")
    case False
    show ?thesis
    proof (cases "Suc a \<le> k")
      case True
      then obtain j where "k = Suc a + j" by (metis le_Suc_ex)
      then show ?thesis by (simp add: Suc.IH)
    next
      case le: False
      then show ?thesis using False by (simp add: Suc.IH)
    qed
  qed (simp add: Suc.IH)
qed auto

lemma count_rx_simps [simp]:
  "mb_ready (count_rx st) = mb_ready st" "mb_logs (count_rx st) = mb_logs st"
  "mb_cmdq (count_rx st) = mb_cmdq st" "mb_clock (count_rx st) = mb_clock st"
  "mb_snapbuf (count_rx st) = mb_snapbuf st" "mb_snap (count_rx st) = mb_snap st"
  by (simp_all add: count_rx_def set_reg_def)

lemma count_rx_reg: "mid \<noteq> 0 \<or> off \<noteq> 7093 \<Longrightarrow> mb_reg (count_rx st) mid off = mb_reg st mid off"
  by (auto simp: count_rx_def set_reg_def)

text \<open>Where block writes are accepted, and the meter and offset they go to.\<close>

definition write_window :: "u16 \<Rightarrow> u16 \<Rightarrow> bool" where
  "write_window start count \<longleftrightarrow>
     (6700 \<le> unat start \<and> unat start + unat count \<le> 7050) \<or>
     (7110 \<le> unat start \<and> unat start + unat count \<le> 7788) \<or>
     (16700 \<le> unat start \<and> unat start + unat count \<le> 17050)"

lemma chk_write_block_ok:
  assumes "1 \<le> count" "count \<le> 123" "unat start + unat count \<le> 65000"
  shows "modbusSlvChkFrame 16 start count lf = 0"
proof -
  have "int (unat start) + int (unat count) \<le> 65000" using assms(3) by linarith
  then show ?thesis using assms(1,2)
    by (auto simp: modbusSlvChkFrame_def init_smb_def not_less)
qed

lemma frame_write_block_window:
  assumes "write_window start count" "decodeMeterAddress start = Some (mid, off)" "0 < unat count"
  shows "frame_write_block addr fc start count src st =
    (echo addr fc start count,
     st\<lparr>mb_reg := (mb_reg st)(mid := store_loop (unat count) (unat off) 0 src (mb_reg st mid))\<rparr>)"
proof -
  have d: "mid < 3" "unat start = 10000 * mid + unat off" "unat off < 10000"
    using assms(2) by (simp_all add: decode_nat)
  consider "6700 \<le> unat start" "unat start + unat count \<le> 7050"
    | "7110 \<le> unat start" "unat start + unat count \<le> 7788"
    | "16700 \<le> unat start" "unat start + unat count \<le> 17050"
    using assms(1) by (auto simp: write_window_def)
  then show ?thesis
  proof cases
    case 1
    then have m: "mid = 0" "off = start" using d by (auto simp: u16_eq_nat)
    have "unat (start - 6700) = unat start - 6700" using 1 by (subst unat_diff) (simp_all add: u16_cmp)
    then show ?thesis using 1 m assms(3)
      by (simp add: frame_write_block_def writeMultiMem_def putSettings_def u16_cmp)
  next
    case 2
    then have m: "mid = 0" "off = start" using d by (auto simp: u16_eq_nat)
    have "unat (start - 6700) = unat start - 6700" using 2 by (subst unat_diff) (simp_all add: u16_cmp)
    then show ?thesis using 2 m assms(3)
      by (simp add: frame_write_block_def writeMultiMem_def putSettings_def u16_cmp)
  next
    case 3
    then have m: "mid = 1" using d assms(3) by linarith
    have u: "unat (start - 10000) = unat start - 10000" using 3 by (subst unat_diff) (simp_all add: u16_cmp)
    then have "off = start - 10000" using d m by (simp add: u16_eq_nat)
    moreover have "\<not> 7050 < unat start + unat count - 10000" "\<not> unat start - 10000 < 6700"
      using 3 by linarith+
    ultimately show ?thesis using 3 m u assms(3)
      by (simp add: frame_write_block_def writeMeterHoldRegs_def meterRwRangeValid_def u16_cmp)
  qed
qed

lemma proc_write_block:
  assumes "mb_ready st" "prx 1 = 16" "start = be16 (prx 2) (prx 3)" "count = be16 (prx 4) (prx 5)"
    and "1 \<le> count" "count \<le> 123" "write_window start count"
    and "decodeMeterAddress start = Some (mid, off)"
  shows "modbusSlvProcFrame cw prx lf st =
    (echo (prx 0) 16 start count,
     (count_rx st)\<lparr>mb_reg := (mb_reg (count_rx st))(mid :=
        store_loop (unat count) (unat off) 0 (\<lambda>i. prx (7 + i)) (mb_reg (count_rx st) mid))\<rparr>)"
proof -
  have "unat start + unat count \<le> 65000" using assms(7) by (auto simp: write_window_def)
  note chk = chk_write_block_ok [OF assms(5,6) this]
  have "0 < unat count" using assms(5) by (simp add: word_le_nat_alt)
  then show ?thesis
    using chk assms(1-4) frame_write_block_window [OF assms(7,8)]
    by (simp add: modbusSlvProcFrame_def Let_def)
qed

lemma read_loop_stored:
  "read_loop n j (\<lambda>i. be16 (src (2 * i)) (src (2 * i + 1))) = map src [2 * j..<2 * (j + n)]"
proof (induction n arbitrary: j)
  case (Suc n)
  have "[2 * j..<2 * (j + Suc n)] = 2 * j # Suc (2 * j) # [2 * (j + 1)..<2 * (j + 1 + n)]"
    by (simp add: upt_conv_Cons)
  then show ?case using Suc.IH [of "j + 1"] by simp
qed simp

text \<open>C7. What a master writes is what it reads back: after a block write of up to 123
  registers inside the settings of meter 0 or the writable pocket of meter 1 the reply echoes
  start and count, and a read frame for the same block then returns exactly the bytes of the
  write, whatever happened to be in the registers before.\<close>

theorem block_write_reads_back:
  assumes "mb_ready st" "w 1 = 16" "r 1 = 3 \<or> r 1 = 4"
    and "start = be16 (w 2) (w 3)" "count = be16 (w 4) (w 5)"
    and "start = be16 (r 2) (r 3)" "count = be16 (r 4) (r 5)"
    and "1 \<le> count" "count \<le> 123" "write_window start count"
  shows "\<exists>st'. modbusSlvProcFrame cw w False st = (echo (w 0) 16 start count, st') \<and>
    fst (modbusSlvProcFrame cw r False st') =
      [r 0, r 1, lo8 (push_bit 1 count)] @ map (\<lambda>i. w (7 + i)) [0..<2 * unat count]"
proof -
  have c0: "0 < unat count" using assms(8) by (simp add: word_le_nat_alt)
  have "unat start < 20000" using assms(10) by (auto simp: write_window_def)
  then obtain mid off where dec: "decodeMeterAddress start = Some (mid, off)"
    using decode_some by force
  then have d: "mid < 3" "unat start = 10000 * mid + unat off" "unat off < 10000"
    by (simp_all add: decode_nat)
  have win: "(mid = 1 \<and> unat off + unat count \<le> 7050 \<or> mid = 0 \<and> unat off + unat count \<le> 7050 \<or>
      mid = 0 \<and> 7110 \<le> unat off \<and> unat off + unat count \<le> 7788) \<and> 6700 \<le> unat off"
  proof -
    consider "mid = 0" | "mid = 1" | "mid = 2" using d(1) by linarith
    then show ?thesis using assms(10) d(2,3) c0 by cases (auto simp: write_window_def)
  qed
  define st1 where "st1 = (count_rx st)\<lparr>mb_reg := (mb_reg (count_rx st))(mid :=
      store_loop (unat count) (unat off) 0 (\<lambda>i. w (7 + i)) (mb_reg (count_rx st) mid))\<rparr>"
  have wr: "modbusSlvProcFrame cw w False st = (echo (w 0) 16 start count, st1)"
    using proc_write_block [OF assms(1,2,4,5,8,9,10) dec] by (simp add: st1_def)
  have len: "unat off + unat count \<le> (if mid = 0 then 10000 else 7050)" using win by auto
  have le: "count \<le> 125" using assms(9) by (simp add: word_le_nat_alt)
  have "off \<noteq> 3430" using win by auto
  moreover have "mb_ready st1" using assms(1) by (simp add: st1_def)
  ultimately have rd: "fst (modbusSlvProcFrame cw r False st1) =
      [r 0, r 1] @ block_bytes mid off count (count_rx st1)"
    using proc_read_meter [of st1 r mid off cw] assms(3,6,7) dec len le c0 by simp
  have word: "read_word mid (off + of_nat i) (count_rx st1) = be16 (w (7 + 2 * i)) (w (7 + (2 * i + 1)))"
    if i: "i < unat count" for i
  proof -
    have le: "unat off + unat count \<le> 10000" using len by (auto split: if_splits)
    have u: "unat (off + of_nat i) = unat off + i" by (rule decode_add(2) [OF dec le i])
    have "mid \<noteq> 0 \<or> unat off + i \<noteq> 7093" using win i by auto
    then show ?thesis using u win i
      by (simp add: read_word_def u16_cmp meter_reg_plain count_rx_reg st1_def store_loop_eq)
  qed
  have "meter_words mid off count (count_rx st1) =
      read_loop (unat count) 0 (\<lambda>i. be16 (w (7 + 2 * i)) (w (7 + (2 * i + 1))))"
    unfolding meter_words_def by (rule read_loop_cong) (simp add: word)
  also have "\<dots> = map (\<lambda>i. w (7 + i)) [0..<2 * unat count]"
    using read_loop_stored [of "unat count" 0 "\<lambda>i. w (7 + i)"] by simp
  finally show ?thesis using wr rd by (auto simp: block_bytes_def short_len_def)
qed

theorem block_write_reads_back_witness:
  "\<exists>st'. modbusSlvProcFrame (\<lambda>_ r. r) (frame_at [1, 16, 0x1a, 0x2c, 0, 1, 2, 0xab, 0xcd]) False mb_start =
      (echo (frame_at [1, 16, 0x1a, 0x2c, 0, 1, 2, 0xab, 0xcd] 0) 16 6700 1, st') \<and>
    fst (modbusSlvProcFrame (\<lambda>_ r. r) (frame_at [1, 3, 0x1a, 0x2c, 0, 1]) False st') =
      [frame_at [1, 3, 0x1a, 0x2c, 0, 1] 0, frame_at [1, 3, 0x1a, 0x2c, 0, 1] 1, lo8 (push_bit 1 1)] @
      map (\<lambda>i. frame_at [1, 16, 0x1a, 0x2c, 0, 1, 2, 0xab, 0xcd] (7 + i)) [0..<2 * unat (1 :: u16)]"
proof (rule block_write_reads_back)
  let ?w = "frame_at [1, 16, 0x1a, 0x2c, 0, 1, 2, 0xab, 0xcd]"
  let ?r = "frame_at [1, 3, 0x1a, 0x2c, 0, 1]"
  show "mb_ready mb_start" by (simp add: mb_start_def)
  show "6700 = be16 (?w 2) (?w 3)" "1 = be16 (?w 4) (?w 5)" "6700 = be16 (?r 2) (?r 3)"
    "1 = be16 (?r 4) (?r 5)"
    by (simp_all add: frame_at_def be16_def)
  show "write_window 6700 1" by (simp add: write_window_def)
qed (simp_all add: frame_at_def)

subsection \<open>What frames cannot do\<close>






























subsection \<open>Refusals\<close>

lemma fc_exception_differs: "(fc :: u8) + 0x80 \<noteq> fc"
  by simp

lemma frame_read_reply:
  "fst (frame_read cw addr fc start count lf st) = makeExceptFrame addr fc 2 \<and>
     snd (frame_read cw addr fc start count lf st) = st \<or>
   take 2 (fst (frame_read cw addr fc start count lf st)) = [addr, fc]"
  by (simp add: frame_read_def readMem_def Let_def)

lemma frame_write1_reply:
  "fst (frame_write1 addr fc start v st) = makeExceptFrame addr fc 2 \<and>
     snd (frame_write1 addr fc start v st) = st \<or>
   take 2 (fst (frame_write1 addr fc start v st)) = [addr, fc]"
  by (simp add: frame_write1_def echo_def split: option.split)

lemma frame_write_block_reply:
  "fst (frame_write_block addr fc start v src st) = makeExceptFrame addr fc 2 \<and>
     snd (frame_write_block addr fc start v src st) = st \<or>
   take 2 (fst (frame_write_block addr fc start v src st)) = [addr, fc]"
  by (simp add: frame_write_block_def echo_def split: option.split)

lemma chk_codes: "modbusSlvChkFrame fc start count lf \<in> {0, 1, 2, 3}"
  by (simp add: modbusSlvChkFrame_def)

text \<open>C39. A refused request has no effect: when the reply is an exception frame (the function
  code with its top bit flipped) or there is no reply because the meters are not ready,
  registers, clock, command queue and histories are as before, the receive counter
  apart; the exception code is 1, 2 or 3 and the reply carries the master's address.\<close>

theorem refused_frame_no_effect:
  assumes "modbusSlvProcFrame cw prx lf st = (reply, st')"
    and "reply = [] \<or> (\<exists>a bs. reply = a # (prx 1 + 0x80) # bs)"
  shows "st' = count_rx st \<and>
    (reply = [] \<and> \<not> mb_ready st \<or>
     (\<exists>e \<in> {1, 2, 3}. reply = makeExceptFrame (prx 0) (prx 1) e))"
proof -
  let ?start = "be16 (prx 2) (prx 3)" and ?count = "be16 (prx 4) (prx 5)"
  have no: "take 2 reply \<noteq> [prx 0, prx 1]"
    using assms(2) fc_exception_differs [of "prx 1"] by (auto simp: numeral_2_eq_2)
  note chk = chk_codes [of "prx 1" ?start ?count lf]
  show ?thesis
    using assms(1) no chk
      frame_read_reply [of cw "prx 0" "prx 1" ?start ?count lf "count_rx st"]
      frame_write1_reply [of "prx 0" "prx 1" ?start ?count "count_rx st"]
      frame_write_block_reply [of "prx 0" "prx 1" ?start ?count "\<lambda>i. prx (7 + i)" "count_rx st"]
    by (auto simp: modbusSlvProcFrame_def Let_def word_neq_0_conv split: if_splits)
qed

theorem refused_frame_no_effect_witness:
  "snd (modbusSlvProcFrame (\<lambda>_ r. r) (frame_at [1, 5, 0, 0, 0, 1]) False mb_start) = count_rx mb_start"
  using refused_frame_no_effect [of "\<lambda>_ r. r" "frame_at [1, 5, 0, 0, 0, 1]" False mb_start]
  by (simp add: modbusSlvProcFrame_def modbusSlvChkFrame_def frame_at_def makeExceptFrame_def
      Let_def mb_start_def)

text \<open>The pocket of the third meter cannot be written by blocks: a block write that lies
  inside 26700--27049, which the handler has a branch for, is always refused with exception
  code 2, because everything from 17050 on is turned away first.\<close>

theorem third_meter_block_write_refused:
  assumes "mb_ready st" "prx 1 = 16" "start = be16 (prx 2) (prx 3)" "count = be16 (prx 4) (prx 5)"
    and "1 \<le> count" "count \<le> 123" "26700 \<le> unat start" "unat start + unat count \<le> 27050"
  shows "modbusSlvProcFrame cw prx lf st = (makeExceptFrame (prx 0) 16 2, count_rx st)"
proof -
  have "unat start + unat count \<le> 65000" using assms(8) by simp
  note chk = chk_write_block_ok [OF assms(5,6) this]
  have "frame_write_block (prx 0) 16 start count src st' = (makeExceptFrame (prx 0) 16 2, st')"
    for src st' using assms(7) by (simp add: frame_write_block_def u16_cmp)
  then show ?thesis using chk assms(1-4) by (simp add: modbusSlvProcFrame_def Let_def)
qed

theorem third_meter_block_write_refused_witness:
  "modbusSlvProcFrame (\<lambda>_ r. r) (frame_at [1, 16, 0x68, 0x4c, 0, 1, 2, 0, 7]) False mb_start =
    (makeExceptFrame (frame_at [1, 16, 0x68, 0x4c, 0, 1, 2, 0, 7] 0) 16 2, count_rx mb_start)"
proof (rule third_meter_block_write_refused)
  let ?w = "frame_at [1, 16, 0x68, 0x4c, 0, 1, 2, 0, 7]"
  show "mb_ready mb_start" by (simp add: mb_start_def)
  show "26700 = be16 (?w 2) (?w 3)" "1 = be16 (?w 4) (?w 5)"
    by (simp_all add: frame_at_def be16_def)
qed (simp_all add: frame_at_def)

text \<open>A block write that starts inside the settings page of meter 0 is not stopped at its
  end: it goes on over the read-only information block behind it, so that register 7102, the
  feeder count, takes the value in the frame.\<close>

theorem settings_block_overruns_info:
  assumes "mb_ready st" "prx 1 = 16" "start = be16 (prx 2) (prx 3)" "count = be16 (prx 4) (prx 5)"
    and "1 \<le> count" "count \<le> 123" "6700 \<le> unat start" "unat start < 7050"
    and "7102 < unat start + unat count"
  shows "mb_reg (snd (modbusSlvProcFrame cw prx lf st)) 0 7102 =
    be16 (prx (7 + 2 * (7102 - unat start))) (prx (7 + (2 * (7102 - unat start) + 1)))"
proof -
  have c: "unat count \<le> 123" using assms(6) by (simp add: word_le_nat_alt)
  then have "unat start + unat count \<le> 65000" using assms(8) by linarith
  note chk = chk_write_block_ok [OF assms(5,6) this]
  have u: "unat (start - 6700) = unat start - 6700"
    using assms(7) by (subst unat_diff) (simp_all add: u16_cmp)
  have "unat start + unat count \<le> 7798" using assms(8) c by linarith
  then have "snd (frame_write_block (prx 0) 16 start count src st') =
      putSettings (start - 6700) count src st'" for src st'
    using assms(7,8) by (simp add: frame_write_block_def writeMultiMem_def u16_cmp)
  then show ?thesis using chk assms(1-4,7-9) u
    by (simp add: modbusSlvProcFrame_def Let_def putSettings_def store_loop_eq)
qed

theorem settings_block_overruns_info_witness:
  "mb_reg (snd (modbusSlvProcFrame (\<lambda>_ r. r) (frame_at [1, 16, 0x1b, 0x80, 0, 120]) False mb_start)) 0 7102 =
    be16 (frame_at [1, 16, 0x1b, 0x80, 0, 120] (7 + 2 * (7102 - unat (7040 :: u16))))
      (frame_at [1, 16, 0x1b, 0x80, 0, 120] (7 + (2 * (7102 - unat (7040 :: u16)) + 1)))"
proof (rule settings_block_overruns_info)
  let ?w = "frame_at [1, 16, 0x1b, 0x80, 0, 120]"
  show "mb_ready mb_start" by (simp add: mb_start_def)
  show "7040 = be16 (?w 2) (?w 3)" "120 = be16 (?w 4) (?w 5)"
    by (simp_all add: frame_at_def be16_def)
qed (simp_all add: frame_at_def)

subsection \<open>Sizes and snapshots\<close>

lemma unat_short: "count \<le> 125 \<Longrightarrow> unat (count :: u16) \<le> 125"
  by (simp add: word_le_nat_alt)

lemma reply_size:
  "length (fst (modbusSlvProcFrame cw prx lf st)) \<le> (if lf then 2052 else 253)"
proof -
  let ?start = "be16 (prx 2) (prx 3)" and ?count = "be16 (prx 4) (prx 5)" and ?fc = "prx 1"
  define B :: nat where "B = (if lf then 2052 else 253)"
  have B6: "6 \<le> B" by (simp add: B_def)
  have rd: "length (fst (frame_read cw (prx 0) ?fc ?start ?count lf st')) \<le> B"
    if "modbusSlvChkFrame ?fc ?start ?count lf = 0" "?fc = 3 \<or> ?fc = 4" for st'
  proof -
    have "?count \<le> (if lf then 1024 else 125)"
      using that by (auto simp: modbusSlvChkFrame_def not_less split: if_splits)
    then have "unat ?count \<le> (if lf then 1024 else 125)"
      by (simp add: word_le_nat_alt split: if_splits)
    then show ?thesis
      by (auto simp: B_def frame_read_def makeExceptFrame_def readMem2_def readMem_def readMem4_def
          readMem3_def readMem4_m3_def readMem3_m3_def readMemSmp_def long_len_def short_len_def
          meter_words_def Let_def split: if_splits)
  qed
  have w1: "length (fst (frame_write1 (prx 0) ?fc ?start ?count st')) \<le> B" for st'
    using B6 by (simp add: frame_write1_def makeExceptFrame_def echo_def split: option.split)
  have wn: "length (fst (frame_write_block (prx 0) ?fc ?start ?count src st')) \<le> B" for src st'
    using B6 by (simp add: frame_write_block_def makeExceptFrame_def echo_def split: option.split)
  have "length (fst (modbusSlvProcFrame cw prx lf st)) \<le> B"
  proof (cases "modbusSlvChkFrame ?fc ?start ?count lf = 0")
    case True
    consider "?fc = 3 \<or> ?fc = 4" | "?fc = 6" | "?fc = 16" | "?fc \<notin> {3, 4, 6, 16}" by blast
    then show ?thesis
    proof cases
      case 1
      then show ?thesis using True rd [OF True 1] by (simp add: modbusSlvProcFrame_def Let_def)
    next
      case 2
      then show ?thesis using True w1 by (simp add: modbusSlvProcFrame_def Let_def)
    next
      case 3
      then show ?thesis using True wn by (simp add: modbusSlvProcFrame_def Let_def)
    next
      case 4
      then show ?thesis using True B6 by (simp add: modbusSlvProcFrame_def Let_def)
    qed
  next
    case False
    then show ?thesis using B6
      by (simp add: modbusSlvProcFrame_def Let_def makeExceptFrame_def word_neq_0_conv)
  qed
  then show ?thesis by (simp add: B_def)
qed

lemma reply_bound: "length (fst (modbusSlvProcFrame cw prx False st)) \<le> 253"
  using reply_size [of cw prx False st] by simp

text \<open>A reply always fits its buffer: at most 253 bytes for a serial frame, which leaves
  room for the CRC in the 256-byte transmit buffer, and at most 2052 with long frames.\<close>

theorem reply_size_bounded:
  "length (fst (modbusSlvProcFrame cw prx lf st)) \<le> (if lf then 2052 else 253)"
  by (rule reply_size)

text \<open>Publishing a snapshot is atomic for the readers: afterwards every measurement
  register reads as the live value at the moment of publication, the buffer a reader may have
  been copying from is untouched, and no other meter's snapshot changes.\<close>

theorem publish_is_atomic:
  assumes "mid < 3" "unat off < 240"
  shows "read_word mid off (publishMeterSnap (int mid) st) = mb_reg st mid (unat off) \<and>
    mb_snapbuf (publishMeterSnap (int mid) st) mid (mb_snap st mid) = mb_snapbuf st mid (mb_snap st mid) \<and>
    (other \<noteq> mid \<longrightarrow> read_word other off (publishMeterSnap (int mid) st) = read_word other off st)"
  using assms by (auto simp: publishMeterSnap_def read_word_def meter_reg_def u16_cmp Let_def)

theorem publish_is_atomic_witness:
  "read_word 1 17 (publishMeterSnap (int 1) mb_start) = mb_reg mb_start 1 (unat (17 :: u16)) \<and>
    mb_snapbuf (publishMeterSnap (int 1) mb_start) 1 (mb_snap mb_start 1) =
      mb_snapbuf mb_start 1 (mb_snap mb_start 1) \<and>
    ((2::nat) \<noteq> 1 \<longrightarrow>
      read_word 2 17 (publishMeterSnap (int 1) mb_start) = read_word 2 17 mb_start)"
  by (rule publish_is_atomic) simp_all

end
