(* ===== verification/SmbRtu.thy ===== *)
theory SmbRtu
  imports Modbus Crc
begin

text \<open>
  The serial Modbus receiver (\<open>smb\<close>, \<open>smb_rtu.c\<close>): a state machine that is polled every ten
  milliseconds with the characters received since, collects a frame in \<open>rxbuf\<close>, checks its
  CRC, runs the frame handler and sends the sealed reply. State 0 waits for the own address,
  1 for the function code, 2 for the byte count of a block write, 3 for the rest. Storing a
  character behind the 300 bytes of \<open>rxbuf\<close> is the outcome \<open>None\<close>.
\<close>

record smb_rx =
  rx_st :: nat
  rx_ix :: nat
  rx_len :: nat
  rx_timer :: int
  rx_buf :: bytes

record smb_state =
  sm_rx :: smb_rx
  sm_mb :: mb
  sm_sent :: "bytes list"

definition getBaudrate :: "int \<Rightarrow> nat" where
  "getBaudrate ix =
     (if ix \<ge> 0 \<and> ix < 5 then [9600, 19200, 38400, 57600, 115200] ! nat ix else 9600)"

definition rx_store :: "u8 \<Rightarrow> smb_rx \<Rightarrow> smb_rx option" where
  "rx_store c r =
     (if rx_ix r < length (rx_buf r)
      then Some (r\<lparr>rx_buf := (rx_buf r)[rx_ix r := c], rx_ix := rx_ix r + 1\<rparr>) else None)"

definition send_reply :: "u8 \<Rightarrow> bytes \<Rightarrow> bytes list" where
  "send_reply addr reply = (if reply = [] then [] else [seal16 (reply[0 := addr])])"

definition smb_frame :: "(nat \<Rightarrow> regs \<Rightarrow> regs) \<Rightarrow> smb_state \<Rightarrow> smb_state" where
  "smb_frame copyWave s =
     (let r = sm_rx s; idle = r\<lparr>rx_timer := 0, rx_st := 0\<rparr>
      in if gencrc_modbus (take (rx_len r) (rx_buf r)) \<noteq> 0 then s\<lparr>sm_rx := idle\<rparr>
         else let (reply, m) = modbusSlvProcFrame copyWave (frame_at (rx_buf r)) False (sm_mb s)
              in s\<lparr>sm_rx := idle, sm_mb := m, sm_sent := sm_sent s @ send_reply (rx_buf r ! 0) reply\<rparr>)"

definition smb_char :: "(nat \<Rightarrow> regs \<Rightarrow> regs) \<Rightarrow> nat \<Rightarrow> u8 \<Rightarrow> smb_state \<Rightarrow> smb_state option" where
  "smb_char copyWave devId inchar s =
     (let r = sm_rx s
      in if rx_st r = 0 then
           (if unat inchar = devId
            then map_option (\<lambda>r'. s\<lparr>sm_rx := r'\<lparr>rx_timer := 5, rx_st := 1\<rparr>\<rparr>)
                   (rx_store inchar (r\<lparr>rx_ix := 0\<rparr>))
            else Some s)
         else if rx_st r = 1 then
           (if inchar \<ge> 1 \<and> inchar \<le> 6
            then map_option (\<lambda>r'. s\<lparr>sm_rx := r'\<lparr>rx_len := 8, rx_st := 3\<rparr>\<rparr>) (rx_store inchar r)
            else if inchar = 15 \<or> inchar = 16
            then map_option (\<lambda>r'. s\<lparr>sm_rx := r'\<lparr>rx_st := 2\<rparr>\<rparr>) (rx_store inchar r)
            else Some (s\<lparr>sm_rx := r\<lparr>rx_st := 0, rx_timer := 0\<rparr>\<rparr>))
         else if rx_st r = 2 then
           map_option (\<lambda>r'. s\<lparr>sm_rx :=
               (if rx_ix r' = 7 then r'\<lparr>rx_len := unat inchar + 9, rx_timer := 20, rx_st := 3\<rparr>
                else r')\<rparr>)
             (rx_store inchar r)
         else if rx_st r = 3 then
           map_option (\<lambda>r'. if rx_ix r' \<ge> rx_len r' then smb_frame copyWave (s\<lparr>sm_rx := r'\<rparr>)
                            else s\<lparr>sm_rx := r'\<rparr>)
             (rx_store inchar r)
         else Some s)"

fun smb_chars :: "(nat \<Rightarrow> regs \<Rightarrow> regs) \<Rightarrow> nat \<Rightarrow> bytes \<Rightarrow> smb_state \<Rightarrow> smb_state option" where
  "smb_chars copyWave devId [] s = Some s"
| "smb_chars copyWave devId (c # cs) s =
     (case smb_char copyWave devId c s of None \<Rightarrow> None | Some s' \<Rightarrow> smb_chars copyWave devId cs s')"

definition smb_tick :: "smb_state \<Rightarrow> smb_state" where
  "smb_tick s =
     (let r = sm_rx s
      in if rx_st r > 0
         then s\<lparr>sm_rx := (let r1 = r\<lparr>rx_timer := rx_timer r - 1\<rparr>
                          in if rx_timer r1 = 0 then r1\<lparr>rx_st := 0\<rparr> else r1)\<rparr>
         else s)"

definition smb :: "(nat \<Rightarrow> regs \<Rightarrow> regs) \<Rightarrow> nat \<Rightarrow> bytes \<Rightarrow> smb_state \<Rightarrow> smb_state option" where
  "smb copyWave devId buf s = map_option smb_tick (smb_chars copyWave devId buf s)"

subsection \<open>The receiver's invariant\<close>

definition rx_ok :: "smb_rx \<Rightarrow> bool" where
  "rx_ok r \<longleftrightarrow> length (rx_buf r) = 300 \<and>
     (rx_st r = 0 \<or>
      0 < rx_timer r \<and> rx_timer r \<le> 20 \<and>
      (rx_st r = 1 \<and> rx_ix r = 1 \<or>
       rx_st r = 2 \<and> 2 \<le> rx_ix r \<and> rx_ix r < 7 \<or>
       rx_st r = 3 \<and> 2 \<le> rx_ix r \<and> rx_ix r < rx_len r \<and> 8 \<le> rx_len r \<and> rx_len r \<le> 264))"

lemma unat_u8: "unat (c :: u8) < 256"
  using unsigned_less [of c] by simp

lemma smb_frame_ok: "length (rx_buf (sm_rx s)) = 300 \<Longrightarrow> rx_ok (sm_rx (smb_frame cw s))"
  by (simp add: smb_frame_def rx_ok_def Let_def split_def)

lemma smb_char_ok:
  assumes "rx_ok (sm_rx s)"
  shows "\<exists>s'. smb_char cw devId c s = Some s' \<and> rx_ok (sm_rx s')"
proof -
  let ?r = "sm_rx s"
  have len: "length (rx_buf ?r) = 300" using assms by (simp add: rx_ok_def)
  consider "rx_st ?r = 0" | "rx_st ?r = 1" | "rx_st ?r = 2" | "rx_st ?r = 3"
    using assms by (auto simp: rx_ok_def)
  then show ?thesis
  proof cases
    case 1
    then show ?thesis using len by (auto simp: smb_char_def rx_store_def rx_ok_def Let_def)
  next
    case 2
    then show ?thesis using assms len by (auto simp: smb_char_def rx_store_def rx_ok_def Let_def)
  next
    case 3
    then show ?thesis using assms len unat_u8 [of c]
      by (auto simp: smb_char_def rx_store_def rx_ok_def Let_def)
  next
    case 4
    then have "rx_ix ?r < 300" using assms by (simp add: rx_ok_def)
    then obtain r' where r': "rx_store c ?r = Some r'" "length (rx_buf r') = 300"
      "rx_ix r' = rx_ix ?r + 1" "rx_len r' = rx_len ?r" "rx_st r' = 3" "rx_timer r' = rx_timer ?r"
      using len 4 by (auto simp: rx_store_def)
    then show ?thesis
      using assms 4 smb_frame_ok [of "s\<lparr>sm_rx := r'\<rparr>" cw]
      by (auto simp: smb_char_def rx_ok_def Let_def)
  qed
qed

lemma smb_chars_ok:
  "rx_ok (sm_rx s) \<Longrightarrow> \<exists>s'. smb_chars cw devId cs s = Some s' \<and> rx_ok (sm_rx s')"
proof (induction cs arbitrary: s)
  case (Cons c cs)
  then obtain s1 where "smb_char cw devId c s = Some s1" "rx_ok (sm_rx s1)"
    using smb_char_ok by blast
  then show ?case using Cons.IH by simp
qed simp

lemma smb_tick_ok: "rx_ok (sm_rx s) \<Longrightarrow> rx_ok (sm_rx (smb_tick s))"
  by (auto simp: smb_tick_def rx_ok_def Let_def)

text \<open>C9. Whatever arrives on the line, in whatever portions, the receiver never stores
  behind its 300-byte buffer and keeps its invariant: a frame that is being collected has
  at most 264 bytes and a running time-out of at most 20 polls.\<close>

theorem smb_never_overruns:
  assumes "rx_ok (sm_rx s)"
  shows "\<exists>s'. smb cw devId buf s = Some s' \<and> rx_ok (sm_rx s')"
  using smb_chars_ok [OF assms, of cw devId buf] smb_tick_ok by (auto simp: smb_def)

definition smb_idle :: "mb \<Rightarrow> smb_state" where
  "smb_idle m = \<lparr>sm_rx = \<lparr>rx_st = 0, rx_ix = 0, rx_len = 0, rx_timer = 0, rx_buf = replicate 300 0\<rparr>,
     sm_mb = m, sm_sent = []\<rparr>"

theorem smb_never_overruns_witness:
  "\<exists>s'. smb (\<lambda>_ r. r) 1 (replicate 600 1) (smb_idle mb_start) = Some s' \<and> rx_ok (sm_rx s')"
  by (rule smb_never_overruns) (simp add: smb_idle_def rx_ok_def)

subsection \<open>Whole frames\<close>

lemma smb_chars_append:
  "smb_chars cw d (xs @ ys) s = (case smb_chars cw d xs s of None \<Rightarrow> None | Some s' \<Rightarrow> smb_chars cw d ys s')"
  by (induction xs arbitrary: s) (auto split: option.split)

abbreviation rx_at :: "nat \<Rightarrow> nat \<Rightarrow> nat \<Rightarrow> int \<Rightarrow> bytes \<Rightarrow> smb_rx" where
  "rx_at st ix len t buf \<equiv> \<lparr>rx_st = st, rx_ix = ix, rx_len = len, rx_timer = t, rx_buf = buf\<rparr>"

lemma smb_chars_collect:
  "cs \<noteq> [] \<Longrightarrow> i + length cs = n \<Longrightarrow> n \<le> length buf \<Longrightarrow>
    smb_chars cw d cs (s\<lparr>sm_rx := rx_at 3 i n t buf\<rparr>) =
      Some (smb_frame cw (s\<lparr>sm_rx := rx_at 3 n n t (take i buf @ cs @ drop n buf)\<rparr>))"
proof (induction cs arbitrary: i buf)
  case (Cons c cs)
  have upd: "buf[i := c] = take i buf @ c # drop (Suc i) buf"
    using Cons.prems by (simp add: upd_conv_take_nth_drop)
  show ?case
  proof (cases "cs = []")
    case True
    then have "n = Suc i" using Cons.prems by simp
    then show ?thesis using Cons.prems True upd
      by (simp add: smb_char_def rx_store_def)
  next
    case False
    then have lt: "\<not> n \<le> Suc i" using Cons.prems by (cases cs) auto
    then have "smb_char cw d c (s\<lparr>sm_rx := rx_at 3 i n t buf\<rparr>) =
        Some (s\<lparr>sm_rx := rx_at 3 (Suc i) n t (buf[i := c])\<rparr>)"
      using Cons.prems by (simp add: smb_char_def rx_store_def)
    moreover have "take (Suc i) (buf[i := c]) = take i buf @ [c]" "drop n (buf[i := c]) = drop n buf"
      using Cons.prems by (simp_all add: take_Suc_conv_app_nth)
    ultimately show ?thesis
      using Cons.IH [of "Suc i" "buf[i := c]"] Cons.prems False by simp
  qed
qed simp

text \<open>The shape of a request the receiver accepts.\<close>

definition request_for :: "nat \<Rightarrow> bytes \<Rightarrow> bool" where
  "request_for devId req \<longleftrightarrow> 8 \<le> length req \<and> unat (req ! 0) = devId \<and>
     (1 \<le> req ! 1 \<and> req ! 1 \<le> 6 \<and> length req = 8 \<or>
      (req ! 1 = 15 \<or> req ! 1 = 16) \<and> length req = unat (req ! 6) + 9)"

lemma smb_char_addr:
  "rx_st (sm_rx s) = 0 \<Longrightarrow> 0 < length (rx_buf (sm_rx s)) \<Longrightarrow> unat a = d \<Longrightarrow>
    smb_char cw d a s =
      Some (s\<lparr>sm_rx := rx_at 1 1 (rx_len (sm_rx s)) 5 ((rx_buf (sm_rx s))[0 := a])\<rparr>)"
  by (cases "sm_rx s") (simp add: smb_char_def rx_store_def)

lemma smb_char_fc:
  "1 < length buf \<Longrightarrow> 1 \<le> b \<Longrightarrow> b \<le> 6 \<Longrightarrow>
    smb_char cw d b (s\<lparr>sm_rx := rx_at 1 1 n t buf\<rparr>) = Some (s\<lparr>sm_rx := rx_at 3 2 8 t (buf[1 := b])\<rparr>)"
  "1 < length buf \<Longrightarrow> b = 15 \<or> b = 16 \<Longrightarrow>
    smb_char cw d b (s\<lparr>sm_rx := rx_at 1 1 n t buf\<rparr>) = Some (s\<lparr>sm_rx := rx_at 2 2 n t (buf[1 := b])\<rparr>)"
  by (auto simp: smb_char_def rx_store_def)

lemma smb_char_header:
  "i < length buf \<Longrightarrow> i < 6 \<Longrightarrow>
    smb_char cw d c (s\<lparr>sm_rx := rx_at 2 i n t buf\<rparr>) = Some (s\<lparr>sm_rx := rx_at 2 (Suc i) n t (buf[i := c])\<rparr>)"
  "6 < length buf \<Longrightarrow>
    smb_char cw d c (s\<lparr>sm_rx := rx_at 2 6 n t buf\<rparr>) =
      Some (s\<lparr>sm_rx := rx_at 3 7 (unat c + 9) 20 (buf[6 := c])\<rparr>)"
  by (simp_all add: smb_char_def rx_store_def)

lemma smb_start:
  assumes "rx_st (sm_rx s) = 0" "length (rx_buf (sm_rx s)) = 300" "request_for devId req"
  shows "\<exists>t. smb_chars cw devId req s =
      Some (smb_frame cw (s\<lparr>sm_rx := rx_at 3 (length req) (length req) t
        (req @ drop (length req) (rx_buf (sm_rx s)))\<rparr>))"
proof -
  obtain a b cs where req: "req = a # b # cs"
    using assms(3) by (auto simp: request_for_def numeral_eq_Suc Suc_le_length_iff)
  obtain x y buf where buf: "rx_buf (sm_rx s) = x # y # buf" "length buf = 298"
    using assms(2) by (cases "rx_buf (sm_rx s)"; cases "tl (rx_buf (sm_rx s))") auto
  have dev: "unat a = devId" using assms(3) req by (simp add: request_for_def)
  let ?n = "rx_len (sm_rx s)"
  have c1: "smb_char cw devId a s = Some (s\<lparr>sm_rx := rx_at 1 1 ?n 5 (a # y # buf)\<rparr>)"
    using smb_char_addr [of s a devId cw] assms(1) dev buf by simp
  consider (short) "1 \<le> b" "b \<le> 6" "length cs = 6"
    | (long) "b = 15 \<or> b = 16" "length cs = unat (cs ! 4) + 7"
    using assms(3) req by (auto simp: request_for_def)
  then show ?thesis
  proof cases
    case short
    have c2: "smb_char cw devId b (s\<lparr>sm_rx := rx_at 1 1 ?n 5 (a # y # buf)\<rparr>) =
        Some (s\<lparr>sm_rx := rx_at 3 2 8 5 (a # b # buf)\<rparr>)"
      using short buf by (simp add: smb_char_fc [simplified])
    have "cs \<noteq> []" using short by auto
    then have "smb_chars cw devId cs (s\<lparr>sm_rx := rx_at 3 2 8 5 (a # b # buf)\<rparr>) =
        Some (smb_frame cw (s\<lparr>sm_rx := rx_at 3 8 8 5 (a # b # cs @ drop 6 buf)\<rparr>))"
      using smb_chars_collect [of cs 2 8 "a # b # buf" cw devId 5 s] short buf by auto
    then show ?thesis using c1 c2 short buf req by auto
  next
    case long
    then have "7 \<le> length cs" by simp
    then obtain p q u v w ds where cs: "cs = p # q # u # v # w # ds"
      by (auto simp: numeral_eq_Suc Suc_le_length_iff)
    then have ds: "length ds = unat w + 2" using long by simp
    have "5 \<le> length buf" using buf(2) by simp
    then obtain x1 x2 x3 x4 x5 bf where bf1: "buf = x1 # x2 # x3 # x4 # x5 # bf"
      by (auto simp: numeral_eq_Suc Suc_le_length_iff)
    then have bf: "buf = x1 # x2 # x3 # x4 # x5 # bf" "length bf = 293" using buf(2) by simp_all
    have c2: "smb_char cw devId b (s\<lparr>sm_rx := rx_at 1 1 ?n 5 (a # y # buf)\<rparr>) =
        Some (s\<lparr>sm_rx := rx_at 2 2 ?n 5 (a # b # buf)\<rparr>)"
      using long buf by (simp add: smb_char_fc [simplified])
    have c3: "smb_chars cw devId cs (s\<lparr>sm_rx := rx_at 2 2 ?n 5 (a # b # buf)\<rparr>) =
        smb_chars cw devId ds (s\<lparr>sm_rx := rx_at 3 7 (unat w + 9) 20 (a # b # p # q # u # v # w # bf)\<rparr>)"
      using bf by (simp add: cs smb_char_header)
    have n9: "unat w + 9 = Suc (Suc (Suc (Suc (Suc (Suc (Suc (unat w + 2)))))))" by simp
    have "drop (unat w + 9) (a # b # p # q # u # v # w # bf) = drop (unat w + 2) bf"
      by (simp only: n9 drop_Suc_Cons)
    moreover have "ds \<noteq> []" "unat w + 9 \<le> length (a # b # p # q # u # v # w # bf)"
      "7 + length ds = unat w + 9"
      using ds bf unat_u8 [of w] by auto
    ultimately have "smb_chars cw devId ds (s\<lparr>sm_rx := rx_at 3 7 (unat w + 9) 20 (a # b # p # q # u # v # w # bf)\<rparr>) =
        Some (smb_frame cw (s\<lparr>sm_rx := rx_at 3 (unat w + 9) (unat w + 9) 20
          (a # b # p # q # u # v # w # ds @ drop (unat w + 2) bf)\<rparr>))"
      using smb_chars_collect [of ds 7 "unat w + 9" "a # b # p # q # u # v # w # bf" cw devId 20 s]
      by simp
    moreover have len: "length req = unat w + 9" using req cs ds by simp
    moreover have "drop (length req) (rx_buf (sm_rx s)) = drop (unat w + 2) bf"
      by (simp only: len buf bf n9 drop_Suc_Cons)
    ultimately have "smb_chars cw devId req s = Some (smb_frame cw (s\<lparr>sm_rx :=
        rx_at 3 (unat w + 9) (unat w + 9) 20 (req @ drop (length req) (rx_buf (sm_rx s)))\<rparr>))"
      using c1 c2 c3 cs req bf by (simp del: add_2_eq_Suc' add_2_eq_Suc)
    then have "smb_chars cw devId req s = Some (smb_frame cw (s\<lparr>sm_rx :=
        rx_at 3 (length req) (length req) 20 (req @ drop (length req) (rx_buf (sm_rx s)))\<rparr>))"
      by (simp only: len)
    then show ?thesis by blast
  qed
qed

text \<open>
  \<open>served\<close> is what one request does to the meter and to the line: the frame handler's state,
  and its reply, if there is one, under a fresh CRC. The handler sees the request followed by
  what the receive buffer held behind it.
\<close>

definition served ::
  "(nat \<Rightarrow> regs \<Rightarrow> regs) \<Rightarrow> bytes \<Rightarrow> bytes \<Rightarrow> smb_state \<Rightarrow> mb \<times> bytes list" where
  "served cw req stale s =
     (let (reply, m) = modbusSlvProcFrame cw (frame_at (req @ stale)) False (sm_mb s)
      in (m, sm_sent s @ (if reply = [] then [] else [seal16 (req ! 0 # tl reply)])))"

lemma smb_idle_tick: "rx_st (sm_rx s) = 0 \<Longrightarrow> smb_tick s = s"
  by (simp add: smb_tick_def)

lemma smb_frame_idle: "rx_st (sm_rx (smb_frame cw s)) = 0"
  by (simp add: smb_frame_def Let_def split_def)

lemma smb_request:
  assumes "rx_st (sm_rx s) = 0" "length (rx_buf (sm_rx s)) = 300" "request_for devId req"
  shows "\<exists>s'. smb cw devId req s = Some s' \<and> rx_st (sm_rx s') = 0 \<and>
    (sm_mb s', sm_sent s') =
      (if gencrc_modbus req = 0 then served cw req (drop (length req) (rx_buf (sm_rx s))) s
       else (sm_mb s, sm_sent s))"
proof -
  obtain t where run: "smb_chars cw devId req s =
      Some (smb_frame cw (s\<lparr>sm_rx := rx_at 3 (length req) (length req) t
        (req @ drop (length req) (rx_buf (sm_rx s)))\<rparr>))"
    using smb_start [OF assms] by blast
  have ne: "req \<noteq> []" using assms(3) by (auto simp: request_for_def)
  have head: "xs[0 := v] = v # tl xs" if "xs \<noteq> []" for xs :: bytes and v using that by (cases xs) auto
  show ?thesis
    using ne by (simp add: smb_def run smb_idle_tick smb_frame_idle)
      (simp add: smb_frame_def served_def send_reply_def Let_def split_def head nth_append)
qed

text \<open>
  A request that comes in over several polls: the time-out starts at five polls with the address,
  so the run over its pieces differs from the run over the whole only in the time-out.
\<close>

fun smb_polls :: "(nat \<Rightarrow> regs \<Rightarrow> regs) \<Rightarrow> nat \<Rightarrow> bytes list \<Rightarrow> smb_state \<Rightarrow> smb_state option" where
  "smb_polls cw devId [] s = Some s"
| "smb_polls cw devId (p # ps) s = (case smb cw devId p s of None \<Rightarrow> None | Some s' \<Rightarrow> smb_polls cw devId ps s')"

definition timed :: "int \<Rightarrow> smb_state \<Rightarrow> smb_state" where
  "timed t s = s\<lparr>sm_rx := (sm_rx s)\<lparr>rx_timer := t\<rparr>\<rparr>"

definition in_time :: "nat \<Rightarrow> int \<Rightarrow> smb_state \<Rightarrow> bool" where
  "in_time n t s \<longleftrightarrow> rx_st (sm_rx s) = 0 \<or> int n \<le> t"

lemma timed_simps [simp]:
  "rx_st (sm_rx (timed t s)) = rx_st (sm_rx s)" "rx_timer (sm_rx (timed t s)) = t" "sm_mb (timed t s) = sm_mb s"
  "sm_sent (timed t s) = sm_sent s"
  by (simp_all add: timed_def)

lemma timed_self: "timed (rx_timer (sm_rx s)) s = s" by (simp add: timed_def)

lemma smb_frame_timed: "smb_frame cw (s\<lparr>sm_rx := r\<lparr>rx_timer := t\<rparr>\<rparr>) = smb_frame cw (s\<lparr>sm_rx := r\<rparr>)"
  by (simp add: smb_frame_def Let_def split_def)

lemma rx_store_timed: "rx_store c (r\<lparr>rx_timer := t\<rparr>) = map_option (\<lambda>r'. r'\<lparr>rx_timer := t\<rparr>) (rx_store c r)"
  by (cases r) (simp add: rx_store_def)

lemma smb_char_timed:
  assumes "smb_char cw d c s = Some s1" "in_time n t s" "n \<le> 5"
  shows "\<exists>t1. smb_char cw d c (timed t s) = Some (timed t1 s1) \<and> in_time n t1 s1"
proof -
  obtain r where r: "sm_rx s = r" by simp
  consider "rx_st r = 0" "unat c = d" | "rx_st r = 0" "unat c \<noteq> d" | "rx_st r = 1" | "rx_st r = 2" | "rx_st r = 3" | "3 < rx_st r"
    by linarith
  then show ?thesis
  proof cases
    case 1
    then show ?thesis using assms r
      by (intro exI [of _ 5]) (auto simp: smb_char_def timed_def in_time_def rx_store_def Let_def split: if_splits)
  next
    case 2
    then show ?thesis using assms r by (intro exI [of _ t]) (auto simp: smb_char_def timed_def in_time_def Let_def)
  next
    case 3
    show ?thesis
    proof (cases "c \<ge> 1 \<and> c \<le> 6 \<or> c = 15 \<or> c = 16")
      case True
      then show ?thesis using 3 assms r
        by (intro exI [of _ t]) (auto simp: smb_char_def timed_def in_time_def rx_store_def Let_def split: if_splits)
    next
      case False
      then show ?thesis using 3 assms r
        by (intro exI [of _ 0]) (auto simp: smb_char_def timed_def in_time_def Let_def)
    qed
  next
    case 4
    then show ?thesis using assms r
      by (intro exI [of _ "if rx_ix r + 1 = 7 then 20 else t"])
        (auto simp: smb_char_def timed_def in_time_def rx_store_def Let_def split: if_splits)
  next
    case 5
    obtain r' where r': "rx_store c r = Some r'" using assms(1) 5 r by (auto simp: smb_char_def Let_def)
    then have st: "rx_st r' = 3" using 5 by (auto simp: rx_store_def split: if_splits)
    have s1: "s1 = (if rx_ix r' \<ge> rx_len r' then smb_frame cw (s\<lparr>sm_rx := r'\<rparr>) else s\<lparr>sm_rx := r'\<rparr>)"
      using assms(1) 5 r r' by (simp add: smb_char_def Let_def)
    have "smb_char cw d c (timed t s) =
        Some (if rx_ix r' \<ge> rx_len r' then smb_frame cw (s\<lparr>sm_rx := r'\<rparr>) else timed t (s\<lparr>sm_rx := r'\<rparr>))"
      using 5 r r' by (simp add: smb_char_def timed_def rx_store_timed smb_frame_timed Let_def)
    moreover have "in_time n t (s\<lparr>sm_rx := r'\<rparr>)" using assms(2) r 5 st by (simp add: in_time_def)
    moreover have "in_time n u (smb_frame cw (s\<lparr>sm_rx := r'\<rparr>))" for u by (simp add: in_time_def smb_frame_idle)
    ultimately show ?thesis unfolding s1 using timed_self [of "smb_frame cw (s\<lparr>sm_rx := r'\<rparr>)"]
      by (cases "rx_ix r' \<ge> rx_len r'") (auto intro: exI [of _ "rx_timer (sm_rx (smb_frame cw (s\<lparr>sm_rx := r'\<rparr>)))"])
  next
    case 6
    then show ?thesis using assms r by (intro exI [of _ t]) (auto simp: smb_char_def timed_def in_time_def Let_def)
  qed
qed

lemma smb_chars_timed:
  "smb_chars cw d cs s = Some s1 \<Longrightarrow> in_time n t s \<Longrightarrow> n \<le> 5 \<Longrightarrow>
    \<exists>t1. smb_chars cw d cs (timed t s) = Some (timed t1 s1) \<and> in_time n t1 s1"
proof (induction cs arbitrary: s t)
  case (Cons c cs)
  obtain s2 where s2: "smb_char cw d c s = Some s2" "smb_chars cw d cs s2 = Some s1"
    using Cons.prems(1) by (auto split: option.splits)
  obtain t2 where "smb_char cw d c (timed t s) = Some (timed t2 s2)" "in_time n t2 s2"
    using smb_char_timed [OF s2(1) Cons.prems(2,3)] by blast
  then show ?case using Cons.IH [OF s2(2) _ Cons.prems(3)] by auto
qed auto

lemma smb_polls_pieces:
  "smb_chars cw d (concat ps) s = Some s1 \<Longrightarrow> rx_st (sm_rx s1) = 0 \<Longrightarrow> in_time (length ps) t s \<Longrightarrow> length ps \<le> 5 \<Longrightarrow>
    \<exists>t1. smb_polls cw d ps (timed t s) = Some (timed t1 s1)"
proof (induction ps arbitrary: s t)
  case (Cons p ps)
  obtain s2 where s2: "smb_chars cw d p s = Some s2" "smb_chars cw d (concat ps) s2 = Some s1"
    using Cons.prems(1) by (auto simp: smb_chars_append split: option.splits)
  obtain t2 where t2: "smb_chars cw d p (timed t s) = Some (timed t2 s2)" "in_time (length (p # ps)) t2 s2"
    using smb_chars_timed [OF s2(1) Cons.prems(3,4)] by blast
  have smb: "smb cw d p (timed t s) = Some (smb_tick (timed t2 s2))" by (simp add: smb_def t2(1))
  show ?case
  proof (cases "rx_st (sm_rx s2) = 0")
    case True
    then have "smb_tick (timed t2 s2) = timed t2 s2" by (simp add: smb_idle_tick)
    moreover have "in_time (length ps) t2 s2" using True by (simp add: in_time_def)
    ultimately show ?thesis using Cons.IH [OF s2(2) Cons.prems(2)] Cons.prems(4) smb by simp
  next
    case False
    then have t: "int (length ps) + 1 \<le> t2" using t2(2) by (simp add: in_time_def)
    have "ps \<noteq> []" using False s2(2) Cons.prems(2) by auto
    then have "t2 - 1 \<noteq> 0" using t by (cases ps) auto
    then have "smb_tick (timed t2 s2) = timed (t2 - 1) s2" using False by (simp add: smb_tick_def timed_def Let_def)
    moreover have "in_time (length ps) (t2 - 1) s2" using t by (simp add: in_time_def)
    ultimately show ?thesis using Cons.IH [OF s2(2) Cons.prems(2)] Cons.prems(4) smb by simp
  qed
qed auto

lemma frame_answers:
  "mb_ready st \<Longrightarrow> fst (modbusSlvProcFrame cw prx lf st) \<noteq> []"
  "\<not> mb_ready st \<Longrightarrow> modbusSlvProcFrame cw prx lf st = ([], count_rx st)"
  by (auto simp: modbusSlvProcFrame_def frame_read_def frame_write1_def frame_write_block_def echo_def makeExceptFrame_def
      Let_def split: prod.split option.split)

text \<open>C10. The serial port serves every well-formed request exactly once: an eight-byte request
  (or a block write as long as its byte count says) with the own address and a valid CRC,
  received in the idle state in any pieces over at most five polls, runs the frame handler once on it; the receiver
  is idle again afterwards. When the meters are ready exactly one reply is sent, with the request's address and a
  CRC of its own; while they are not ready nothing is sent and nothing but the count of
  received requests changes.\<close>

theorem smb_serves_request:
  assumes "rx_ok (sm_rx s)" "rx_st (sm_rx s) = 0" "request_for devId req" "gencrc_modbus req = 0"
    and "concat pieces = req" "length pieces \<le> 5"
    and "modbusSlvProcFrame cw (frame_at (req @ drop (length req) (rx_buf (sm_rx s)))) False (sm_mb s) = (reply, m)"
  shows "\<exists>s'. smb_polls cw devId pieces s = Some s' \<and> rx_st (sm_rx s') = 0 \<and> sm_mb s' = m \<and>
    (if mb_ready (sm_mb s) then reply \<noteq> [] \<and> sm_sent s' = sm_sent s @ [seal16 (req ! 0 # tl reply)]
     else m = count_rx (sm_mb s) \<and> sm_sent s' = sm_sent s)"
proof -
  have len: "length (rx_buf (sm_rx s)) = 300" using assms(1) by (simp add: rx_ok_def)
  obtain t where run: "smb_chars cw devId req s =
      Some (smb_frame cw (s\<lparr>sm_rx := rx_at 3 (length req) (length req) t (req @ drop (length req) (rx_buf (sm_rx s)))\<rparr>))"
      (is "_ = Some ?s1")
    using smb_start [OF assms(2) len assms(3)] by blast
  have idle: "rx_st (sm_rx ?s1) = 0" by (rule smb_frame_idle)
  have "in_time (length pieces) (rx_timer (sm_rx s)) s" using assms(2) by (simp add: in_time_def)
  then obtain t1 where polls: "smb_polls cw devId pieces s = Some (timed t1 ?s1)"
    using smb_polls_pieces [of cw devId pieces s ?s1] run idle assms(5,6) timed_self [of s] by metis
  obtain s' where s': "smb cw devId req s = Some s'" "(sm_mb s', sm_sent s') = served cw req (drop (length req) (rx_buf (sm_rx s))) s"
    using smb_request [OF assms(2) len assms(3), of cw] assms(4) by auto
  have "s' = ?s1" using s'(1) run smb_idle_tick [OF idle] by (simp add: smb_def)
  then have "(sm_mb ?s1, sm_sent ?s1) = (m, sm_sent s @ (if reply = [] then [] else [seal16 (req ! 0 # tl reply)]))"
    using s'(2) by (simp add: served_def assms(7))
  then show ?thesis
    using polls idle frame_answers [of "sm_mb s" cw "frame_at (req @ drop (length req) (rx_buf (sm_rx s)))" False] assms(7)
    by (intro exI [of _ "timed t1 ?s1"]) auto
qed

theorem smb_serves_request_witness:
  "\<exists>s' reply. smb_polls (\<lambda>_ r. r) 1 [[1, 3, 0], [], drop 3 (seal16 [1, 3, 0, 100, 0, 2])] (smb_idle mb_start) = Some s' \<and>
    rx_st (sm_rx s') = 0 \<and> sm_sent s' = [seal16 (1 # tl reply)]"
proof -
  let ?req = "seal16 [1, 3, 0, 100, 0, 2]"
  obtain reply m where r: "modbusSlvProcFrame (\<lambda>_ r. r) (frame_at (?req @ drop (length ?req) (rx_buf (sm_rx (smb_idle mb_start))))) False
      (sm_mb (smb_idle mb_start)) = (reply, m)" by (rule prod.exhaust)
  have "rx_ok (sm_rx (smb_idle mb_start))" "rx_st (sm_rx (smb_idle mb_start)) = 0" "request_for 1 ?req"
    by (simp_all add: smb_idle_def rx_ok_def request_for_def seal16_def)
  from smb_serves_request [OF this gencrc_modbus_seal _ _ r, of "[[1, 3, 0], [], drop 3 ?req]"]
  show ?thesis by (auto simp: smb_idle_def mb_start_def seal16_def)
qed

text \<open>A request with a damaged CRC does nothing: no register, queue or history changes,
  nothing is sent, and the receiver is ready for the next request.\<close>

theorem smb_ignores_damaged_request:
  assumes "rx_ok (sm_rx s)" "rx_st (sm_rx s) = 0" "request_for devId req" "gencrc_modbus req \<noteq> 0"
  shows "\<exists>s'. smb cw devId req s = Some s' \<and> rx_st (sm_rx s') = 0 \<and>
    sm_mb s' = sm_mb s \<and> sm_sent s' = sm_sent s"
  using smb_request [of s devId req cw] assms by (auto simp: rx_ok_def)

theorem smb_ignores_damaged_request_witness:
  "\<exists>s'. smb (\<lambda>_ r. r) 1 ([1, 6] @ [0x1e, 0x77] @ drop 4 (seal16 [1, 6, 0x1e, 0x76, 0x12, 0x34]))
      (smb_idle mb_start) = Some s' \<and> rx_st (sm_rx s') = 0 \<and>
    sm_mb s' = sm_mb (smb_idle mb_start) \<and> sm_sent s' = sm_sent (smb_idle mb_start)"
proof (rule smb_ignores_damaged_request)
  show "request_for 1 ([1, 6] @ [0x1e, 0x77] @ drop 4 (seal16 [1, 6, 0x1e, 0x76, 0x12, 0x34]))"
    by (simp add: request_for_def seal16_def)
  show "gencrc_modbus ([1, 6] @ [0x1e, 0x77] @ drop 4 (seal16 [1, 6, 0x1e, 0x76, 0x12, 0x34])) \<noteq> 0"
    using gencrc_modbus_two_bytes [of "[1, 6]" "0x1e" "0x77" "drop 4 (seal16 [1, 6, 0x1e, 0x76, 0x12, 0x34])" "0x1e" "0x76"]
      gencrc_modbus_seal [of "[1, 6, 0x1e, 0x76, 0x12, 0x34]"]
    by (simp add: seal16_def)
qed (simp_all add: smb_idle_def rx_ok_def)

text \<open>Polls that receive nothing.\<close>

fun smb_quiet :: "(nat \<Rightarrow> regs \<Rightarrow> regs) \<Rightarrow> nat \<Rightarrow> nat \<Rightarrow> smb_state \<Rightarrow> smb_state option" where
  "smb_quiet cw devId 0 s = Some s"
| "smb_quiet cw devId (Suc n) s =
     (case smb cw devId [] s of None \<Rightarrow> None | Some s' \<Rightarrow> smb_quiet cw devId n s')"

lemma smb_quiet_idle: "rx_st (sm_rx s) = 0 \<Longrightarrow> smb_quiet cw d n s = Some s"
  by (induction n) (simp_all add: smb_def smb_idle_tick)

lemma smb_quiet_timeout:
  "0 < rx_st (sm_rx s) \<Longrightarrow> 0 < rx_timer (sm_rx s) \<Longrightarrow> rx_timer (sm_rx s) \<le> int n \<Longrightarrow>
    \<exists>s'. smb_quiet cw d n s = Some s' \<and> rx_st (sm_rx s') = 0 \<and> sm_mb s' = sm_mb s \<and> sm_sent s' = sm_sent s"
proof (induction n arbitrary: s)
  case (Suc n)
  show ?case
  proof (cases "rx_timer (sm_rx s) = 1")
    case True
    then show ?thesis using Suc.prems
      by (simp add: smb_def smb_quiet_idle smb_tick_def Let_def)
  next
    case False
    then show ?thesis using Suc.prems Suc.IH [of "smb_tick s"]
      by (simp add: smb_def smb_tick_def Let_def)
  qed
qed simp

text \<open>A frame that is cut off cannot block the port: whatever the receiver is in the
  middle of, twenty polls without a character bring it back to the idle state, without a reply
  and without an effect on the meter.\<close>

theorem smb_recovers_from_cut_frame:
  assumes "rx_ok (sm_rx s)"
  shows "\<exists>s'. smb_quiet cw devId 20 s = Some s' \<and> rx_st (sm_rx s') = 0 \<and>
    sm_mb s' = sm_mb s \<and> sm_sent s' = sm_sent s"
proof (cases "rx_st (sm_rx s) = 0")
  case True
  then show ?thesis by (simp add: smb_quiet_idle)
next
  case False
  then show ?thesis using assms smb_quiet_timeout [of s 20 cw devId] by (simp add: rx_ok_def)
qed

theorem smb_recovers_from_cut_frame_witness:
  "\<exists>s'. smb_quiet (\<lambda>_ r. r) 1 20 ((smb_idle mb_start)\<lparr>sm_rx := rx_at 3 5 264 20 (replicate 300 1)\<rparr>) = Some s' \<and>
    rx_st (sm_rx s') = 0 \<and>
    sm_mb s' = sm_mb ((smb_idle mb_start)\<lparr>sm_rx := rx_at 3 5 264 20 (replicate 300 1)\<rparr>) \<and>
    sm_sent s' = sm_sent ((smb_idle mb_start)\<lparr>sm_rx := rx_at 3 5 264 20 (replicate 300 1)\<rparr>)"
  by (rule smb_recovers_from_cut_frame) (simp add: rx_ok_def)

end
