(* ===== verification/SmbTcp.thy ===== *)
theory SmbTcp
  imports Modbus
begin

text \<open>
  The Modbus/TCP server (\<open>smb_tcp.c\<close>): header check and reply framing, and the eight
  sessions that the stack's call-back and the polled loop \<open>smb_tcp\<close> share. The TCP stack is
  not part of the program: what it answers when asked for a socket's state, for room to send
  and for its buffer size is the record \<open>tcp_stack\<close>, and what the program asks of it is the
  list of \<open>net_call\<close>s. A call that would write behind a session's 300-byte buffers is the
  outcome \<open>None\<close>.
\<close>

subsection \<open>Frames\<close>

definition modbusSlvChkTcpHeader :: "(nat \<Rightarrow> u8) \<Rightarrow> nat \<Rightarrow> bool" where
  "modbusSlvChkTcpHeader pBuf nr =
     (let flen = unat (be16 (pBuf 4) (pBuf 5))
      in if nr < 6 then False else if flen \<noteq> nr - 6 then False else True)"

definition modbusMakeTcpFrame :: "(nat \<Rightarrow> u8) \<Rightarrow> bytes \<Rightarrow> bytes" where
  "modbusMakeTcpFrame prx pdu =
     (let len = of_nat (length pdu) in [prx 0, prx 1, prx 2, prx 3, hi8 len, lo8 len] @ pdu)"

text \<open>The result: the reply frame if there is one, the meter, and the bytes to send
  (\<open>*nw\<close>, unchanged when the header is refused).\<close>

definition smbTcpProc ::
  "(nat \<Rightarrow> regs \<Rightarrow> regs) \<Rightarrow> (nat \<Rightarrow> u8) \<Rightarrow> nat \<Rightarrow> bool \<Rightarrow> mb \<Rightarrow> bytes option \<times> mb" where
  "smbTcpProc cw prb nr longFrame m =
     (if modbusSlvChkTcpHeader prb nr
      then let (pdu, m') = modbusSlvProcFrame cw (\<lambda>i. prb (6 + i)) longFrame m
           in (if pdu \<noteq> [] then Some (modbusMakeTcpFrame prb pdu) else None, m')
      else (None, m))"

subsection \<open>Sessions\<close>

datatype sess_status = STATE_INIT | STATE_IDLE | STATE_ACTIVE

record session =
  ss_sock :: nat
  ss_status :: sess_status
  ss_pollTimer :: int
  ss_nr :: nat
  ss_nw :: nat
  ss_port :: nat
  ss_longFrame :: bool
  ss_rxb :: bytes

record tcp_stack =
  ts_closed :: "nat \<Rightarrow> bool"
  ts_check_send :: "nat \<Rightarrow> bool"
  ts_max_dsize :: "nat \<Rightarrow> nat"

datatype net_call = Listen nat nat | Send nat bytes

record tcp_state =
  tp_sess :: "session list"
  tp_mb :: mb
  tp_calls :: "net_call list"

abbreviation N_CONNECTION :: nat where "N_CONNECTION \<equiv> 8"
abbreviation TCP_BUF :: nat where "TCP_BUF \<equiv> 300"

fun map_session :: "session list \<Rightarrow> nat \<Rightarrow> nat option" where
  "map_session [] sock = None"
| "map_session (s # ss) sock =
     (if ss_sock s = sock then Some 0 else map_option Suc (map_session ss sock))"

definition kill_session :: "session \<Rightarrow> session" where
  "kill_session p = p\<lparr>ss_status := STATE_IDLE, ss_nr := 0, ss_nw := 0\<rparr>"

definition sessionTimer :: "session list \<Rightarrow> session list" where
  "sessionTimer ss = map (\<lambda>p. if ss_pollTimer p > 0 then p\<lparr>ss_pollTimer := ss_pollTimer p - 1\<rparr> else p) ss"

definition sendData :: "tcp_stack \<Rightarrow> session \<Rightarrow> bytes \<Rightarrow> net_call list" where
  "sendData net p txb =
     (if ts_check_send net (ss_sock p) \<and> ts_max_dsize net (ss_sock p) > length txb
      then [Send (ss_sock p) txb] else [])"

definition smb_tcp_one ::
  "(nat \<Rightarrow> regs \<Rightarrow> regs) \<Rightarrow> tcp_stack \<Rightarrow> session \<Rightarrow> mb \<Rightarrow> (session \<times> mb \<times> net_call list) option" where
  "smb_tcp_one cw net p m =
     (case ss_status p of
        STATE_IDLE \<Rightarrow>
          Some (p, m, if ts_closed net (ss_sock p) then [Listen (ss_sock p) (ss_port p)] else [])
      | STATE_ACTIVE \<Rightarrow>
          (if ss_nr p \<noteq> 0
           then let (reply, m') = smbTcpProc cw (frame_at (ss_rxb p)) (ss_nr p) (ss_longFrame p) m
                in case reply of
                     None \<Rightarrow> Some (p\<lparr>ss_nr := 0\<rparr>, m', [])
                   | Some txb \<Rightarrow>
                       (if length txb \<le> TCP_BUF
                        then Some (p\<lparr>ss_nw := length txb, ss_nr := 0\<rparr>, m', sendData net p txb)
                        else None)
           else Some (p, m, []))
      | STATE_INIT \<Rightarrow> Some (p, m, []))"

fun smb_tcp_loop ::
  "(nat \<Rightarrow> regs \<Rightarrow> regs) \<Rightarrow> tcp_stack \<Rightarrow> session list \<Rightarrow> mb \<Rightarrow>
     (session list \<times> mb \<times> net_call list) option" where
  "smb_tcp_loop cw net [] m = Some ([], m, [])"
| "smb_tcp_loop cw net (p # ps) m =
     (case smb_tcp_one cw net p m of
        None \<Rightarrow> None
      | Some (p', m1, calls) \<Rightarrow>
          (case smb_tcp_loop cw net ps m1 of
             None \<Rightarrow> None
           | Some (ps', m2, calls2) \<Rightarrow> Some (p' # ps', m2, calls @ calls2)))"

definition smb_tcp :: "(nat \<Rightarrow> regs \<Rightarrow> regs) \<Rightarrow> tcp_stack \<Rightarrow> tcp_state \<Rightarrow> tcp_state option" where
  "smb_tcp cw net t =
     (case smb_tcp_loop cw net (tp_sess t) (tp_mb t) of
        None \<Rightarrow> None
      | Some (ss, m, calls) \<Rightarrow> Some (t\<lparr>tp_sess := ss, tp_mb := m, tp_calls := tp_calls t @ calls\<rparr>))"

datatype tcp_event =
    TCP_EVT_CONREQ
  | TCP_EVT_ABORT
  | TCP_EVT_CONNECT
  | TCP_EVT_CLOSE
  | TCP_EVT_ACK
  | TCP_EVT_DATA bytes

definition sess_event :: "tcp_event \<Rightarrow> session \<Rightarrow> session" where
  "sess_event ev p =
     (case ev of
        TCP_EVT_CONNECT \<Rightarrow> p\<lparr>ss_status := STATE_ACTIVE\<rparr>
      | TCP_EVT_CLOSE \<Rightarrow> kill_session p
      | TCP_EVT_DATA bs \<Rightarrow>
          (if length bs \<ge> TCP_BUF then p
           else p\<lparr>ss_rxb := bs @ drop (length bs) (ss_rxb p), ss_nr := length bs\<rparr>)
      | _ \<Rightarrow> p)"

definition tcp_callback :: "nat \<Rightarrow> tcp_event \<Rightarrow> tcp_state \<Rightarrow> nat \<times> tcp_state" where
  "tcp_callback soc ev t =
     (case map_session (tp_sess t) soc of
        None \<Rightarrow> (0, t)
      | Some i \<Rightarrow>
          (if ev = TCP_EVT_CONREQ then 1 else 0,
           t\<lparr>tp_sess := (tp_sess t)[i := sess_event ev (tp_sess t ! i)]\<rparr>))"

text \<open>The sockets are what the stack handed out; 0 means that it had none left.\<close>

definition init_smb_session :: "nat \<Rightarrow> (nat \<Rightarrow> nat) \<Rightarrow> (nat \<Rightarrow> bool) \<Rightarrow> mb \<Rightarrow> tcp_state" where
  "init_smb_session tcpPort socks listen_ok m =
     \<lparr>tp_sess = map (\<lambda>i. \<lparr>ss_sock = socks i,
          ss_status = (if socks i \<noteq> 0 \<and> listen_ok i then STATE_IDLE else STATE_INIT),
          ss_pollTimer = 0, ss_nr = 0, ss_nw = 0, ss_port = tcpPort, ss_longFrame = False,
          ss_rxb = replicate TCP_BUF 0\<rparr>) [0..<N_CONNECTION],
      tp_mb = m,
      tp_calls = concat (map (\<lambda>i. if socks i \<noteq> 0 then [Listen (socks i) tcpPort] else [])
        [0..<N_CONNECTION])\<rparr>"

subsection \<open>Properties\<close>

definition sess_ok :: "session \<Rightarrow> bool" where
  "sess_ok p \<longleftrightarrow> length (ss_rxb p) = TCP_BUF \<and> ss_nr p < TCP_BUF \<and> \<not> ss_longFrame p"

lemma smbTcpProc_reply_size:
  "smbTcpProc cw prb nr False m = (Some txb, m') \<Longrightarrow> length txb \<le> 259"
  using reply_bound [of cw "\<lambda>i. prb (6 + i)" m]
  by (auto simp: smbTcpProc_def modbusMakeTcpFrame_def Let_def split_def split: if_splits)

lemma smb_tcp_one_ok:
  assumes "sess_ok p"
  shows "\<exists>p' m' calls. smb_tcp_one cw net p m = Some (p', m', calls) \<and> sess_ok p' \<and>
    ss_sock p' = ss_sock p \<and> ss_status p' = ss_status p \<and> ss_nr p' = (if ss_status p = STATE_ACTIVE then 0 else ss_nr p) \<and>
    (\<forall>c \<in> set calls. case c of Listen s port \<Rightarrow> s = ss_sock p \<and> ss_status p = STATE_IDLE
                       | Send s bs \<Rightarrow> s = ss_sock p \<and> length bs \<le> 259)"
proof -
  have lf: "\<not> ss_longFrame p" using assms by (simp add: sess_ok_def)
  obtain r m' where proc: "smbTcpProc cw (frame_at (ss_rxb p)) (ss_nr p) False m = (r, m')"
    by (cases "smbTcpProc cw (frame_at (ss_rxb p)) (ss_nr p) False m")
  have size: "length txb \<le> 259" if "r = Some txb" for txb
    using smbTcpProc_reply_size proc that by blast
  show ?thesis
    using assms lf proc size
    by (cases "ss_status p"; cases r; cases "ss_nr p")
      (auto simp: smb_tcp_one_def sess_ok_def sendData_def split: if_splits)
qed

lemma smb_tcp_loop_ok:
  "(\<forall>p \<in> set ps. sess_ok p) \<Longrightarrow> \<exists>ps' m' calls. smb_tcp_loop cw net ps m = Some (ps', m', calls) \<and>
    (\<forall>p \<in> set ps'. sess_ok p) \<and> map ss_sock ps' = map ss_sock ps \<and> map ss_status ps' = map ss_status ps \<and>
    (\<forall>c \<in> set calls. case c of
        Listen s port \<Rightarrow> (\<exists>p \<in> set ps. s = ss_sock p \<and> ss_status p = STATE_IDLE)
      | Send s bs \<Rightarrow> length bs \<le> 259)"
proof (induction ps arbitrary: m)
  case (Cons p ps)
  obtain p' m1 calls where one: "smb_tcp_one cw net p m = Some (p', m1, calls)" "sess_ok p'"
    "ss_sock p' = ss_sock p" "ss_status p' = ss_status p"
    "\<forall>c \<in> set calls. case c of Listen s port \<Rightarrow> s = ss_sock p \<and> ss_status p = STATE_IDLE
                       | Send s bs \<Rightarrow> s = ss_sock p \<and> length bs \<le> 259"
    using smb_tcp_one_ok [of p cw net m] Cons.prems by auto
  obtain ps' m2 calls2 where rest: "smb_tcp_loop cw net ps m1 = Some (ps', m2, calls2)"
    "\<forall>p \<in> set ps'. sess_ok p" "map ss_sock ps' = map ss_sock ps" "map ss_status ps' = map ss_status ps"
    "\<forall>c \<in> set calls2. case c of
        Listen s port \<Rightarrow> (\<exists>p \<in> set ps. s = ss_sock p \<and> ss_status p = STATE_IDLE)
      | Send s bs \<Rightarrow> length bs \<le> 259"
    using Cons.IH [of m1] Cons.prems by auto
  show ?case using one rest by (fastforce split: net_call.splits)
qed simp

text \<open>C12. Every answered TCP request gets a frame of its own: the reply repeats the request's
  transaction and protocol identifiers, carries the handler's reply with its exact length,
  fits the 300-byte buffer, and would itself pass the header check; a request whose length
  field does not match what was received has no reply and no effect.\<close>

theorem tcp_reply_matches_request:
  assumes "smbTcpProc cw prb nr False m = (r, m')"
  shows "(if modbusSlvChkTcpHeader prb nr
     then m' = snd (modbusSlvProcFrame cw (\<lambda>i. prb (6 + i)) False m) else r = None \<and> m' = m) \<and>
    (\<forall>txb. r = Some txb \<longrightarrow>
      take 4 txb = [prb 0, prb 1, prb 2, prb 3] \<and> length txb \<le> 300 \<and>
      drop 6 txb = fst (modbusSlvProcFrame cw (\<lambda>i. prb (6 + i)) False m) \<and>
      modbusSlvChkTcpHeader (frame_at txb) (length txb))"
proof -
  have len: "length (fst (modbusSlvProcFrame cw (\<lambda>i. prb (6 + i)) False m)) \<le> 253"
    by (rule reply_bound)
  moreover have "n \<le> 253 \<Longrightarrow> unat (be16 (hi8 (of_nat n)) (lo8 (of_nat n))) = n" for n :: nat
    by (simp only: be16_hi8_lo8 unat_of_nat) simp
  ultimately show ?thesis
    using assms
    by (auto simp: smbTcpProc_def modbusMakeTcpFrame_def modbusSlvChkTcpHeader_def Let_def split_def
        frame_at_def split: if_splits)
qed

theorem tcp_reply_matches_request_witness:
  "let (r, m') = smbTcpProc (\<lambda>_ r. r) (frame_at [0, 7, 0, 0, 0, 6, 1, 3, 0, 100, 0, 1]) 12 False mb_start
   in modbusSlvChkTcpHeader (frame_at [0, 7, 0, 0, 0, 6, 1, 3, 0, 100, 0, 1]) 12 \<longrightarrow>
      m' = snd (modbusSlvProcFrame (\<lambda>_ r. r)
        (\<lambda>i. frame_at [0, 7, 0, 0, 0, 6, 1, 3, 0, 100, 0, 1] (6 + i)) False mb_start)"
  using tcp_reply_matches_request
    [of "\<lambda>_ r. r" "frame_at [0, 7, 0, 0, 0, 6, 1, 3, 0, 100, 0, 1]" 12 mb_start]
  by (auto split: prod.splits if_splits)

text \<open>The sessions are safe: from well-formed sessions the server's loop never writes
  behind a buffer, sends nothing longer than 259 bytes, keeps every session well formed on
  its socket and in its state, and only ever listens on sockets of idle sessions; and a
  call-back of the stack keeps the sessions well formed and touches none but its own.\<close>

theorem tcp_sessions_safe:
  assumes "\<forall>p \<in> set (tp_sess t). sess_ok p"
  shows "\<exists>t'. smb_tcp cw net t = Some t' \<and> (\<forall>p \<in> set (tp_sess t'). sess_ok p) \<and>
      map ss_sock (tp_sess t') = map ss_sock (tp_sess t) \<and>
      map ss_status (tp_sess t') = map ss_status (tp_sess t) \<and>
      (\<exists>calls. tp_calls t' = tp_calls t @ calls \<and> (\<forall>c \<in> set calls. case c of
         Listen s port \<Rightarrow> (\<exists>p \<in> set (tp_sess t). s = ss_sock p \<and> ss_status p = STATE_IDLE)
       | Send s bs \<Rightarrow> length bs \<le> 259)) \<and>
    (\<forall>soc ev. (\<forall>p \<in> set (tp_sess (snd (tcp_callback soc ev t))). sess_ok p) \<and>
      (\<forall>i < length (tp_sess t). ss_sock (tp_sess t ! i) \<noteq> soc \<longrightarrow>
         tp_sess (snd (tcp_callback soc ev t)) ! i = tp_sess t ! i))"
proof -
  have map_some: "i < length ss \<and> ss_sock (ss ! i) = s" if "map_session ss s = Some i" for ss s i
    using that by (induction ss arbitrary: i) (auto split: if_splits)
  have ev: "sess_ok (sess_event ev p)" if "sess_ok p" for ev p
    using that by (cases ev) (auto simp: sess_event_def sess_ok_def kill_session_def)
  have "(\<forall>p \<in> set (tp_sess (snd (tcp_callback soc e t))). sess_ok p) \<and>
      (\<forall>i < length (tp_sess t). ss_sock (tp_sess t ! i) \<noteq> soc \<longrightarrow>
         tp_sess (snd (tcp_callback soc e t)) ! i = tp_sess t ! i)" for soc e
    using assms ev map_some [of "tp_sess t" soc]
    by (auto simp: tcp_callback_def nth_list_update split: option.splits
        dest!: set_update_subset_insert [THEN subsetD])
  then show ?thesis
    using smb_tcp_loop_ok [OF assms, of cw net "tp_mb t"] by (auto simp: smb_tcp_def)
qed

definition tcp_start :: tcp_state where
  "tcp_start = init_smb_session 502 (\<lambda>i. i + 1) (\<lambda>_. True) mb_start"

definition stack_up :: tcp_stack where
  "stack_up = \<lparr>ts_closed = (\<lambda>_. True), ts_check_send = (\<lambda>_. True), ts_max_dsize = (\<lambda>_. 1460)\<rparr>"

lemma tcp_start_ok: "\<forall>p \<in> set (tp_sess tcp_start). sess_ok p"
  by (auto simp: tcp_start_def init_smb_session_def sess_ok_def)

theorem tcp_sessions_safe_witness:
  "\<exists>t'. smb_tcp (\<lambda>_ r. r) stack_up tcp_start = Some t' \<and> (\<forall>p \<in> set (tp_sess t'). sess_ok p)"
  using tcp_sessions_safe [OF tcp_start_ok, of "\<lambda>_ r. r" stack_up] by blast

text \<open>A connection the stack aborts is never opened again: the call-back leaves the session
  active, and an active session does not listen, so its socket is lost to later masters.\<close>

theorem aborted_session_never_listens:
  assumes "\<forall>p \<in> set (tp_sess t). sess_ok p" "distinct (map ss_sock (tp_sess t))"
    and "i < length (tp_sess t)" "ss_status (tp_sess t ! i) = STATE_ACTIVE"
    and "smb_tcp cw net (snd (tcp_callback (ss_sock (tp_sess t ! i)) TCP_EVT_ABORT t)) = Some t'"
  shows "ss_status (tp_sess t' ! i) = STATE_ACTIVE \<and>
    (\<forall>port. Listen (ss_sock (tp_sess t ! i)) port \<in> set (tp_calls t') \<longrightarrow>
      Listen (ss_sock (tp_sess t ! i)) port \<in> set (tp_calls t))"
proof -
  let ?s = "ss_sock (tp_sess t ! i)"
  have "snd (tcp_callback ?s TCP_EVT_ABORT t) = t"
    by (auto simp: tcp_callback_def sess_event_def split: option.split)
  then have run: "smb_tcp cw net t = Some t'" using assms(5) by simp
  obtain ps' m' calls where loop: "smb_tcp_loop cw net (tp_sess t) (tp_mb t) = Some (ps', m', calls)"
    "map ss_status ps' = map ss_status (tp_sess t)"
    "\<forall>c \<in> set calls. case c of
        Listen s port \<Rightarrow> (\<exists>p \<in> set (tp_sess t). s = ss_sock p \<and> ss_status p = STATE_IDLE)
      | Send s bs \<Rightarrow> length bs \<le> 259"
    using smb_tcp_loop_ok [OF assms(1)] by blast
  have t': "tp_sess t' = ps'" "tp_calls t' = tp_calls t @ calls"
    using run loop(1) by (auto simp: smb_tcp_def)
  have "p = tp_sess t ! i" if "p \<in> set (tp_sess t)" "ss_sock p = ?s" for p
    using that assms(2,3) by (auto simp: in_set_conv_nth distinct_conv_nth)
  then have "Listen ?s port \<notin> set calls" for port
    using loop(3) assms(4) by (force split: net_call.splits)
  moreover have "ss_status (ps' ! i) = STATE_ACTIVE"
    using loop(2) assms(3,4) by (metis length_map nth_map)
  ultimately show ?thesis using t' by auto
qed

theorem aborted_session_never_listens_witness:
  "let t = snd (tcp_callback 3 TCP_EVT_CONNECT tcp_start)
   in \<forall>t'. smb_tcp (\<lambda>_ r. r) stack_up (snd (tcp_callback 3 TCP_EVT_ABORT t)) = Some t' \<longrightarrow>
     ss_status (tp_sess t' ! 2) = STATE_ACTIVE"
proof -
  let ?t = "snd (tcp_callback 3 TCP_EVT_CONNECT tcp_start)"
  have "map_session (tp_sess tcp_start) 3 = Some 2"
    by (simp add: tcp_start_def init_smb_session_def upt_rec)
  then have t: "tp_sess ?t = (tp_sess tcp_start)[2 := (tp_sess tcp_start ! 2)\<lparr>ss_status := STATE_ACTIVE\<rparr>]"
    by (simp add: tcp_callback_def sess_event_def)
  have ok: "\<forall>p \<in> set (tp_sess ?t). sess_ok p"
    unfolding t by (auto simp: tcp_start_def init_smb_session_def sess_ok_def upt_rec)
  have d: "distinct (map ss_sock (tp_sess ?t))" "ss_sock (tp_sess ?t ! 2) = 3" "2 < length (tp_sess ?t)"
    "ss_status (tp_sess ?t ! 2) = STATE_ACTIVE"
    unfolding t by (simp_all add: tcp_start_def init_smb_session_def upt_rec)
  show ?thesis using aborted_session_never_listens [OF ok d(1,3,4)] d(2) by (auto simp: Let_def)
qed

end
