(* ===== verification/CmdProc.thy ===== *)
theory CmdProc
  imports Queues Complex_Main
begin

text \<open>
  The command task (\<open>smb_rtu.c\<close>): it takes the commands the Modbus handler queued and turns
  them into flags the other tasks act on, reference values and calibration steps. The gain
  routines of the measurement chip (\<open>ade9000.c\<close>) do floating-point work on live readings;
  the calls to them are recorded in \<open>cs_cal\<close>, with their arguments, in order. Reference
  values are kept exactly, as rationals.
\<close>

datatype cal_call =
    SetGainU nat rat
  | SetGainI nat rat
  | SetGainW nat rat rat
  | SetGainPh nat
  | ClrGainU nat
  | ClrGainI nat
  | ClrGainW nat
  | ClrGainPh nat
  | SetGainIn nat rat
  | ClrGainIn nat
  | StoreHwSettings
  | SetGainUpp nat rat
  | ClrGainUpp nat
  | SetDcOffset nat
  | ClrDcOffset nat

record cmd_state =
  cs_cmdq :: cmd_q
  cs_calEn :: "nat \<Rightarrow> bool"
  cs_rstDemand :: "nat \<Rightarrow> int"
  cs_rstMaxMin :: "nat \<Rightarrow> int"
  cs_rstEgy :: "nat \<Rightarrow> int"
  cs_rstAlmList :: "nat \<Rightarrow> int"
  cs_rstEvtList :: "nat \<Rightarrow> int"
  cs_rstIticList :: "nat \<Rightarrow> int"
  cs_vref :: rat
  cs_iref :: rat
  cs_inref :: rat
  cs_tref :: rat
  cs_rebootFlag :: int
  cs_saveSetting :: int
  cs_factReset :: int
  cs_alarm_sts :: u16
  cs_event_sts :: u16
  cs_piData :: "nat \<Rightarrow> u32"
  cs_temp :: "nat \<Rightarrow> rat"
  cs_tempOfs :: "nat \<Rightarrow> rat"
  cs_cal :: "cal_call list"

definition cal_log :: "cal_call \<Rightarrow> cmd_state \<Rightarrow> cmd_state" where
  "cal_log c s = s\<lparr>cs_cal := cs_cal s @ [c]\<rparr>"

text \<open>
  \<open>setGainUpp\<close> is called with the reference times the square root of three; the factor is
  the constant of the source and the recorded argument the reference itself.
\<close>

definition calibration :: "nat \<Rightarrow> int \<Rightarrow> cmd_state \<Rightarrow> cmd_state" where
  "calibration ch code s =
     (if ch \<ge> 3 then s
      else if code = 0 then s\<lparr>cs_calEn := (cs_calEn s)(ch := True)\<rparr>
      else if code = 1 then (if cs_calEn s ch then cal_log (SetGainU ch (cs_vref s)) s else s)
      else if code = 2 then (if cs_calEn s ch then cal_log (SetGainI ch (cs_iref s)) s else s)
      else if code = 3 then (if cs_calEn s ch then cal_log (SetGainW ch (cs_vref s) (cs_iref s)) s else s)
      else if code = 4 then (if cs_calEn s ch then cal_log (SetGainPh ch) s else s)
      else if code = 5 then (if cs_calEn s ch then cal_log (ClrGainU ch) s else s)
      else if code = 6 then (if cs_calEn s ch then cal_log (ClrGainI ch) s else s)
      else if code = 7 then (if cs_calEn s ch then cal_log (ClrGainW ch) s else s)
      else if code = 8 then (if cs_calEn s ch then cal_log (ClrGainPh ch) s else s)
      else if code = 9 then (if cs_calEn s ch then cal_log (SetGainIn ch (cs_inref s)) s else s)
      else if code = 10 then (if cs_calEn s ch then cal_log (ClrGainIn ch) s else s)
      else if code = 11 then s\<lparr>cs_calEn := (cs_calEn s)(ch := False)\<rparr>
      else if code = 12 then cal_log StoreHwSettings s
      else if code = 13 then (if cs_calEn s ch then cal_log (SetGainUpp ch (cs_vref s)) s else s)
      else if code = 14 then (if cs_calEn s ch then cal_log (ClrGainUpp ch) s else s)
      else if code = 15 then (if cs_calEn s ch then cal_log (SetDcOffset ch) s else s)
      else if code = 16 then (if cs_calEn s ch then cal_log (ClrDcOffset ch) s else s)
      else if code = 17 then
        (if cs_calEn s ch
         then let tref = (if cs_tref s > 0 then cs_tref s else 25)
              in s\<lparr>cs_tempOfs := (cs_tempOfs s)(ch := tref - (cs_temp s ch - cs_tempOfs s ch))\<rparr>
         else s)
      else if code = 18 then
        (if cs_calEn s ch then s\<lparr>cs_tempOfs := (cs_tempOfs s)(ch := 0)\<rparr> else s)
      else s)"

definition dispatchMeterChCmd ::
  "int \<Rightarrow> int \<Rightarrow> int \<Rightarrow> (nat \<Rightarrow> int \<Rightarrow> cmd_state \<Rightarrow> cmd_state) \<Rightarrow> cmd_state \<Rightarrow> cmd_state" where
  "dispatchMeterChCmd base addr cmd fn s =
     (if addr = base then fold (\<lambda>ch. fn ch cmd) [0..<3] s
      else let ch = addr - base - 1 in if ch \<ge> 0 \<and> ch < 3 then fn (nat ch) cmd s else s)"

definition clearDemand :: "nat \<Rightarrow> int \<Rightarrow> cmd_state \<Rightarrow> cmd_state" where
  "clearDemand ch cmd s = s\<lparr>cs_rstDemand := (cs_rstDemand s)(ch := cmd)\<rparr>"

definition clearMinMax :: "nat \<Rightarrow> int \<Rightarrow> cmd_state \<Rightarrow> cmd_state" where
  "clearMinMax ch cmd s = s\<lparr>cs_rstMaxMin := (cs_rstMaxMin s)(ch := cmd)\<rparr>"

definition clearEnergy :: "nat \<Rightarrow> int \<Rightarrow> cmd_state \<Rightarrow> cmd_state" where
  "clearEnergy ch cmd s = s\<lparr>cs_rstEgy := (cs_rstEgy s)(ch := cmd)\<rparr>"

definition clearAlarm :: "nat \<Rightarrow> int \<Rightarrow> cmd_state \<Rightarrow> cmd_state" where
  "clearAlarm ch cmd s = s\<lparr>cs_rstAlmList := (cs_rstAlmList s)(ch := cmd)\<rparr>"

definition clearEventListCmd :: "nat \<Rightarrow> int \<Rightarrow> cmd_state \<Rightarrow> cmd_state" where
  "clearEventListCmd ch cmd s = s\<lparr>cs_rstEvtList := (cs_rstEvtList s)(ch := cmd)\<rparr>"

definition clearIticList :: "nat \<Rightarrow> int \<Rightarrow> cmd_state \<Rightarrow> cmd_state" where
  "clearIticList ch cmd s = s\<lparr>cs_rstIticList := (cs_rstIticList s)(ch := cmd)\<rparr>"

definition negateAlarm :: "cmd_state \<Rightarrow> cmd_state" where
  "negateAlarm s = s\<lparr>cs_alarm_sts := 0\<rparr>"

definition negateEvent :: "cmd_state \<Rightarrow> cmd_state" where
  "negateEvent s = s\<lparr>cs_event_sts := 0\<rparr>"

definition ackAlarmCmd :: "int \<Rightarrow> cmd_state \<Rightarrow> cmd_state" where
  "ackAlarmCmd cmd s = negateAlarm s"

definition ackEventCmd :: "int \<Rightarrow> cmd_state \<Rightarrow> cmd_state" where
  "ackEventCmd cmd s = negateEvent s"

definition reqFactoryReset :: "int \<Rightarrow> cmd_state \<Rightarrow> cmd_state" where
  "reqFactoryReset cmd s = s\<lparr>cs_factReset := cmd\<rparr>"

definition reqReboot :: "int \<Rightarrow> cmd_state \<Rightarrow> cmd_state" where
  "reqReboot cmd s = s\<lparr>cs_rebootFlag := cmd\<rparr>"

definition reqSaveSettings :: "int \<Rightarrow> cmd_state \<Rightarrow> cmd_state" where
  "reqSaveSettings cmd s = s\<lparr>cs_saveSetting := cmd\<rparr>"

text \<open>The switch of \<open>cmdProc\<close>, for command register \<open>s\<close> and value \<open>c\<close>.\<close>

definition cmd_exec :: "u16 \<times> u16 \<Rightarrow> cmd_state \<Rightarrow> cmd_state" where
  "cmd_exec item st =
     (let c = int (unat (snd item)); addr = int (unat (fst item)) - 7798
      in if addr = 0 then reqReboot c st
         else if addr = 1 then reqSaveSettings c st
         else if 2 \<le> addr \<and> addr \<le> 5 then dispatchMeterChCmd 2 addr c calibration st
         else if addr = 12 then st\<lparr>cs_vref := of_int c\<rparr>
         else if addr = 13 then st\<lparr>cs_iref := of_int c / 10\<rparr>
         else if addr = 14 then st\<lparr>cs_inref := of_int c / 10\<rparr>
         else if addr = 15 then st\<lparr>cs_tref := of_int c\<rparr>
         else if addr = 16 then reqFactoryReset c st
         else if addr = 17 then st\<lparr>cs_piData := (\<lambda>k. if k < 4 then 0 else cs_piData st k)\<rparr>
         else if 18 \<le> addr \<and> addr \<le> 21 then dispatchMeterChCmd 18 addr c clearDemand st
         else if 22 \<le> addr \<and> addr \<le> 25 then dispatchMeterChCmd 22 addr c clearMinMax st
         else if 26 \<le> addr \<and> addr \<le> 29 then dispatchMeterChCmd 26 addr c clearEnergy st
         else if 30 \<le> addr \<and> addr \<le> 33 then dispatchMeterChCmd 30 addr c clearAlarm st
         else if 34 \<le> addr \<and> addr \<le> 37 then dispatchMeterChCmd 34 addr c clearEventListCmd st
         else if 46 \<le> addr \<and> addr \<le> 49 then ackAlarmCmd c st
         else if 50 \<le> addr \<and> addr \<le> 53 then ackEventCmd c st
         else if addr = 56 then clearIticList 0 c st
         else st)"

definition cmdProc :: "cmd_state \<Rightarrow> cmd_state" where
  "cmdProc s =
     (case getCmdQ (cs_cmdq s) of None \<Rightarrow> s | Some (item, q) \<Rightarrow> cmd_exec item (s\<lparr>cs_cmdq := q\<rparr>))"

text \<open>
  One wake-up of \<open>CmdProc_Task\<close>: the loop body runs at least once and repeats while the
  queue is not empty. \<open>None\<close> means that the bound on the number of rounds was too small.
\<close>

fun cmd_pass :: "nat \<Rightarrow> cmd_state \<Rightarrow> cmd_state option" where
  "cmd_pass 0 s = None"
| "cmd_pass (Suc n) s =
     (let s' = cmdProc s
      in if cq_fr (cs_cmdq s') \<noteq> cq_re (cs_cmdq s') then cmd_pass n s' else Some s')"

lemmas cmd_defs = calibration_def dispatchMeterChCmd_def clearDemand_def clearMinMax_def
  clearEnergy_def clearAlarm_def clearEventListCmd_def clearIticList_def negateAlarm_def
  negateEvent_def ackAlarmCmd_def ackEventCmd_def reqFactoryReset_def reqReboot_def
  reqSaveSettings_def cal_log_def Let_def

subsection \<open>One pass over the queue\<close>

lemma calibration_cmdq [simp]: "cs_cmdq (calibration ch c s) = cs_cmdq s"
  by (simp add: calibration_def cal_log_def Let_def)

lemma upt_3: "[0..<3] = [0, 1, 2::nat]"
  by (simp add: upt_rec)

lemma dispatch_cmdq:
  "(\<And>ch c s. cs_cmdq (fn ch c s) = cs_cmdq s) \<Longrightarrow> cs_cmdq (dispatchMeterChCmd b a c fn s) = cs_cmdq s"
  by (simp add: dispatchMeterChCmd_def Let_def upt_3)

lemma cmd_exec_cmdq [simp]: "cs_cmdq (cmd_exec item s) = cs_cmdq s"
proof -
  have "cs_cmdq (dispatchMeterChCmd b a c calibration s) = cs_cmdq s"
    "cs_cmdq (dispatchMeterChCmd b a c clearDemand s) = cs_cmdq s"
    "cs_cmdq (dispatchMeterChCmd b a c clearMinMax s) = cs_cmdq s"
    "cs_cmdq (dispatchMeterChCmd b a c clearEnergy s) = cs_cmdq s"
    "cs_cmdq (dispatchMeterChCmd b a c clearAlarm s) = cs_cmdq s"
    "cs_cmdq (dispatchMeterChCmd b a c clearEventListCmd s) = cs_cmdq s" for b a c
    by (rule dispatch_cmdq;
        simp add: clearDemand_def clearMinMax_def clearEnergy_def clearAlarm_def clearEventListCmd_def)+
  then show ?thesis
    by (simp add: cmd_exec_def Let_def ackAlarmCmd_def ackEventCmd_def negateAlarm_def negateEvent_def
        reqReboot_def reqSaveSettings_def reqFactoryReset_def clearIticList_def)
qed

lemma dispatch_other:
  "(\<And>ch c s. fn ch c (s\<lparr>cs_cmdq := q\<rparr>) = (fn ch c s)\<lparr>cs_cmdq := q\<rparr>) \<Longrightarrow>
    dispatchMeterChCmd b a c fn (s\<lparr>cs_cmdq := q\<rparr>) = (dispatchMeterChCmd b a c fn s)\<lparr>cs_cmdq := q\<rparr>"
  by (simp add: dispatchMeterChCmd_def Let_def upt_3)

lemma calibration_other: "calibration ch c (s\<lparr>cs_cmdq := q\<rparr>) = (calibration ch c s)\<lparr>cs_cmdq := q\<rparr>"
  by (simp add: calibration_def cal_log_def Let_def)

lemma cmd_exec_other: "cmd_exec item (s\<lparr>cs_cmdq := q\<rparr>) = (cmd_exec item s)\<lparr>cs_cmdq := q\<rparr>"
proof -
  have disp: "dispatchMeterChCmd b a c clearDemand (s\<lparr>cs_cmdq := q\<rparr>) = (dispatchMeterChCmd b a c clearDemand s)\<lparr>cs_cmdq := q\<rparr>"
    "dispatchMeterChCmd b a c clearMinMax (s\<lparr>cs_cmdq := q\<rparr>) = (dispatchMeterChCmd b a c clearMinMax s)\<lparr>cs_cmdq := q\<rparr>"
    "dispatchMeterChCmd b a c clearEnergy (s\<lparr>cs_cmdq := q\<rparr>) = (dispatchMeterChCmd b a c clearEnergy s)\<lparr>cs_cmdq := q\<rparr>"
    "dispatchMeterChCmd b a c clearAlarm (s\<lparr>cs_cmdq := q\<rparr>) = (dispatchMeterChCmd b a c clearAlarm s)\<lparr>cs_cmdq := q\<rparr>"
    "dispatchMeterChCmd b a c clearEventListCmd (s\<lparr>cs_cmdq := q\<rparr>) = (dispatchMeterChCmd b a c clearEventListCmd s)\<lparr>cs_cmdq := q\<rparr>"
    "dispatchMeterChCmd b a c calibration (s\<lparr>cs_cmdq := q\<rparr>) = (dispatchMeterChCmd b a c calibration s)\<lparr>cs_cmdq := q\<rparr>"
    for b a c
    by (rule dispatch_other; simp add: clearDemand_def clearMinMax_def clearEnergy_def
        clearAlarm_def clearEventListCmd_def calibration_other)+
  have leaf: "ackAlarmCmd c (s\<lparr>cs_cmdq := q\<rparr>) = (ackAlarmCmd c s)\<lparr>cs_cmdq := q\<rparr>"
    "ackEventCmd c (s\<lparr>cs_cmdq := q\<rparr>) = (ackEventCmd c s)\<lparr>cs_cmdq := q\<rparr>"
    "reqReboot c (s\<lparr>cs_cmdq := q\<rparr>) = (reqReboot c s)\<lparr>cs_cmdq := q\<rparr>"
    "reqSaveSettings c (s\<lparr>cs_cmdq := q\<rparr>) = (reqSaveSettings c s)\<lparr>cs_cmdq := q\<rparr>"
    "reqFactoryReset c (s\<lparr>cs_cmdq := q\<rparr>) = (reqFactoryReset c s)\<lparr>cs_cmdq := q\<rparr>"
    "clearIticList k c (s\<lparr>cs_cmdq := q\<rparr>) = (clearIticList k c s)\<lparr>cs_cmdq := q\<rparr>"
    "s\<lparr>cs_cmdq := q, cs_vref := v\<rparr> = s\<lparr>cs_vref := v, cs_cmdq := q\<rparr>"
    "s\<lparr>cs_cmdq := q, cs_iref := v\<rparr> = s\<lparr>cs_iref := v, cs_cmdq := q\<rparr>"
    "s\<lparr>cs_cmdq := q, cs_inref := v\<rparr> = s\<lparr>cs_inref := v, cs_cmdq := q\<rparr>"
    "s\<lparr>cs_cmdq := q, cs_tref := v\<rparr> = s\<lparr>cs_tref := v, cs_cmdq := q\<rparr>"
    "s\<lparr>cs_cmdq := q, cs_piData := p\<rparr> = s\<lparr>cs_piData := p, cs_cmdq := q\<rparr>"
    "cs_piData (s\<lparr>cs_cmdq := q\<rparr>) = cs_piData s" for c k v p
    by (simp_all add: ackAlarmCmd_def ackEventCmd_def negateAlarm_def negateEvent_def
        reqReboot_def reqSaveSettings_def reqFactoryReset_def clearIticList_def)
  show ?thesis
    by (simp only: cmd_exec_def Let_def if_distrib [where f = "\<lambda>s. s\<lparr>cs_cmdq := q\<rparr>"] disp leaf)
qed

lemma fold_cmd_exec_other:
  "fold cmd_exec xs (s\<lparr>cs_cmdq := q\<rparr>) = (fold cmd_exec xs s)\<lparr>cs_cmdq := q\<rparr>"
  by (induction xs arbitrary: s) (simp_all add: cmd_exec_other)

lemma cmdProc_step:
  assumes "cmd_q_ok (cs_cmdq s)" "cmd_pending (cs_cmdq s) = x # xs"
  obtains q where "cmdProc s = (cmd_exec x s)\<lparr>cs_cmdq := q\<rparr>" "cmd_q_ok q" "cmd_pending q = xs"
proof -
  obtain y q where get: "getCmdQ (cs_cmdq s) = Some (y, q)"
    using cmdq.get_empty [OF assms(1)] assms(2) by (cases "getCmdQ (cs_cmdq s)") auto
  moreover have "y = x" "cmd_pending q = xs" "cmd_q_ok q"
    using cmdq.get_head [OF assms(1) get] assms(2) by auto
  ultimately show thesis using that by (simp add: cmdProc_def cmd_exec_other)
qed

lemma cmd_pass_pending:
  assumes "cmd_q_ok (cs_cmdq s)" "length (cmd_pending (cs_cmdq s)) < n"
  shows "\<exists>q. cmd_pass n s = Some ((fold cmd_exec (cmd_pending (cs_cmdq s)) s)\<lparr>cs_cmdq := q\<rparr>) \<and>
    cmd_q_ok q \<and> cmd_pending q = []"
  using assms
proof (induction "cmd_pending (cs_cmdq s)" arbitrary: s n)
  case Nil
  then have "getCmdQ (cs_cmdq s) = None" using cmdq.get_empty by metis
  then have "cmdProc s = s" "cq_fr (cs_cmdq s) = cq_re (cs_cmdq s)"
    by (auto simp: cmdProc_def getCmdQ_def split: if_splits)
  moreover obtain m where "n = Suc m" using Nil.prems(2) by (cases n) auto
  moreover have "s = s\<lparr>cs_cmdq := cs_cmdq s\<rparr>" by simp
  ultimately show ?case using Nil by (auto intro!: exI [of _ "cs_cmdq s"])
next
  case (Cons x xs)
  obtain q where step: "cmdProc s = (cmd_exec x s)\<lparr>cs_cmdq := q\<rparr>" "cmd_q_ok q" "cmd_pending q = xs"
    using cmdProc_step [OF Cons.prems(1) Cons.hyps(2) [symmetric]] .
  obtain m where m: "n = Suc m" using Cons.prems(2) by (cases n) auto
  have run: "fold cmd_exec xs ((cmd_exec x s)\<lparr>cs_cmdq := q\<rparr>) =
      (fold cmd_exec xs (cmd_exec x s))\<lparr>cs_cmdq := q\<rparr>"
    by (rule fold_cmd_exec_other)
  show ?case
  proof (cases "xs = []")
    case True
    then have "cq_fr q = cq_re q"
      using step(2,3) by (simp add: cmd_pending_def cmd_q_ok_def ring_items_empty_iff)
    then show ?thesis using step True Cons.hyps(2) [symmetric] m by (auto intro!: exI [of _ q])
  next
    case False
    then have "cq_fr q \<noteq> cq_re q"
      using step(2,3) by (auto simp: cmd_pending_def cmd_q_ok_def ring_items_empty_iff)
    moreover have "\<exists>q'. cmd_pass m ((cmd_exec x s)\<lparr>cs_cmdq := q\<rparr>) =
        Some ((fold cmd_exec xs ((cmd_exec x s)\<lparr>cs_cmdq := q\<rparr>))\<lparr>cs_cmdq := q'\<rparr>) \<and>
        cmd_q_ok q' \<and> cmd_pending q' = []"
      using Cons.hyps(1) [of "(cmd_exec x s)\<lparr>cs_cmdq := q\<rparr>" m] step(2,3) Cons.prems(2)
        Cons.hyps(2) [symmetric] m by simp
    ultimately show ?thesis using step m Cons.hyps(2) [symmetric] run
      by (auto simp: Let_def)
  qed
qed

text \<open>One wake-up of the command task carries out every pending command exactly once, in
  the order they were queued, and leaves the queue empty; eight rounds of its loop are always
  enough.\<close>

theorem cmd_pass_executes_all:
  assumes "cmd_q_ok (cs_cmdq s)"
  shows "\<exists>q. cmd_pass 8 s = Some ((fold cmd_exec (cmd_pending (cs_cmdq s)) s)\<lparr>cs_cmdq := q\<rparr>) \<and>
    cmd_q_ok q \<and> cmd_pending q = []"
  using cmd_pass_pending [OF assms, of 8] cmdq.items_le_cap [OF assms] by simp

definition cmd_start :: cmd_state where
  "cmd_start = \<lparr>cs_cmdq = cmd_q_empty, cs_calEn = (\<lambda>_. False), cs_rstDemand = (\<lambda>_. 0),
     cs_rstMaxMin = (\<lambda>_. 0), cs_rstEgy = (\<lambda>_. 0), cs_rstAlmList = (\<lambda>_. 0), cs_rstEvtList = (\<lambda>_. 0),
     cs_rstIticList = (\<lambda>_. 0), cs_vref = 0, cs_iref = 0, cs_inref = 0, cs_tref = 0,
     cs_rebootFlag = 0, cs_saveSetting = 0, cs_factReset = 0, cs_alarm_sts = 0, cs_event_sts = 0,
     cs_piData = (\<lambda>_. 0), cs_temp = (\<lambda>_. 0), cs_tempOfs = (\<lambda>_. 0), cs_cal = []\<rparr>"

theorem cmd_pass_executes_all_witness:
  "\<exists>q. cmd_pass 8 (cmd_start\<lparr>cs_cmdq := putCmdQ (7799, 0x1234) cmd_q_empty\<rparr>) =
      Some ((fold cmd_exec (cmd_pending (cs_cmdq (cmd_start\<lparr>cs_cmdq := putCmdQ (7799, 0x1234) cmd_q_empty\<rparr>)))
        (cmd_start\<lparr>cs_cmdq := putCmdQ (7799, 0x1234) cmd_q_empty\<rparr>))\<lparr>cs_cmdq := q\<rparr>) \<and>
    cmd_q_ok q \<and> cmd_pending q = []"
  by (rule cmd_pass_executes_all) (simp add: cmdq.put_inv cmd_q_empty_ok)

subsection \<open>Guards of the commands\<close>

text \<open>What calibration may touch: gains (through the recorded calls) and temperature offsets.\<close>

definition cal_view :: "cmd_state \<Rightarrow> cal_call list \<times> (nat \<Rightarrow> rat)" where
  "cal_view s = (cs_cal s, cs_tempOfs s)"

definition locked :: "cal_call list \<times> (nat \<Rightarrow> rat) \<Rightarrow> cmd_state \<Rightarrow> bool" where
  "locked v s \<longleftrightarrow> cal_view s = v \<and> (\<forall>ch. \<not> cs_calEn s ch)"

lemma calibration_locked:
  "locked v s \<Longrightarrow> code \<noteq> 0 \<Longrightarrow> code \<noteq> 12 \<Longrightarrow> locked v (calibration ch code s)"
  by (simp add: calibration_def locked_def cal_view_def)

lemma dispatch_inv:
  assumes "\<And>ch t. P t \<Longrightarrow> P (fn ch c t)" "P s"
  shows "P (dispatchMeterChCmd b a c fn s)"
  using assms by (simp add: dispatchMeterChCmd_def Let_def upt_3)

lemma locked_leaves [simp]:
  "locked v (clearDemand ch c s) = locked v s" "locked v (clearMinMax ch c s) = locked v s"
  "locked v (clearEnergy ch c s) = locked v s" "locked v (clearAlarm ch c s) = locked v s"
  "locked v (clearEventListCmd ch c s) = locked v s" "locked v (clearIticList ch c s) = locked v s"
  "locked v (ackAlarmCmd c s) = locked v s" "locked v (ackEventCmd c s) = locked v s"
  "locked v (reqReboot c s) = locked v s" "locked v (reqSaveSettings c s) = locked v s"
  "locked v (reqFactoryReset c s) = locked v s" "locked v (s\<lparr>cs_vref := x\<rparr>) = locked v s"
  "locked v (s\<lparr>cs_iref := x\<rparr>) = locked v s" "locked v (s\<lparr>cs_inref := x\<rparr>) = locked v s"
  "locked v (s\<lparr>cs_tref := x\<rparr>) = locked v s" "locked v (s\<lparr>cs_piData := p\<rparr>) = locked v s"
  by (simp_all add: locked_def cal_view_def clearDemand_def clearMinMax_def clearEnergy_def
      clearAlarm_def clearEventListCmd_def clearIticList_def negateAlarm_def negateEvent_def
      ackAlarmCmd_def ackEventCmd_def reqFactoryReset_def reqReboot_def reqSaveSettings_def)

text \<open>C11. While calibration is locked on all meters, no command but the unlocking one
  (calibration code 0) and the storing of the settings (code 12) changes a gain or a
  temperature offset, and none but the unlocking one unlocks it.\<close>

theorem calibration_needs_unlock:
  assumes "\<forall>ch. \<not> cs_calEn s ch"
    and "\<not> (7800 \<le> fst item \<and> fst item \<le> 7803 \<and> (snd item = 0 \<or> snd item = 12))"
  shows "cs_cal (cmd_exec item s) = cs_cal s \<and> cs_tempOfs (cmd_exec item s) = cs_tempOfs s \<and>
    (\<forall>ch. \<not> cs_calEn (cmd_exec item s) ch)"
proof -
  let ?v = "cal_view s" and ?c = "int (unat (snd item))" and ?a = "int (unat (fst item)) - 7798"
  have l: "locked ?v s" using assms(1) by (simp add: locked_def)
  have cal: "locked ?v (dispatchMeterChCmd 2 ?a ?c calibration s)" if "2 \<le> ?a" "?a \<le> 5"
  proof -
    have "7800 \<le> unat (fst item)" "unat (fst item) \<le> 7803" using that by linarith+
    then have "7800 \<le> fst item \<and> fst item \<le> 7803" by (simp add: u16_cmp)
    then have "snd item \<noteq> 0 \<and> snd item \<noteq> 12" using assms(2) by blast
    then have "unat (snd item) \<noteq> 0" "unat (snd item) \<noteq> 12" by (auto simp: u16_eq_nat)
    then have "?c \<noteq> 0" "?c \<noteq> 12" by linarith+
    then show ?thesis
      by (intro dispatch_inv [where P = "locked ?v"] l) (rule calibration_locked)
  qed
  have clr: "locked ?v (dispatchMeterChCmd b a c clearDemand s)"
    "locked ?v (dispatchMeterChCmd b a c clearMinMax s)"
    "locked ?v (dispatchMeterChCmd b a c clearEnergy s)"
    "locked ?v (dispatchMeterChCmd b a c clearAlarm s)"
    "locked ?v (dispatchMeterChCmd b a c clearEventListCmd s)" for b a c
    by (rule dispatch_inv [where P = "locked ?v", OF _ l]; simp)+
  have "locked ?v (cmd_exec item s)"
    using l cal clr by (simp add: cmd_exec_def Let_def)
  then show ?thesis by (simp add: locked_def cal_view_def)
qed

theorem calibration_needs_unlock_witness:
  "cs_cal (cmd_exec (7800, 1) cmd_start) = cs_cal cmd_start \<and>
    cs_tempOfs (cmd_exec (7800, 1) cmd_start) = cs_tempOfs cmd_start \<and>
    (\<forall>ch. \<not> cs_calEn (cmd_exec (7800, 1) cmd_start) ch)"
  by (rule calibration_needs_unlock) (simp_all add: cmd_start_def)

text \<open>Calibrating the temperature is idempotent and hits its target: after the command
  the corrected reading of the meter equals the reference (25 degrees when none is set), and
  repeating the command with the reading corrected that way changes nothing.\<close>

theorem temp_calibration_idempotent:
  assumes "ch < 3" "cs_calEn s ch" "raw = cs_temp s ch - cs_tempOfs s ch"
  shows "let s1 = calibration ch 17 s; s2 = s1\<lparr>cs_temp := (cs_temp s1)(ch := raw + cs_tempOfs s1 ch)\<rparr>
    in raw + cs_tempOfs s1 ch = (if cs_tref s > 0 then cs_tref s else 25) \<and>
       cs_tempOfs (calibration ch 17 s2) = cs_tempOfs s1"
  using assms by (auto simp: calibration_def Let_def)

theorem temp_calibration_idempotent_witness:
  "let s0 = cmd_start\<lparr>cs_calEn := (\<lambda>_. True), cs_temp := (\<lambda>_. 27)\<rparr>; s1 = calibration 1 17 s0;
       s2 = s1\<lparr>cs_temp := (cs_temp s1)(1 := 27 + cs_tempOfs s1 1)\<rparr>
   in 27 + cs_tempOfs s1 1 = (if cs_tref s0 > 0 then cs_tref s0 else 25) \<and>
      cs_tempOfs (calibration 1 17 s2) = cs_tempOfs s1"
  using temp_calibration_idempotent [of 1 "cmd_start\<lparr>cs_calEn := (\<lambda>_. True), cs_temp := (\<lambda>_. 27)\<rparr>" 27]
  by (simp add: cmd_start_def Let_def)

end
