(* ===== verification/Energy.thy ===== *)
theory Energy
  imports Crc Complex_Main
begin

text \<open>
  Energy registers (\<open>meter.c\<close>). The master copy is \<open>egyNvr\<close>: 64-bit totals in Wh, 32-bit
  totals of the month and last month's display values, for three meters with 24 cells each
  (group, mode and sign); it is kept in FRAM in two sealed copies. Each meter shows a mirror
  of it in units of 0.1 kWh and collects fractions of a Wh in floating-point accumulators,
  which are exact rationals here. Arrays of all meters are flat lists, cell \<open>c\<close> of
  meter \<open>m\<close> at \<open>24 * m + c\<close>, the order in which they lie in memory.
\<close>

abbreviation (input) ENERGY_CH_COUNT :: nat where "ENERGY_CH_COUNT \<equiv> 3"
abbreviation (input) ENERGY_CELLS :: nat where "ENERGY_CELLS \<equiv> 24"
abbreviation MAX_EREG64 :: u64 where "MAX_EREG64 \<equiv> 99999999999"
abbreviation (input) EREG32_UNIT :: nat where "EREG32_UNIT \<equiv> 100"
abbreviation (input) ENERGY_NVRAM_MAGIC :: u32 where "ENERGY_NVRAM_MAGIC \<equiv> 0x1234abd0"

record egy_nvr =
  nv_magic :: u32
  nv_ts :: u32
  nv_ereg64 :: "u64 list"
  nv_month_wh :: "u32 list"
  nv_last32 :: "u32 list"
  nv_r :: "u16 list"
  nv_crc :: u16

record egy_meter =
  em_total32 :: "u32 list"
  em_this32 :: "u32 list"
  em_last32 :: "u32 list"
  em_ereg64 :: "u64 list"
  em_accum :: "rat list"

record egy_state =
  es_nvr :: egy_nvr
  es_meter :: "nat \<Rightarrow> egy_meter"

definition egy_val :: "nat \<Rightarrow> nat \<Rightarrow> nat \<Rightarrow> nat" where
  "egy_val mode sign grp = grp * 6 + mode * 2 + sign"

definition egy_cell :: "nat \<Rightarrow> nat \<Rightarrow> nat" where
  "egy_cell mid c = ENERGY_CELLS * mid + c"

definition div32 :: "u32 \<Rightarrow> u32" where
  "div32 w = of_nat (unat w div EREG32_UNIT)"

definition div64 :: "u64 \<Rightarrow> u32" where
  "div64 w = of_nat (unat w div EREG32_UNIT)"

subsection \<open>Mirror and edit\<close>

definition copyEreg32 :: "nat \<Rightarrow> egy_state \<Rightarrow> egy_state" where
  "copyEreg32 mid s =
     (let v = es_nvr s; m = es_meter s mid
      in s\<lparr>es_meter := (es_meter s)(mid := m\<lparr>
           em_total32 := map (\<lambda>c. div64 (nv_ereg64 v ! egy_cell mid c)) [0..<ENERGY_CELLS],
           em_this32 := map (\<lambda>c. div32 (nv_month_wh v ! egy_cell mid c)) [0..<ENERGY_CELLS],
           em_last32 := map (\<lambda>c. nv_last32 v ! egy_cell mid c) [0..<ENERGY_CELLS]\<rparr>)\<rparr>)"

definition copyEreg64 :: "nat \<Rightarrow> egy_state \<Rightarrow> egy_state" where
  "copyEreg64 mid s =
     s\<lparr>es_meter := (es_meter s)(mid := (es_meter s mid)\<lparr>
         em_ereg64 := map (\<lambda>c. nv_ereg64 (es_nvr s) ! egy_cell mid c) [0..<ENERGY_CELLS]\<rparr>)\<rparr>"

text \<open>Writing one meter's cells into a flat array.\<close>

definition put_cells :: "nat \<Rightarrow> 'a list \<Rightarrow> 'a list \<Rightarrow> 'a list" where
  "put_cells mid cs xs =
     take (ENERGY_CELLS * mid) xs @ cs @ drop (ENERGY_CELLS * mid + ENERGY_CELLS) xs"

definition applyEregEdit :: "nat \<Rightarrow> egy_state \<Rightarrow> egy_state" where
  "applyEregEdit mid s =
     (let m = es_meter s mid; v = es_nvr s
      in s\<lparr>es_nvr := v\<lparr>
             nv_ereg64 := put_cells mid
               (map (\<lambda>c. of_nat (unat (em_total32 m ! c) * EREG32_UNIT)) [0..<ENERGY_CELLS]) (nv_ereg64 v),
             nv_month_wh := put_cells mid
               (map (\<lambda>c. em_this32 m ! c * of_nat EREG32_UNIT) [0..<ENERGY_CELLS]) (nv_month_wh v),
             nv_last32 := put_cells mid
               (map (\<lambda>c. em_last32 m ! c) [0..<ENERGY_CELLS]) (nv_last32 v)\<rparr>,
           es_meter := (es_meter s)(mid := m\<lparr>em_accum := replicate ENERGY_CELLS 0\<rparr>)\<rparr>)"

subsection \<open>Counting\<close>

text \<open>
  One increment of \<open>diff\<close> Wh (negative means export). The result carries the flag of the
  mode when a displayed value has gone stale.
\<close>

definition updateEhGrp :: "nat \<Rightarrow> int \<Rightarrow> int \<Rightarrow> rat \<Rightarrow> egy_state \<Rightarrow> int \<times> egy_state" where
  "updateEhGrp mid mode grp diff s =
     (if diff = 0 then (0, s)
      else let dir = (if diff > 0 then 0 else 1); d = (if diff > 0 then diff else - diff)
      in if mode < 0 \<or> mode \<ge> 3 then (0, s)
      else if grp < 0 \<or> grp \<ge> 4 then (0, s)
      else
        let c = egy_val (nat mode) dir (nat grp); m = es_meter s mid; v = es_nvr s;
            a = em_accum m ! c + d; dt = \<lfloor>a\<rfloor>
        in if dt = 0 then (0, s\<lparr>es_meter := (es_meter s)(mid := m\<lparr>em_accum := (em_accum m)[c := a]\<rparr>)\<rparr>)
           else
             let cell0 = nv_ereg64 v ! egy_cell mid c + of_int dt;
                 cell = (if cell0 \<ge> MAX_EREG64 then cell0 - MAX_EREG64 else cell0);
                 month = nv_month_wh v ! egy_cell mid c + of_int dt;
                 flag = (if em_total32 m ! c \<noteq> div64 cell \<or> em_this32 m ! c \<noteq> div32 month
                         then 2 ^ nat mode else 0)
             in (flag, s\<lparr>es_nvr := v\<lparr>nv_ereg64 := (nv_ereg64 v)[egy_cell mid c := cell],
                                     nv_month_wh := (nv_month_wh v)[egy_cell mid c := month]\<rparr>,
                         es_meter := (es_meter s)(mid := m\<lparr>em_accum := (em_accum m)[c := a - of_int dt],
                                     em_ereg64 := (em_ereg64 m)[c := cell]\<rparr>)\<rparr>))"

definition updateEh :: "nat \<Rightarrow> int \<Rightarrow> rat \<Rightarrow> egy_state \<Rightarrow> int \<times> egy_state" where
  "updateEh mid mode diff s = updateEhGrp mid mode 0 diff s"

subsection \<open>The sealed memory image\<close>

definition nvr_body :: "egy_nvr \<Rightarrow> bytes" where
  "nvr_body v = le_bytes 4 (nv_magic v) @ le_bytes 4 (nv_ts v) @ le_array 8 (nv_ereg64 v) @
     le_array 4 (nv_month_wh v) @ le_array 4 (nv_last32 v) @ le_array 2 (nv_r v)"

definition nvr_bytes :: "egy_nvr \<Rightarrow> bytes" where
  "nvr_bytes v = nvr_body v @ le_bytes 2 (nv_crc v)"

definition nvr_parse :: "bytes \<Rightarrow> egy_nvr" where
  "nvr_parse bs = \<lparr>nv_magic = le_word (take 4 bs), nv_ts = le_word (take 4 (drop 4 bs)),
     nv_ereg64 = le_words 8 72 (drop 8 bs), nv_month_wh = le_words 4 72 (drop 584 bs),
     nv_last32 = le_words 4 72 (drop 872 bs), nv_r = le_words 2 3 (drop 1160 bs),
     nv_crc = le_word (take 2 (drop 1166 bs))\<rparr>"

definition nvr_shape :: "egy_nvr \<Rightarrow> bool" where
  "nvr_shape v \<longleftrightarrow> length (nv_ereg64 v) = 72 \<and> length (nv_month_wh v) = 72 \<and>
     length (nv_last32 v) = 72 \<and> length (nv_r v) = 3"

abbreviation NVR_SIZE :: nat where "NVR_SIZE \<equiv> 1168"
abbreviation (input) EGY_NVR_OS1 :: nat where "EGY_NVR_OS1 \<equiv> 0"
abbreviation EGY_NVR_OS2 :: nat where "EGY_NVR_OS2 \<equiv> 4096"
abbreviation EGY_NVR_OS_LEGACY :: nat where "EGY_NVR_OS_LEGACY \<equiv> 512"

text \<open>The FRAM is a list of 8192 bytes; the driver copies byte by byte.\<close>

definition FramRead :: "bytes \<Rightarrow> nat \<Rightarrow> nat \<Rightarrow> bytes" where
  "FramRead fram os n = take n (drop os fram)"

definition FramWrite :: "bytes \<Rightarrow> nat \<Rightarrow> bytes \<Rightarrow> bytes" where
  "FramWrite bs os fram = take os fram @ bs @ drop (os + length bs) fram"

definition storeEnergyNVR :: "egy_nvr \<Rightarrow> bytes \<Rightarrow> bytes" where
  "storeEnergyNVR v fram = FramWrite (nvr_bytes v) EGY_NVR_OS2 (FramWrite (nvr_bytes v) EGY_NVR_OS1 fram)"

definition seal_nvr :: "u32 \<Rightarrow> egy_nvr \<Rightarrow> egy_nvr" where
  "seal_nvr sysTick1s v =
     (let v1 = v\<lparr>nv_ts := sysTick1s\<rparr> in v1\<lparr>nv_crc := gencrc_modbus (nvr_body v1)\<rparr>)"

definition storeEnergy :: "u32 \<Rightarrow> egy_state \<times> bytes \<Rightarrow> egy_state \<times> bytes" where
  "storeEnergy sysTick1s sf =
     (let v = seal_nvr sysTick1s (es_nvr (fst sf))
      in ((fst sf)\<lparr>es_nvr := v\<rparr>, storeEnergyNVR v (snd sf)))"

definition loadEnergyNVR :: "bytes \<Rightarrow> egy_nvr option" where
  "loadEnergyNVR fram =
     (let b1 = FramRead fram EGY_NVR_OS1 NVR_SIZE; b2 = FramRead fram EGY_NVR_OS2 NVR_SIZE;
          b3 = FramRead fram EGY_NVR_OS_LEGACY NVR_SIZE;
          pick = (if gencrc_modbus b1 = 0 then Some b1 else if gencrc_modbus b2 = 0 then Some b2
                  else if gencrc_modbus b3 = 0 then Some b3 else None)
      in case pick of
           None \<Rightarrow> None
         | Some b \<Rightarrow>
             (let v = nvr_parse b
              in if nv_magic v \<noteq> ENERGY_NVRAM_MAGIC then None
                 else if \<exists>w \<in> set (nv_ereg64 v). w > MAX_EREG64 then None else Some v))"

subsection \<open>Month change, start-up and the periodic pass\<close>

text \<open>
  \<open>localMon\<close> is the month of a time stamp (\<open>uLocalTime\<close>), \<open>curMon\<close> the current month.
  \<open>checkEnergy\<close> is the start-up version of the month change, which does not refresh the
  mirror of last month itself but copies everything afterwards.
\<close>

definition zeros32 :: "nat \<Rightarrow> u32 list" where
  "zeros32 n = replicate n 0"

definition shift_month :: "bool \<Rightarrow> nat \<Rightarrow> egy_state \<Rightarrow> egy_state" where
  "shift_month mirror i s =
     (let m = es_meter s i; v = es_nvr s
      in s\<lparr>es_nvr := v\<lparr>nv_last32 := put_cells i (em_this32 m) (nv_last32 v),
                        nv_month_wh := put_cells i (zeros32 ENERGY_CELLS) (nv_month_wh v)\<rparr>,
           es_meter := (es_meter s)(i := m\<lparr>
             em_last32 := (if mirror then em_this32 m else em_last32 m),
             em_this32 := zeros32 ENERGY_CELLS\<rparr>)\<rparr>)"

definition checkEnergy ::
  "(u32 \<Rightarrow> nat) \<Rightarrow> nat \<Rightarrow> u32 \<Rightarrow> egy_state \<times> bytes \<Rightarrow> egy_state \<times> bytes" where
  "checkEnergy localMon curMon sysTick1s sf =
     (let s = fst sf;
          s1 = (if localMon (nv_ts (es_nvr s)) \<noteq> curMon
                then fold (shift_month False) [0..<ENERGY_CH_COUNT] s else s);
          s2 = fold (\<lambda>i t. copyEreg64 i (copyEreg32 i t)) [0..<ENERGY_CH_COUNT] s1
      in storeEnergy sysTick1s (s2, snd sf))"

definition nvr_zero :: egy_nvr where
  "nvr_zero = \<lparr>nv_magic = ENERGY_NVRAM_MAGIC, nv_ts = 0, nv_ereg64 = replicate 72 0,
     nv_month_wh = zeros32 72, nv_last32 = zeros32 72, nv_r = replicate 3 0, nv_crc = 0\<rparr>"

definition loadEnergy ::
  "(u32 \<Rightarrow> nat) \<Rightarrow> nat \<Rightarrow> u32 \<Rightarrow> egy_state \<times> bytes \<Rightarrow> int \<times> (egy_state \<times> bytes)" where
  "loadEnergy localMon curMon sysTick1s sf =
     (case loadEnergyNVR (snd sf) of
        Some v \<Rightarrow> (0, checkEnergy localMon curMon sysTick1s ((fst sf)\<lparr>es_nvr := v\<rparr>, snd sf))
      | None \<Rightarrow> (- 1, checkEnergy localMon curMon sysTick1s
                 (storeEnergy sysTick1s ((fst sf)\<lparr>es_nvr := nvr_zero\<rparr>, snd sf))))"

record egy_ctl =
  ec_rstEgy :: "nat \<Rightarrow> int"
  ec_dirty :: bool
  ec_lastSave :: u32
  ec_saveLock :: bool

definition clear_energy :: "nat \<Rightarrow> egy_state \<Rightarrow> egy_state" where
  "clear_energy mid s =
     (let v = es_nvr s; m = es_meter s mid
      in copyEreg64 mid (s\<lparr>
           es_nvr := v\<lparr>nv_ereg64 := put_cells mid (replicate ENERGY_CELLS 0) (nv_ereg64 v),
                       nv_month_wh := put_cells mid (zeros32 ENERGY_CELLS) (nv_month_wh v),
                       nv_last32 := put_cells mid (zeros32 ENERGY_CELLS) (nv_last32 v)\<rparr>,
           es_meter := (es_meter s)(mid := m\<lparr>em_accum := replicate ENERGY_CELLS 0,
             em_total32 := zeros32 ENERGY_CELLS, em_this32 := zeros32 ENERGY_CELLS,
             em_last32 := zeros32 ENERGY_CELLS\<rparr>)\<rparr>))"

text \<open>The increments of one pass, in the order they are counted: mode, group and Wh.\<close>

definition pass_incs ::
  "(nat \<Rightarrow> rat) \<Rightarrow> (nat \<Rightarrow> rat) \<Rightarrow> (nat \<Rightarrow> rat) \<Rightarrow> rat \<Rightarrow> rat \<Rightarrow> rat \<Rightarrow> (int \<times> int \<times> rat) list" where
  "pass_incs dtP_ph dtQ_ph dtS_ph dtP dtQ dtS =
     concat (map (\<lambda>i. [(0, 1 + int i, dtP_ph i), (1, 1 + int i, dtQ_ph i), (2, 1 + int i, dtS_ph i)]) [0..<3]) @
     [(0, 0, dtP), (1, 0, dtQ), (2, 0, dtS)]"

fun egy_count :: "nat \<Rightarrow> (int \<times> int \<times> rat) list \<Rightarrow> egy_state \<Rightarrow> int \<times> egy_state" where
  "egy_count mid [] s = (0, s)"
| "egy_count mid ((mode, grp, d) # incs) s =
     (let (f, s1) = updateEhGrp mid mode grp d s; (g, s2) = egy_count mid incs s1 in (f + g, s2))"

definition energyPass ::
  "(u32 \<Rightarrow> nat) \<Rightarrow> nat \<Rightarrow> u32 \<Rightarrow> nat \<Rightarrow> (int \<times> int \<times> rat) list \<Rightarrow>
     egy_ctl \<Rightarrow> egy_state \<times> bytes \<Rightarrow> egy_ctl \<times> (egy_state \<times> bytes)" where
  "energyPass localMon curMon sysTick1s mid incs ctl sf =
     (let (f0, s0) = egy_count mid incs (fst sf);
          (f1, s1) = (if localMon (nv_ts (es_nvr s0)) \<noteq> curMon
                      then (f0 + 8, fold (shift_month True) [0..<ENERGY_CH_COUNT] s0) else (f0, s0));
          (f2, s2, ctl2) = (if ec_rstEgy ctl mid = 0x1234
                      then (f1 + 8, clear_energy mid s1, ctl\<lparr>ec_rstEgy := (ec_rstEgy ctl)(mid := 0)\<rparr>)
                      else (f1, s1, ctl));
          (s3, ctl3) = (if ec_rstEgy ctl2 mid = 0x5678
                      then (applyEregEdit mid s2, ctl2\<lparr>ec_rstEgy := (ec_rstEgy ctl2)(mid := 0)\<rparr>)
                      else (s2, ctl2));
          ctl4 = (if f2 \<noteq> 0 then ctl3\<lparr>ec_dirty := True\<rparr> else ctl3)
      in if ec_dirty ctl4 \<and> \<not> ec_saveLock ctl4 \<and>
            (bit f2 3 \<or> sysTick1s - ec_lastSave ctl4 \<ge> 300)
         then (ctl4\<lparr>ec_dirty := False, ec_lastSave := sysTick1s\<rparr>,
               storeEnergy sysTick1s (fold copyEreg32 [0..<ENERGY_CH_COUNT] s3, snd sf))
         else (ctl4, (s3, snd sf)))"

subsection \<open>Nothing is lost between two displays\<close>

definition egy_ok :: "egy_state \<Rightarrow> bool" where
  "egy_ok s \<longleftrightarrow> nvr_shape (es_nvr s) \<and>
     (\<forall>mid < 3. length (em_accum (es_meter s mid)) = 24 \<and> length (em_ereg64 (es_meter s mid)) = 24 \<and>
        (\<forall>c < 24. 0 \<le> em_accum (es_meter s mid) ! c \<and> em_accum (es_meter s mid) ! c < 1))"

definition counted :: "nat \<Rightarrow> nat \<Rightarrow> egy_state \<Rightarrow> rat" where
  "counted mid c s = of_nat (unat (nv_ereg64 (es_nvr s) ! egy_cell mid c)) + em_accum (es_meter s mid) ! c"

definition inc_hits :: "int \<times> int \<times> rat \<Rightarrow> nat \<Rightarrow> bool" where
  "inc_hits i c = (case i of (mode, grp, d) \<Rightarrow>
     0 \<le> mode \<and> mode < 3 \<and> 0 \<le> grp \<and> grp < 4 \<and>
     egy_val (nat mode) (if d > 0 then 0 else 1) (nat grp) = c)"

definition inflow :: "nat \<Rightarrow> (int \<times> int \<times> rat) list \<Rightarrow> rat" where
  "inflow c incs = sum_list (map (\<lambda>i. if inc_hits i c then \<bar>snd (snd i)\<bar> else 0) incs)"

lemma egy_val_less: "mode < 3 \<Longrightarrow> dir < 2 \<Longrightarrow> grp < 4 \<Longrightarrow> egy_val mode dir grp < 24"
  by (simp add: egy_val_def)

lemma inflow_nonneg: "0 \<le> inflow c incs"
  by (auto simp: inflow_def intro!: sum_list_nonneg)

lemma unat_add_u64: "unat (a :: u64) + n < 2 ^ 64 \<Longrightarrow> unat (a + of_nat n) = unat a + n"
proof -
  assume n: "unat a + n < 2 ^ 64"
  then have "unat (of_nat n :: u64) = n" by (simp only: unat_of_nat) simp
  then show ?thesis using n by (simp add: unat_word_ariths)
qed

lemma nat_bound_of_rat:
  assumes "of_nat m + a < (numeral b :: rat)" "of_nat n \<le> a"
  shows "m + n < numeral b"
proof -
  have "(of_nat (m + n) :: rat) < of_nat (numeral b)" using assms by simp
  then show ?thesis by (simp only: of_nat_less_iff)
qed

lemma updateEhGrp_counted:
  assumes ok: "egy_ok s" and mid: "mid < 3" and c: "c < 24"
    and lim: "counted mid c s + inflow c [(mode, grp, d)] < 99999999999"
    and upd: "updateEhGrp mid mode grp d s = (f, s')"
  shows "counted mid c s' = counted mid c s + inflow c [(mode, grp, d)] \<and> egy_ok s'"
proof (cases "d = 0 \<or> mode < 0 \<or> mode \<ge> 3 \<or> grp < 0 \<or> grp \<ge> 4")
  case True
  then have "s' = s" using upd by (auto simp: updateEhGrp_def Let_def split: if_splits)
  moreover have "inflow c [(mode, grp, d)] = 0" using True by (auto simp: inflow_def inc_hits_def)
  ultimately show ?thesis using ok by simp
next
  case False
  define e where "e = (if d > 0 then d else - d)"
  define c0 where "c0 = egy_val (nat mode) (if d > 0 then 0 else 1) (nat grp)"
  define a where "a = em_accum (es_meter s mid) ! c0 + e"
  have e: "0 < e" "\<bar>d\<bar> = e" using False by (auto simp: e_def)
  have c0: "c0 < 24" unfolding c0_def by (rule egy_val_less) (use False in auto)
  have acc: "0 \<le> em_accum (es_meter s mid) ! c0" "length (em_accum (es_meter s mid)) = 24"
    using ok mid c0 by (auto simp: egy_ok_def)
  have shape: "length (nv_ereg64 (es_nvr s)) = 72" "length (nv_month_wh (es_nvr s)) = 72"
    using ok by (simp_all add: egy_ok_def nvr_shape_def)
  have idx: "egy_cell mid c0 < 72" using mid c0 by (simp add: egy_cell_def)
  have inf: "inflow c [(mode, grp, d)] = (if c0 = c then e else 0)"
    using False e(2) by (simp add: inflow_def inc_hits_def c0_def)
  have a0: "0 \<le> a" using acc(1) e(1) by (simp add: a_def)
  show ?thesis
  proof (cases "\<lfloor>a\<rfloor> = 0")
    case True
    then have "a < 1" using floor_less_iff [of a 1] by simp
    have s': "s' = s\<lparr>es_meter := (es_meter s)(mid := (es_meter s mid)\<lparr>em_accum :=
        (em_accum (es_meter s mid))[c0 := a]\<rparr>)\<rparr>"
      using upd False True by (auto simp: updateEhGrp_def Let_def c0_def a_def e_def)
    have "egy_ok s'" using ok a0 \<open>a < 1\<close> acc(2) c0 by (auto simp: s' egy_ok_def nth_list_update)
    moreover have "counted mid c s' = counted mid c s + inflow c [(mode, grp, d)]"
      using acc(2) c0 c by (simp add: s' counted_def inf nth_list_update a_def)
    ultimately show ?thesis by simp
  next
    case dt: False
    obtain n where n: "\<lfloor>a\<rfloor> = int n" using a0 by (metis nonneg_int_cases zero_le_floor)
    have na: "of_nat n \<le> a" "a < of_nat n + 1"
      using n floor_correct [of a] by (simp_all add: n)
    define cell0 where "cell0 = nv_ereg64 (es_nvr s) ! egy_cell mid c0 + of_nat n"
    define cell where "cell = (if cell0 \<ge> MAX_EREG64 then cell0 - MAX_EREG64 else cell0)"
    have s': "es_nvr s' = (es_nvr s)\<lparr>nv_ereg64 := (nv_ereg64 (es_nvr s))[egy_cell mid c0 := cell],
        nv_month_wh := (nv_month_wh (es_nvr s))[egy_cell mid c0 :=
          nv_month_wh (es_nvr s) ! egy_cell mid c0 + of_nat n]\<rparr>"
      "es_meter s' = (es_meter s)(mid := (es_meter s mid)\<lparr>
        em_accum := (em_accum (es_meter s mid))[c0 := a - of_nat n],
        em_ereg64 := (em_ereg64 (es_meter s mid))[c0 := cell]\<rparr>)"
      using upd False dt
      by (auto simp: updateEhGrp_def Let_def n cell_def cell0_def
          simp flip: c0_def e_def a_def split: if_splits)
    have "egy_ok s'" using ok na acc(2) c0
      by (auto simp: s' egy_ok_def nvr_shape_def nth_list_update)
    moreover have "counted mid c s' = counted mid c s + inflow c [(mode, grp, d)]"
    proof (cases "c = c0")
      case True
      have "of_nat (unat (nv_ereg64 (es_nvr s) ! egy_cell mid c0)) + a < (99999999999 :: rat)"
        using lim inf True by (simp add: counted_def a_def)
      then have lt: "unat (nv_ereg64 (es_nvr s) ! egy_cell mid c0) + n < 99999999999"
        by (rule nat_bound_of_rat) (rule na(1))
      then have u: "unat cell0 = unat (nv_ereg64 (es_nvr s) ! egy_cell mid c0) + n"
        unfolding cell0_def by (intro unat_add_u64) simp
      then have "cell = cell0" using lt by (simp add: cell_def word_le_nat_alt)
      then show ?thesis using True u shape idx acc(2) c0 inf
        by (simp add: s' counted_def a_def)
    next
      case ne: False
      then have "egy_cell mid c \<noteq> egy_cell mid c0" by (simp add: egy_cell_def)
      then show ?thesis using ne by (simp add: s' counted_def inf)
    qed
    ultimately show ?thesis by simp
  qed
qed

lemma inflow_Cons: "inflow c (i # is) = inflow c [i] + inflow c is"
  by (simp add: inflow_def)

text \<open>C2. No energy is lost or invented: over any sequence of measured increments, of any
  meter, mode, phase and direction, the 64-bit register of a cell plus the fraction waiting
  in its accumulator grows by exactly the sum of the increments of that cell, as long as
  the register does not reach its roll-over at 99,999,999,999 Wh.\<close>

theorem energy_is_conserved:
  assumes "egy_ok s" "mid < 3" "c < 24"
    and "counted mid c s + inflow c incs < 99999999999"
  shows "counted mid c (snd (egy_count mid incs s)) = counted mid c s + inflow c incs \<and>
    egy_ok (snd (egy_count mid incs s))"
  using assms(1,4)
proof (induction incs arbitrary: s)
  case Nil
  then show ?case by (simp add: inflow_def)
next
  case (Cons i incs)
  obtain mode grp d where i: "i = (mode, grp, d)" by (cases i) auto
  obtain f s1 where s1: "updateEhGrp mid mode grp d s = (f, s1)" by (cases "updateEhGrp mid mode grp d s")
  have tot: "counted mid c s + inflow c [i] + inflow c incs < 99999999999"
    using Cons.prems(2) inflow_Cons [of c i incs] by simp
  then have "counted mid c s + inflow c [(mode, grp, d)] < 99999999999"
    using inflow_nonneg [of c incs] unfolding i by linarith
  then have "counted mid c s1 = counted mid c s + inflow c [i] \<and> egy_ok s1"
    using updateEhGrp_counted [OF Cons.prems(1) assms(2,3) _ s1] i by simp
  then show ?case
    using Cons.IH [of s1] tot s1 inflow_Cons [of c i incs] by (simp add: i split_def Let_def)
qed

definition egy_zero :: egy_state where
  "egy_zero = \<lparr>es_nvr = nvr_zero, es_meter = (\<lambda>_. \<lparr>em_total32 = zeros32 24, em_this32 = zeros32 24,
     em_last32 = zeros32 24, em_ereg64 = replicate 24 0, em_accum = replicate 24 0\<rparr>)\<rparr>"

theorem energy_is_conserved_witness:
  "counted 0 0 (snd (egy_count 0 [(0, 0, 7/2), (0, 0, -3), (0, 0, 5/2)] egy_zero)) =
      counted 0 0 egy_zero + inflow 0 [(0, 0, 7/2), (0, 0, -3), (0, 0, 5/2)] \<and>
    egy_ok (snd (egy_count 0 [(0, 0, 7/2), (0, 0, -3), (0, 0, 5/2)] egy_zero))"
  by (rule energy_is_conserved)
    (simp_all add: egy_ok_def egy_zero_def nvr_zero_def nvr_shape_def zeros32_def counted_def
      inflow_def inc_hits_def egy_val_def egy_cell_def)

subsection \<open>Storing and loading\<close>

lemma nvr_body_length: "nvr_shape v \<Longrightarrow> length (nvr_body v) = 1166"
  by (simp add: nvr_body_def nvr_shape_def)

lemma drop_prefix: "length xs = n \<Longrightarrow> drop n (xs @ ys) = ys"
  by simp

lemma take_prefix: "length xs = n \<Longrightarrow> take n (xs @ ys) = xs"
  by simp

lemma nvr_parse_bytes:
  assumes "nvr_shape v"
  shows "nvr_parse (nvr_bytes v) = v"
proof -
  note sh = assms [unfolded nvr_shape_def]
  have d: "drop 4 (nvr_bytes v) = le_bytes 4 (nv_ts v) @ le_array 8 (nv_ereg64 v) @
      le_array 4 (nv_month_wh v) @ le_array 4 (nv_last32 v) @ le_array 2 (nv_r v) @ le_bytes 2 (nv_crc v)"
    "drop 8 (nvr_bytes v) = le_array 8 (nv_ereg64 v) @ le_array 4 (nv_month_wh v) @
      le_array 4 (nv_last32 v) @ le_array 2 (nv_r v) @ le_bytes 2 (nv_crc v)"
    "drop 584 (nvr_bytes v) = le_array 4 (nv_month_wh v) @ le_array 4 (nv_last32 v) @
      le_array 2 (nv_r v) @ le_bytes 2 (nv_crc v)"
    "drop 872 (nvr_bytes v) = le_array 4 (nv_last32 v) @ le_array 2 (nv_r v) @ le_bytes 2 (nv_crc v)"
    "drop 1160 (nvr_bytes v) = le_array 2 (nv_r v) @ le_bytes 2 (nv_crc v)"
    "drop 1166 (nvr_bytes v) = le_bytes 2 (nv_crc v)"
    using sh by (simp_all add: nvr_bytes_def nvr_body_def)
  have t: "take 4 (nvr_bytes v) = le_bytes 4 (nv_magic v)"
    by (simp add: nvr_bytes_def nvr_body_def)
  show ?thesis
    using sh by (simp add: nvr_parse_def d t)
qed

lemma nvr_bytes_sealed: "nvr_bytes (seal_nvr t v) = seal16 (nvr_body (v\<lparr>nv_ts := t\<rparr>))"
  by (simp add: seal_nvr_def nvr_bytes_def nvr_body_def seal16_def le_bytes_2 Let_def)

lemma seal_nvr_crc: "gencrc_modbus (nvr_bytes (seal_nvr t v)) = 0"
  by (simp add: nvr_bytes_sealed gencrc_modbus_seal)

lemma seal_nvr_shape: "nvr_shape (seal_nvr t v) = nvr_shape v"
  by (simp add: seal_nvr_def nvr_shape_def Let_def)

text \<open>An image that loads: right magic and no register beyond the limit.\<close>

definition nvr_valid :: "egy_nvr \<Rightarrow> bool" where
  "nvr_valid v \<longleftrightarrow> nvr_shape v \<and> nv_magic v = ENERGY_NVRAM_MAGIC \<and>
     (\<forall>w \<in> set (nv_ereg64 v). w \<le> MAX_EREG64)"

lemma load_first:
  assumes "nvr_valid v" "gencrc_modbus (nvr_bytes v) = 0" "FramRead fram 0 NVR_SIZE = nvr_bytes v"
  shows "loadEnergyNVR fram = Some v"
  using assms nvr_parse_bytes [of v]
  by (fastforce simp: loadEnergyNVR_def nvr_valid_def Let_def)

lemma load_second:
  assumes "nvr_valid v" "gencrc_modbus (nvr_bytes v) = 0" "FramRead fram 4096 NVR_SIZE = nvr_bytes v"
    and "gencrc_modbus (FramRead fram 0 NVR_SIZE) \<noteq> 0"
  shows "loadEnergyNVR fram = Some v"
  using assms nvr_parse_bytes [of v]
  by (fastforce simp: loadEnergyNVR_def nvr_valid_def Let_def)

lemma length_nvr_bytes: "nvr_shape v \<Longrightarrow> length (nvr_bytes v) = NVR_SIZE"
  by (simp add: nvr_bytes_def nvr_body_length)

lemma length_FramWrite: "os + length bs \<le> length fram \<Longrightarrow> length (FramWrite bs os fram) = length fram"
  by (simp add: FramWrite_def)

lemma FramWrite_none: "FramWrite [] os fram = fram"
  by (simp add: FramWrite_def)

lemma read_written_fram:
  "os + length bs \<le> length fram \<Longrightarrow> length bs = n \<Longrightarrow> FramRead (FramWrite bs os fram) os n = bs"
  by (simp add: FramRead_def FramWrite_def)

lemma read_other_fram:
  assumes "os + length bs \<le> length fram" "os' + n \<le> os \<or> os + length bs \<le> os'"
  shows "FramRead (FramWrite bs os fram) os' n = FramRead fram os' n"
proof -
  have "take n (drop os' (FramWrite bs os fram)) ! i = take n (drop os' fram) ! i"
    if "i < n" "os' + i < length fram" for i
    using assms that by (auto simp: FramWrite_def nth_append)
  then show ?thesis unfolding FramRead_def
    by (intro nth_equalityI) (use assms in \<open>auto simp: length_FramWrite\<close>)
qed

text \<open>
  What the FRAM holds when the power fails after \<open>k\<close> of the 2336 bytes of
  \<open>storeEnergyNVR\<close> have been written.
\<close>

definition store_cut :: "nat \<Rightarrow> egy_nvr \<Rightarrow> bytes \<Rightarrow> bytes" where
  "store_cut k v fram =
     FramWrite (take (k - NVR_SIZE) (nvr_bytes v)) EGY_NVR_OS2
       (FramWrite (take k (nvr_bytes v)) EGY_NVR_OS1 fram)"

lemma store_cut_all: "nvr_shape v \<Longrightarrow> 2336 \<le> k \<Longrightarrow> store_cut k v fram = storeEnergyNVR v fram"
  by (simp add: store_cut_def storeEnergyNVR_def length_nvr_bytes)

text \<open>C3. The energy store survives a power failure at any moment: if the power fails after
  any number of bytes of a store over two good copies, the next start loads either the new
  registers or the old ones, complete, provided only that a half-written first copy fails its
  CRC; once both copies are written it loads the new ones.\<close>

theorem store_is_power_safe:
  assumes "length fram = 8192" "nvr_valid old" "nvr_valid v"
    and "gencrc_modbus (nvr_bytes old) = 0" "FramRead fram 0 1168 = nvr_bytes old"
    and "FramRead fram 4096 1168 = nvr_bytes old"
    and "new = seal_nvr t v"
    and "0 < k \<Longrightarrow> k < 1168 \<Longrightarrow> gencrc_modbus (FramRead (store_cut k new fram) 0 1168) \<noteq> 0"
  shows "loadEnergyNVR (store_cut k new fram) = Some (if k < 1168 then old else new)"
proof -
  have shape: "nvr_shape new" using assms(3,7) by (simp add: nvr_valid_def seal_nvr_shape)
  have len: "length (nvr_bytes new) = 1168" using shape by (rule length_nvr_bytes)
  have newv: "nvr_valid new" using assms(3,7) by (simp add: nvr_valid_def nvr_shape_def seal_nvr_def Let_def)
  have crc: "gencrc_modbus (nvr_bytes new) = 0" using assms(7) seal_nvr_crc by simp
  let ?f1 = "FramWrite (take k (nvr_bytes new)) 0 fram"
  have len1: "length ?f1 = 8192" using assms(1) len by (simp add: length_FramWrite)
  consider "k = 0" | "0 < k" "k < 1168" | "1168 \<le> k" by linarith
  then show ?thesis
  proof cases
    case 1
    then have "store_cut k new fram = fram" by (simp add: store_cut_def FramWrite_def)
    then show ?thesis using load_first [OF assms(2,4)] assms(5) 1 by simp
  next
    case 2
    then have cut: "store_cut k new fram = ?f1" by (simp add: store_cut_def FramWrite_none)
    have "FramRead ?f1 4096 1168 = FramRead fram 4096 1168"
      using assms(1) 2 len by (intro read_other_fram) auto
    then show ?thesis
      using load_second [OF assms(2,4), of "store_cut k new fram"] assms(6,8) 2 cut by simp
  next
    case 3
    have "FramRead (store_cut k new fram) 0 1168 = FramRead ?f1 0 1168"
      unfolding store_cut_def using len1 len by (intro read_other_fram) auto
    also have "\<dots> = nvr_bytes new"
      using 3 len assms(1) by (simp add: read_written_fram)
    finally show ?thesis using load_first [OF newv crc] 3 by simp
  qed
qed

definition zero_fram :: bytes where
  "zero_fram = replicate 8192 0"

text \<open>A FRAM that holds two good copies, and the registers stored over it.\<close>

definition demo_old :: egy_nvr where "demo_old = seal_nvr 7 nvr_zero"

definition demo_fram :: bytes where "demo_fram = storeEnergyNVR demo_old zero_fram"

lemma nvr_zero_valid: "nvr_valid nvr_zero"
  by (simp add: nvr_valid_def nvr_shape_def nvr_zero_def zeros32_def)

lemma seal_nvr_valid: "nvr_valid (seal_nvr t v) = nvr_valid v"
  by (simp add: seal_nvr_def nvr_valid_def nvr_shape_def Let_def)

lemma stored_reads:
  assumes "nvr_shape v" "length fram = 8192"
  shows "FramRead (storeEnergyNVR v fram) 0 1168 = nvr_bytes v"
    and "FramRead (storeEnergyNVR v fram) 4096 1168 = nvr_bytes v"
    and "length (storeEnergyNVR v fram) = 8192"
proof -
  have len: "length (nvr_bytes v) = 1168" using assms(1) by (rule length_nvr_bytes)
  have "FramRead (storeEnergyNVR v fram) 0 1168 = FramRead (FramWrite (nvr_bytes v) 0 fram) 0 1168"
    unfolding storeEnergyNVR_def using len assms(2) by (intro read_other_fram) (auto simp: length_FramWrite)
  then show "FramRead (storeEnergyNVR v fram) 0 1168 = nvr_bytes v"
    using len assms(2) by (simp add: read_written_fram)
  show "FramRead (storeEnergyNVR v fram) 4096 1168 = nvr_bytes v"
    unfolding storeEnergyNVR_def using len assms(2) by (intro read_written_fram) (auto simp: length_FramWrite)
  show "length (storeEnergyNVR v fram) = 8192"
    unfolding storeEnergyNVR_def using len assms(2) by (simp add: length_FramWrite)
qed

theorem store_is_power_safe_witness:
  "loadEnergyNVR (store_cut 2000 (seal_nvr 9 nvr_zero) demo_fram) =
     Some (if 2000 < (1168 :: nat) then demo_old else seal_nvr 9 nvr_zero)"
  by (rule store_is_power_safe [where v = nvr_zero and t = 9])
    (simp_all add: demo_fram_def demo_old_def stored_reads seal_nvr_shape seal_nvr_valid nvr_zero_valid
      nvr_zero_valid [unfolded nvr_valid_def] zero_fram_def seal_nvr_crc)

subsection \<open>The month change\<close>

lemma put_cells_all:
  "length xs = 72 \<Longrightarrow> length a = 24 \<Longrightarrow> length b = 24 \<Longrightarrow> length c = 24 \<Longrightarrow>
    put_cells 2 c (put_cells 1 b (put_cells 0 a xs)) = a @ b @ c"
  by (simp add: put_cells_def)

lemma three: "[0..<3] = [0, 1, 2 :: nat]"
  by (simp add: upt_rec)

lemma zeros32_72: "zeros32 24 @ zeros32 24 @ zeros32 24 = zeros32 72"
  by (simp add: zeros32_def flip: replicate_add)

lemma shift_all:
  assumes "nvr_shape (es_nvr s)" "\<forall>i < 3. length (em_this32 (es_meter s i)) = 24"
  shows "es_nvr (fold (shift_month b) [0..<ENERGY_CH_COUNT] s) = (es_nvr s)
    \<lparr>nv_last32 := em_this32 (es_meter s 0) @ em_this32 (es_meter s 1) @ em_this32 (es_meter s 2),
     nv_month_wh := zeros32 72\<rparr>"
proof -
  have l: "length (em_this32 (es_meter s 0)) = 24" "length (em_this32 (es_meter s 1)) = 24"
    "length (em_this32 (es_meter s 2)) = 24" "length (zeros32 24) = 24"
    using assms(2) by (auto simp: zeros32_def)
  have n: "length (nv_last32 (es_nvr s)) = 72" "length (nv_month_wh (es_nvr s)) = 72"
    using assms(1) by (simp_all add: nvr_shape_def)
  have "put_cells 2 (zeros32 24) (put_cells 1 (zeros32 24) (put_cells 0 (zeros32 24)
      (nv_month_wh (es_nvr s)))) = zeros32 72"
    using put_cells_all [OF n(2) l(4) l(4) l(4)] zeros32_72 by simp
  then show ?thesis
    using put_cells_all [OF n(1) l(1-3)] unfolding three by (simp add: shift_month_def Let_def)
qed

lemma copyEreg_nvr: "es_nvr (copyEreg32 i s) = es_nvr s" "es_nvr (copyEreg64 i s) = es_nvr s"
  by (simp_all add: copyEreg32_def copyEreg64_def Let_def)

lemma fold_copyEreg_nvr:
  "es_nvr (fold (\<lambda>i t. copyEreg64 i (copyEreg32 i t)) is s) = es_nvr s"
  "es_nvr (fold copyEreg32 is s) = es_nvr s"
  by (induction "is" arbitrary: s) (simp_all add: copyEreg_nvr)

lemma storeEnergy_loads:
  assumes "nvr_valid (es_nvr s)" "length fram = 8192" "storeEnergy t (s, fram) = (s', fram')"
  shows "loadEnergyNVR fram' = Some (es_nvr s')" and "es_nvr s' = seal_nvr t (es_nvr s)"
proof -
  have s': "es_nvr s' = seal_nvr t (es_nvr s)" "fram' = storeEnergyNVR (es_nvr s') fram"
    using assms(3) by (auto simp: storeEnergy_def Let_def)
  show "es_nvr s' = seal_nvr t (es_nvr s)" by (rule s'(1))
  have v: "nvr_valid (es_nvr s')" using assms(1) s'(1) by (simp add: seal_nvr_valid)
  show "loadEnergyNVR fram' = Some (es_nvr s')"
    unfolding s'(2)
    by (rule load_first [OF v])
      (use v s'(1) assms(2) in \<open>simp_all add: seal_nvr_crc stored_reads nvr_valid_def\<close>)
qed

text \<open>When the device is switched off before the end of a month and on again in another
  month, the energy of the month it had counted is lost: start-up takes last month's values
  from the display mirror, which is still zero because it is filled only afterwards, so last
  month reads zero for all three meters and the counted Wh of the month are cleared.\<close>

theorem month_lost_when_off_at_month_end:
  assumes "length fram = 8192" "nvr_valid v" "gencrc_modbus (nvr_bytes v) = 0"
    and "FramRead fram 0 1168 = nvr_bytes v" "localMon (nv_ts v) \<noteq> curMon"
    and "\<forall>i < 3. em_this32 (es_meter s i) = zeros32 24"
    and "loadEnergy localMon curMon t (s, fram) = (r, s', fram')"
  shows "r = 0 \<and> nv_ereg64 (es_nvr s') = nv_ereg64 v \<and> nv_month_wh (es_nvr s') = zeros32 72 \<and>
    nv_last32 (es_nvr s') = zeros32 72 \<and> loadEnergyNVR fram' = Some (es_nvr s')"
proof -
  let ?s0 = "s\<lparr>es_nvr := v\<rparr>"
  let ?s1 = "fold (shift_month False) [0..<ENERGY_CH_COUNT] ?s0"
  let ?s2 = "fold (\<lambda>i t. copyEreg64 i (copyEreg32 i t)) [0..<ENERGY_CH_COUNT] ?s1"
  have load: "loadEnergyNVR fram = Some v" using assms(2-4) by (rule load_first)
  have r: "r = 0" and st: "storeEnergy t (?s2, fram) = (s', fram')"
    using assms(5,7) by (simp_all add: loadEnergy_def load checkEnergy_def Let_def)
  have "es_nvr ?s1 = v\<lparr>nv_last32 := zeros32 24 @ zeros32 24 @ zeros32 24, nv_month_wh := zeros32 72\<rparr>"
    using assms(2,6) shift_all [of ?s0 False] by (simp add: nvr_valid_def zeros32_def)
  then have s2: "es_nvr ?s2 = v\<lparr>nv_last32 := zeros32 72, nv_month_wh := zeros32 72\<rparr>"
    by (simp add: fold_copyEreg_nvr zeros32_72)
  then have "nvr_valid (es_nvr ?s2)" using assms(2) by (simp add: nvr_valid_def nvr_shape_def zeros32_def)
  from storeEnergy_loads [OF this assms(1) st] s2 r show ?thesis
    by (simp add: seal_nvr_def Let_def)
qed

definition demo_month :: egy_nvr where
  "demo_month = seal_nvr 100 (nvr_zero\<lparr>nv_month_wh := replicate 72 5000\<rparr>)"

lemma demo_month_valid: "nvr_valid demo_month"
  by (simp add: demo_month_def seal_nvr_valid)
    (simp add: nvr_valid_def nvr_shape_def nvr_zero_def zeros32_def)

definition demo_boot :: "int \<times> egy_state \<times> bytes" where
  "demo_boot = loadEnergy (\<lambda>t. if t = 100 then 4 else 5) 5 200
     (egy_zero, storeEnergyNVR demo_month zero_fram)"

theorem month_lost_when_off_at_month_end_witness:
  "nv_month_wh demo_month = replicate 72 5000 \<and>
   (fst demo_boot = 0 \<and> nv_ereg64 (es_nvr (fst (snd demo_boot))) = nv_ereg64 demo_month \<and>
    nv_month_wh (es_nvr (fst (snd demo_boot))) = zeros32 72 \<and>
    nv_last32 (es_nvr (fst (snd demo_boot))) = zeros32 72 \<and>
    loadEnergyNVR (snd (snd demo_boot)) = Some (es_nvr (fst (snd demo_boot))))"
proof
  show "nv_month_wh demo_month = replicate 72 5000" by (simp add: demo_month_def seal_nvr_def Let_def)
  have sh: "nvr_shape demo_month" using demo_month_valid by (simp add: nvr_valid_def)
  show "fst demo_boot = 0 \<and> nv_ereg64 (es_nvr (fst (snd demo_boot))) = nv_ereg64 demo_month \<and>
    nv_month_wh (es_nvr (fst (snd demo_boot))) = zeros32 72 \<and>
    nv_last32 (es_nvr (fst (snd demo_boot))) = zeros32 72 \<and>
    loadEnergyNVR (snd (snd demo_boot)) = Some (es_nvr (fst (snd demo_boot)))"
  proof (rule month_lost_when_off_at_month_end)
    show "gencrc_modbus (nvr_bytes demo_month) = 0" by (simp add: demo_month_def seal_nvr_crc)
    show "loadEnergy (\<lambda>t. if t = 100 then 4 else 5) 5 200 (egy_zero, storeEnergyNVR demo_month zero_fram) =
      (fst demo_boot, fst (snd demo_boot), snd (snd demo_boot))" by (simp add: demo_boot_def)
    show "(if nv_ts demo_month = 100 then 4 else 5) \<noteq> (5 :: nat)"
      by (simp add: demo_month_def seal_nvr_def Let_def)
    show "\<forall>i < 3. em_this32 (es_meter egy_zero i) = zeros32 24" by (simp add: egy_zero_def)
  qed (use sh demo_month_valid in \<open>simp_all add: stored_reads zero_fram_def\<close>)
qed

text \<open>
  In a pass the change of month raises the flag \<open>8\<close>, which is to force the store at once.
  The flags of the counted modes are added, not joined, so their sum can carry into it.
\<close>

lemma updateEhGrp_shape:
  "nvr_shape (es_nvr (snd (updateEhGrp mid mode grp d s))) = nvr_shape (es_nvr s)"
  "nv_magic (es_nvr (snd (updateEhGrp mid mode grp d s))) = nv_magic (es_nvr s)"
  "nv_last32 (es_nvr (snd (updateEhGrp mid mode grp d s))) = nv_last32 (es_nvr s)"
  "em_this32 (es_meter (snd (updateEhGrp mid mode grp d s)) i) = em_this32 (es_meter s i)"
  by (simp_all add: updateEhGrp_def Let_def nvr_shape_def)

lemma egy_count_shape:
  "nvr_shape (es_nvr (snd (egy_count mid incs s))) = nvr_shape (es_nvr s)"
  "nv_last32 (es_nvr (snd (egy_count mid incs s))) = nv_last32 (es_nvr s)"
  "em_this32 (es_meter (snd (egy_count mid incs s)) i) = em_this32 (es_meter s i)"
proof (induction incs arbitrary: s)
  case (Cons inc incs)
  { case 1 then show ?case using Cons by (cases inc) (simp add: split_def Let_def updateEhGrp_shape) }
  { case 2 then show ?case using Cons by (cases inc) (simp add: split_def Let_def updateEhGrp_shape) }
  { case 3 then show ?case using Cons by (cases inc) (simp add: split_def Let_def updateEhGrp_shape) }
qed simp_all

text \<open>In running operation the first pass of a new month takes last month's values from the
  display mirror, not from the counted Wh, so up to five minutes of energy counted since the
  last refresh appear in neither month; the counted Wh of the month restart at zero.\<close>

theorem month_change_takes_display:
  assumes "nvr_shape (es_nvr s)" "\<forall>i < 3. length (em_this32 (es_meter s i)) = 24"
    and "localMon (nv_ts (es_nvr (snd (egy_count mid incs s)))) \<noteq> curMon"
    and "ec_rstEgy ctl mid \<noteq> 0x1234" "ec_rstEgy ctl mid \<noteq> 0x5678"
    and "energyPass localMon curMon t mid incs ctl (s, fram) = (ctl', s', fram')"
  shows "nv_month_wh (es_nvr s') = zeros32 72 \<and>
    nv_last32 (es_nvr s') =
      em_this32 (es_meter s 0) @ em_this32 (es_meter s 1) @ em_this32 (es_meter s 2)"
proof -
  obtain f0 s0 where c: "egy_count mid incs s = (f0, s0)" by (cases "egy_count mid incs s")
  have sh: "nvr_shape (es_nvr s0)" "\<forall>i < 3. length (em_this32 (es_meter s0 i)) = 24"
    "\<And>i. em_this32 (es_meter s0 i) = em_this32 (es_meter s i)"
    using egy_count_shape [of mid incs s] assms(1,2) by (simp_all add: c)
  have "es_nvr s' = es_nvr (fold (shift_month True) [0..<ENERGY_CH_COUNT] s0) \<or>
    es_nvr s' = seal_nvr t (es_nvr (fold (shift_month True) [0..<ENERGY_CH_COUNT] s0))"
    using assms(3-6)
    by (auto simp: energyPass_def c storeEnergy_def Let_def fold_copyEreg_nvr split: if_splits)
  then show ?thesis
    using shift_all [OF sh(1,2), of True] sh(3) by (auto simp: seal_nvr_def Let_def)
qed

definition demo_ctl :: egy_ctl where
  "demo_ctl = \<lparr>ec_rstEgy = (\<lambda>_. 0), ec_dirty = False, ec_lastSave = 100, ec_saveLock = False\<rparr>"

definition demo_run :: "(int \<times> int \<times> rat) list \<Rightarrow> egy_ctl \<times> egy_state \<times> bytes" where
  "demo_run incs = energyPass (\<lambda>t. if t = 0 then 4 else 5) 5 200 0 incs demo_ctl (egy_zero, zero_fram)"

lemma energyPass_split:
  "energyPass localMon curMon t mid incs ctl (s, fram) =
    (fst (energyPass localMon curMon t mid incs ctl (s, fram)),
     fst (snd (energyPass localMon curMon t mid incs ctl (s, fram))),
     snd (snd (energyPass localMon curMon t mid incs ctl (s, fram))))"
  by simp

theorem month_change_takes_display_witness:
  "nv_month_wh (es_nvr (fst (snd (demo_run [(0, 0, 99)])))) = zeros32 72 \<and>
   nv_last32 (es_nvr (fst (snd (demo_run [(0, 0, 99)])))) =
     em_this32 (es_meter egy_zero 0) @ em_this32 (es_meter egy_zero 1) @ em_this32 (es_meter egy_zero 2)"
  unfolding demo_run_def
  by (rule month_change_takes_display [OF _ _ _ _ _ energyPass_split])
    (simp_all add: egy_zero_def nvr_zero_def nvr_shape_def zeros32_def demo_ctl_def updateEhGrp_def
      Let_def egy_val_def egy_cell_def)

text \<open>The change of month is not always stored at once as the code intends: when the counted
  increments of the pass raise flags that add up to 8, the sum with the month's flag is 16, the
  store is not forced, and the FRAM keeps the old month until the five minutes are over.\<close>

theorem month_change_may_not_be_saved:
  assumes "fst (egy_count mid incs s) = 8"
    and "localMon (nv_ts (es_nvr (snd (egy_count mid incs s)))) \<noteq> curMon"
    and "ec_rstEgy ctl mid = 0" "t - ec_lastSave ctl < 300"
    and "energyPass localMon curMon t mid incs ctl (s, fram) = (ctl', s', fram')"
  shows "fram' = fram \<and> ec_dirty ctl'"
proof -
  obtain s0 where c: "egy_count mid incs s = (8, s0)" using assms(1) by (cases "egy_count mid incs s") auto
  have b: "\<not> bit (16 :: int) 3" "(16 :: int) \<noteq> 0" by (simp_all add: bit_iff_odd)
  have lt: "\<not> 300 \<le> t - ec_lastSave ctl" using assms(4) by simp
  show ?thesis using assms(2,3,5) b lt
    by (clarsimp simp: energyPass_def c Let_def split: if_splits)
qed

definition carry_incs :: "(int \<times> int \<times> rat) list" where
  "carry_incs = pass_incs (\<lambda>_. 0) (\<lambda>_. 100) (\<lambda>_. 0) 0 300 0"

lemma carry_count:
  "fst (egy_count 0 carry_incs egy_zero) = 8"
  "nv_ts (es_nvr (snd (egy_count 0 carry_incs egy_zero))) = 0"
  by (simp_all add: carry_incs_def pass_incs_def three upt_rec updateEhGrp_def Let_def egy_zero_def nvr_zero_def
      zeros32_def egy_val_def egy_cell_def div32_def div64_def word_le_nat_alt)

theorem month_change_may_not_be_saved_witness:
  "snd (snd (demo_run carry_incs)) = zero_fram \<and> ec_dirty (fst (demo_run carry_incs))"
  unfolding demo_run_def
  by (rule month_change_may_not_be_saved [OF _ _ _ _ energyPass_split])
    (simp_all add: carry_count demo_ctl_def)

subsection \<open>Editing\<close>

lemma put_cells_nth:
  assumes "length xs = 72" "length cs = 24" "mid < 3" "c < 24"
  shows "put_cells mid cs xs ! egy_cell mid c = cs ! c"
  using assms by (auto simp: put_cells_def egy_cell_def nth_append)

lemma div64_times: "div64 (of_nat (unat (w :: u32) * EREG32_UNIT)) = w"
proof -
  have "unat w < 2 ^ LENGTH(32)" by (rule unsigned_less)
  then have "unat w * 100 < 2 ^ 64" by simp
  then have "unat (of_nat (unat w * 100) :: u64) = unat w * 100" by (simp only: unat_of_nat) simp
  then show ?thesis by (simp add: div64_def)
qed

lemma div32_times: "unat (w :: u32) * 100 < 2 ^ 32 \<Longrightarrow> div32 (w * of_nat EREG32_UNIT) = w"
  by (simp add: div32_def unat_word_ariths)

text \<open>An edit of a meter's displayed energy is exact: after the edited display values were
  taken over into the registers, refreshing the display shows the same values again (and only
  that meter's), and no fraction of the old count is left, as long as this month's value stays
  below 42,949,673 (4,294,967.3 kWh), where its 32-bit Wh count would wrap.\<close>

theorem energy_edit_round_trip:
  assumes "nvr_shape (es_nvr s)" "mid < 3"
    and "length (em_total32 (es_meter s mid)) = 24" "length (em_this32 (es_meter s mid)) = 24"
    and "length (em_last32 (es_meter s mid)) = 24"
    and "\<forall>w \<in> set (em_this32 (es_meter s mid)). unat w * 100 < 2 ^ 32"
  shows "let s' = copyEreg32 mid (applyEregEdit mid s) in
    em_total32 (es_meter s' mid) = em_total32 (es_meter s mid) \<and>
    em_this32 (es_meter s' mid) = em_this32 (es_meter s mid) \<and>
    em_last32 (es_meter s' mid) = em_last32 (es_meter s mid) \<and>
    em_accum (es_meter s' mid) = replicate 24 0 \<and>
    (\<forall>i. i \<noteq> mid \<longrightarrow> es_meter s' i = es_meter s i)"
proof -
  have l: "length (nv_ereg64 (es_nvr s)) = 72" "length (nv_month_wh (es_nvr s)) = 72"
    "length (nv_last32 (es_nvr s)) = 72" using assms(1) by (simp_all add: nvr_shape_def)
  have e: "map (\<lambda>c. div64 (put_cells mid (map (\<lambda>c. of_nat (unat (em_total32 (es_meter s mid) ! c) * EREG32_UNIT))
      [0..<24]) (nv_ereg64 (es_nvr s)) ! egy_cell mid c)) [0..<24] = em_total32 (es_meter s mid)"
    using assms(2,3) l by (intro nth_equalityI) (simp_all add: put_cells_nth del: of_nat_mult, metis div64_times)
  have t: "map (\<lambda>c. div32 (put_cells mid (map (\<lambda>c. em_this32 (es_meter s mid) ! c * of_nat EREG32_UNIT)
      [0..<24]) (nv_month_wh (es_nvr s)) ! egy_cell mid c)) [0..<24] = em_this32 (es_meter s mid)"
    using assms(2,4,6) l
    by (intro nth_equalityI) (simp_all add: put_cells_nth div32_times [simplified])
  have m: "map (\<lambda>c. put_cells mid (map (\<lambda>c. em_last32 (es_meter s mid) ! c)
      [0..<24]) (nv_last32 (es_nvr s)) ! egy_cell mid c) [0..<24] = em_last32 (es_meter s mid)"
    using assms(2,5) l by (intro nth_equalityI) (simp_all add: put_cells_nth)
  show ?thesis
    unfolding copyEreg32_def applyEregEdit_def Let_def using e t m by (simp del: of_nat_mult)
qed

definition demo_edit :: egy_state where
  "demo_edit = egy_zero\<lparr>es_meter := (es_meter egy_zero)(1 := (es_meter egy_zero 1)
     \<lparr>em_total32 := replicate 24 4294967295, em_this32 := replicate 24 42949672\<rparr>)\<rparr>"

theorem energy_edit_round_trip_witness:
  "let s' = copyEreg32 1 (applyEregEdit 1 demo_edit) in
    em_total32 (es_meter s' 1) = em_total32 (es_meter demo_edit 1) \<and>
    em_this32 (es_meter s' 1) = em_this32 (es_meter demo_edit 1) \<and>
    em_last32 (es_meter s' 1) = em_last32 (es_meter demo_edit 1) \<and>
    em_accum (es_meter s' 1) = replicate 24 0 \<and>
    (\<forall>i. i \<noteq> 1 \<longrightarrow> es_meter s' i = es_meter demo_edit i)"
  by (rule energy_edit_round_trip)
    (simp_all add: demo_edit_def egy_zero_def nvr_zero_def nvr_shape_def zeros32_def)

end
