(* ===== verification/Demand.thy ===== *)
theory Demand
  imports Energy
begin

unbundle bit_operations_syntax

text \<open>
  Demand and energy logs (\<open>meter.c\<close>): the power averaged over the demand interval and its
  maxima, the 96 quarter-hour bins of the day, the hourly and quarter-hourly energy logs with
  their deferred file writes, and \<open>energy_scan\<close>, the handler that runs once a second per meter
  and composes them with the energy registers. Floating-point values are exact rationals.
\<close>

subsection \<open>Demand\<close>

type_synonym peak = "u32 \<times> rat"

record demand =
  dm_MD_P :: "peak list"
  dm_MD_Q :: "peak list"
  dm_MD_S :: peak
  dm_MD_I :: "peak list"
  dm_ddTime :: u32
  dm_DD_P :: "rat list"
  dm_DD_Q :: "rat list"
  dm_DD_S :: rat
  dm_DD_I :: "rat list"
  dm_CD_P :: "rat list"
  dm_CD_Q :: "rat list"
  dm_CD_S :: rat
  dm_PD_P :: rat
  dm_DD_P_15 :: rat
  dm_dmdLogTs :: u32
  dm_DP_P_Log :: "rat list"

record dmd_state =
  dc_dInterval :: u16
  dc_mInterval :: u16
  dc_mInterval15m :: u16
  dc_dmdTs :: u32
  dc_dmdStartTs :: u32
  dc_dmdEndTs :: u32
  dc_dmdI :: "rat list"
  dc_dmdP :: "rat list"
  dc_dmdQ :: "rat list"
  dc_dmdS :: "rat list"
  dc_dmdTs15m :: u32
  dc_dmdEndTs15m :: u32
  dc_dmdStartTs15m :: u32
  dc_dmdP15m :: "rat list"
  dc_dm :: demand
  dc_dlog_ts :: u32
  dc_dlog :: "rat list"

text \<open>The interval setting and the seconds it stands for.\<close>

definition demandInterval :: "nat \<Rightarrow> nat \<times> u16" where
  "demandInterval code =
     (if code = 0 then (code, 60) else if code = 1 then (code, 5 * 60)
      else if code = 2 then (code, 15 * 60) else if code = 3 then (code, 30 * 60)
      else if code = 4 then (code, 60 * 60) else (0, 60))"

definition updateDemandI :: "rat list \<Rightarrow> dmd_state \<Rightarrow> dmd_state" where
  "updateDemandI I s = s\<lparr>dc_dmdI := map (\<lambda>i. dc_dmdI s ! i + I ! i) [0..<3]\<rparr>"

definition updatePresentDemand :: "dmd_state \<Rightarrow> dmd_state" where
  "updatePresentDemand s =
     (let mult = 3600 / of_nat (unat (dc_mInterval s))
      in s\<lparr>dc_dm := (dc_dm s)\<lparr>dm_CD_P := map (\<lambda>i. dc_dmdP s ! i * mult) [0..<2],
                              dm_CD_Q := map (\<lambda>i. dc_dmdQ s ! i * mult) [0..<2],
                              dm_CD_S := dc_dmdS s ! 0 * mult\<rparr>\<rparr>)"

text \<open>
  The quotient \<open>60 / (mInterval / 60)\<close> divides by zero in the first minute of an interval.
  C leaves the result open; it is the parameter \<open>div0\<close> (the processor delivers 0).
\<close>

definition updatePredictDemand :: "int \<Rightarrow> rat \<Rightarrow> dmd_state \<Rightarrow> dmd_state" where
  "updatePredictDemand div0 delta s =
     (let m = unat (dc_mInterval s);
          mult = (if m div 60 = 0 then div0 else 60 div int (m div 60));
          d = (if delta < 0 then 0 else delta)
      in s\<lparr>dc_dm := (dc_dm s)\<lparr>dm_PD_P :=
           (dc_dmdP s ! 0 + d * of_int (int (unat (dc_dInterval s)) - int m + 1)) * of_int mult\<rparr>\<rparr>)"

definition incEnergy :: "rat \<Rightarrow> rat list \<Rightarrow> rat list" where
  "incEnergy diff acc = (if diff > 0 then acc[0 := acc ! 0 + diff] else acc[1 := acc ! 1 + (- diff)])"

definition raise_peak :: "u32 \<Rightarrow> peak \<Rightarrow> rat \<Rightarrow> peak" where
  "raise_peak t m v = (if snd m < v then (t, v) else m)"

definition raised :: "peak \<Rightarrow> rat \<Rightarrow> nat" where
  "raised m v = (if snd m < v then 1 else 0)"

text \<open>
  The maxima of one direction: active power first, then reactive power, whose test compares
  the active power again.
\<close>

definition raise_pq :: "u32 \<Rightarrow> peak \<Rightarrow> peak \<Rightarrow> rat \<Rightarrow> rat \<Rightarrow> peak \<times> peak \<times> nat" where
  "raise_pq t mp mq p q =
     (let mp' = raise_peak t mp p
      in (mp', if snd mp' < p then (t, q) else mq, raised mp p + raised mp' p))"

definition updateMaxDemand :: "u32 \<Rightarrow> dmd_state \<Rightarrow> nat \<times> dmd_state" where
  "updateMaxDemand sysTick1s s =
     (let m = of_nat (unat (dc_mInterval s)) :: rat; D = unat (dc_dInterval s);
          mult = of_nat (60 div (D div 60)); dt = of_nat D / m; dm = dc_dm s;
          ddI = map (\<lambda>i. dc_dmdI s ! i / m) [0..<3];
          ddP = map (\<lambda>i. dc_dmdP s ! i * dt * mult) [0..<2];
          ddQ = map (\<lambda>i. dc_dmdQ s ! i * dt * mult) [0..<2];
          ddS = dc_dmdS s ! 0 * dt * mult;
          pq = map (\<lambda>i. raise_pq sysTick1s (dm_MD_P dm ! i) (dm_MD_Q dm ! i) (ddP ! i) (ddQ ! i)) [0..<2];
          wF = 1 + sum_list (map (\<lambda>i. raised (dm_MD_I dm ! i) (ddI ! i)) [0..<3]) +
               sum_list (map (\<lambda>r. snd (snd r)) pq) + raised (dm_MD_S dm) ddS
      in (wF, s\<lparr>dc_dmdEndTs := sysTick1s, dc_dmdStartTs := sysTick1s,
           dc_dmdI := replicate 3 0, dc_dmdP := replicate 2 0, dc_dmdQ := replicate 2 0,
           dc_dmdS := (dc_dmdS s)[0 := 0],
           dc_dm := dm\<lparr>dm_ddTime := sysTick1s, dm_DD_I := ddI, dm_DD_P := ddP, dm_DD_Q := ddQ,
             dm_DD_S := ddS,
             dm_MD_I := map (\<lambda>i. raise_peak sysTick1s (dm_MD_I dm ! i) (ddI ! i)) [0..<3],
             dm_MD_P := map fst pq, dm_MD_Q := map (\<lambda>r. fst (snd r)) pq,
             dm_MD_S := raise_peak sysTick1s (dm_MD_S dm) ddS\<rparr>\<rparr>))"

definition putDemandBin :: "rat \<Rightarrow> u32 \<Rightarrow> dmd_state \<Rightarrow> dmd_state" where
  "putDemandBin dd utc s =
     (let bin = unat utc mod 86400 div 900;
          s1 = (if bin = 0
                then s\<lparr>dc_dlog := dm_DP_P_Log (dc_dm s), dc_dlog_ts := dm_dmdLogTs (dc_dm s),
                       dc_dm := (dc_dm s)\<lparr>dm_DP_P_Log := replicate 96 0\<rparr>\<rparr> else s);
          dm = dc_dm s1
      in s1\<lparr>dc_dm := dm\<lparr>dm_dmdLogTs := (if bin = 0 \<or> dm_dmdLogTs dm = 0 then utc else dm_dmdLogTs dm),
                        dm_DP_P_Log := (dm_DP_P_Log dm)[bin := dd]\<rparr>\<rparr>)"

definition resetDemand :: "u32 \<Rightarrow> u32 \<Rightarrow> dmd_state \<Rightarrow> dmd_state" where
  "resetDemand sysTick1s sysTickDemand s =
     (let z = (sysTick1s, 0)
      in s\<lparr>dc_dmdTs := sysTickDemand, dc_dmdStartTs := sysTick1s, dc_dlog_ts := 0,
           dc_dlog := replicate 96 0,
           dc_dm := (dc_dm s)\<lparr>dm_MD_I := replicate 3 z, dm_MD_P := replicate 2 z,
             dm_MD_Q := replicate 2 z, dm_MD_S := z, dm_DD_I := replicate 3 0,
             dm_DD_P := replicate 2 0, dm_DD_Q := replicate 2 0, dm_DD_S := 0,
             dm_dmdLogTs := 0, dm_DP_P_Log := replicate 96 0\<rparr>\<rparr>)"

subsection \<open>Energy logs\<close>

text \<open>A row holds kWh, kvarh (import, export) and kVAh; a log its start time and its rows.\<close>

record energy_log =
  el_ts :: u32
  el_egy :: "u32 list list"
  el_magic :: u16

record elog_ch =
  eg_log0 :: energy_log
  eg_log1 :: energy_log
  eg_buf :: "u32 list"
  eg_egyTs1H :: u32
  eg_egyTs1D :: u32
  eg_egyStartTs1D :: u32

record egy15_ch =
  e15_log0 :: energy_log
  e15_log1 :: energy_log
  e15_buf :: "u32 list"
  e15_lastQ :: u32
  e15_lastQstore :: u32
  e15_dayMday :: u32
  e15_dayStartTick :: u32
  e15_pendArch :: bool

definition zero_log :: "nat \<Rightarrow> energy_log" where
  "zero_log n = \<lparr>el_ts = 0, el_egy = replicate n (replicate 4 0), el_magic = 0\<rparr>"

text \<open>The four displayed totals that are logged.\<close>

definition egy_now :: "egy_meter \<Rightarrow> u32 list" where
  "egy_now m = map (\<lambda>(mode, sign). em_total32 m ! egy_val mode sign 0) [(0, 0), (1, 0), (1, 1), (2, 0)]"

definition row_diff :: "u32 list \<Rightarrow> u32 list \<Rightarrow> u32 list" where
  "row_diff now buf = map (\<lambda>i. now ! i - buf ! i) [0..<4]"

text \<open>Deferred file writes: the pending bits and the snapshots of one meter.\<close>

record egy_io =
  io_pend :: u8
  io_elog0 :: energy_log
  io_elog1 :: energy_log
  io_e15_0 :: energy_log
  io_e15_1 :: energy_log

abbreviation (input) EIO_ELOG0 :: u8 where "EIO_ELOG0 \<equiv> 1"
abbreviation (input) EIO_ELOG1 :: u8 where "EIO_ELOG1 \<equiv> 2"
abbreviation (input) EIO_E15_0 :: u8 where "EIO_E15_0 \<equiv> 4"
abbreviation (input) EIO_E15_1 :: u8 where "EIO_E15_1 \<equiv> 8"
abbreviation (input) EIO_E15_ARCH :: u8 where "EIO_E15_ARCH \<equiv> 16"

definition egyIoDefer :: "elog_ch \<Rightarrow> egy15_ch \<Rightarrow> u8 \<Rightarrow> egy_io \<Rightarrow> egy_io" where
  "egyIoDefer eg q kind io =
     (if kind = EIO_ELOG0 then io\<lparr>io_elog0 := eg_log0 eg, io_pend := io_pend io OR kind\<rparr>
      else if kind = EIO_ELOG1 then io\<lparr>io_elog1 := eg_log1 eg, io_pend := io_pend io OR kind\<rparr>
      else if kind = EIO_E15_0 then io\<lparr>io_e15_0 := e15_log0 q, io_pend := io_pend io OR kind\<rparr>
      else if kind = EIO_E15_1 \<or> kind = EIO_E15_ARCH
           then io\<lparr>io_e15_1 := e15_log1 q, io_pend := io_pend io OR kind\<rparr>
      else io)"

datatype egy_write =
    StoreELog nat nat energy_log
  | WriteE15 nat nat energy_log
  | ArchiveE15 nat energy_log

definition egyIoTick_one :: "nat \<Rightarrow> egy_io \<Rightarrow> egy_write list \<times> egy_io" where
  "egyIoTick_one mid io =
     (let m = io_pend io
      in ((if m AND EIO_ELOG0 \<noteq> 0 then [StoreELog mid 0 (io_elog0 io)] else []) @
          (if m AND EIO_ELOG1 \<noteq> 0 then [StoreELog mid 1 (io_elog1 io)] else []) @
          (if m AND EIO_E15_0 \<noteq> 0 then [WriteE15 mid 0 (io_e15_0 io)] else []) @
          (if m AND EIO_E15_1 \<noteq> 0 then [WriteE15 mid 1 (io_e15_1 io)] else []) @
          (if m AND EIO_E15_ARCH \<noteq> 0 then [ArchiveE15 mid (io_e15_1 io)] else []),
          io\<lparr>io_pend := 0\<rparr>))"

definition egyIoTick :: "(nat \<Rightarrow> egy_io) \<Rightarrow> egy_write list \<times> (nat \<Rightarrow> egy_io)" where
  "egyIoTick ios =
     (concat (map (\<lambda>i. fst (egyIoTick_one i (ios i))) [0..<3]),
      \<lambda>i. if i < 3 then snd (egyIoTick_one i (ios i)) else ios i)"

definition putEnergyLog ::
  "u32 \<Rightarrow> u32 \<Rightarrow> nat \<Rightarrow> egy_meter \<Rightarrow> egy15_ch \<Rightarrow> elog_ch \<times> egy_io \<Rightarrow> bool \<times> elog_ch \<times> egy_io" where
  "putEnergyLog sysTick1s mday hix m q es =
     (let eg = fst es; l = eg_log0 eg; now = egy_now m;
          l1 = l\<lparr>el_ts := (if el_ts l = 0 then eg_egyStartTs1D eg else el_ts l),
                 el_egy := (el_egy l)[hix := row_diff now (eg_buf eg)]\<rparr>;
          newday = eg_egyTs1D eg \<noteq> mday;
          eg1 = (if newday
                 then eg\<lparr>eg_log0 := (zero_log 24)\<lparr>el_ts := sysTick1s\<rparr>, eg_log1 := l1, eg_buf := now,
                         eg_egyTs1D := mday, eg_egyStartTs1D := sysTick1s\<rparr>
                 else eg\<lparr>eg_log0 := l1, eg_buf := now\<rparr>);
          io1 = egyIoDefer eg1 q EIO_ELOG0 (snd es)
      in (newday, eg1, if newday then egyIoDefer eg1 q EIO_ELOG1 io1 else io1))"

definition putEnergyLog15 ::
  "u32 \<Rightarrow> u32 \<Rightarrow> nat \<Rightarrow> egy_meter \<Rightarrow> elog_ch \<Rightarrow> egy15_ch \<times> egy_io \<Rightarrow> egy15_ch \<times> egy_io" where
  "putEnergyLog15 sysTick1s mday k m eg qs =
     (if k \<ge> 96 then qs
      else let q = fst qs; l = e15_log0 q; now = egy_now m;
               l1 = l\<lparr>el_ts := (if el_ts l = 0
                                then (if e15_dayStartTick q \<noteq> 0 then e15_dayStartTick q else sysTick1s)
                                else el_ts l),
                      el_egy := (el_egy l)[k := row_diff now (e15_buf q)]\<rparr>;
               q1 = q\<lparr>e15_log0 := l1, e15_buf := now\<rparr>
           in if e15_dayMday q \<noteq> mday
              then let q2 = q1\<lparr>e15_dayMday := mday, e15_log1 := l1, e15_pendArch := True\<rparr>;
                       io = egyIoDefer eg q2 EIO_E15_1 (snd qs)
                   in (q2\<lparr>e15_log0 := (zero_log 96)\<lparr>el_magic := 0xabcd, el_ts := sysTick1s\<rparr>,
                          e15_dayStartTick := sysTick1s\<rparr>, io)
              else (q1, snd qs))"

subsection \<open>The handler of one second\<close>

record scan_clock =
  ck_1s :: u32
  ck_demand :: u32
  ck_15m :: u32
  ck_hour :: nat
  ck_min :: nat
  ck_mday :: u32
  ck_mon :: nat

text \<open>The readings of one meter: per phase the three energies, the currents, the settings used.\<close>

record scan_in =
  in_wh :: "int list"
  in_varh :: "int list"
  in_vah :: "int list"
  in_cntlI :: "rat list"
  in_meterI :: "rat list"
  in_wiring :: nat
  in_ct_dir :: "bool list"
  in_wscale :: rat

record scan_meter =
  sm_energyInit :: bool
  sm_dmd :: dmd_state
  sm_elog :: elog_ch
  sm_e15 :: egy15_ch
  sm_io :: egy_io
  sm_rstDemand :: int

record scan_state =
  sc_egy :: egy_state
  sc_fram :: bytes
  sc_ctl :: egy_ctl
  sc_meter :: "nat \<Rightarrow> scan_meter"
  sc_dmPending :: "nat set"
  sc_dmSnap :: "nat \<Rightarrow> dmd_state"

abbreviation (input) WM_3LL2CT :: nat where "WM_3LL2CT \<equiv> 2"
abbreviation (input) WM_3LL3CT :: nat where "WM_3LL3CT \<equiv> 3"
abbreviation (input) WM_1LL2CT :: nat where "WM_1LL2CT \<equiv> 7"

definition scaleEnergy :: "rat \<Rightarrow> int \<Rightarrow> rat" where
  "scaleEnergy wscale raw = of_int raw * wscale / 20694066 / 3600"

text \<open>
  One phase's energies as they are counted: nothing without current, nothing in the middle
  phase of the two-element wirings, active and reactive energy negated for a reversed
  transformer.
\<close>

definition phase_egy :: "scan_in \<Rightarrow> nat \<Rightarrow> int \<times> int \<times> int" where
  "phase_egy r i =
     (if in_cntlI r ! i = 0 \<or> i = 1 \<and> in_wiring r \<in> {WM_3LL3CT, WM_3LL2CT, WM_1LL2CT} then (0, 0, 0)
      else if in_ct_dir r ! i then (- (in_wh r ! i), - (in_varh r ! i), in_vah r ! i)
      else (in_wh r ! i, in_varh r ! i, in_vah r ! i))"

definition vah_factor :: "scan_in \<Rightarrow> rat" where
  "vah_factor r = (if in_wiring r \<in> {WM_3LL3CT, WM_3LL2CT} then 1732051 / 1000000 / 2 else 1)"

definition scan_incs :: "scan_in \<Rightarrow> (int \<times> int \<times> rat) list" where
  "scan_incs r =
     (let e = scaleEnergy (in_wscale r)
      in pass_incs (\<lambda>i. e (fst (phase_egy r i))) (\<lambda>i. e (fst (snd (phase_egy r i))))
           (\<lambda>i. e (snd (snd (phase_egy r i))) * vah_factor r)
           (e (\<Sum>i\<leftarrow>[0..<3]. fst (phase_egy r i)))
           (e (\<Sum>i\<leftarrow>[0..<3]. fst (snd (phase_egy r i))))
           (e (\<Sum>i\<leftarrow>[0..<3]. snd (snd (phase_egy r i))) * vah_factor r))"

text \<open>The three totals of the second, as the demand collects them.\<close>

definition scan_total :: "scan_in \<Rightarrow> (int \<times> int \<times> int \<Rightarrow> int) \<Rightarrow> rat" where
  "scan_total r f = scaleEnergy (in_wscale r) (\<Sum>i\<leftarrow>[0..<3]. f (phase_egy r i))"

definition scan_demand :: "int \<Rightarrow> scan_clock \<Rightarrow> scan_in \<Rightarrow> dmd_state \<Rightarrow> nat \<times> dmd_state" where
  "scan_demand div0 ck r d =
     (let dtP = scan_total r fst; dtQ = scan_total r (fst \<circ> snd);
          dtS = scan_total r (snd \<circ> snd) * vah_factor r;
          d1 = d\<lparr>dc_mInterval := dc_mInterval d + 1, dc_mInterval15m := dc_mInterval15m d + 1\<rparr>;
          d2 = updatePredictDemand div0 dtP (updateDemandI (in_meterI r) d1);
          d3 = updatePresentDemand (d2\<lparr>dc_dmdP := incEnergy dtP (dc_dmdP d2),
                 dc_dmdQ := incEnergy dtQ (dc_dmdQ d2), dc_dmdS := incEnergy dtS (dc_dmdS d2),
                 dc_dmdP15m := incEnergy dtP (dc_dmdP15m d2)\<rparr>);
          (wF, d4) = (if dc_dmdTs d3 \<noteq> ck_demand ck
                      then let (w, e) = updateMaxDemand (ck_1s ck) d3
                           in (w, e\<lparr>dc_dmdTs := ck_demand ck, dc_dmdStartTs := ck_1s ck, dc_mInterval := 0\<rparr>)
                      else (0, d3))
      in if dc_dmdTs15m d4 \<noteq> ck_15m ck
         then let dd = dc_dmdP15m d4 ! 0 * 4 * 960 / of_nat (unat (dc_mInterval15m d4));
                  d5 = putDemandBin dd (dc_dmdStartTs15m d4)
                    (d4\<lparr>dc_dmdEndTs15m := ck_1s ck, dc_dm := (dc_dm d4)\<lparr>dm_DD_P_15 := dd\<rparr>,
                        dc_dmdP15m := (dc_dmdP15m d4)[0 := 0]\<rparr>)
              in (wF + 1, d5\<lparr>dc_dmdTs15m := ck_15m ck, dc_dmdStartTs15m := ck_1s ck, dc_mInterval15m := 0\<rparr>)
         else (wF, d4))"

definition scan_logs :: "scan_clock \<Rightarrow> egy_meter \<Rightarrow> scan_meter \<Rightarrow> scan_meter" where
  "scan_logs ck m sm =
     (let (eg, io) = (if eg_egyTs1H (sm_elog sm) \<noteq> of_nat (ck_hour ck)
                      then let (_, e, i) = putEnergyLog (ck_1s ck) (ck_mday ck) (unat (eg_egyTs1H (sm_elog sm)))
                                 m (sm_e15 sm) (sm_elog sm, sm_io sm)
                           in (e\<lparr>eg_egyTs1H := of_nat (ck_hour ck)\<rparr>, i)
                      else (sm_elog sm, sm_io sm));
          q15 = of_nat (ck_hour ck * 4 + ck_min ck div 15);
          (q, io1) = (if q15 \<noteq> e15_lastQ (sm_e15 sm)
                      then let (x, i) = putEnergyLog15 (ck_1s ck) (ck_mday ck)
                                 (unat (e15_lastQ (sm_e15 sm))) m eg (sm_e15 sm, io)
                           in (x\<lparr>e15_lastQ := q15\<rparr>, i)
                      else (sm_e15 sm, io));
          (q2, io2) = (if e15_lastQstore q \<noteq> e15_lastQ q \<and> ck_min ck mod 15 \<ge> 2
                       then (q\<lparr>e15_lastQstore := e15_lastQ q\<rparr>, egyIoDefer eg q EIO_E15_0 io1)
                       else (q, io1));
          (q3, io3) = (if e15_pendArch q2 \<and> ck_1s ck - e15_dayStartTick q2 \<ge> 180
                       then (q2\<lparr>e15_pendArch := False\<rparr>, egyIoDefer eg q2 EIO_E15_ARCH io2)
                       else (q2, io2))
      in sm\<lparr>sm_elog := eg, sm_e15 := q3, sm_io := io3\<rparr>)"

definition storeDemandDefer :: "nat \<Rightarrow> scan_state \<Rightarrow> scan_state" where
  "storeDemandDefer mid s = s\<lparr>sc_dmSnap := (sc_dmSnap s)(mid := sm_dmd (sc_meter s mid)),
                              sc_dmPending := insert mid (sc_dmPending s)\<rparr>"

text \<open>\<open>demandIoTick\<close>: the pending meters in order, each with the snapshot that is written.\<close>

definition demandIoTick :: "scan_state \<Rightarrow> (nat \<times> dmd_state) list \<times> scan_state" where
  "demandIoTick s = (map (\<lambda>i. (i, sc_dmSnap s i)) (filter (\<lambda>i. i \<in> sc_dmPending s) [0..<3]),
                     s\<lparr>sc_dmPending := {}\<rparr>)"

definition energy_scan ::
  "(u32 \<Rightarrow> nat) \<Rightarrow> int \<Rightarrow> scan_clock \<Rightarrow> nat \<Rightarrow> scan_in \<Rightarrow> scan_state \<Rightarrow> scan_state" where
  "energy_scan localMon div0 ck mid r s =
     (let sm = sc_meter s mid
      in if mid \<ge> 3 then s
         else if \<not> sm_energyInit sm
         then s\<lparr>sc_meter := (sc_meter s)(mid := sm\<lparr>sm_energyInit := True\<rparr>)\<rparr>
         else
           let (wF, d) = scan_demand div0 ck r (sm_dmd sm);
               sm1 = scan_logs ck (es_meter (sc_egy s) mid) (sm\<lparr>sm_dmd := d\<rparr>);
               s1 = s\<lparr>sc_meter := (sc_meter s)(mid := sm1)\<rparr>;
               s2 = (if sm_rstDemand sm1 = 0x1234
                     then storeDemandDefer mid (s1\<lparr>sc_meter := (sc_meter s1)(mid :=
                            sm1\<lparr>sm_rstDemand := 0, sm_dmd := resetDemand (ck_1s ck) (ck_demand ck) d\<rparr>)\<rparr>)
                     else if wF \<noteq> 0 then storeDemandDefer mid s1 else s1);
               (ctl, egy, fram) = energyPass localMon (ck_mon ck) (ck_1s ck) mid (scan_incs r)
                 (sc_ctl s2) (sc_egy s2, sc_fram s2)
           in s2\<lparr>sc_ctl := ctl, sc_egy := egy, sc_fram := fram\<rparr>)"

subsection \<open>Maxima\<close>

text \<open>The maximum demand of reactive power is never recorded: whatever is collected, closing
  an interval leaves both reactive maxima as they were, because their test compares the active
  power a second time, which the line before has just raised.\<close>

theorem reactive_maximum_never_raised:
  assumes "length (dm_MD_Q (dc_dm s)) = 2"
  shows "dm_MD_Q (dc_dm (snd (updateMaxDemand t s))) = dm_MD_Q (dc_dm s)"
proof -
  have keep: "fst (snd (raise_pq t mp mq p q)) = mq" for mp mq p q
    by (simp add: raise_pq_def raise_peak_def Let_def)
  show ?thesis
    using assms by (auto simp: updateMaxDemand_def Let_def keep numeral_2_eq_2 length_Suc_conv)
qed

definition demo_demand :: demand where
  "demo_demand = \<lparr>dm_MD_P = replicate 2 (0, 0), dm_MD_Q = replicate 2 (0, 0), dm_MD_S = (0, 0),
     dm_MD_I = replicate 3 (0, 0), dm_ddTime = 0, dm_DD_P = replicate 2 0, dm_DD_Q = replicate 2 0,
     dm_DD_S = 0, dm_DD_I = replicate 3 0, dm_CD_P = replicate 2 0, dm_CD_Q = replicate 2 0,
     dm_CD_S = 0, dm_PD_P = 0, dm_DD_P_15 = 0, dm_dmdLogTs = 0, dm_DP_P_Log = replicate 96 0\<rparr>"

text \<open>A quarter-hour interval in which 250 Wh, 100 varh and 270 VAh were collected.\<close>

definition demo_dmd :: dmd_state where
  "demo_dmd = \<lparr>dc_dInterval = 900, dc_mInterval = 900, dc_mInterval15m = 900, dc_dmdTs = 0,
     dc_dmdStartTs = 0, dc_dmdEndTs = 0, dc_dmdI = [4500, 900, 0], dc_dmdP = [250, 0], dc_dmdQ = [100, 0],
     dc_dmdS = [270, 0], dc_dmdTs15m = 0, dc_dmdEndTs15m = 0, dc_dmdStartTs15m = 0,
     dc_dmdP15m = [250, 0], dc_dm = demo_demand, dc_dlog_ts = 0, dc_dlog = replicate 96 0\<rparr>"

theorem reactive_maximum_never_raised_witness:
  "dm_MD_Q (dc_dm (snd (updateMaxDemand 7 demo_dmd))) = dm_MD_Q (dc_dm demo_dmd)"
  by (rule reactive_maximum_never_raised) (simp add: demo_dmd_def demo_demand_def)

lemma interval_factor:
  "D = snd (demandInterval code) \<Longrightarrow> unat D * (60 div (unat D div 60)) = 3600"
  by (simp add: demandInterval_def split: if_splits)

text \<open>C29. Closing a demand interval, for each of the five interval settings and any number of
  collected seconds: for each direction of active, for each of reactive and for apparent power,
  the demand is the energy collected in Wh, varh or VAh, scaled to an hour; the demand of each
  current is the mean of its samples. The maxima of active power, apparent power and current
  become the new demand with the time of closing when it exceeds them, and otherwise stay, value
  and stamp. The maxima of reactive power stay whatever the demand, since their test asks for the
  active power a second time, when its maximum is raised already. All accumulators start again
  from zero.\<close>

theorem max_demand_is_peak:
  assumes "dc_dInterval s = snd (demandInterval code)" "dc_mInterval s \<noteq> 0" "i < 2" "k < 3"
    and "length (dc_dmdS s) > 0" "length (dm_MD_Q (dc_dm s)) = 2"
    and "snd (updateMaxDemand t s) = s'" "n = of_nat (unat (dc_mInterval s))"
    and "peak = (\<lambda>old new. if snd old < new then (t, new) else old)"
  shows "dm_DD_P (dc_dm s') ! i = dc_dmdP s ! i * 3600 / n \<and>
    dm_DD_Q (dc_dm s') ! i = dc_dmdQ s ! i * 3600 / n \<and>
    dm_DD_S (dc_dm s') = dc_dmdS s ! 0 * 3600 / n \<and>
    dm_DD_I (dc_dm s') ! k = dc_dmdI s ! k / n \<and>
    dm_MD_P (dc_dm s') ! i = peak (dm_MD_P (dc_dm s) ! i) (dc_dmdP s ! i * 3600 / n) \<and>
    dm_MD_S (dc_dm s') = peak (dm_MD_S (dc_dm s)) (dc_dmdS s ! 0 * 3600 / n) \<and>
    dm_MD_I (dc_dm s') ! k = peak (dm_MD_I (dc_dm s) ! k) (dc_dmdI s ! k / n) \<and>
    dm_MD_Q (dc_dm s') = dm_MD_Q (dc_dm s) \<and>
    dc_dmdP s' ! i = 0 \<and> dc_dmdQ s' ! i = 0 \<and> dc_dmdS s' ! 0 = 0 \<and> dc_dmdI s' ! k = 0"
proof -
  define D where "D = unat (dc_dInterval s)"
  have "of_nat (D * (60 div (D div 60))) = (3600 :: rat)"
    using interval_factor [OF assms(1)] by (simp add: D_def)
  then have "(of_nat D * of_nat (60 div (D div 60)) :: rat) = 3600" by (simp only: of_nat_mult)
  then have f: "p * (of_nat D / n) * of_nat (60 div (D div 60)) = p * 3600 / n" for p :: rat
    by (metis (no_types, lifting) mult.assoc mult.commute times_divide_eq_right)
  have s': "dc_dm s' = dc_dm (snd (updateMaxDemand t s))" "dc_dmdP s' = replicate 2 0"
    "dc_dmdQ s' = replicate 2 0" "dc_dmdI s' = replicate 3 0" "dc_dmdS s' = (dc_dmdS s)[0 := 0]"
    using assms(7) by (auto simp: updateMaxDemand_def Let_def)
  have peak: "peak = raise_peak t" by (simp add: assms(9) raise_peak_def fun_eq_iff)
  have "dm_DD_P (dc_dm s') ! i = dc_dmdP s ! i * 3600 / n"
    "dm_DD_Q (dc_dm s') ! i = dc_dmdQ s ! i * 3600 / n"
    "dm_DD_S (dc_dm s') = dc_dmdS s ! 0 * 3600 / n"
    "dm_DD_I (dc_dm s') ! k = dc_dmdI s ! k / n"
    "dm_MD_P (dc_dm s') ! i = raise_peak t (dm_MD_P (dc_dm s) ! i) (dc_dmdP s ! i * 3600 / n)"
    "dm_MD_S (dc_dm s') = raise_peak t (dm_MD_S (dc_dm s)) (dc_dmdS s ! 0 * 3600 / n)"
    "dm_MD_I (dc_dm s') ! k = raise_peak t (dm_MD_I (dc_dm s) ! k) (dc_dmdI s ! k / n)"
    unfolding s'(1) updateMaxDemand_def Let_def D_def [symmetric] assms(8) [symmetric] f
    using assms(3,4) by (simp_all del: upt_conv_Cons add: raise_pq_def Let_def)
  moreover have "dm_MD_Q (dc_dm s') = dm_MD_Q (dc_dm s)"
    unfolding s'(1) by (rule reactive_maximum_never_raised) (rule assms(6))
  ultimately show ?thesis
    unfolding peak s'(2-5) using assms(3-5) by (simp add: nth_replicate)
qed

theorem max_demand_is_peak_witness:
  "let s' = snd (updateMaxDemand 7 demo_dmd) in
    dm_DD_P (dc_dm s') ! 0 = 1000 \<and> dm_DD_Q (dc_dm s') ! 0 = 400 \<and> dm_DD_S (dc_dm s') = 1080 \<and>
    dm_DD_I (dc_dm s') ! 1 = 1 \<and> dm_MD_P (dc_dm s') ! 0 = (7, 1000) \<and> dm_MD_S (dc_dm s') = (7, 1080) \<and>
    dm_MD_I (dc_dm s') ! 1 = (7, 1) \<and> dm_MD_Q (dc_dm s') = replicate 2 (0, 0) \<and> dc_dmdS s' ! 0 = 0"
proof -
  have "dc_dInterval demo_dmd = snd (demandInterval 2)" "dc_mInterval demo_dmd \<noteq> 0"
    "length (dc_dmdS demo_dmd) > 0" "length (dm_MD_Q (dc_dm demo_dmd)) = 2"
    by (simp_all add: demo_dmd_def demo_demand_def demandInterval_def)
  from max_demand_is_peak [OF this(1,2) _ _ this(3,4) refl refl refl, of 0 1 7] show ?thesis
    by (simp add: Let_def demo_dmd_def demo_demand_def)
qed

text \<open>The predicted demand of a steady load of \<open>p\<close> Wh a second in a quarter-hour interval
  is \<open>p * 900 * (60 / minutes elapsed)\<close> after its first minute, where the true demand is
  \<open>p * 3600\<close>: the quotient takes the elapsed minutes instead of the length of the interval, so
  the prediction is fifteen times too high in the second minute and right only at the end.\<close>

theorem predicted_demand_of_steady_load:
  assumes "dc_dInterval s = 900" "60 \<le> unat (dc_mInterval s)" "0 \<le> p"
    and "dc_dmdP s ! 0 = p * of_nat (unat (dc_mInterval s) - 1)"
  shows "dm_PD_P (dc_dm (updatePredictDemand div0 p s)) =
    p * 900 * of_nat (60 div (unat (dc_mInterval s) div 60))"
proof -
  define m where "m = unat (dc_mInterval s)"
  have m: "m div 60 \<noteq> 0" "1 \<le> m" using assms(2) by (auto simp: m_def)
  have "p * of_nat (m - 1) + p * of_int (900 - int m + 1) = p * 900"
    using m(2) by (simp add: of_nat_diff algebra_simps)
  moreover have "(of_int (60 div int (m div 60)) :: rat) = of_nat (60 div (m div 60))"
    by (metis of_int_of_nat_eq of_nat_numeral zdiv_int)
  moreover have "int (unat (900 :: u16)) = 900" by simp
  ultimately show ?thesis
    using assms m(1) by (simp only: updatePredictDemand_def Let_def m_def [symmetric]) simp
qed

theorem predicted_demand_of_steady_load_witness:
  "dm_PD_P (dc_dm (updatePredictDemand 0 1 (demo_dmd\<lparr>dc_mInterval := 60, dc_dmdP := [59, 0]\<rparr>))) =
    1 * 900 * of_nat (60 div (unat (dc_mInterval (demo_dmd\<lparr>dc_mInterval := 60, dc_dmdP := [59, 0]\<rparr>)) div 60)) \<and>
   1 * 900 * of_nat (60 div (60 div 60)) = 15 * (3600 :: rat)"
  by (rule conjI, rule predicted_demand_of_steady_load) (simp_all add: demo_dmd_def)

subsection \<open>Hourly log\<close>

text \<open>
  The base line \<open>egyBuf\<close> is zero after start-up, as \<open>initEnergyLog\<close> is not called, so the first
  hour that is closed logs the whole register.
\<close>

lemma first_hour_logs_whole_register:
  assumes "hix < 24" "length (el_egy (eg_log0 eg)) = 24" "eg_buf eg = replicate 4 0" "eg_egyTs1D eg = mday"
    and "putEnergyLog t mday hix m q (eg, io) = (newday, eg', io')"
  shows "el_egy (eg_log0 eg') ! hix = egy_now m"
  using assms by (auto simp: putEnergyLog_def Let_def row_diff_def egy_now_def upt_rec)

subsection \<open>Quarter-hour log\<close>

text \<open>The slots of one day, each with the meter's registers when it is closed.\<close>

definition log15_run ::
  "u32 \<Rightarrow> u32 \<Rightarrow> elog_ch \<Rightarrow> (nat \<times> egy_meter) list \<Rightarrow> egy15_ch \<times> egy_io \<Rightarrow> egy15_ch \<times> egy_io" where
  "log15_run t mday eg calls qs = fold (\<lambda>(k, m). putEnergyLog15 t mday k m eg) calls qs"

definition log15_ok :: "egy15_ch \<Rightarrow> bool" where
  "log15_ok q \<longleftrightarrow> length (el_egy (e15_log0 q)) = 96"

lemma same_day_slot:
  assumes "k < 96" "e15_dayMday q = mday" "log15_ok q"
  shows "\<exists>q'. putEnergyLog15 t mday k m eg (q, io) = (q', io) \<and> e15_dayMday q' = mday \<and> log15_ok q' \<and>
    e15_buf q' = egy_now m \<and>
    el_egy (e15_log0 q') = (el_egy (e15_log0 q))[k := row_diff (egy_now m) (e15_buf q)]"
  using assms by (auto simp: putEnergyLog15_def Let_def log15_ok_def)

lemma other_slots_kept:
  assumes "\<forall>(k, m) \<in> set calls. k < 96" "e15_dayMday q = mday" "log15_ok q" "j \<notin> fst ` set calls"
  shows "el_egy (e15_log0 (fst (log15_run t mday eg calls (q, io)))) ! j = el_egy (e15_log0 q) ! j"
  using assms
proof (induction calls arbitrary: q)
  case (Cons c calls)
  obtain k m where c: "c = (k, m)" by (cases c)
  have k: "k < 96" using Cons.prems(1) c by simp
  obtain q' where q': "putEnergyLog15 t mday k m eg (q, io) = (q', io)" "e15_dayMday q' = mday"
    "log15_ok q'" "el_egy (e15_log0 q') = (el_egy (e15_log0 q))[k := row_diff (egy_now m) (e15_buf q)]"
    using same_day_slot [OF k Cons.prems(2,3)] by blast
  show ?case using Cons.IH [OF _ q'(2,3)] Cons.prems(1,4) q' c by (simp add: log15_run_def)
qed (simp add: log15_run_def)

text \<open>C28. The quarter-hour log accounts for all energy: while the day of the log has not changed, over
  any sequence of closed slots in which no slot is closed twice, the logged rows add up to the
  registers at the last closing less the base line before the first, in each of the four
  quantities and modulo the 32-bit register, in whatever order the slots follow each other and
  however many are skipped. The two conditions are needed: a closing on another day starts a new
  log, and a slot that is closed again, as after the clock is set back, overwrites its row.\<close>

theorem quarter_hour_log_adds_up:
  assumes "calls \<noteq> []" "\<forall>(k, m) \<in> set calls. k < 96" "distinct (map fst calls)"
    and "e15_dayMday q = mday" "log15_ok q" "c < 4"
  shows "(\<Sum>k\<leftarrow>map fst calls. el_egy (e15_log0 (fst (log15_run t mday eg calls (q, io)))) ! k ! c) =
    egy_now (snd (last calls)) ! c - e15_buf q ! c"
  using assms(1-5)
proof (induction calls arbitrary: q)
  case (Cons s calls)
  obtain k m where s: "s = (k, m)" by (cases s)
  have k: "k < 96" using Cons.prems(2) s by simp
  obtain q' where q': "putEnergyLog15 t mday k m eg (q, io) = (q', io)" "e15_dayMday q' = mday"
    "log15_ok q'" "e15_buf q' = egy_now m"
    "el_egy (e15_log0 q') = (el_egy (e15_log0 q))[k := row_diff (egy_now m) (e15_buf q)]"
    using same_day_slot [OF k Cons.prems(4,5)] by blast
  let ?qz = "fst (log15_run t mday eg calls (q', io))"
  have run: "log15_run t mday eg (s # calls) (q, io) = log15_run t mday eg calls (q', io)"
    using q'(1) s by (simp add: log15_run_def)
  have "k \<notin> fst ` set calls" using Cons.prems(3) s by simp
  then have "el_egy (e15_log0 ?qz) ! k = row_diff (egy_now m) (e15_buf q)"
    using other_slots_kept [OF _ q'(2,3), of calls k t eg io] Cons.prems(2,5) q'(5) k
    by (simp add: log15_ok_def)
  then have row: "el_egy (e15_log0 ?qz) ! k ! c = egy_now m ! c - e15_buf q ! c"
    using assms(6) by (simp add: row_diff_def)
  show ?case
  proof (cases "calls = []")
    case True
    then show ?thesis using row run s by simp
  next
    case False
    then show ?thesis
      using Cons.IH [OF False _ _ q'(2,3)] Cons.prems(2,3) row run s q'(4) by simp
  qed
qed simp

definition demo_meter :: "u32 \<Rightarrow> egy_meter" where
  "demo_meter v = (es_meter egy_zero 0)\<lparr>em_total32 := replicate 24 v\<rparr>"

definition demo_e15 :: egy15_ch where
  "demo_e15 = \<lparr>e15_log0 = zero_log 96, e15_log1 = zero_log 96, e15_buf = replicate 4 100, e15_lastQ = 0,
     e15_lastQstore = 0, e15_dayMday = 3, e15_dayStartTick = 0, e15_pendArch = False\<rparr>"

definition demo_elog :: elog_ch where
  "demo_elog = \<lparr>eg_log0 = zero_log 24, eg_log1 = zero_log 24, eg_buf = replicate 4 0, eg_egyTs1H = 0,
     eg_egyTs1D = 3, eg_egyStartTs1D = 0\<rparr>"

definition demo_io :: egy_io where
  "demo_io = \<lparr>io_pend = 0, io_elog0 = zero_log 24, io_elog1 = zero_log 24, io_e15_0 = zero_log 96,
     io_e15_1 = zero_log 96\<rparr>"

theorem quarter_hour_log_adds_up_witness:
  "(\<Sum>k\<leftarrow>map fst [(4, demo_meter 130), (5, demo_meter 190)]. el_egy (e15_log0 (fst (log15_run 9 3 demo_elog
      [(4, demo_meter 130), (5, demo_meter 190)] (demo_e15, demo_io)))) ! k ! 0) =
    egy_now (snd (last [(4, demo_meter 130), (5 :: nat, demo_meter 190)])) ! 0 - e15_buf demo_e15 ! 0"
  by (rule quarter_hour_log_adds_up) (simp_all add: demo_e15_def log15_ok_def zero_log_def)

text \<open>A finished day reaches the archive: the slot that closes the day freezes its rows with
  its own row in place; three minutes later, within the same slot, the handler defers the
  archive write, and the next turn of the file task writes exactly this frozen day, once: the
  turn after it writes nothing.\<close>

theorem finished_day_is_archived:
  assumes "k < 96" "e15_dayMday (sm_e15 sm) \<noteq> mday" "log15_ok (sm_e15 sm)"
    and "putEnergyLog15 t mday k m (sm_elog sm) (sm_e15 sm, sm_io sm) = (q, io)"
    and "unat (ck_1s ck - t) \<ge> 180"
    and "eg_egyTs1H (sm_elog sm) = of_nat (ck_hour ck)"
    and "of_nat (ck_hour ck * 4 + ck_min ck div 15) = e15_lastQ q"
    and "sm' = scan_logs ck m (sm\<lparr>sm_e15 := q, sm_io := io\<rparr>)"
    and "day = (el_egy (e15_log0 (sm_e15 sm)))[k := row_diff (egy_now m) (e15_buf (sm_e15 sm))]"
  shows "\<exists>l. ArchiveE15 mid l \<in> set (fst (egyIoTick_one mid (sm_io sm'))) \<and> el_egy l = day \<and>
    l = e15_log1 q \<and> \<not> e15_pendArch (sm_e15 sm') \<and>
    fst (egyIoTick_one mid (snd (egyIoTick_one mid (sm_io sm')))) = []"
proof -
  have q: "el_egy (e15_log1 q) = day" "e15_pendArch q" "e15_dayStartTick q = t"
    using assms(1-4,9) by (auto simp: putEnergyLog15_def Let_def)
  have ge: "ck_1s ck - t \<ge> 180" using assms(5) by (simp add: word_le_nat_alt)
  obtain io2 q2 where q2: "e15_log1 q2 = e15_log1 q" "e15_pendArch q2" "e15_dayStartTick q2 = t"
    "scan_logs ck m (sm\<lparr>sm_e15 := q, sm_io := io\<rparr>) =
      sm\<lparr>sm_e15 := q2\<lparr>e15_pendArch := False\<rparr>, sm_io := egyIoDefer (sm_elog sm) q2 EIO_E15_ARCH io2\<rparr>"
  proof (cases "e15_lastQstore q \<noteq> e15_lastQ q \<and> ck_min ck mod 15 \<ge> 2")
    case True
    show ?thesis
      by (rule that [of "q\<lparr>e15_lastQstore := e15_lastQ q\<rparr>" "egyIoDefer (sm_elog sm) q EIO_E15_0 io"])
        (use q(2,3) ge assms(6,7) True in \<open>simp_all add: scan_logs_def Let_def\<close>)
  next
    case False
    show ?thesis
      by (rule that [of q io]) (use q(2,3) ge assms(6,7) False in \<open>auto simp: scan_logs_def Let_def\<close>)
  qed
  have arch: "(p OR 16) AND 16 \<noteq> (0 :: u8)" for p
  proof -
    have "(p OR 16) AND 16 = (16 :: u8)" by (rule bit_word_eqI) (auto simp: bit_simps)
    then show ?thesis by simp
  qed
  have io': "sm_io sm' = io2\<lparr>io_e15_1 := e15_log1 q, io_pend := io_pend io2 OR 16\<rparr>"
    using q2 assms(8) by (simp add: egyIoDefer_def)
  have "ArchiveE15 mid (e15_log1 q) \<in> set (fst (egyIoTick_one mid (sm_io sm')))"
    using arch [of "io_pend io2"] by (simp add: io' egyIoTick_one_def Let_def)
  moreover have "fst (egyIoTick_one mid (snd (egyIoTick_one mid (sm_io sm')))) = []"
    by (simp add: egyIoTick_one_def Let_def)
  moreover have "\<not> e15_pendArch (sm_e15 sm')" using q2(4) assms(8) by simp
  ultimately show ?thesis using q(1) by blast
qed

text \<open>The last slot of day 3, closed five seconds into day 4.\<close>

definition demo_sm :: scan_meter where
  "demo_sm = \<lparr>sm_energyInit = True, sm_dmd = demo_dmd, sm_elog = demo_elog, sm_e15 = demo_e15,
     sm_io = demo_io, sm_rstDemand = 0\<rparr>"

definition demo_closed :: "egy15_ch \<times> egy_io" where
  "demo_closed = putEnergyLog15 86405 4 95 (demo_meter 130) demo_elog (demo_e15, demo_io)"

definition demo_clock :: scan_clock where
  "demo_clock = \<lparr>ck_1s = 86600, ck_demand = 0, ck_15m = 96, ck_hour = 0, ck_min = 3, ck_mday = 4, ck_mon = 5\<rparr>"

theorem finished_day_is_archived_witness:
  "\<exists>l. ArchiveE15 1 l \<in> set (fst (egyIoTick_one 1 (sm_io (scan_logs demo_clock (demo_meter 130)
        (demo_sm\<lparr>sm_e15 := fst demo_closed, sm_io := snd demo_closed\<rparr>))))) \<and>
    el_egy l = (el_egy (e15_log0 (sm_e15 demo_sm)))[95 := row_diff (egy_now (demo_meter 130)) (e15_buf (sm_e15 demo_sm))] \<and>
    l = e15_log1 (fst demo_closed) \<and>
    \<not> e15_pendArch (sm_e15 (scan_logs demo_clock (demo_meter 130)
        (demo_sm\<lparr>sm_e15 := fst demo_closed, sm_io := snd demo_closed\<rparr>))) \<and>
    fst (egyIoTick_one 1 (snd (egyIoTick_one 1 (sm_io (scan_logs demo_clock (demo_meter 130)
        (demo_sm\<lparr>sm_e15 := fst demo_closed, sm_io := snd demo_closed\<rparr>)))))) = []"
  by (rule finished_day_is_archived [OF _ _ _ _ _ _ _ refl refl, where k = 95 and mday = 4 and t = 86405])
    (simp_all add: demo_sm_def demo_e15_def log15_ok_def zero_log_def demo_closed_def demo_clock_def
      demo_elog_def putEnergyLog15_def Let_def)

end
