(* ===== verification/Alarm.thy ===== *)
theory Alarm
  imports LogFifo Queues Complex_Main
begin

text \<open>
  Alarm supervision (\<open>alarm.c\<close>): once a second \<open>alarmProc\<close> compares up to 32 watched readings
  of a meter with their limits, and every change of an alarm is recorded by \<open>storeAlarmLog\<close>:
  in the month's file and the history file (through the queue of the file task), in the SNMP
  trap queue, in the history array and in the shared status counter. Readings and limits are
  exact rationals; \<open>cx_bits\<close> gives the 32-bit pattern under which a value is stored.
\<close>

subsection \<open>State\<close>

record alarm_set =
  as_chan :: u16
  as_cond :: u16
  as_dband :: u16
  as_level :: rat

record alarm_data =
  ad_chan :: u16
  ad_cond :: u16
  ad_level :: rat
  ad_status :: u16
  ad_count :: u16

record alarm_meter =
  am_online2 :: u16
  am_rmsInit :: bool
  am_online :: bool
  am_zxMonCnt :: nat
  am_Freq :: rat
  am_delay :: u16
  am_set :: "alarm_set list"
  am_st :: "alarm_data list"
  am_timer :: "u8 list"
  am_src :: "nat \<Rightarrow> rat option"
  am_almCount :: u16
  am_alog :: alarm_log
  am_fifo :: alarm_fifo
  am_list :: "alarm_log log_list"
  am_year :: nat
  am_mon :: nat

text \<open>What all meters share: the queues, the memory the file task reads, the status counter.\<close>

record alarm_env =
  av_fsQ :: fs_q
  av_trap :: trap_q
  av_mem :: "nat \<Rightarrow> u8"
  av_Alarm_sts :: u16

record alarm_ctx =
  cx_bits :: "rat \<Rightarrow> u32"
  cx_sleep :: "nat \<Rightarrow> fs_q \<Rightarrow> fs_q"
  cx_alog :: "nat \<Rightarrow> nat"
  cx_nm :: "nat \<Rightarrow> nat \<Rightarrow> nat option"
  cx_sysTick1s :: u32

subsection \<open>Recording a change\<close>

fun dec :: "nat \<Rightarrow> string" where
  "dec n = (if n < 10 then [char_of (48 + n)] else dec (n div 10) @ [char_of (48 + n mod 10)])"

declare dec.simps [simp del]

definition pad0 :: "nat \<Rightarrow> nat \<Rightarrow> string" where
  "pad0 w n = replicate (w - length (dec n)) (CHR ''0'') @ dec n"

definition mem_put :: "nat \<Rightarrow> bytes \<Rightarrow> (nat \<Rightarrow> u8) \<Rightarrow> nat \<Rightarrow> u8" where
  "mem_put a bs mem = (\<lambda>i. if a \<le> i \<and> i < a + length bs then bs ! (i - a) else mem i)"

definition getAlarmFifoFileName :: "nat \<Rightarrow> string" where
  "getAlarmFifoFileName mid =
     (if mid = 0 then ''alm_alog0_fifo.d'' else ''alm_alog0_fifo_m'' @ dec mid @ ''.d'')"

definition fs_msg0 :: fs_msg where
  "fs_msg0 = \<lparr>fm_fname = '''', fm_mode = '''', fm_argv = 0, fm_pbuf = None, fm_size = 0,
     fm_data = replicate 32 0, fm_useData = False\<rparr>"

definition assertAlarmOutput :: "int \<Rightarrow> u16 \<Rightarrow> u16" where
  "assertAlarmOutput state sts = (if state \<noteq> 0 then sts + 1 else sts)"

text \<open>The entry, then the queue messages and the trap that go out with it.\<close>

definition alarm_entry :: "alarm_ctx \<Rightarrow> alarm_data \<Rightarrow> int \<Rightarrow> rat \<Rightarrow> alarm_log" where
  "alarm_entry cx st status value =
     \<lparr>al_ts = cx_sysTick1s cx, al_status = of_int status, al_chan = of_nat (unat (ad_chan st)),
      al_cond = of_nat (unat (ad_cond st)), al_level = cx_bits cx (ad_level st),
      al_value = cx_bits cx value\<rparr>"

definition al_msg :: "nat \<Rightarrow> alarm_meter \<Rightarrow> fs_msg" where
  "al_msg addr m = fs_msg0\<lparr>fm_fname := ''alm_alog0_'' @ pad0 4 (am_year m) @ pad0 2 (am_mon m) @ ''.d'',
     fm_mode := ''al'', fm_pbuf := Some addr, fm_size := 16\<rparr>"

definition af_msg :: "nat \<Rightarrow> nat \<Rightarrow> fs_msg" where
  "af_msg addr mid = fs_msg0\<lparr>fm_fname := getAlarmFifoFileName mid, fm_mode := ''af'',
     fm_argv := 1024 * 256 + int (mid mod 256), fm_pbuf := Some addr, fm_size := 16\<rparr>"

definition alarm_notify ::
  "alarm_ctx \<Rightarrow> nat \<Rightarrow> nat \<Rightarrow> int \<Rightarrow> rat \<Rightarrow> alarm_log \<Rightarrow> alarm_meter \<Rightarrow> alarm_env \<Rightarrow> alarm_env" where
  "alarm_notify cx mid ix status value a m v =
     (let addr = cx_alog cx mid;
          mem = mem_put addr (alarm_log_bytes a) (av_mem v);
          q1 = putFsQ mem (cx_sleep cx) (Some (al_msg addr m)) (av_fsQ v)
      in v\<lparr>av_mem := mem, av_fsQ := putFsQ mem (cx_sleep cx) (Some (af_msg addr mid)) q1,
           av_trap := snmpTrapAlarm (int mid) (int ix) status (int (unat (al_chan a)))
             (int (unat (al_cond a))) (al_level a) (cx_bits cx value) (al_ts a)
             (cx_nm cx mid (unat (al_chan a))) (av_trap v)\<rparr>)"

definition storeAlarmLog ::
  "alarm_ctx \<Rightarrow> nat \<Rightarrow> nat \<Rightarrow> int \<Rightarrow> rat \<Rightarrow> alarm_meter \<times> alarm_env \<Rightarrow> (alarm_meter \<times> alarm_env) option" where
  "storeAlarmLog cx mid ix status value me =
     (let m = fst me; a = alarm_entry cx (am_st m ! ix) status value;
          v = alarm_notify cx mid ix status value a m (snd me)
      in case alarm_push a (am_fifo m) of
           None \<Rightarrow> None
         | Some f \<Rightarrow> Some (m\<lparr>am_alog := a, am_fifo := f\<rparr>,
                           v\<lparr>av_Alarm_sts := assertAlarmOutput status (av_Alarm_sts v)\<rparr>))"

subsection \<open>One watched reading\<close>

text \<open>
  The decision of \<open>alarmProc\<close> for one slot and its reading: the slot's new data and timer, and
  whether the alarm changed. The 8-bit timer counts on with every second the condition holds.
\<close>

definition beyond :: "alarm_set \<Rightarrow> alarm_data \<Rightarrow> rat \<Rightarrow> bool" where
  "beyond s d x =
     (let cond = as_cond s AND 1
      in if cond \<noteq> 2 then (if cond = 0 then x < ad_level d else x > ad_level d) else x = ad_level d)"

definition returned :: "alarm_set \<Rightarrow> alarm_data \<Rightarrow> rat \<Rightarrow> bool" where
  "returned s d x =
     (let cond = as_cond s AND 1; db = ad_level d * of_nat (unat (as_dband s)) / 100
      in if cond \<noteq> 2 then (if cond = 0 then x \<ge> ad_level d + db else x \<le> ad_level d - db)
         else x \<noteq> ad_level d)"

definition alarm_decide ::
  "u16 \<Rightarrow> alarm_set \<Rightarrow> rat \<Rightarrow> alarm_data \<Rightarrow> u8 \<Rightarrow> alarm_data \<times> u8 \<times> bool" where
  "alarm_decide delay s x d timer =
     (if ad_status d = 0
      then if beyond s d x
           then if unat timer \<ge> unat delay
                then (d\<lparr>ad_status := 1, ad_count := ad_count d + 1\<rparr>, timer + 1, True)
                else (d, timer + 1, False)
           else (d, 0, False)
      else if returned s d x
           then if unat timer \<ge> unat delay then (d\<lparr>ad_status := 0\<rparr>, timer + 1, True)
                else (d, timer + 1, False)
           else (d, 0, False))"

definition watched :: "alarm_meter \<Rightarrow> nat \<Rightarrow> rat option" where
  "watched m i =
     (if as_chan (am_set m ! i) = 0 \<or> as_chan (am_set m ! i) \<ge> 124 then None
      else am_src m (unat (as_chan (am_set m ! i))))"

definition alarm_slot ::
  "alarm_ctx \<Rightarrow> nat \<Rightarrow> nat \<Rightarrow> alarm_meter \<times> alarm_env \<Rightarrow> (nat \<times> nat \<times> alarm_meter \<times> alarm_env) option" where
  "alarm_slot cx mid i me =
     (case watched (fst me) i of
        None \<Rightarrow> Some (0, 0, me)
      | Some x \<Rightarrow>
          (let m = fst me;
               (d, t, fire) = alarm_decide (am_delay m) (am_set m ! i) x (am_st m ! i) (am_timer m ! i);
               m1 = m\<lparr>am_st := (am_st m)[i := d], am_timer := (am_timer m)[i := t]\<rparr>;
               active = (if ad_status d \<noteq> 0 then 1 else 0)
           in if fire
              then case storeAlarmLog cx mid i (int (unat (ad_status d))) x (m1, snd me) of
                     None \<Rightarrow> None | Some me' \<Rightarrow> Some (1, active, me')
              else Some (0, active, m1, snd me)))"

fun alarm_loop ::
  "alarm_ctx \<Rightarrow> nat \<Rightarrow> nat list \<Rightarrow> alarm_meter \<times> alarm_env \<Rightarrow> (nat \<times> nat \<times> alarm_meter \<times> alarm_env) option" where
  "alarm_loop cx mid [] me = Some (0, 0, me)"
| "alarm_loop cx mid (i # is) me =
     (case alarm_slot cx mid i me of
        None \<Rightarrow> None
      | Some (c, n, me1) \<Rightarrow>
          (case alarm_loop cx mid is me1 of
             None \<Rightarrow> None | Some (c2, n2, me2) \<Rightarrow> Some (c + c2, n + n2, me2)))"

text \<open>The result is the number of changes; \<open>None\<close> would be a store outside the history array.\<close>

definition alarmProc ::
  "alarm_ctx \<Rightarrow> nat \<Rightarrow> alarm_meter \<times> alarm_env \<Rightarrow> (nat \<times> alarm_meter \<times> alarm_env) option" where
  "alarmProc cx mid me =
     (let early = am_online2 (fst me) < 5;
          m = (fst me)\<lparr>am_online2 := am_online2 (fst me) + 1\<rparr>
      in if early then Some (0, m, snd me)
         else if \<not> am_rmsInit m then Some (0, m, snd me)
         else if \<not> am_online m \<or> am_zxMonCnt m = 0 then Some (0, m, snd me)
         else if am_Freq m < 47 \<or> am_Freq m > 63 then Some (0, m, snd me)
         else case alarm_loop cx mid [0..<32] (m, snd me) of
                None \<Rightarrow> None
              | Some (change, almCount, m1, v1) \<Rightarrow>
                  (let m2 = m1\<lparr>am_almCount := of_nat almCount\<rparr>;
                       (f, l) = fetchAlarm 0 (am_fifo m2) (am_list m2)
                   in Some (change, if change > 0 then m2\<lparr>am_fifo := f, am_list := l\<rparr> else m2, v1)))"

text \<open>\<open>resetAlarm\<close> clears the counts and the window; \<open>PostScan\<close> then deletes the history.\<close>

definition resetAlarm :: "alarm_meter \<Rightarrow> alarm_meter" where
  "resetAlarm m = m\<lparr>am_st := map (\<lambda>d. d\<lparr>ad_count := 0\<rparr>) (am_st m), am_almCount := 0,
     am_list := \<lparr>ll_fr = 0, ll_re = 0, ll_count = 0, ll_ent = replicate 32 alarm_log0\<rparr>\<rparr>"

subsection \<open>Changes and their records\<close>

lemma storeAlarmLog_ok:
  assumes "log_ok (am_fifo m)"
  shows "\<exists>a f v'. storeAlarmLog cx mid ix status x (m, v) = Some (m\<lparr>am_alog := a, am_fifo := f\<rparr>, v') \<and>
    log_ok f \<and> log_view f = take LOG_CAP (a # log_view (am_fifo m)) \<and>
    al_status a = of_int status \<and> al_value a = cx_bits cx x \<and> al_ts a = cx_sysTick1s cx"
proof -
  let ?a = "alarm_entry cx (am_st m ! ix) status x"
  obtain f where "alarm_push ?a (am_fifo m) = Some f" "log_ok f"
    "log_view f = take LOG_CAP (?a # log_view (am_fifo m))"
    using alarms.push_ok [OF assms] by blast
  then show ?thesis
    by (intro exI [of _ ?a] exI [of _ f]) (simp add: storeAlarmLog_def Let_def alarm_entry_def)
qed

text \<open>A record of a change of slot \<open>i\<close> of a meter, as it enters the history.\<close>

definition change_entry :: "alarm_ctx \<Rightarrow> alarm_meter \<Rightarrow> alarm_log \<Rightarrow> bool" where
  "change_entry cx m a \<longleftrightarrow> al_ts a = cx_sysTick1s cx \<and> (al_status a = 0 \<or> al_status a = 1) \<and>
     (\<exists>i x. watched m i = Some x \<and> al_value a = cx_bits cx x)"

lemma decide_fire:
  assumes "alarm_decide delay s x d t = (d', t', True)"
  shows "ad_status d' = (if ad_status d = 0 then 1 else 0)"
  using assms by (auto simp: alarm_decide_def split: if_splits)

definition same_watch :: "alarm_meter \<Rightarrow> alarm_meter \<Rightarrow> bool" where
  "same_watch m m' \<longleftrightarrow> am_set m' = am_set m \<and> am_src m' = am_src m \<and> am_delay m' = am_delay m"

lemma same_watch_watched: "same_watch m m' \<Longrightarrow> watched m' = watched m"
  by (simp add: same_watch_def watched_def fun_eq_iff)

lemma alarm_slot_ok:
  assumes "log_ok (am_fifo (fst me))"
  shows "\<exists>c n me' es. alarm_slot cx mid i me = Some (c, n, me') \<and> c = length es \<and> n \<le> 1 \<and>
    log_ok (am_fifo (fst me')) \<and> same_watch (fst me) (fst me') \<and>
    log_view (am_fifo (fst me')) = take LOG_CAP (rev es @ log_view (am_fifo (fst me))) \<and>
    (\<forall>a \<in> set es. change_entry cx (fst me) a)"
proof -
  have cap: "length (log_view (am_fifo (fst me))) \<le> LOG_CAP"
    using alarms.view_cap [OF assms] by simp
  show ?thesis
  proof (cases "watched (fst me) i")
    case None
    then show ?thesis using assms cap
      by (intro exI [of _ 0] exI [of _ me] exI [of _ "[]"]) (simp add: alarm_slot_def same_watch_def)
  next
    case (Some x)
    obtain d t fire where dec: "alarm_decide (am_delay (fst me)) (am_set (fst me) ! i) x
        (am_st (fst me) ! i) (am_timer (fst me) ! i) = (d, t, fire)"
      by (metis prod_cases3)
    let ?m1 = "(fst me)\<lparr>am_st := (am_st (fst me))[i := d], am_timer := (am_timer (fst me))[i := t]\<rparr>"
    let ?act = "if ad_status d \<noteq> 0 then 1 else 0 :: nat"
    show ?thesis
    proof (cases fire)
      case False
      then show ?thesis using Some dec assms cap
        by (intro exI [of _ 0] exI [of _ ?act] exI [of _ "(?m1, snd me)"] exI [of _ "[]"])
          (simp add: alarm_slot_def same_watch_def Let_def)
    next
      case True
      obtain a f v' where st: "storeAlarmLog cx mid i (int (unat (ad_status d))) x (?m1, snd me) =
          Some (?m1\<lparr>am_alog := a, am_fifo := f\<rparr>, v')" "log_ok f"
        "log_view f = take LOG_CAP (a # log_view (am_fifo (fst me)))"
        "al_status a = of_int (int (unat (ad_status d)))" "al_value a = cx_bits cx x"
        "al_ts a = cx_sysTick1s cx"
        using storeAlarmLog_ok [of ?m1 cx mid i "int (unat (ad_status d))" x "snd me"] assms by auto
      have "change_entry cx (fst me) a"
        using st(4-6) Some decide_fire [OF dec [unfolded eqTrueI [OF True]]] by (auto simp: change_entry_def)
      then show ?thesis using Some dec True st(1-3)
        by (intro exI [of _ 1] exI [of _ ?act] exI [of _ "(?m1\<lparr>am_alog := a, am_fifo := f\<rparr>, v')"]
            exI [of _ "[a]"]) (simp add: alarm_slot_def same_watch_def Let_def)
    qed
  qed
qed

lemma take_rev_append:
  "take n (rev ys @ take n (rev xs @ zs)) = take n (rev (xs @ ys) @ zs)"
  by (simp add: take_add min_def)

lemma alarm_loop_ok:
  assumes "log_ok (am_fifo (fst me))"
  shows "\<exists>c n me' es. alarm_loop cx mid is me = Some (c, n, me') \<and> c = length es \<and> n \<le> length is \<and>
    log_ok (am_fifo (fst me')) \<and> same_watch (fst me) (fst me') \<and>
    log_view (am_fifo (fst me')) = take LOG_CAP (rev es @ log_view (am_fifo (fst me))) \<and>
    (\<forall>a \<in> set es. change_entry cx (fst me) a)"
  using assms
proof (induction "is" arbitrary: me)
  case Nil
  then show ?case using alarms.view_cap [OF Nil]
    by (intro exI [of _ 0] exI [of _ me] exI [of _ "[]"]) (simp add: same_watch_def)
next
  case (Cons i "is")
  obtain c n me1 es where s: "alarm_slot cx mid i me = Some (c, n, me1)" "c = length es" "n \<le> 1"
    "log_ok (am_fifo (fst me1))" "same_watch (fst me) (fst me1)"
    "log_view (am_fifo (fst me1)) = take LOG_CAP (rev es @ log_view (am_fifo (fst me)))"
    "\<forall>a \<in> set es. change_entry cx (fst me) a"
    using alarm_slot_ok [OF Cons.prems] by blast
  obtain c2 n2 me2 es2 where l: "alarm_loop cx mid is me1 = Some (c2, n2, me2)" "c2 = length es2"
    "n2 \<le> length is" "log_ok (am_fifo (fst me2))" "same_watch (fst me1) (fst me2)"
    "log_view (am_fifo (fst me2)) = take LOG_CAP (rev es2 @ log_view (am_fifo (fst me1)))"
    "\<forall>a \<in> set es2. change_entry cx (fst me1) a"
    using Cons.IH [OF s(4)] by blast
  have "\<forall>a \<in> set (es @ es2). change_entry cx (fst me) a"
    using s(7) l(7) same_watch_watched [OF s(5)] by (auto simp: change_entry_def)
  moreover have "same_watch (fst me) (fst me2)" using s(5) l(5) by (simp add: same_watch_def)
  moreover have "log_view (am_fifo (fst me2)) = take LOG_CAP (rev (es @ es2) @ log_view (am_fifo (fst me)))"
    unfolding l(6) s(6) by (rule take_rev_append)
  ultimately show ?case using s(1-3) l(1-4)
    by (intro exI [of _ "c + c2"] exI [of _ "n + n2"] exI [of _ me2] exI [of _ "es @ es2"]) simp
qed

text \<open>A pass of the alarm supervision always completes, keeps the history array in order and
  records exactly the changes it reports: the history afterwards is the reported number of new
  entries, newest first, in front of the old ones, cut to 1024; every new entry carries the
  time of the pass, the status 0 or 1 and the reading of a watched channel.\<close>

theorem alarm_pass_records_changes:
  assumes "log_ok (am_fifo (fst me))"
  shows "\<exists>c me' es. alarmProc cx mid me = Some (c, me') \<and> c = length es \<and>
    log_ok (am_fifo (fst me')) \<and>
    log_view (am_fifo (fst me')) = take 1024 (rev es @ log_view (am_fifo (fst me))) \<and>
    (\<forall>a \<in> set es. change_entry cx (fst me) a)"
proof -
  let ?m = "(fst me)\<lparr>am_online2 := am_online2 (fst me) + 1\<rparr>"
  let ?early = "am_online2 (fst me) < 5 \<or> \<not> am_rmsInit ?m \<or> \<not> am_online ?m \<or> am_zxMonCnt ?m = 0 \<or>
    am_Freq ?m < 47 \<or> am_Freq ?m > 63"
  have ok: "log_ok (am_fifo (fst (?m, snd me)))" using assms by simp
  have entry: "change_entry cx ?m a = change_entry cx (fst me) a" for a
    by (simp add: change_entry_def watched_def)
  show ?thesis
  proof (cases ?early)
    case True
    then have "alarmProc cx mid me = Some (0, ?m, snd me)" by (auto simp: alarmProc_def Let_def)
    then show ?thesis using assms alarms.view_cap [OF assms]
      by (intro exI [of _ 0] exI [of _ "(?m, snd me)"] exI [of _ "[]"]) simp
  next
    case False
    obtain c n m1 v1 es where l: "alarm_loop cx mid [0..<32] (?m, snd me) = Some (c, n, m1, v1)"
      "c = length es" "log_ok (am_fifo m1)"
      "log_view (am_fifo m1) = take LOG_CAP (rev es @ log_view (am_fifo ?m))"
      "\<forall>a \<in> set es. change_entry cx ?m a"
      using alarm_loop_ok [OF ok, of cx mid "[0..<32]"] by auto
    let ?m2 = "m1\<lparr>am_almCount := of_nat n\<rparr>"
    let ?w = "fetchAlarm 0 (am_fifo m1) (am_list m1)"
    have f: "fst ?w = am_fifo m1" using sanitize_ok [OF l(3)] by (simp add: fetchAlarm_def Let_def split_def)
    have "alarmProc cx mid me =
        Some (c, if c > 0 then ?m2\<lparr>am_fifo := fst ?w, am_list := snd ?w\<rparr> else ?m2, v1)"
      using False l(1) by (simp add: alarmProc_def Let_def split_def del: upt_conv_Cons)
    then show ?thesis using l(2-5) f entry
      by (intro exI [of _ c] exI [of _ "(if c > 0 then ?m2\<lparr>am_fifo := fst ?w, am_list := snd ?w\<rparr> else ?m2, v1)"]
          exI [of _ es]) (simp add: split_def)
  qed
qed

definition demo_alarm_meter :: alarm_meter where
  "demo_alarm_meter = \<lparr>am_online2 = 5, am_rmsInit = True, am_online = True, am_zxMonCnt = 1, am_Freq = 60,
     am_delay = 0, am_set = replicate 32 \<lparr>as_chan = 3, as_cond = 0, as_dband = 1, as_level = 90\<rparr>,
     am_st = replicate 32 \<lparr>ad_chan = 3, ad_cond = 0, ad_level = 90, ad_status = 0, ad_count = 0\<rparr>,
     am_timer = replicate 32 0, am_src = (\<lambda>_. Some 80), am_almCount = 0, am_alog = alarm_log0,
     am_fifo = log_empty alarm_log0,
     am_list = \<lparr>ll_fr = 0, ll_re = 0, ll_count = 0, ll_ent = replicate 32 alarm_log0\<rparr>,
     am_year = 2026, am_mon = 9\<rparr>"

definition demo_env :: alarm_env where
  "demo_env = \<lparr>av_fsQ = fs_q_empty, av_trap = trap_q_empty, av_mem = (\<lambda>_. 0), av_Alarm_sts = 0\<rparr>"

definition demo_ctx :: alarm_ctx where
  "demo_ctx = \<lparr>cx_bits = (\<lambda>x. of_int \<lfloor>x\<rfloor>), cx_sleep = (\<lambda>_ q. q), cx_alog = (\<lambda>i. 1000 * i),
     cx_nm = (\<lambda>_ _. None), cx_sysTick1s = 77\<rparr>"

theorem alarm_pass_records_changes_witness:
  "\<exists>c me' es. alarmProc demo_ctx 0 (demo_alarm_meter, demo_env) = Some (c, me') \<and> c = length es \<and>
    log_ok (am_fifo (fst me')) \<and>
    log_view (am_fifo (fst me')) = take 1024 (rev es @ log_view (am_fifo (fst (demo_alarm_meter, demo_env)))) \<and>
    (\<forall>a \<in> set es. change_entry demo_ctx (fst (demo_alarm_meter, demo_env)) a)"
  by (rule alarm_pass_records_changes) (simp add: demo_alarm_meter_def log_empty_ok)

subsection \<open>How a change is announced\<close>

lemma length_le_bytes_4: "length (le_bytes 4 (w :: u32)) = 4"
  by simp

lemma length_alarm_log_bytes: "length (alarm_log_bytes a) = 16"
  by (simp add: alarm_log_bytes_def)

lemma mem_read_put: "mem_read (mem_put a bs mem) a (length bs) = bs"
  by (auto simp: mem_read_def mem_put_def intro: nth_equalityI)

lemma putFsQ_room:
  assumes "fs_q_ok q" "length (fs_pending q) < 31"
  shows "putFsQ mem sleep (Some p) q = fs_put (fs_inline mem p) q"
    and "fs_pending (putFsQ mem sleep (Some p) q) = fs_pending q @ [fs_inline mem p]"
    and "fs_q_ok (putFsQ mem sleep (Some p) q)"
proof -
  have "fsq_next (fq_fr q) \<noteq> fq_re q" using fs_full_iff [OF assms(1)] assms(2) by auto
  then show eq: "putFsQ mem sleep (Some p) q = fs_put (fs_inline mem p) q"
    by (simp add: putFsQ_def fs_put_eq putFsQ_loop.simps [of _ 0])
  show "fs_pending (putFsQ mem sleep (Some p) q) = fs_pending q @ [fs_inline mem p]"
    unfolding eq using fsq.put_items [OF assms(1), of "fs_inline mem p"] assms(2) by simp
  show "fs_q_ok (putFsQ mem sleep (Some p) q)"
    unfolding eq using fsq.put_inv [OF assms(1)] by simp
qed

lemma inline_payload:
  "fm_pbuf p = Some a \<Longrightarrow> fm_size p = 16 \<Longrightarrow>
    fsMsgPayload mem' (fs_inline (mem_put a (alarm_log_bytes e) mem) p) = Some (alarm_log_bytes e) \<and>
    fm_mode (fs_inline (mem_put a (alarm_log_bytes e) mem) p) = fm_mode p \<and>
    fm_fname (fs_inline (mem_put a (alarm_log_bytes e) mem) p) = fm_fname p"
  using mem_read_put [of a "alarm_log_bytes e" mem] length_alarm_log_bytes [of e]
  by (simp add: fsMsgPayload_def fs_inline_def)

lemma alarm_announced:
  assumes "fs_q_ok (av_fsQ v)" "length (fs_pending (av_fsQ v)) < 30"
    and "trap_q_ok (av_trap v)" "length (trap_pending (av_trap v)) < 16"
    and "storeAlarmLog cx mid ix status x (m, v) = Some (m', v')"
  shows "\<exists>mem e. fs_pending (av_fsQ v') = fs_pending (av_fsQ v) @
      [fs_inline (mem_put (cx_alog cx mid) (alarm_log_bytes (am_alog m')) mem) (al_msg (cx_alog cx mid) m),
       fs_inline (mem_put (cx_alog cx mid) (alarm_log_bytes (am_alog m')) mem) (af_msg (cx_alog cx mid) mid)] \<and>
    fs_q_ok (av_fsQ v') \<and>
    trap_pending (av_trap v') = trap_pending (av_trap v) @ [e] \<and>
    te_code e = (if status \<noteq> 0 then TRAP_ALARM_RAISED else TRAP_ALARM_CLEARED) \<and>
    te_value e = cx_bits cx x \<and>
    av_Alarm_sts v' = av_Alarm_sts v + (if status \<noteq> 0 then 1 else 0)"
proof -
  define a where "a = alarm_entry cx (am_st m ! ix) status x"
  define mem where "mem = mem_put (cx_alog cx mid) (alarm_log_bytes a) (av_mem v)"
  define al where "al = al_msg (cx_alog cx mid) m"
  define af where "af = af_msg (cx_alog cx mid) mid"
  define q1 where "q1 = putFsQ mem (cx_sleep cx) (Some al) (av_fsQ v)"
  have v': "av_fsQ v' = putFsQ mem (cx_sleep cx) (Some af) q1" "am_alog m' = a"
    "av_trap v' = snmpTrapAlarm (int mid) (int ix) status (int (unat (al_chan a)))
      (int (unat (al_cond a))) (al_level a) (cx_bits cx x) (al_ts a) (cx_nm cx mid (unat (al_chan a))) (av_trap v)"
    "av_Alarm_sts v' = assertAlarmOutput status (av_Alarm_sts v)"
    using assms(5)
    by (auto simp: storeAlarmLog_def alarm_notify_def Let_def mem_def af_def al_def q1_def a_def split: option.splits)
  have room: "length (fs_pending (av_fsQ v)) < 31" using assms(2) by simp
  have q1: "fs_pending q1 = fs_pending (av_fsQ v) @ [fs_inline mem al]" "fs_q_ok q1"
    unfolding q1_def using putFsQ_room [OF assms(1) room] by simp_all
  have room1: "length (fs_pending q1) < 31" using q1(1) assms(2) by simp
  have "fs_pending (av_fsQ v') = fs_pending (av_fsQ v) @ [fs_inline mem al, fs_inline mem af]" "fs_q_ok (av_fsQ v')"
    unfolding v'(1) using putFsQ_room [OF q1(2) room1] q1(1) by simp_all
  then show ?thesis
    using v'(2-4) trapPush_room [OF assms(3,4)]
    by (intro exI [of _ "av_mem v"]) (simp add: mem_def al_def af_def snmpTrapAlarm_def assertAlarmOutput_def)
qed

text \<open>Every recorded change is announced with its own bytes: with room in both queues, the
  file task gets one message for the month's file and one for the history file, in this order,
  each carrying the entry's 16 bytes by value, so that later changes, which reuse the same
  entry buffer, cannot alter them; the trap queue gets one trap, raised or cleared as the
  change was; and the status counter counts exactly the raised alarms.\<close>

theorem alarm_change_is_announced:
  assumes "fs_q_ok (av_fsQ v)" "length (fs_pending (av_fsQ v)) < 30"
    and "trap_q_ok (av_trap v)" "length (trap_pending (av_trap v)) < 16"
    and "storeAlarmLog cx mid ix status x (m, v) = Some (m', v')"
  shows "\<exists>al af e. fs_pending (av_fsQ v') = fs_pending (av_fsQ v) @ [al, af] \<and>
    fm_mode al = ''al'' \<and> fm_mode af = ''af'' \<and> fm_fname af = getAlarmFifoFileName mid \<and>
    fm_fname al = ''alm_alog0_'' @ pad0 4 (am_year m) @ pad0 2 (am_mon m) @ ''.d'' \<and>
    (\<forall>mem. fsMsgPayload mem al = Some (alarm_log_bytes (am_alog m')) \<and>
           fsMsgPayload mem af = Some (alarm_log_bytes (am_alog m'))) \<and>
    trap_pending (av_trap v') = trap_pending (av_trap v) @ [e] \<and>
    te_code e = (if status \<noteq> 0 then TRAP_ALARM_RAISED else TRAP_ALARM_CLEARED) \<and>
    te_value e = cx_bits cx x \<and>
    av_Alarm_sts v' = av_Alarm_sts v + (if status \<noteq> 0 then 1 else 0)"
proof -
  obtain mem e where a: "fs_pending (av_fsQ v') = fs_pending (av_fsQ v) @
      [fs_inline (mem_put (cx_alog cx mid) (alarm_log_bytes (am_alog m')) mem) (al_msg (cx_alog cx mid) m),
       fs_inline (mem_put (cx_alog cx mid) (alarm_log_bytes (am_alog m')) mem) (af_msg (cx_alog cx mid) mid)]"
    "trap_pending (av_trap v') = trap_pending (av_trap v) @ [e]"
    "te_code e = (if status \<noteq> 0 then TRAP_ALARM_RAISED else TRAP_ALARM_CLEARED)"
    "te_value e = cx_bits cx x" "av_Alarm_sts v' = av_Alarm_sts v + (if status \<noteq> 0 then 1 else 0)"
    using alarm_announced [OF assms] by blast
  have p: "fm_pbuf (al_msg b m) = Some b" "fm_size (al_msg b m) = 16"
    "fm_pbuf (af_msg b mid) = Some b" "fm_size (af_msg b mid) = 16" for b
    by (simp_all add: al_msg_def af_msg_def)
  show ?thesis
    unfolding a(1)
    by (intro exI conjI) (use a(2-5) inline_payload [OF p(1,2)] inline_payload [OF p(3,4)]
      in \<open>auto simp: al_msg_def af_msg_def\<close>)
qed

lemma trap_q_empty_ok: "trap_q_ok trap_q_empty" "trap_pending trap_q_empty = []"
  by (simp_all add: trap_q_empty_def trap_q_ok_def trap_pending_def ring_count_def)

definition demo_store :: "alarm_meter \<times> alarm_env" where
  "demo_store = the (storeAlarmLog demo_ctx 1 0 1 80 (demo_alarm_meter, demo_env))"

theorem alarm_change_is_announced_witness:
  "\<exists>al af e. fs_pending (av_fsQ (snd demo_store)) = fs_pending (av_fsQ demo_env) @ [al, af] \<and>
    fm_mode al = ''al'' \<and> fm_mode af = ''af'' \<and> fm_fname af = getAlarmFifoFileName 1 \<and>
    fm_fname al = ''alm_alog0_'' @ pad0 4 (am_year demo_alarm_meter) @ pad0 2 (am_mon demo_alarm_meter) @ ''.d'' \<and>
    (\<forall>mem. fsMsgPayload mem al = Some (alarm_log_bytes (am_alog (fst demo_store))) \<and>
           fsMsgPayload mem af = Some (alarm_log_bytes (am_alog (fst demo_store)))) \<and>
    trap_pending (av_trap (snd demo_store)) = trap_pending (av_trap demo_env) @ [e] \<and>
    te_code e = (if (1 :: int) \<noteq> 0 then TRAP_ALARM_RAISED else TRAP_ALARM_CLEARED) \<and>
    te_value e = cx_bits demo_ctx 80 \<and>
    av_Alarm_sts (snd demo_store) = av_Alarm_sts demo_env + (if (1 :: int) \<noteq> 0 then 1 else 0)"
proof (rule alarm_change_is_announced)
  have "log_ok (am_fifo demo_alarm_meter)" by (simp add: demo_alarm_meter_def log_empty_ok)
  then obtain r where "storeAlarmLog demo_ctx 1 0 1 80 (demo_alarm_meter, demo_env) = Some r"
    using storeAlarmLog_ok by blast
  then show "storeAlarmLog demo_ctx 1 0 1 80 (demo_alarm_meter, demo_env) = Some (fst demo_store, snd demo_store)"
    by (simp add: demo_store_def)
qed (simp_all add: demo_env_def fs_q_empty_ok trap_q_empty_ok)

subsection \<open>When an alarm is raised\<close>

text \<open>One slot over the readings of successive seconds.\<close>

definition alarm_seconds ::
  "u16 \<Rightarrow> alarm_set \<Rightarrow> rat list \<Rightarrow> alarm_data \<times> u8 \<Rightarrow> alarm_data \<times> u8" where
  "alarm_seconds delay s xs dt =
     fold (\<lambda>x (d, t). let (d', t', _) = alarm_decide delay s x d t in (d', t')) xs dt"

lemma alarm_seconds_simps:
  "alarm_seconds delay s [] dt = dt"
  "alarm_seconds delay s (x # xs) (d, t) =
    alarm_seconds delay s xs (fst (alarm_decide delay s x d t), fst (snd (alarm_decide delay s x d t)))"
  by (simp_all add: alarm_seconds_def split_def Let_def)

lemma u8_next: "unat (t :: u8) < 255 \<Longrightarrow> unat (t + 1) = unat t + 1"
  by (simp add: unat_word_ariths)

lemma alarm_waits:
  assumes "ad_status d = 0" "\<forall>x \<in> set xs. beyond s d x" "unat t + length xs \<le> unat delay" "unat delay < 256"
  shows "alarm_seconds delay s xs (d, t) = (d, t + of_nat (length xs))"
  using assms
proof (induction xs arbitrary: t)
  case (Cons x xs)
  have "unat (t + 1) = unat t + 1"
    using Cons.prems(3,4) u8_next [of t] by simp
  then show ?case using Cons.IH [of "t + 1"] Cons.prems
    by (simp add: alarm_seconds_simps alarm_decide_def)
qed (simp add: alarm_seconds_simps)

text \<open>C6. An alarm needs persistence: starting with a cleared timer, a reading beyond its limit
  for up to \<open>delay\<close> seconds leaves the alarm off, and in the second after it the alarm is on and
  its count is one higher, for every delay below 256.\<close>

theorem alarm_raised_after_delay:
  assumes "ad_status d = 0" "unat delay < 256" "\<forall>x \<in> set xs. beyond s d x" "beyond s d y"
    and "length xs = unat delay"
  shows "fst (alarm_seconds delay s xs (d, 0)) = d \<and>
    fst (alarm_seconds delay s (xs @ [y]) (d, 0)) = d\<lparr>ad_status := 1, ad_count := ad_count d + 1\<rparr>"
proof -
  have w: "alarm_seconds delay s xs (d, 0) = (d, of_nat (length xs))"
    using alarm_waits [of d xs s 0 delay] assms by simp
  have "unat (of_nat (length xs) :: u8) = length xs"
    using assms(2,5) by (simp only: unat_of_nat) simp
  then have "fst (alarm_decide delay s y d (of_nat (length xs))) = d\<lparr>ad_status := 1, ad_count := ad_count d + 1\<rparr>"
    using assms(1,4,5) by (simp add: alarm_decide_def)
  then show ?thesis using w by (simp add: alarm_seconds_def split_def Let_def)
qed

definition demo_under :: alarm_set where
  "demo_under = \<lparr>as_chan = 3, as_cond = 0, as_dband = 1, as_level = 90\<rparr>"

definition demo_data :: alarm_data where
  "demo_data = \<lparr>ad_chan = 3, ad_cond = 0, ad_level = 90, ad_status = 0, ad_count = 0\<rparr>"

theorem alarm_raised_after_delay_witness:
  "fst (alarm_seconds 3 demo_under [80, 70, 89] (demo_data, 0)) = demo_data \<and>
   fst (alarm_seconds 3 demo_under ([80, 70, 89] @ [60]) (demo_data, 0)) =
     demo_data\<lparr>ad_status := 1, ad_count := ad_count demo_data + 1\<rparr>"
  by (rule alarm_raised_after_delay)
    (simp_all add: demo_data_def demo_under_def beyond_def Let_def)

text \<open>A delay of 256 seconds or more disables the alarm: the 8-bit timer never reaches it, so
  no sequence of readings whatsoever raises the alarm.\<close>

theorem long_delay_never_alarms:
  assumes "256 \<le> unat delay" "ad_status d = 0"
  shows "fst (alarm_seconds delay s xs (d, t)) = d"
proof (induction xs arbitrary: t)
  case (Cons x xs)
  have "unat t < 256" using unsigned_less [of t] by (rule order.strict_trans2) simp
  then have "fst (alarm_decide delay s x d t) = d" using assms by (simp add: alarm_decide_def)
  then show ?case using Cons by (simp add: alarm_seconds_simps)
qed (simp add: alarm_seconds_simps)

theorem long_delay_never_alarms_witness:
  "fst (alarm_seconds 300 demo_under (replicate 1000 0) (demo_data, 0)) = demo_data"
  by (rule long_delay_never_alarms) (simp_all add: demo_data_def)

text \<open>
  The timer is not cleared when the alarm changes, so the change back needs no persistence: if
  the very next reading is back behind the dead band the alarm is off at once.
\<close>

lemma alarm_clears_without_delay:
  assumes "ad_status d = 0" "beyond s d x" "unat delay \<le> unat t" "unat t < 255"
    and "returned s d y"
  shows "ad_status (fst (alarm_seconds delay s [x, y] (d, t))) = 0"
proof -
  have "unat (t + 1) = unat t + 1" using assms(4) by (rule u8_next)
  moreover have "returned s (d\<lparr>ad_status := 1, ad_count := ad_count d + 1\<rparr>) y"
    using assms(5) by (simp add: returned_def Let_def)
  ultimately show ?thesis using assms(1-3) by (simp add: alarm_seconds_simps alarm_decide_def)
qed

text \<open>
  With a negative limit the dead band lies on the wrong side: a constant reading just above
  the limit of an over-alarm is beyond the limit and back behind the dead band at once.
\<close>

lemma negative_limit_chatters:
  assumes "as_cond s AND 1 = 1" "ad_level d < 0" "as_dband s \<noteq> 0"
    and "x = ad_level d - ad_level d * of_nat (unat (as_dband s)) / 100"
  shows "beyond s d x \<and> returned s d x"
proof -
  have "0 < unat (as_dband s)" using assms(3) by (simp add: unat_gt_0)
  then have "(0 :: rat) < of_nat (unat (as_dband s))" by (simp only: of_nat_0_less_iff)
  then have "ad_level d * of_nat (unat (as_dband s)) < 0" using assms(2) by (simp only: mult_neg_pos)
  then show ?thesis using assms by (simp add: beyond_def returned_def Let_def)
qed

end
