(* ===== verification/FsTask.thy ===== *)
theory FsTask
  imports Alarm CmdProc "HOL-Library.List_Lexorder"
begin

text \<open>
  The file task (\<open>FS_task\<close> in \<open>meter.c\<close>, \<open>alarmFsDispatch\<close> in \<open>alarm.c\<close>): it takes the queued
  jobs one by one and deletes, appends, rewrites and trims files. The flash file system is a
  directory, an association list from names to contents in the order in which \<open>ffind\<close>
  enumerates it; whether opening a file or allocating the trim buffer succeeds on this run is
  part of the record \<open>fs_env\<close>, with the memory and the histories the jobs read.
\<close>

type_synonym dir = "(string \<times> bytes) list"

record fs_env =
  fe_open :: "string \<Rightarrow> bool"
  fe_malloc :: bool
  fe_mem :: "nat \<Rightarrow> u8"
  fe_sysTick1s :: u32
  fe_alarmFifo :: "nat \<Rightarrow> alarm_fifo"
  fe_eventFifo :: "nat \<Rightarrow> event_fifo"

subsection \<open>Files\<close>

definition fdelete :: "string \<Rightarrow> dir \<Rightarrow> dir" where
  "fdelete nm d = filter (\<lambda>f. fst f \<noteq> nm) d"

fun fwrite_all :: "string \<Rightarrow> bytes \<Rightarrow> dir \<Rightarrow> dir" where
  "fwrite_all nm bs [] = [(nm, bs)]"
| "fwrite_all nm bs (f # d) = (if fst f = nm then (nm, bs) # d else f # fwrite_all nm bs d)"

definition fcontent :: "string \<Rightarrow> dir \<Rightarrow> bytes" where
  "fcontent nm d = (case map_of d nm of None \<Rightarrow> [] | Some bs \<Rightarrow> bs)"

definition fappend :: "string \<Rightarrow> bytes \<Rightarrow> dir \<Rightarrow> dir" where
  "fappend nm bs d = fwrite_all nm (fcontent nm d @ bs) d"

definition starts :: "string \<Rightarrow> string \<Rightarrow> bool" where
  "starts p s \<longleftrightarrow> take (length p) s = p"

lemma starts_iff: "starts p s \<longleftrightarrow> (\<exists>r. s = p @ r)"
proof
  assume "starts p s"
  then have "s = p @ drop (length p) s" unfolding starts_def by (metis append_take_drop_id)
  then show "\<exists>r. s = p @ r" ..
qed (auto simp: starts_def)

fun strcmp_less :: "string \<Rightarrow> string \<Rightarrow> bool" where
  "strcmp_less _ [] = False"
| "strcmp_less [] (y # ys) = True"
| "strcmp_less (x # xs) (y # ys) =
     (if x = y then strcmp_less xs ys else (of_char x :: nat) < of_char y)"

subsection \<open>Trimming\<close>

definition trimFixedRecordFileFs :: "fs_env \<Rightarrow> string \<Rightarrow> nat \<Rightarrow> nat \<Rightarrow> dir \<Rightarrow> dir" where
  "trimFixedRecordFileFs env path recSize keepCount d =
     (case map_of d path of
        None \<Rightarrow> d
      | Some bs \<Rightarrow>
          (let keepBytes = recSize * keepCount
           in if length bs \<le> keepBytes then d
              else if \<not> fe_open env path then d
              else if \<not> fe_malloc env then d
              else fwrite_all path (take keepBytes (drop (length bs - keepBytes) bs)) d))"

abbreviation (input) CAP_W_FX :: "string list" where
  "CAP_W_FX \<equiv> [''WSAG_'', ''WSWL_'', ''WOC_'', ''WINT_'']"

abbreviation (input) CAP_D_FX :: "string list" where
  "CAP_D_FX \<equiv> [''DSAG_'', ''DSWL_'', ''DOC_'', ''DINT_'']"

definition capStripDir :: "string \<Rightarrow> string" where
  "capStripDir nm = (if starts ''tpq_'' nm then drop 4 nm else nm)"

definition capNameInGroup :: "string list \<Rightarrow> string \<Rightarrow> bool" where
  "capNameInGroup fx nm = list_ex (\<lambda>p. starts p (capStripDir nm)) fx"

definition is_digit :: "char \<Rightarrow> bool" where
  "is_digit c \<longleftrightarrow> 48 \<le> (of_char c :: nat) \<and> (of_char c :: nat) \<le> 57"

lemma digit_char: "d < 10 \<Longrightarrow> is_digit (char_of (48 + d :: nat)) \<and> of_char (char_of (48 + d) :: char) = 48 + d"
  by (simp add: is_digit_def)

lemma dec_digits: "\<forall>c \<in> set (dec n). is_digit c"
proof (induction n rule: dec.induct)
  case (1 n)
  show ?case
  proof (cases "n < 10")
    case True
    then show ?thesis by (simp add: dec.simps [of n] digit_char)
  next
    case False
    then show ?thesis using 1 digit_char [of "n mod 10"] by (auto simp: dec.simps [of n])
  qed
qed

lemma dec_nonempty: "dec n \<noteq> []"
  by (simp add: dec.simps [of n])

lemma length_dec_le: "0 < w \<Longrightarrow> n < 10 ^ w \<Longrightarrow> length (dec n) \<le> w"
proof (induction w arbitrary: n)
  case (Suc w)
  show ?case
  proof (cases "n < 10")
    case False
    then have "n div 10 < 10 ^ w" "0 < w" using Suc.prems by (auto intro: less_mult_imp_div_less gr0I)
    then show ?thesis using Suc.IH [of "n div 10"] False by (simp add: dec.simps [of n])
  qed (simp add: dec.simps [of n])
qed simp

text \<open>The value of a row of digits.\<close>

definition digits_val :: "string \<Rightarrow> nat" where
  "digits_val s = foldl (\<lambda>k c. k * 10 + (of_char c - 48)) 0 s"

lemma digits_val_append: "digits_val (s @ t) = digits_val s * 10 ^ length t + digits_val t"
proof (induction t rule: rev_induct)
  case (snoc c t)
  then show ?case by (simp add: digits_val_def algebra_simps)
qed (simp add: digits_val_def)

lemma digits_val_dec: "digits_val (dec n) = n"
proof (induction n rule: dec.induct)
  case (1 n)
  show ?case
  proof (cases "n < 10")
    case True
    then show ?thesis using digit_char [of n] by (simp add: digits_val_def dec.simps [of n])
  next
    case False
    then have "digits_val (dec (n div 10)) = n div 10" using 1 by simp
    then show ?thesis using False digit_char [of "n mod 10"] by (simp add: digits_val_def dec.simps [of n])
  qed
qed

lemma pad0_ok: "0 < w \<Longrightarrow> n < 10 ^ w \<Longrightarrow> length (pad0 w n) = w \<and> list_all is_digit (pad0 w n) \<and> digits_val (pad0 w n) = n"
proof -
  assume "0 < w" "n < 10 ^ w"
  then have l: "length (dec n) \<le> w" by (rule length_dec_le)
  have z: "digits_val (replicate k (CHR ''0'')) = 0" for k
    by (induction k) (simp_all add: digits_val_def)
  have "list_all is_digit (pad0 w n)" using dec_digits [of n] by (auto simp: pad0_def list_all_iff is_digit_def)
  then show ?thesis using l by (simp add: pad0_def digits_val_append z digits_val_dec)
qed

definition capTsPart :: "string \<Rightarrow> string" where
  "capTsPart nm = (let p = dropWhile (\<lambda>c. \<not> is_digit c) nm in if p \<noteq> [] then p else nm)"

text \<open>The pattern \<open>tpq_W*.d\<close> or \<open>tpq_D*.d\<close>: everything after the star's start must end in \<open>.d\<close>.\<close>

definition mask_match :: "string \<Rightarrow> string \<Rightarrow> bool" where
  "mask_match pre nm \<longleftrightarrow> starts pre nm \<and> starts (rev ''.d'') (rev (drop (length pre) nm))"

fun cap_scan :: "string list \<Rightarrow> string list \<Rightarrow> nat \<times> string option \<Rightarrow> nat \<times> string option" where
  "cap_scan fx [] r = r"
| "cap_scan fx (nm # nms) (n, oldest) =
     (if \<not> capNameInGroup fx nm then cap_scan fx nms (n, oldest)
      else cap_scan fx nms (n + 1,
        case oldest of None \<Rightarrow> Some nm
        | Some o1 \<Rightarrow> if strcmp_less (capTsPart nm) (capTsPart o1) then Some nm else Some o1))"

definition trimCaptureGroup :: "string \<Rightarrow> string list \<Rightarrow> nat \<Rightarrow> dir \<Rightarrow> dir" where
  "trimCaptureGroup pre fx keepN d =
     (case cap_scan fx (filter (mask_match pre) (map fst d)) (0, None) of
        (count, Some oldest) \<Rightarrow>
          (if count > keepN
           then fdelete (if starts ''tpq_'' oldest then oldest else ''tpq_'' @ oldest) d else d)
      | (count, None) \<Rightarrow> d)"

subsection \<open>Jobs\<close>

text \<open>A history file's bytes: the header padded to the size of a record, then the records.\<close>

fun fifo_bytes :: "nat \<Rightarrow> ('a \<Rightarrow> bytes) \<Rightarrow> 'a fifo_file \<Rightarrow> bytes" where
  "fifo_bytes pad enc (Short_File n) = replicate n 0"
| "fifo_bytes pad enc (Fifo_File magic fr cnt ts es extra) =
     le_bytes 4 (of_int magic :: u32) @ le_bytes 4 (of_int fr :: u32) @ le_bytes 4 (of_int cnt :: u32) @
     le_bytes 4 ts @ replicate pad 0 @ concat (map enc es) @ replicate extra 0"

definition alarmFsDispatch :: "fs_env \<Rightarrow> fs_msg \<Rightarrow> dir \<Rightarrow> dir" where
  "alarmFsDispatch env m d =
     (if fm_size m < 16 then d
      else case (if fm_useData m then Some (fm_data m)
                 else map_option (\<lambda>a. mem_read (fe_mem env) a 16) (fm_pbuf m)) of
             None \<Rightarrow> d
           | Some plog \<Rightarrow>
               (if fm_mode m = ''al''
                then (if fe_open env (fm_fname m) then fappend (fm_fname m) (take 16 plog) d else d)
                else if fm_mode m = ''af''
                then let mid = nat (fm_argv m mod 256)
                     in if mid \<ge> 3 then d
                        else (case alarmFifoFileAppend (fe_sysTick1s env) (fe_open env (getAlarmFifoFileName mid))
                                     (fe_alarmFifo env mid) None of
                                None \<Rightarrow> d
                              | Some f \<Rightarrow> fwrite_all (getAlarmFifoFileName mid) (fifo_bytes 0 alarm_log_bytes f) d)
                else d))"

definition fs_exec :: "fs_env \<Rightarrow> fs_msg \<Rightarrow> dir \<Rightarrow> dir" where
  "fs_exec env m d =
     (if fm_mode m = ''rm'' then fdelete (fm_fname m) d
      else if fm_mode m = ''ff''
      then let eid = nat (fm_argv m mod 256)
           in if eid \<ge> 3 then d
              else (case eventFifoFileWrite (fe_sysTick1s env) (fe_open env (fm_fname m))
                           (fe_eventFifo env eid) None of
                      None \<Rightarrow> d
                    | Some f \<Rightarrow> fwrite_all (fm_fname m) (fifo_bytes 12 itic_log_bytes f) d)
      else if fm_mode m = ''af'' \<or> fm_mode m = ''al'' then alarmFsDispatch env m d
      else case fsMsgPayload (fe_mem env) m of
             None \<Rightarrow>
               (if \<not> fe_open env (fm_fname m) then d
                else if fm_mode m = ''ab'' then fappend (fm_fname m) [] d
                else fwrite_all (fm_fname m) [] d)
           | Some payload \<Rightarrow>
               (if \<not> fe_open env (fm_fname m) then d
                else let d1 = (if fm_mode m = ''ab'' then fappend (fm_fname m) payload d
                               else fwrite_all (fm_fname m) payload d)
                     in if fm_mode m = ''ab'' \<and> starts ''evt_elog0_'' (fm_fname m)
                        then trimFixedRecordFileFs env (fm_fname m) 24 1024 d1
                        else if starts ''tpq_W'' (fm_fname m)
                        then trimCaptureGroup ''tpq_W'' CAP_W_FX 100 d1
                        else if starts ''tpq_D'' (fm_fname m)
                        then trimCaptureGroup ''tpq_D'' CAP_D_FX 100 d1
                        else d1))"

text \<open>
  One turn over the queue, with the queue as it stands; \<open>None\<close> means that the bound on the
  number of jobs was too small.
\<close>

fun fs_drain :: "nat \<Rightarrow> fs_env \<Rightarrow> fs_q \<times> dir \<Rightarrow> (fs_q \<times> dir) option" where
  "fs_drain n env (q, d) =
     (case fsq_take q of
        None \<Rightarrow> Some (q, d)
      | Some (m, q') \<Rightarrow> (case n of 0 \<Rightarrow> None | Suc k \<Rightarrow> fs_drain k env (q', fs_exec env m d)))"

declare fs_drain.simps [simp del]

lemma fs_drain_fold:
  assumes "fs_q_ok q" "length (fs_pending q) \<le> n"
  shows "\<exists>q'. fs_drain n env (q, d) = Some (q', fold (fs_exec env) (fs_pending q) d) \<and>
    fs_pending q' = [] \<and> fs_q_ok q'"
  using assms
proof (induction n arbitrary: q d)
  case 0
  then show ?case using fsq.get_empty [of q] by (simp add: fs_drain.simps)
next
  case (Suc n)
  show ?case
  proof (cases "fsq_take q")
    case None
    then show ?thesis using Suc.prems fsq.get_empty [of q] by (simp add: fs_drain.simps)
  next
    case (Some mq)
    obtain m q' where mq: "fsq_take q = Some (m, q')" using Some by (cases mq) auto
    have p: "fs_pending q = m # fs_pending q'" "fs_q_ok q'"
      using fsq.get_head [OF Suc.prems(1) mq] by auto
    then show ?thesis using Suc.IH [of q' "fs_exec env m d"] Suc.prems(2) mq
      by (simp add: fs_drain.simps)
  qed
qed

text \<open>A turn of the file task completes, runs every waiting job exactly once and in the order
  in which they were queued, and leaves the queue empty.\<close>

theorem fs_task_runs_all_jobs:
  assumes "fs_q_ok q" "length (fs_pending q) \<le> n"
  shows "\<exists>q'. fs_drain n env (q, d) = Some (q', fold (fs_exec env) (fs_pending q) d) \<and>
    fs_pending q' = [] \<and> fs_q_ok q'"
  using assms by (rule fs_drain_fold)

definition demo_fs_env :: fs_env where
  "demo_fs_env = \<lparr>fe_open = (\<lambda>_. True), fe_malloc = True, fe_mem = (\<lambda>_. 0), fe_sysTick1s = 5,
     fe_alarmFifo = (\<lambda>_. log_empty alarm_log0), fe_eventFifo = (\<lambda>_. log_empty itic_log0)\<rparr>"

definition demo_job :: fs_msg where
  "demo_job = fs_msg0\<lparr>fm_fname := ''evt_elog0_202609.d'', fm_mode := ''ab'', fm_pbuf := Some 100, fm_size := 24\<rparr>"

theorem fs_task_runs_all_jobs_witness:
  "\<exists>q'. fs_drain 31 demo_fs_env (fs_put demo_job fs_q_empty, []) =
      Some (q', fold (fs_exec demo_fs_env) (fs_pending (fs_put demo_job fs_q_empty)) []) \<and>
    fs_pending q' = [] \<and> fs_q_ok q'"
proof (rule fs_task_runs_all_jobs)
  show "fs_q_ok (fs_put demo_job fs_q_empty)" by (rule fsq.put_inv [OF fs_q_empty_ok(1)]) simp
  show "length (fs_pending (fs_put demo_job fs_q_empty)) \<le> 31"
    using fsq.put_items [OF fs_q_empty_ok(1), of demo_job] fs_q_empty_ok(2) by simp
qed

subsection \<open>What files hold\<close>

lemma map_of_fwrite_all: "map_of (fwrite_all nm bs d) = (map_of d)(nm \<mapsto> bs)"
  by (induction nm bs d rule: fwrite_all.induct) (auto simp: fun_eq_iff)

lemma fcontent_fwrite_all: "fcontent x (fwrite_all nm bs d) = (if x = nm then bs else fcontent x d)"
  by (simp add: fcontent_def map_of_fwrite_all)

lemma fcontent_fappend: "fcontent x (fappend nm bs d) = (if x = nm then fcontent nm d @ bs else fcontent x d)"
  by (simp add: fappend_def fcontent_fwrite_all)

lemma names_fwrite_all: "map fst (fwrite_all nm bs d) = (if nm \<in> fst ` set d then map fst d else map fst d @ [nm])"
  by (induction nm bs d rule: fwrite_all.induct) auto

text \<open>The two jobs of a recorded alarm.\<close>

lemma inline_alarm:
  assumes "fm_pbuf p = Some a" "fm_size p = 16"
  shows "fs_inline (mem_put a (alarm_log_bytes e) mem) p =
    p\<lparr>fm_data := alarm_log_bytes e @ drop 16 (fm_data p), fm_useData := True, fm_pbuf := None\<rparr>"
  using assms mem_read_put [of a "alarm_log_bytes e" mem] length_alarm_log_bytes [of e]
  by (simp add: fs_inline_def)

lemma fs_exec_al:
  assumes "fe_open env nm" "nm = fm_fname (al_msg a m)"
  shows "fs_exec env (fs_inline (mem_put a (alarm_log_bytes e) mem) (al_msg a m)) d =
    fappend nm (alarm_log_bytes e) d"
proof -
  have m: "fm_pbuf (al_msg a m) = Some a" "fm_size (al_msg a m) = 16" "fm_mode (al_msg a m) = ''al''"
    by (simp_all add: al_msg_def)
  show ?thesis unfolding inline_alarm [OF m(1,2)]
    using assms m length_alarm_log_bytes [of e] by (simp add: fs_exec_def alarmFsDispatch_def)
qed

lemma fs_exec_af:
  assumes "mid < 3" "fe_open env (getAlarmFifoFileName mid)"
    and "alarmFifoFileAppend (fe_sysTick1s env) True (fe_alarmFifo env mid) None = Some f"
  shows "fs_exec env (fs_inline (mem_put a (alarm_log_bytes e) mem) (af_msg a mid)) d =
    fwrite_all (getAlarmFifoFileName mid) (fifo_bytes 0 alarm_log_bytes f) d"
proof -
  have "mid = 0 \<or> mid = 1 \<or> mid = 2" using assms(1) by linarith
  then have m: "fm_pbuf (af_msg a mid) = Some a" "fm_size (af_msg a mid) = 16" "fm_mode (af_msg a mid) = ''af''"
    "nat (fm_argv (af_msg a mid) mod 256) = mid"
    by (auto simp: af_msg_def)
  show ?thesis unfolding inline_alarm [OF m(1,2)]
    using assms m by (simp add: fs_exec_def alarmFsDispatch_def)
qed

text \<open>Keeping the last \<open>k\<close> bytes now and again later is keeping them once at the end.\<close>

lemma keep_last_twice:
  "drop (length (drop (length a - k) a @ b) - k) (drop (length a - k) a @ b) = drop (length (a @ b) - k) (a @ b)"
proof (cases "length a \<le> k")
  case False
  have "drop (length (drop (length a - k) a @ b) - k) (drop (length a - k) a @ b) =
      drop (length b) (drop (length a - k) a) @ drop (length b - k) b"
    using False by simp
  also have "\<dots> = drop (length (a @ b) - k) (a @ b)"
    using False by (simp add: add.commute)
  finally show ?thesis .
qed simp

lemma fs_exec_append:
  assumes "fm_mode m = ''ab''" "fsMsgPayload (fe_mem env) m = Some p" "fe_open env (fm_fname m)" "fe_malloc env"
    and "starts ''evt_elog0_'' (fm_fname m)"
  shows "fcontent (fm_fname m) (fs_exec env m d) =
      (let bs = fcontent (fm_fname m) d @ p in drop (length bs - 24576) bs)"
    and "x \<noteq> fm_fname m \<Longrightarrow> fcontent x (fs_exec env m d) = fcontent x d"
proof -
  let ?n = "fm_fname m" and ?bs = "fcontent (fm_fname m) d @ p"
  have e: "fs_exec env m d = trimFixedRecordFileFs env ?n 24 1024 (fappend ?n p d)"
    using assms(1-3,5) by (simp add: fs_exec_def)
  have g: "map_of (fappend ?n p d) ?n = Some ?bs"
    by (simp add: fappend_def map_of_fwrite_all)
  show "fcontent ?n (fs_exec env m d) = (let bs = ?bs in drop (length bs - 24576) bs)"
    unfolding e trimFixedRecordFileFs_def g using assms(3,4)
    by (simp add: fcontent_fwrite_all fcontent_fappend Let_def)
  show "x \<noteq> ?n \<Longrightarrow> fcontent x (fs_exec env m d) = fcontent x d"
    unfolding e trimFixedRecordFileFs_def g using assms(3,4)
    by (simp add: fcontent_fwrite_all fcontent_fappend Let_def)
qed

text \<open>C5. The monthly event file keeps the newest 1024 events: when whole 24-byte records are
  appended one job after another, the file holds afterwards the last 1024 records of what it
  held followed by all the new ones, in order, and no other file has changed.\<close>

theorem event_file_keeps_newest:
  assumes "\<forall>(m, p) \<in> set jobs. fm_mode m = ''ab'' \<and> fm_fname m = nm \<and> length p = 24 \<and>
      fsMsgPayload (fe_mem env) m = Some p"
    and "starts ''evt_elog0_'' nm" "fe_open env nm" "fe_malloc env"
    and "length (fcontent nm d) = 24 * r" "r \<le> 1024"
  shows "(let bs = fcontent nm d @ concat (map snd jobs) in
      fcontent nm (fold (fs_exec env) (map fst jobs) d) = drop (length bs - 24 * 1024) bs) \<and>
    (\<forall>x. x \<noteq> nm \<longrightarrow> fcontent x (fold (fs_exec env) (map fst jobs) d) = fcontent x d)"
  using assms(1,5,6)
proof (induction jobs arbitrary: d r)
  case Nil
  then show ?case by simp
next
  case (Cons j jobs)
  obtain m p where j: "j = (m, p)" by (cases j)
  have jm: "fm_mode m = ''ab''" "fm_fname m = nm" "length p = 24" "fsMsgPayload (fe_mem env) m = Some p"
    using Cons.prems(1) j by auto
  let ?d = "fs_exec env m d" and ?bs = "fcontent nm d @ p"
  have s: "fcontent nm ?d = drop (length ?bs - 24576) ?bs" "\<And>x. x \<noteq> nm \<Longrightarrow> fcontent x ?d = fcontent x d"
    using fs_exec_append [OF jm(1,4), where d = d] jm(2) assms(2-4) by (simp_all add: Let_def)
  have len: "length (fcontent nm ?d) = 24 * min (Suc r) 1024"
    using s(1) jm(3) Cons.prems(2,3) by (auto simp: min_def)
  have "drop (length (fcontent nm ?d @ concat (map snd jobs)) - 24 * 1024) (fcontent nm ?d @ concat (map snd jobs)) =
      drop (length (?bs @ concat (map snd jobs)) - 24 * 1024) (?bs @ concat (map snd jobs))"
    unfolding s(1) using keep_last_twice [of ?bs 24576 "concat (map snd jobs)"] by simp
  then show ?case
    using Cons.IH [OF _ len] Cons.prems(1) s(2) j by (simp add: Let_def)
qed

theorem event_file_keeps_newest_witness:
  "(let bs = fcontent ''evt_elog0_202609.d'' [(''evt_elog0_202609.d'', replicate 24576 1)] @
        concat (map snd [(demo_job, replicate 24 0), (demo_job, replicate 24 0)]) in
      fcontent ''evt_elog0_202609.d'' (fold (fs_exec demo_fs_env)
        (map fst [(demo_job, replicate 24 (0 :: u8)), (demo_job, replicate 24 0)])
        [(''evt_elog0_202609.d'', replicate 24576 1)]) = drop (length bs - 24 * 1024) bs)"
  by (rule conjunct1 [OF event_file_keeps_newest [where r = 1024]])
    (simp_all add: demo_job_def demo_fs_env_def fs_msg0_def fsMsgPayload_def mem_read_def fcontent_def
      starts_def map_replicate_const)

subsection \<open>Rotation of captures\<close>

definition cap_key :: "string \<Rightarrow> nat list" where
  "cap_key nm = map of_char (capTsPart nm)"

lemma strcmp_less_iff: "strcmp_less xs ys \<longleftrightarrow> map of_char xs < (map of_char ys :: nat list)"
  by (induction xs ys rule: strcmp_less.induct) (auto simp: Cons_less_Cons)

lemma cap_less_iff: "strcmp_less (capTsPart a) (capTsPart b) \<longleftrightarrow> cap_key a < cap_key b"
  by (simp add: strcmp_less_iff cap_key_def)

text \<open>The scan counts the group's names and remembers one with the least time stamp.\<close>

lemma cap_scan_some:
  "\<exists>x \<in> insert o1 (set (filter (capNameInGroup fx) nms)).
    cap_scan fx nms (n, Some o1) = (n + length (filter (capNameInGroup fx) nms), Some x) \<and>
    (\<forall>y \<in> insert o1 (set (filter (capNameInGroup fx) nms)). cap_key x \<le> cap_key y)"
proof (induction nms arbitrary: n o1)
  case (Cons nm nms)
  show ?case
  proof (cases "capNameInGroup fx nm")
    case True
    let ?o = "if strcmp_less (capTsPart nm) (capTsPart o1) then nm else o1"
    have o: "cap_key ?o \<le> cap_key nm" "cap_key ?o \<le> cap_key o1" "?o \<in> {nm, o1}"
      by (auto simp: cap_less_iff)
    show ?thesis using Cons.IH [of ?o "n + 1"] o True
      by (simp add: if_distrib [where f = Some, symmetric]) (fastforce split: if_splits intro: order_trans)
  qed (use Cons in simp)
qed simp

lemma cap_scan_none:
  "cap_scan fx nms (n, None) = (n, None) \<and> filter (capNameInGroup fx) nms = [] \<or>
   (\<exists>x \<in> set (filter (capNameInGroup fx) nms).
    cap_scan fx nms (n, None) = (n + length (filter (capNameInGroup fx) nms), Some x) \<and>
    (\<forall>y \<in> set (filter (capNameInGroup fx) nms). cap_key x \<le> cap_key y))"
proof (induction nms arbitrary: n)
  case (Cons nm nms)
  then show ?case using cap_scan_some [of nm fx nms "n + 1"] by (cases "capNameInGroup fx nm") auto
qed simp

text \<open>Capture rotation never deletes a wrong file: if the group (wave forms or rms captures)
  has more than \<open>keepN\<close> files, exactly one file is deleted, it belongs to the group and no file
  of the group has an earlier time stamp in its name; otherwise the directory is unchanged.\<close>

theorem capture_rotation_drops_oldest:
  assumes "pre \<in> {''tpq_W'', ''tpq_D''}"
    and "g = filter (capNameInGroup fx) (filter (mask_match pre) (map fst d))"
  shows "if length g > keepN
    then \<exists>nm \<in> set g. trimCaptureGroup pre fx keepN d = filter (\<lambda>f. fst f \<noteq> nm) d \<and>
      (\<forall>y \<in> set g. \<not> strcmp_less (capTsPart y) (capTsPart nm))
    else trimCaptureGroup pre fx keepN d = d"
proof -
  let ?r = "cap_scan fx (filter (mask_match pre) (map fst d)) (0, None)"
  have tpq: "starts ''tpq_'' x" if "x \<in> set g" for x
  proof -
    have "starts pre x" using that assms(2) by (simp add: mask_match_def)
    moreover have "starts ''tpq_'' pre" using assms(1) by (auto simp: starts_def)
    ultimately show ?thesis by (auto simp: starts_iff)
  qed
  consider "?r = (0, None)" "g = []"
    | x where "x \<in> set g" "?r = (length g, Some x)" "\<forall>y \<in> set g. cap_key x \<le> cap_key y"
    using cap_scan_none [of fx "filter (mask_match pre) (map fst d)" 0] assms(2) by auto
  then show ?thesis
  proof cases
    case 1
    then show ?thesis by (simp add: trimCaptureGroup_def)
  next
    case 2
    then show ?thesis using tpq [OF 2(1)]
      by (auto simp: trimCaptureGroup_def fdelete_def cap_less_iff not_less)
  qed
qed

definition demo_dir :: dir where
  "demo_dir = [(''tpq_WSAG_20260920T101010.d'', [1]), (''tpq_DSAG_20240101T000000.d'', [2]),
     (''tpq_WOC_20250920T101010.d'', [3]), (''tpq_WSWL_20260101T101010.d'', [4])]"

theorem capture_rotation_drops_oldest_witness:
  "if length (filter (capNameInGroup CAP_W_FX) (filter (mask_match ''tpq_W'') (map fst demo_dir))) > 2
    then \<exists>nm \<in> set (filter (capNameInGroup CAP_W_FX) (filter (mask_match ''tpq_W'') (map fst demo_dir))).
      trimCaptureGroup ''tpq_W'' CAP_W_FX 2 demo_dir = filter (\<lambda>f. fst f \<noteq> nm) demo_dir \<and>
      (\<forall>y \<in> set (filter (capNameInGroup CAP_W_FX) (filter (mask_match ''tpq_W'') (map fst demo_dir))).
        \<not> strcmp_less (capTsPart y) (capTsPart nm))
    else trimCaptureGroup ''tpq_W'' CAP_W_FX 2 demo_dir = demo_dir"
  by (rule capture_rotation_drops_oldest) simp_all

subsection \<open>Save, factory reset and restart\<close>

text \<open>
  When no job waits the task looks at the request flags the command task sets. What it calls
  is recorded in order; a saved or rebuilt settings block is identified by its layout version.
\<close>

datatype sys_call =
    SaveSettings u16
  | StoreAlarmDef
  | StorePqeDef
  | StoreEnergy
  | InitSettings nat
  | InitExtSettings nat
  | BuildSetDb
  | SnmpCfgFactoryReset
  | SystemReset
  | WdtDisable

record fs_sys =
  fy_setting_layoutVer :: u16
  fy_db_layoutVer :: u16
  fy_runFlag :: bool
  fy_wdtEn :: bool
  fy_calls :: "sys_call list"

definition fs_idle :: "cmd_state \<times> fs_sys \<Rightarrow> cmd_state \<times> fs_sys" where
  "fs_idle cy =
     (let c = fst cy; y = snd cy
      in if cs_saveSetting c = 0x1234
         then (c\<lparr>cs_saveSetting := 0\<rparr>,
               y\<lparr>fy_db_layoutVer := 0x2610,
                 fy_calls := fy_calls y @ [SaveSettings 0x2610, StoreAlarmDef, StorePqeDef, StoreEnergy]\<rparr>)
         else if cs_factReset c = 0x1234
         then (c\<lparr>cs_factReset := 0, cs_saveSetting := 0\<rparr>,
               y\<lparr>fy_db_layoutVer := fy_setting_layoutVer y, fy_runFlag := False,
                 fy_calls := fy_calls y @ concat (map (\<lambda>ch. [InitSettings ch, InitExtSettings ch]) [0..<3]) @
                   [BuildSetDb, SaveSettings (fy_setting_layoutVer y), SnmpCfgFactoryReset, SystemReset]\<rparr>)
         else if cs_rebootFlag c = 0x1234
         then (c\<lparr>cs_rebootFlag := 0\<rparr>,
               y\<lparr>fy_wdtEn := False, fy_runFlag := False, fy_calls := fy_calls y @ [WdtDisable]\<rparr>)
         else cy)"

definition fs_turn ::
  "nat \<Rightarrow> fs_env \<Rightarrow> (fs_q \<times> dir) \<times> cmd_state \<times> fs_sys \<Rightarrow> ((fs_q \<times> dir) \<times> cmd_state \<times> fs_sys) option" where
  "fs_turn n env t =
     (if fq_fr (fst (fst t)) \<noteq> fq_re (fst (fst t))
      then map_option (\<lambda>qd. (qd, snd t)) (fs_drain n env (fst t))
      else Some (fst t, fs_idle (snd t)))"

lemma fs_idle_saves:
  "cs_saveSetting c = 0x1234 \<Longrightarrow>
    fy_calls (snd (fs_idle (c, y))) = fy_calls y @ [SaveSettings 0x2610, StoreAlarmDef, StorePqeDef, StoreEnergy] \<and>
    cs_saveSetting (fst (fs_idle (c, y))) = 0"
  by (simp add: fs_idle_def Let_def)

end
