(* ===== verification/PqEvent.thy ===== *)
theory PqEvent
  imports FsTask Modbus
begin

text \<open>
  Power-quality events. Every half cycle the scan task of a meter compares the fast rms values
  with the thresholds (\<open>checkPqEvent\<close>, \<open>ade9000.c\<close>); three state machines, for sags with
  interruptions, swells and over-currents, turn the comparisons into events, queue the captures
  of wave form and rms values, and record each finished event (\<open>pushEvent\<close>, \<open>meter.c\<close>).
  The tick is read once per pass; the 32-bit patterns of measured values are those \<open>px_bits\<close> gives.
\<close>

subsection \<open>The capture queues\<close>

abbreviation (input) E_SAG :: u16 where "E_SAG \<equiv> 1"
abbreviation (input) E_SWELL :: u16 where "E_SWELL \<equiv> 2"
abbreviation (input) E_sINTR :: u16 where "E_sINTR \<equiv> 3"
abbreviation (input) E_lINTR :: u16 where "E_lINTR \<equiv> 4"
abbreviation (input) E_OC :: u16 where "E_OC \<equiv> 5"
abbreviation (input) E_TrV :: u16 where "E_TrV \<equiv> 7"
abbreviation (input) E_TrC :: u16 where "E_TrC \<equiv> 8"

type_synonym u64 = "64 word"

record cap_q =
  kq_fr :: nat
  kq_re :: nat
  kq_Q :: "(u64 \<times> u16) list"

definition putEventCap :: "u64 \<times> u16 \<Rightarrow> cap_q \<Rightarrow> cap_q" where
  "putEventCap x pq =
     (let fr = (kq_fr pq + 1) mod 8
      in if fr \<noteq> kq_re pq then pq\<lparr>kq_Q := (kq_Q pq)[kq_fr pq := x], kq_fr := fr\<rparr> else pq)"

definition updateLastCapType :: "u16 \<Rightarrow> u16 \<Rightarrow> cap_q \<Rightarrow> cap_q" where
  "updateLastCapType oldType newType pq =
     (if kq_fr pq \<noteq> kq_re pq
      then let k = (kq_fr pq + 8 - 1) mod 8
           in if snd (kq_Q pq ! k) = oldType
              then pq\<lparr>kq_Q := (kq_Q pq)[k := (fst (kq_Q pq ! k), newType)]\<rparr> else pq
      else pq)"

text \<open>The consumers take the entry at \<open>re\<close> when its surroundings have been recorded.\<close>

definition takeEventCap :: "cap_q \<Rightarrow> ((u64 \<times> u16) \<times> cap_q) option" where
  "takeEventCap pq =
     (if kq_fr pq = kq_re pq then None
      else Some (kq_Q pq ! kq_re pq, pq\<lparr>kq_re := (kq_re pq + 1) mod 8\<rparr>))"

definition cap_q_ok :: "cap_q \<Rightarrow> bool" where
  "cap_q_ok q \<longleftrightarrow> kq_fr q < 8 \<and> kq_re q < 8 \<and> length (kq_Q q) = 8"

definition cap_pending :: "cap_q \<Rightarrow> (u64 \<times> u16) list" where
  "cap_pending q = ring_items 8 (kq_re q) (kq_fr q) (kq_Q q)"

definition cap_q_empty :: cap_q where
  "cap_q_empty = \<lparr>kq_fr = 0, kq_re = 0, kq_Q = replicate 8 (0, 0)\<rparr>"

lemma cap_full_iff:
  "cap_q_ok q \<Longrightarrow> length (cap_pending q) = 7 \<longleftrightarrow> (kq_fr q + 1) mod 8 = kq_re q"
  using ring_items_full_iff [of "kq_re q" 8 "kq_fr q" "kq_Q q"]
  by (auto simp: cap_q_ok_def cap_pending_def)

interpretation capq: drop_newest_queue "\<lambda>_. True" putEventCap takeEventCap cap_pending cap_q_ok 7
proof unfold_locales
  fix q x q'
  assume ok: "cap_q_ok q"
  show "cap_q_ok (putEventCap x q)" using ok by (simp add: putEventCap_def cap_q_ok_def Let_def)
  show "length (cap_pending q) < 7 \<Longrightarrow> cap_pending (putEventCap x q) = cap_pending q @ [x]"
    using ok cap_full_iff [OF ok] ring_items_put [of "kq_re q" 8 "kq_fr q" "kq_Q q" x]
    by (auto simp: putEventCap_def cap_q_ok_def cap_pending_def Let_def)
  show "takeEventCap q = None \<longleftrightarrow> cap_pending q = []"
    using ok by (auto simp: takeEventCap_def cap_pending_def cap_q_ok_def ring_items_empty_iff)
  show "takeEventCap q = Some (x, q') \<Longrightarrow> cap_pending q = x # cap_pending q' \<and> cap_q_ok q'"
    using ok ring_items_get [of "kq_re q" 8 "kq_fr q" "kq_Q q"]
    by (auto simp: takeEventCap_def cap_pending_def cap_q_ok_def split: if_splits)
  show "length (cap_pending q) \<le> 7"
    using ok by (auto simp: cap_pending_def cap_q_ok_def less_Suc_eq_le [symmetric])
  show "length (cap_pending q) = 7 \<Longrightarrow> cap_pending (putEventCap x q) = cap_pending q"
    using cap_full_iff [OF ok] by (simp add: putEventCap_def)
qed

subsection \<open>State\<close>

record pqevent =
  pv_level :: u16
  pv_nCyc :: u16
  pv_action :: u16
  pv_holdOffCyc :: u16
  pv_do_action :: u16

record pq_info =
  pi_startTs :: u64
  pi_endTs :: u64
  pi_mask :: u16
  pi_type :: u16
  pi_Val :: "u32 list"

record pq_count =
  pc_tvc :: u16
  pc_tcc :: u16
  pc_oc :: u16
  pc_sag :: u16
  pc_swell :: u16
  pc_intr :: u16

record event_q =
  eq_count :: nat
  eq_eq :: "event_log list"

text \<open>The phase masks of one pass and the thresholds of \<open>CNTL_DATA\<close>, then what one meter keeps.\<close>

record pq_masks =
  mk_sag :: u16
  mk_sagRet :: u16
  mk_swell :: u16
  mk_swellRet :: u16
  mk_oc :: u16
  mk_ocRet :: u16

record pq_levels =
  lv_sag :: u32
  lv_sagRet :: u32
  lv_swell :: u32
  lv_swellRet :: u32
  lv_oc :: u32
  lv_ocRet :: u32
  lv_intr :: u32

record pq_meter =
  pm_online :: bool
  pm_meterStatus :: bool
  pm_zxMonCnt :: u64
  pm_masks :: pq_masks
  pm_levels :: pq_levels
  pm_sagSt :: nat
  pm_swellSt :: nat
  pm_ocSt :: nat
  pm_pqevt :: "pqevent list"
  pm_inf_oc :: pq_info
  pm_inf_sag :: pq_info
  pm_inf_swell :: pq_info
  pm_wQ :: cap_q
  pm_rQ :: cap_q
  pm_count :: pq_count
  pm_q_sag :: "u32 list"
  pm_q_swell :: "u32 list"
  pm_q_short :: "u32 list"
  pm_q_long :: "u32 list"
  pm_iticlog :: itic_log
  pm_eventQ :: event_q
  pm_logs :: ch_logs
  pm_year :: nat
  pm_mon :: nat

text \<open>What all meters share, and the parameters of a pass.\<close>

record pq_env =
  pe_fsQ :: fs_q
  pe_mem :: "nat \<Rightarrow> u8"
  pe_Event_sts :: u16

record pq_ctx =
  px_bits :: "rat \<Rightarrow> u32"
  px_sleep :: "nat \<Rightarrow> fs_q \<Rightarrow> fs_q"
  px_iticlog :: "nat \<Rightarrow> nat"
  px_vscale :: "nat \<Rightarrow> rat"
  px_iscale :: "nat \<Rightarrow> rat"
  px_tvscale :: rat
  px_tcscale :: rat
  px_PT1 :: "nat \<Rightarrow> u32"
  px_CT1 :: "nat \<Rightarrow> u16"

subsection \<open>Recording an event\<close>

definition scaleVrms :: "pq_ctx \<Rightarrow> nat \<Rightarrow> u32 \<Rightarrow> u32" where
  "scaleVrms cx mid val = px_bits cx (of_int (sint val) * px_vscale cx mid)"

definition scaleIrms :: "pq_ctx \<Rightarrow> nat \<Rightarrow> u32 \<Rightarrow> u32" where
  "scaleIrms cx mid val = px_bits cx (of_int (sint val) * px_iscale cx mid)"

definition scaleVWave :: "pq_ctx \<Rightarrow> u32 \<Rightarrow> u32" where
  "scaleVWave cx raw = px_bits cx (of_int (sint raw) * px_tvscale cx)"

definition scaleCWave :: "pq_ctx \<Rightarrow> u32 \<Rightarrow> u32" where
  "scaleCWave cx raw = px_bits cx (of_int (sint raw) * px_tcscale cx)"

text \<open>
  The entry: the difference of the 64-bit times is first cut to a signed 32-bit number, then
  limited to 65535 ms. Levels and nominal value follow the type; a type without a case keeps
  those of the event before.
\<close>

definition event_duration :: "u64 \<Rightarrow> u64 \<Rightarrow> u16" where
  "event_duration startTs endTs =
     (let i = sint (ucast (endTs - startTs) :: u32) in if i \<ge> 65535 then 65535 else of_int i)"

definition event_entry :: "pq_ctx \<Rightarrow> nat \<Rightarrow> pq_info \<Rightarrow> itic_log \<Rightarrow> itic_log" where
  "event_entry cx mid p old =
     (let e = (il_event old)\<lparr>el_type := pi_type p, el_startTs := ucast (pi_startTs p div 1000),
            el_msec := ucast (pi_startTs p mod 1000),
            el_duration := event_duration (pi_startTs p) (pi_endTs p), el_mask := pi_mask p\<rparr>;
          vnorm = px_bits cx (of_nat (unat (px_PT1 cx mid)));
          inorm = px_bits cx (of_nat (unat (px_CT1 cx mid)))
      in if pi_type p \<in> {E_SAG, E_lINTR, E_sINTR, E_SWELL}
         then \<lparr>il_event = e\<lparr>el_level := map (scaleVrms cx mid) (pi_Val p)\<rparr>, il_norm = vnorm\<rparr>
         else if pi_type p = E_OC
         then \<lparr>il_event = e\<lparr>el_level := map (scaleIrms cx mid) (pi_Val p)\<rparr>, il_norm = inorm\<rparr>
         else if pi_type p = E_TrV
         then \<lparr>il_event = e\<lparr>el_level := map (scaleVWave cx) (pi_Val p)\<rparr>, il_norm = vnorm\<rparr>
         else if pi_type p = E_TrC
         then \<lparr>il_event = e\<lparr>el_level := map (scaleCWave cx) (pi_Val p)\<rparr>, il_norm = inorm\<rparr>
         else old\<lparr>il_event := e\<rparr>)"

definition eventq_add :: "event_log \<Rightarrow> event_q \<Rightarrow> event_q" where
  "eventq_add e q =
     (if eq_count q < 1024 then q\<lparr>eq_eq := (eq_eq q)[eq_count q := e], eq_count := eq_count q + 1\<rparr>
      else q)"

definition getEventFifoFileName :: "nat \<Rightarrow> string" where
  "getEventFifoFileName mid =
     (if mid > 0 then ''evt_elog0_fifo_m'' @ dec mid @ ''.d'' else ''evt_elog0_fifo.d'')"

definition ab_msg :: "nat \<Rightarrow> pq_meter \<Rightarrow> fs_msg" where
  "ab_msg addr m = fs_msg0\<lparr>fm_fname := ''evt_elog0_'' @ pad0 4 (pm_year m) @ pad0 2 (pm_mon m) @ ''.d'',
     fm_mode := ''ab'', fm_pbuf := Some addr, fm_size := 24\<rparr>"

definition ff_msg :: "nat \<Rightarrow> nat \<Rightarrow> fs_msg" where
  "ff_msg addr mid = fs_msg0\<lparr>fm_fname := getEventFifoFileName mid, fm_mode := ''ff'',
     fm_argv := 1024 * 256 + int (mid mod 256), fm_pbuf := Some addr, fm_size := 28\<rparr>"

definition assertEventOutput :: "int \<Rightarrow> u16 \<Rightarrow> u16" where
  "assertEventOutput state sts = (if state \<noteq> 0 then sts + 1 else sts)"

definition event_notify :: "pq_ctx \<Rightarrow> nat \<Rightarrow> itic_log \<Rightarrow> pq_meter \<Rightarrow> pq_env \<Rightarrow> pq_env" where
  "event_notify cx mid l m v =
     (let addr = px_iticlog cx mid;
          mem = mem_put addr (itic_log_bytes l) (pe_mem v);
          q1 = putFsQ mem (px_sleep cx) (Some (ab_msg addr m)) (pe_fsQ v)
      in v\<lparr>pe_mem := mem, pe_fsQ := putFsQ mem (px_sleep cx) (Some (ff_msg addr mid)) q1\<rparr>)"

definition refresh_pages :: "ch_logs \<Rightarrow> ch_logs" where
  "refresh_pages c =
     c\<lparr>cl_elist := fetchEvent 0 (cl_event c) (cl_elist c),
       cl_itic := fetchIticCommon 0 (cl_event c) (cl_itic c),
       cl_itic2 := fetchIticCommon 0 (cl_event c) (cl_itic2 c)\<rparr>"

definition pushEvent ::
  "pq_ctx \<Rightarrow> nat \<Rightarrow> pq_info \<Rightarrow> pq_meter \<times> pq_env \<Rightarrow> (pq_meter \<times> pq_env) option" where
  "pushEvent cx mid p me =
     (let m = fst me; l = event_entry cx mid p (pm_iticlog m); v = event_notify cx mid l m (snd me)
      in case event_push l (cl_event (pm_logs m)) of
           None \<Rightarrow> None
         | Some f \<Rightarrow>
             Some (m\<lparr>pm_iticlog := l, pm_eventQ := eventq_add (il_event l) (pm_eventQ m),
                     pm_logs := refresh_pages ((pm_logs m)\<lparr>cl_event := f\<rparr>)\<rparr>,
                   if pi_type p \<in> {E_OC, E_SAG, E_SWELL, E_sINTR, E_lINTR, E_TrV, E_TrC}
                   then v\<lparr>pe_Event_sts := assertEventOutput 1 (pe_Event_sts v)\<rparr> else v))"

text \<open>The counters of the ten-minute statistics: one per phase, the fourth for several phases.\<close>

definition updateEventCount :: "u16 \<Rightarrow> u32 list \<Rightarrow> u32 list" where
  "updateEventCount msk ec =
     (let hit = filter (\<lambda>i. bit msk i) [0..<3];
          ec1 = fold (\<lambda>i c. c[i := c ! i + 1]) hit ec
      in if length hit > 1 then ec1[3 := ec1 ! 3 + 1] else ec1)"

subsection \<open>One pass\<close>

text \<open>
  \<open>or_bits m P\<close> sets bit \<open>i\<close> of \<open>m\<close> for every phase \<open>i\<close> with \<open>P i\<close>. The masks start at zero
  in each pass, except the recovery mask of over-currents, which the code does not clear.
\<close>

definition or_bits :: "u16 \<Rightarrow> (nat \<Rightarrow> bool) \<Rightarrow> u16" where
  "or_bits m P = foldl (\<lambda>m i. if P i then m OR push_bit i 1 else m) m [0..<3]"

definition pq_action :: "pq_meter \<Rightarrow> nat \<Rightarrow> u16" where
  "pq_action m k = pv_action (pm_pqevt m ! k)"

definition make_masks :: "u32 list \<Rightarrow> u32 list \<Rightarrow> pq_meter \<Rightarrow> pq_masks" where
  "make_masks u c m =
     (let l = pm_levels m; sagOn = pq_action m 1 \<noteq> 0; swellOn = pq_action m 2 \<noteq> 0;
          ocOn = pq_action m 0 \<noteq> 0 \<and> lv_oc l \<noteq> 0
      in \<lparr>mk_sag = or_bits 0 (\<lambda>i. sagOn \<and> u ! i < lv_sag l),
          mk_sagRet = or_bits 0 (\<lambda>i. sagOn \<and> \<not> u ! i < lv_sag l \<and> u ! i > lv_sagRet l),
          mk_swell = or_bits 0 (\<lambda>i. swellOn \<and> u ! i > lv_swell l),
          mk_swellRet = or_bits 0 (\<lambda>i. swellOn \<and> \<not> u ! i > lv_swell l \<and> u ! i < lv_swellRet l),
          mk_oc = or_bits 0 (\<lambda>i. ocOn \<and> c ! i > lv_oc l),
          mk_ocRet = or_bits (mk_ocRet (pm_masks m)) (\<lambda>i. ocOn \<and> \<not> c ! i > lv_oc l \<and> c ! i < lv_ocRet l)\<rparr>)"

definition update_online :: "pq_meter \<Rightarrow> pq_meter" where
  "update_online m =
     (let on = (if \<not> pm_online m then pm_zxMonCnt m > 12 else pm_zxMonCnt m \<noteq> 0)
      in m\<lparr>pm_online := on, pm_meterStatus := on\<rparr>)"

text \<open>Queueing a capture in both queues, and retagging the newest entries.\<close>

definition put_caps :: "u64 \<times> u16 \<Rightarrow> pq_meter \<Rightarrow> pq_meter" where
  "put_caps x m = m\<lparr>pm_wQ := putEventCap x (pm_wQ m), pm_rQ := putEventCap x (pm_rQ m)\<rparr>"

definition retag_caps :: "u16 \<Rightarrow> u16 \<Rightarrow> pq_meter \<Rightarrow> pq_meter" where
  "retag_caps a b m = m\<lparr>pm_wQ := updateLastCapType a b (pm_wQ m), pm_rQ := updateLastCapType a b (pm_rQ m)\<rparr>"

definition start_info :: "u64 \<Rightarrow> u16 \<Rightarrow> u32 list \<Rightarrow> pq_info \<Rightarrow> pq_info" where
  "start_info now msk val p = p\<lparr>pi_startTs := now, pi_mask := msk, pi_Val := take 3 val\<rparr>"

definition is_interruption :: "u32 list \<Rightarrow> pq_meter \<Rightarrow> bool" where
  "is_interruption u m \<longleftrightarrow> \<not> pm_online m \<or>
     (mk_sag (pm_masks m) \<noteq> 0 \<and> (\<exists>i \<in> set [0..<3]. bit (mk_sag (pm_masks m)) i \<and> u ! i < lv_intr (pm_levels m)))"

definition sag_start :: "u64 \<Rightarrow> u32 list \<Rightarrow> pq_meter \<Rightarrow> pq_meter" where
  "sag_start now u m =
     (if mk_sag (pm_masks m) \<noteq> 0
      then (if pq_action m 1 = 2 then put_caps (now, E_SAG) m else m)
             \<lparr>pm_inf_sag := start_info now (mk_sag (pm_masks m)) u (pm_inf_sag m), pm_sagSt := 2\<rparr>
      else m)"

definition sag_to_intr :: "pq_meter \<Rightarrow> pq_meter" where
  "sag_to_intr m =
     (if pq_action m 1 = 2 then retag_caps E_SAG E_sINTR m
      else if pq_action m 3 = 2 then put_caps (pi_startTs (pm_inf_sag m), E_sINTR) m
      else m)\<lparr>pm_sagSt := 3\<rparr>"

definition sag_close ::
  "pq_ctx \<Rightarrow> nat \<Rightarrow> u64 \<Rightarrow> pq_meter \<times> pq_env \<Rightarrow> (pq_meter \<times> pq_env) option" where
  "sag_close cx mid now me =
     (let p = (pm_inf_sag (fst me))\<lparr>pi_endTs := now, pi_type := E_SAG\<rparr>
      in case pushEvent cx mid p ((fst me)\<lparr>pm_inf_sag := p\<rparr>, snd me) of
           None \<Rightarrow> None
         | Some (m, v) \<Rightarrow> Some (m\<lparr>pm_q_sag := updateEventCount (pi_mask p) (pm_q_sag m), pm_sagSt := 4,
                                 pm_count := (pm_count m)\<lparr>pc_sag := pc_sag (pm_count m) + 1\<rparr>\<rparr>, v))"

definition sag_going ::
  "pq_ctx \<Rightarrow> nat \<Rightarrow> u64 \<Rightarrow> u32 list \<Rightarrow> pq_meter \<times> pq_env \<Rightarrow> (pq_meter \<times> pq_env) option" where
  "sag_going cx mid now u me =
     (let m = fst me; p = pm_inf_sag m; msk = mk_sag (pm_masks m)
      in if is_interruption u m then Some (sag_to_intr m, snd me)
         else if msk \<noteq> 0
         then Some (m\<lparr>pm_inf_sag := p\<lparr>pi_mask := pi_mask p OR msk,
                        pi_Val := map2 (\<lambda>v x. if v > x then x else v) (pi_Val p) (take 3 u)\<rparr>\<rparr>, snd me)
         else if mk_sagRet (pm_masks m) = 7 then sag_close cx mid now me
         else Some me)"

definition intr_close ::
  "pq_ctx \<Rightarrow> nat \<Rightarrow> u64 \<Rightarrow> pq_meter \<times> pq_env \<Rightarrow> (pq_meter \<times> pq_env) option" where
  "intr_close cx mid now me =
     (let p0 = (pm_inf_sag (fst me))\<lparr>pi_endTs := now\<rparr>; short = now - pi_startTs p0 < 60000;
          p = p0\<lparr>pi_type := if short then E_sINTR else E_lINTR\<rparr>
      in case pushEvent cx mid p ((fst me)\<lparr>pm_inf_sag := p\<rparr>, snd me) of
           None \<Rightarrow> None
         | Some (m, v) \<Rightarrow>
             Some ((if short then m\<lparr>pm_q_short := updateEventCount (pi_mask p) (pm_q_short m)\<rparr>
                    else m\<lparr>pm_q_long := updateEventCount (pi_mask p) (pm_q_long m)\<rparr>)
                     \<lparr>pm_sagSt := 1, pm_count := (pm_count m)\<lparr>pc_intr := pc_intr (pm_count m) + 1\<rparr>\<rparr>, v))"

definition sag_handler ::
  "pq_ctx \<Rightarrow> nat \<Rightarrow> u64 \<Rightarrow> u32 list \<Rightarrow> pq_meter \<times> pq_env \<Rightarrow> (pq_meter \<times> pq_env) option" where
  "sag_handler cx mid now u me =
     (let m = fst me; st = pm_sagSt m
      in if st = 0 then Some (if mk_sag (pm_masks m) = 0 \<and> pm_online m then m\<lparr>pm_sagSt := 1\<rparr> else m, snd me)
         else if st = 1 then Some (sag_start now u m, snd me)
         else if st = 2 then sag_going cx mid now u me
         else if st = 3 then (if mk_sagRet (pm_masks m) = 7 then intr_close cx mid now me else Some me)
         else if st = 4
         then Some (if now - pi_endTs (pm_inf_sag m) > ucast (pv_holdOffCyc (pm_pqevt m ! 1))
                    then m\<lparr>pm_sagSt := 1\<rparr> else m, snd me)
         else Some me)"

text \<open>Swell and over-current follow one scheme; only the swell is counted per phase.\<close>

definition swell_handler ::
  "pq_ctx \<Rightarrow> nat \<Rightarrow> u64 \<Rightarrow> u32 list \<Rightarrow> pq_meter \<times> pq_env \<Rightarrow> (pq_meter \<times> pq_env) option" where
  "swell_handler cx mid now u me =
     (let m = fst me; st = pm_swellSt m; msk = mk_swell (pm_masks m); p = pm_inf_swell m
      in if st = 0 then Some (if msk = 0 \<and> pm_online m then m\<lparr>pm_swellSt := 1\<rparr> else m, snd me)
         else if st = 1
         then Some (if msk \<noteq> 0
                    then (if pq_action m 2 = 2 then put_caps (now, E_SWELL) m else m)
                           \<lparr>pm_inf_swell := start_info now msk u p, pm_swellSt := 2,
                            pm_count := (pm_count m)\<lparr>pc_swell := pc_swell (pm_count m) + 1\<rparr>\<rparr>
                    else m, snd me)
         else if st = 2
         then (if msk \<noteq> 0
               then Some (m\<lparr>pm_inf_swell := p\<lparr>pi_mask := pi_mask p OR msk,
                      pi_Val := map2 (\<lambda>v x. if v < x then x else v) (pi_Val p) (take 3 u)\<rparr>\<rparr>, snd me)
               else if mk_swellRet (pm_masks m) = 7
               then (let p' = p\<lparr>pi_endTs := now, pi_type := E_SWELL\<rparr>
                     in case pushEvent cx mid p' (m\<lparr>pm_inf_swell := p'\<rparr>, snd me) of
                          None \<Rightarrow> None
                        | Some (m', v) \<Rightarrow>
                            Some (m'\<lparr>pm_q_swell := updateEventCount (pi_mask p') (pm_q_swell m'), pm_swellSt := 3\<rparr>, v))
               else Some me)
         else if st = 3
         then Some (if now - pi_endTs p > ucast (pv_holdOffCyc (pm_pqevt m ! 2))
                    then m\<lparr>pm_swellSt := 1\<rparr> else m, snd me)
         else Some me)"

definition oc_handler ::
  "pq_ctx \<Rightarrow> nat \<Rightarrow> u64 \<Rightarrow> u32 list \<Rightarrow> pq_meter \<times> pq_env \<Rightarrow> (pq_meter \<times> pq_env) option" where
  "oc_handler cx mid now c me =
     (let m = fst me; st = pm_ocSt m; msk = mk_oc (pm_masks m); p = pm_inf_oc m
      in if st = 0 then Some (if msk = 0 \<and> pm_online m then m\<lparr>pm_ocSt := 1\<rparr> else m, snd me)
         else if st = 1
         then Some (if msk \<noteq> 0
                    then (if pq_action m 0 = 2 then put_caps (now, E_OC) m else m)
                           \<lparr>pm_inf_oc := start_info now msk c p, pm_ocSt := 2,
                            pm_count := (pm_count m)\<lparr>pc_oc := pc_oc (pm_count m) + 1\<rparr>\<rparr>
                    else m, snd me)
         else if st = 2
         then (if msk \<noteq> 0
               then Some (m\<lparr>pm_inf_oc := p\<lparr>pi_mask := pi_mask p OR msk,
                      pi_Val := map2 (\<lambda>v x. if v < x then x else v) (pi_Val p) (take 3 c)\<rparr>\<rparr>, snd me)
               else if mk_ocRet (pm_masks m) = 7
               then (let p' = p\<lparr>pi_endTs := now, pi_type := E_OC\<rparr>
                     in case pushEvent cx mid p' (m\<lparr>pm_inf_oc := p'\<rparr>, snd me) of
                          None \<Rightarrow> None
                        | Some (m', v) \<Rightarrow> Some (m'\<lparr>pm_ocSt := 3\<rparr>, v))
               else Some me)
         else if st = 3
         then Some (if now - pi_endTs p > ucast (pv_holdOffCyc (pm_pqevt m ! 0))
                    then m\<lparr>pm_ocSt := 1\<rparr> else m, snd me)
         else Some me)"

definition checkPqEvent ::
  "pq_ctx \<Rightarrow> nat \<Rightarrow> u64 \<Rightarrow> u32 list \<Rightarrow> u32 list \<Rightarrow> pq_meter \<times> pq_env \<Rightarrow> (pq_meter \<times> pq_env) option" where
  "checkPqEvent cx mid now u c me =
     (let m0 = update_online (fst me); m = m0\<lparr>pm_masks := make_masks u c m0\<rparr>
      in Option.bind (sag_handler cx mid now u (m, snd me)) (\<lambda>me1.
         Option.bind (swell_handler cx mid now u me1) (oc_handler cx mid now c)))"

text \<open>
  The part of \<open>meter_scan\<close> around it: a pass when the chip reports a half cycle (bit 19), then
  the counter of zero crossings, which a time-out of the zero crossing clears, then the two
  commands that clear the lists.
\<close>

record pq_scan =
  sc_stat0 :: u32
  sc_stat1 :: u32
  sc_now :: u64
  sc_u :: "u32 list"
  sc_c :: "u32 list"
  sc_rstEvtList :: bool
  sc_rstIticList :: bool

definition log_list0 :: "'a \<Rightarrow> 'a log_list" where
  "log_list0 z = \<lparr>ll_fr = 0, ll_re = 0, ll_count = 0, ll_ent = replicate 32 z\<rparr>"

definition clearEventList :: "pq_ctx \<Rightarrow> nat \<Rightarrow> pq_meter \<times> pq_env \<Rightarrow> pq_meter \<times> pq_env" where
  "clearEventList cx mid me =
     (let m = fst me; v = snd me
      in (m\<lparr>pm_count := \<lparr>pc_tvc = 0, pc_tcc = 0, pc_oc = 0, pc_sag = 0, pc_swell = 0, pc_intr = 0\<rparr>,
            pm_logs := (pm_logs m)\<lparr>cl_elist := log_list0 event_log0, cl_event := log_empty itic_log0\<rparr>\<rparr>,
          v\<lparr>pe_fsQ := putFsQ (pe_mem v) (px_sleep cx)
              (Some (fs_msg0\<lparr>fm_fname := getEventFifoFileName mid, fm_mode := ''rm''\<rparr>)) (pe_fsQ v)\<rparr>))"

definition clearIticListData :: "pq_meter \<Rightarrow> pq_meter" where
  "clearIticListData m =
     m\<lparr>pm_logs := (pm_logs m)\<lparr>cl_itic := log_list0 itic_log0, cl_itic2 := log_list0 itic_log0\<rparr>\<rparr>"

definition pq_scan_step ::
  "pq_ctx \<Rightarrow> nat \<Rightarrow> pq_scan \<Rightarrow> pq_meter \<times> pq_env \<Rightarrow> (pq_meter \<times> pq_env) option" where
  "pq_scan_step cx mid s me =
     Option.bind
       (if bit (sc_stat0 s) 19 then checkPqEvent cx mid (sc_now s) (sc_u s) (sc_c s) me else Some me)
       (\<lambda>(m, v).
         let m1 = (if bit (sc_stat1 s) 9 then m\<lparr>pm_zxMonCnt := pm_zxMonCnt m + 1\<rparr> else m);
             m2 = (if bit (sc_stat1 s) 6 then m1\<lparr>pm_zxMonCnt := 0\<rparr> else m1);
             me3 = (if sc_rstEvtList s then clearEventList cx mid (m2, v) else (m2, v))
         in Some (if sc_rstIticList s then (clearIticListData (fst me3), snd me3) else me3))"

subsection \<open>Facts about the parts\<close>

abbreviation (input) history :: "pq_meter \<Rightarrow> itic_log list" where
  "history m \<equiv> log_view (cl_event (pm_logs m))"

text \<open>A mask over the three phases.\<close>

abbreviation (input) phases :: "u16 \<Rightarrow> bool" where
  "phases m \<equiv> m AND 7 = m"

lemma bit_7: "bit (7 :: u16) i \<longleftrightarrow> i < 3"
proof -
  have *: "(7 :: u16) = mask 3" by (simp add: mask_eq_exp_minus_1)
  show ?thesis unfolding * by (auto simp: bit_mask_iff)
qed

lemma u16_eq_bits: "a = b \<longleftrightarrow> (\<forall>i. bit a i = bit (b :: u16) i)"
  by (auto intro: bit_word_eqI)

lemma phases_iff: "phases m \<longleftrightarrow> (\<forall>i. bit m i \<longrightarrow> i < 3)"
  unfolding u16_eq_bits bit_and_iff bit_7 by blast

lemma or_bits_bit: "bit (or_bits m P) i \<longleftrightarrow> bit m i \<or> (i < 3 \<and> P i)"
  by (auto simp: or_bits_def eval_nat_numeral bit_simps less_Suc_eq)

lemma or_bits_phases: "phases m \<Longrightarrow> phases (or_bits m P)"
  by (auto simp: phases_iff or_bits_bit)

lemma or_bits_0_phases [simp]: "phases (or_bits 0 P)"
  by (simp add: phases_iff or_bits_bit)

lemma or_phases: "phases a \<Longrightarrow> phases b \<Longrightarrow> phases (a OR b)"
  by (auto simp: phases_iff bit_simps)

lemma mask_nonzero: "m \<noteq> 0 \<Longrightarrow> m OR k \<noteq> (0 :: u16)"
  by (metis bit_eqI bit_or_iff bit_0_eq bot_apply bot_bool_def)

lemma or_bits_0_eq_0: "or_bits 0 P = 0 \<longleftrightarrow> (\<forall>i < 3. \<not> P i)"
proof -
  have "or_bits 0 P = 0 \<longleftrightarrow> (\<forall>i. \<not> bit (or_bits 0 P) i)" unfolding u16_eq_bits by simp
  then show ?thesis by (auto simp: or_bits_bit)
qed

lemma or_bits_0_eq_7: "or_bits 0 P = 7 \<longleftrightarrow> (\<forall>i < 3. P i)"
proof -
  have "or_bits 0 P = 7 \<longleftrightarrow> (\<forall>i. bit (or_bits 0 P) i \<longleftrightarrow> bit (7 :: u16) i)" by (rule u16_eq_bits)
  then show ?thesis unfolding or_bits_bit bit_7 by auto
qed

lemma pushEvent_ok:
  assumes "log_ok (cl_event (pm_logs m))"
  obtains f v' where "pushEvent cx mid p (m, v) =
      Some (m\<lparr>pm_iticlog := event_entry cx mid p (pm_iticlog m),
              pm_eventQ := eventq_add (il_event (event_entry cx mid p (pm_iticlog m))) (pm_eventQ m),
              pm_logs := refresh_pages ((pm_logs m)\<lparr>cl_event := f\<rparr>)\<rparr>, v')"
    and "log_ok f"
    and "log_view f = take 1024 (event_entry cx mid p (pm_iticlog m) # history m)"
proof -
  obtain f where "event_push (event_entry cx mid p (pm_iticlog m)) (cl_event (pm_logs m)) = Some f"
    "log_ok f" "log_view f = take LOG_CAP (event_entry cx mid p (pm_iticlog m) # history m)"
    using events.push_ok [OF assms] by blast
  then show ?thesis by (intro that) (auto simp: pushEvent_def Let_def)
qed

lemma refresh_pages_event [simp]: "cl_event (refresh_pages c) = cl_event c"
  by (simp add: refresh_pages_def)

lemma eventq_add_ok:
  "eq_count q \<le> 1024 \<and> length (eq_eq q) = 1024 \<Longrightarrow>
    eq_count (eventq_add e q) \<le> 1024 \<and> length (eq_eq (eventq_add e q)) = 1024"
  by (simp add: eventq_add_def)

lemma updateLastCapType_ok: "cap_q_ok q \<Longrightarrow> cap_q_ok (updateLastCapType a b q)"
  by (simp add: updateLastCapType_def cap_q_ok_def Let_def)

lemma length_updateEventCount [simp]: "length (updateEventCount k ec) = length ec"
  by (simp add: updateEventCount_def eval_nat_numeral Let_def)

subsection \<open>What can happen to a meter, and its invariant\<close>

text \<open>The statistics task hands the events of the last ten minutes to the file task.\<close>

definition pqQueueJob :: "bool \<Rightarrow> event_q \<Rightarrow> (event_log list \<times> event_q) option" where
  "pqQueueJob pending q =
     (if pending then None
      else Some (take (if eq_count q > 1024 then 1024 else eq_count q) (eq_eq q), q\<lparr>eq_count := 0\<rparr>))"

text \<open>
  Steps of the tasks that share a meter's event state: a scan; the wave and the rms task taking
  a capture; the statistics task taking the ten-minute events over (\<open>pqQueueJob\<close>); the file task
  taking a job; the Modbus task turning a page or changing thresholds; the alarm supervision
  changing its own history.
\<close>

inductive pq_step :: "pq_ctx \<Rightarrow> nat \<Rightarrow> pq_meter \<times> pq_env \<Rightarrow> pq_meter \<times> pq_env \<Rightarrow> bool"
  for cx :: pq_ctx and mid :: nat where
  scan: "length (sc_u s) = 3 \<Longrightarrow> length (sc_c s) = 3 \<Longrightarrow> pq_scan_step cx mid s me = Some me' \<Longrightarrow>
    pq_step cx mid me me'"
| wave: "takeEventCap (pm_wQ m) = Some (x, q) \<Longrightarrow> pq_step cx mid (m, v) (m\<lparr>pm_wQ := q\<rparr>, v)"
| rms: "takeEventCap (pm_rQ m) = Some (x, q) \<Longrightarrow> pq_step cx mid (m, v) (m\<lparr>pm_rQ := q\<rparr>, v)"
| report: "pqQueueJob pending (pm_eventQ m) = Some (es, q) \<Longrightarrow> pq_step cx mid (m, v) (m\<lparr>pm_eventQ := q\<rparr>, v)"
| flash: "fsq_take (pe_fsQ v) = Some (j, q) \<Longrightarrow> pq_step cx mid (m, v) (m, v\<lparr>pe_fsQ := q\<rparr>)"
| page: "pq_step cx mid (m, v)
    (m\<lparr>pm_logs := (pm_logs m)\<lparr>cl_elist := fetchEvent cmd (cl_event (pm_logs m)) (cl_elist (pm_logs m))\<rparr>\<rparr>, v)"
| settings: "pq_step cx mid (m, v) (m\<lparr>pm_levels := l, pm_pqevt := ev\<rparr>, v)"
| alarm: "pq_step cx mid (m, v) (m\<lparr>pm_logs := (pm_logs m)\<lparr>cl_alarm := a, cl_alist := al\<rparr>\<rparr>, v)"

inductive_cases pq_stepE: "pq_step cx mid me me'"

text \<open>A recorded event that makes sense, and a running measurement of one.\<close>

definition event_sound :: "itic_log \<Rightarrow> bool" where
  "event_sound l \<longleftrightarrow>
     (let e = il_event l
      in el_type e \<in> {E_SAG, E_SWELL, E_sINTR, E_lINTR, E_OC} \<and> el_mask e \<noteq> 0 \<and> phases (el_mask e) \<and>
         length (el_level e) = 3 \<and> el_msec e < 1000 \<and> (el_type e = E_sINTR \<longrightarrow> el_duration e < 60000))"

definition info_ok :: "pq_info \<Rightarrow> bool" where
  "info_ok p \<longleftrightarrow> pi_mask p \<noteq> 0 \<and> phases (pi_mask p) \<and> length (pi_Val p) = 3"

definition pq_inv :: "pq_meter \<Rightarrow> bool" where
  "pq_inv m \<longleftrightarrow> pm_sagSt m \<le> 4 \<and> pm_swellSt m \<le> 3 \<and> pm_ocSt m \<le> 3 \<and>
     (pm_sagSt m \<in> {2, 3} \<longrightarrow> info_ok (pm_inf_sag m)) \<and>
     (pm_swellSt m = 2 \<longrightarrow> info_ok (pm_inf_swell m)) \<and>
     (pm_ocSt m = 2 \<longrightarrow> info_ok (pm_inf_oc m)) \<and>
     cap_q_ok (pm_wQ m) \<and> cap_q_ok (pm_rQ m) \<and>
     eq_count (pm_eventQ m) \<le> 1024 \<and> length (eq_eq (pm_eventQ m)) = 1024 \<and>
     log_ok (cl_event (pm_logs m)) \<and> (\<forall>l \<in> set (history m). event_sound l)"

lemma event_entry_sound:
  assumes "info_ok p" "pi_type p \<in> {E_SAG, E_SWELL, E_sINTR, E_lINTR, E_OC}"
    and "pi_type p = E_sINTR \<Longrightarrow> event_duration (pi_startTs p) (pi_endTs p) < 60000"
  shows "event_sound (event_entry cx mid p old)"
proof -
  have "(ucast (x mod 1000) :: u16) < 1000" for x :: u64
  proof -
    have "take_bit 16 (uint x mod 1000) < 1000" by (simp add: take_bit_int_eq_self)
    then show ?thesis by (simp add: word_less_def uint_mod unsigned_ucast_eq)
  qed
  then show ?thesis using assms
    by (auto simp: event_sound_def event_entry_def info_ok_def Let_def)
qed

lemma short_duration:
  assumes "b - a < (60000 :: u64)"
  shows "event_duration a b < 60000"
proof -
  have n: "uint (b - a) < 60000" using assms by (simp add: word_less_def)
  then have s: "sint (ucast (b - a) :: u32) = uint (b - a)"
    by (simp add: signed_ucast_eq) (rule signed_take_bit_int_eq_self, simp_all add: order.trans [of "- 2147483648" 0])
  show ?thesis using n unfolding event_duration_def Let_def s
    by (simp add: word_less_def unsigned_ucast_eq take_bit_int_eq_self)
qed

lemma push_inv:
  assumes "pq_inv m" "event_sound (event_entry cx mid p (pm_iticlog m))"
  obtains m' v' where "pushEvent cx mid p (m, v) = Some (m', v')" "pq_inv m'" "pm_masks m' = pm_masks m"
    "pm_sagSt m' = pm_sagSt m" "pm_swellSt m' = pm_swellSt m" "pm_ocSt m' = pm_ocSt m"
proof -
  have "log_ok (cl_event (pm_logs m))" using assms(1) by (simp add: pq_inv_def)
  then obtain f v' where f: "pushEvent cx mid p (m, v) =
      Some (m\<lparr>pm_iticlog := event_entry cx mid p (pm_iticlog m),
              pm_eventQ := eventq_add (il_event (event_entry cx mid p (pm_iticlog m))) (pm_eventQ m),
              pm_logs := refresh_pages ((pm_logs m)\<lparr>cl_event := f\<rparr>)\<rparr>, v')"
    "log_ok f" "log_view f = take 1024 (event_entry cx mid p (pm_iticlog m) # history m)"
    by (rule pushEvent_ok)
  have "\<forall>l \<in> set (log_view f). event_sound l"
    unfolding f(3) using assms by (auto simp: pq_inv_def dest!: in_set_takeD)
  then have "pq_inv (m\<lparr>pm_iticlog := event_entry cx mid p (pm_iticlog m),
              pm_eventQ := eventq_add (il_event (event_entry cx mid p (pm_iticlog m))) (pm_eventQ m),
              pm_logs := refresh_pages ((pm_logs m)\<lparr>cl_event := f\<rparr>)\<rparr>)"
    using assms(1) f(2) eventq_add_ok [of "pm_eventQ m"] by (simp add: pq_inv_def)
  with f(1) show ?thesis by (rule that) simp_all
qed

text \<open>Updates that keep the invariant.\<close>

lemma pq_inv_update:
  assumes "pq_inv m"
  shows "pq_inv (m\<lparr>pm_q_sag := a\<rparr>)" "pq_inv (m\<lparr>pm_q_swell := a\<rparr>)" "pq_inv (m\<lparr>pm_q_short := a\<rparr>)"
    "pq_inv (m\<lparr>pm_q_long := a\<rparr>)" "pq_inv (m\<lparr>pm_count := c\<rparr>)" "pq_inv (m\<lparr>pm_zxMonCnt := z\<rparr>)"
    "pq_inv (m\<lparr>pm_masks := k\<rparr>)" "pq_inv (m\<lparr>pm_levels := l\<rparr>)" "pq_inv (m\<lparr>pm_pqevt := ev\<rparr>)"
    "pq_inv (m\<lparr>pm_online := b\<rparr>)" "pq_inv (m\<lparr>pm_meterStatus := b\<rparr>)"
    and "pq_inv (put_caps x m)" "pq_inv (retag_caps ty ty' m)"
    and "n \<in> {0, 1, 4} \<Longrightarrow> pq_inv (m\<lparr>pm_sagSt := n\<rparr>)"
    and "n \<in> {0, 1, 3} \<Longrightarrow> pq_inv (m\<lparr>pm_swellSt := n\<rparr>)"
    and "n \<in> {0, 1, 3} \<Longrightarrow> pq_inv (m\<lparr>pm_ocSt := n\<rparr>)"
    and "info_ok p \<Longrightarrow> n \<in> {2, 3} \<Longrightarrow> pq_inv (m\<lparr>pm_inf_sag := p, pm_sagSt := n\<rparr>)"
    and "info_ok p \<Longrightarrow> pq_inv (m\<lparr>pm_inf_sag := p\<rparr>)"
    and "info_ok p \<Longrightarrow> pq_inv (m\<lparr>pm_inf_swell := p, pm_swellSt := 2\<rparr>)"
    and "info_ok p \<Longrightarrow> pq_inv (m\<lparr>pm_inf_swell := p\<rparr>)"
    and "info_ok p \<Longrightarrow> pq_inv (m\<lparr>pm_inf_oc := p, pm_ocSt := 2\<rparr>)"
    and "info_ok p \<Longrightarrow> pq_inv (m\<lparr>pm_inf_oc := p\<rparr>)"
  using assms by (auto simp: pq_inv_def put_caps_def retag_caps_def capq.put_inv updateLastCapType_ok)

lemma put_caps_frame [simp]:
  "pm_masks (put_caps x m) = pm_masks m" "pm_masks (retag_caps a b m) = pm_masks m"
  "pm_inf_sag (put_caps x m) = pm_inf_sag m" "pm_inf_sag (retag_caps a b m) = pm_inf_sag m"
  "pm_sagSt (put_caps x m) = pm_sagSt m" "pm_swellSt (put_caps x m) = pm_swellSt m"
  "pm_ocSt (put_caps x m) = pm_ocSt m"
  "pm_inf_swell (put_caps x m) = pm_inf_swell m" "pm_inf_oc (put_caps x m) = pm_inf_oc m"
  "pm_count (put_caps x m) = pm_count m"
  by (simp_all add: put_caps_def retag_caps_def)

lemma info_start: "k \<noteq> 0 \<Longrightarrow> phases k \<Longrightarrow> length u = 3 \<Longrightarrow> info_ok (start_info now k u p)"
  by (simp add: info_ok_def start_info_def)

lemma info_merge:
  "info_ok p \<Longrightarrow> phases k \<Longrightarrow> length u = 3 \<Longrightarrow>
    info_ok (p\<lparr>pi_mask := pi_mask p OR k, pi_Val := map2 g (pi_Val p) u\<rparr>)"
  by (simp add: info_ok_def or_phases mask_nonzero)

lemma info_end: "info_ok p \<Longrightarrow> info_ok (p\<lparr>pi_endTs := t, pi_type := ty\<rparr>)"
  by (simp add: info_ok_def)

definition masks_ok :: "pq_masks \<Rightarrow> bool" where
  "masks_ok k \<longleftrightarrow> phases (mk_sag k) \<and> phases (mk_swell k) \<and> phases (mk_oc k)"

lemma make_masks_ok: "masks_ok (make_masks u c m)"
  by (simp add: masks_ok_def make_masks_def Let_def)

lemma pq_inv_info: "pq_inv m \<Longrightarrow> pm_sagSt m \<in> {2, 3} \<Longrightarrow> info_ok (pm_inf_sag m)"
  "pq_inv m \<Longrightarrow> pm_swellSt m = 2 \<Longrightarrow> info_ok (pm_inf_swell m)"
  "pq_inv m \<Longrightarrow> pm_ocSt m = 2 \<Longrightarrow> info_ok (pm_inf_oc m)"
  by (auto simp: pq_inv_def)

lemma sag_start_inv:
  assumes "pq_inv m" "masks_ok (pm_masks m)" "length u = 3"
  shows "pq_inv (sag_start now u m)" "pm_masks (sag_start now u m) = pm_masks m"
  using assms by (auto simp: sag_start_def masks_ok_def intro!: pq_inv_update(17) pq_inv_update(12) info_start)

lemma sag_to_intr_inv:
  assumes "pq_inv m" "pm_sagSt m = 2"
  shows "pq_inv (sag_to_intr m)" "pm_masks (sag_to_intr m) = pm_masks m"
proof -
  have *: "pq_inv x \<Longrightarrow> info_ok (pm_inf_sag x) \<Longrightarrow> pq_inv (x\<lparr>pm_sagSt := 3\<rparr>)" for x
    by (simp add: pq_inv_def)
  show "pq_inv (sag_to_intr m)" using assms pq_inv_info(1) [of m]
    by (auto simp: sag_to_intr_def intro!: * pq_inv_update(12,13))
  show "pm_masks (sag_to_intr m) = pm_masks m" by (simp add: sag_to_intr_def)
qed

lemma sag_close_inv:
  assumes "pq_inv m" "pm_sagSt m = 2"
  obtains m' v' where "sag_close cx mid now (m, v) = Some (m', v')" "pq_inv m'" "pm_masks m' = pm_masks m"
proof -
  define p where "p = (pm_inf_sag m)\<lparr>pi_endTs := now, pi_type := E_SAG\<rparr>"
  have p: "info_ok p" unfolding p_def using assms by (intro info_end pq_inv_info(1)) simp_all
  have "pq_inv (m\<lparr>pm_inf_sag := p\<rparr>)" using assms(1) p by (rule pq_inv_update(18))
  moreover have "event_sound (event_entry cx mid p (pm_iticlog (m\<lparr>pm_inf_sag := p\<rparr>)))"
    using p by (rule event_entry_sound) (simp_all add: p_def)
  ultimately obtain m' v' where "pushEvent cx mid p (m\<lparr>pm_inf_sag := p\<rparr>, v) = Some (m', v')" "pq_inv m'"
    "pm_masks m' = pm_masks (m\<lparr>pm_inf_sag := p\<rparr>)" by (rule push_inv)
  then have "\<exists>m' v'. sag_close cx mid now (m, v) = Some (m', v') \<and> pq_inv m' \<and> pm_masks m' = pm_masks m"
    by (auto simp: sag_close_def p_def Let_def intro!: pq_inv_update)
  then show ?thesis using that by blast
qed

lemma intr_close_inv:
  assumes "pq_inv m" "pm_sagSt m = 3"
  obtains m' v' where "intr_close cx mid now (m, v) = Some (m', v')" "pq_inv m'" "pm_masks m' = pm_masks m"
proof -
  define short where "short \<longleftrightarrow> now - pi_startTs (pm_inf_sag m) < 60000"
  define p where "p = (pm_inf_sag m)\<lparr>pi_endTs := now, pi_type := if short then E_sINTR else E_lINTR\<rparr>"
  have p: "info_ok p" unfolding p_def using assms by (intro info_end pq_inv_info(1)) simp_all
  have "pq_inv (m\<lparr>pm_inf_sag := p\<rparr>)" using assms(1) p by (rule pq_inv_update(18))
  moreover have "event_sound (event_entry cx mid p (pm_iticlog (m\<lparr>pm_inf_sag := p\<rparr>)))"
    using p by (rule event_entry_sound) (auto simp: p_def short_def short_duration split: if_splits)
  ultimately obtain m' v' where "pushEvent cx mid p (m\<lparr>pm_inf_sag := p\<rparr>, v) = Some (m', v')" "pq_inv m'"
    "pm_masks m' = pm_masks (m\<lparr>pm_inf_sag := p\<rparr>)" by (rule push_inv)
  then have "\<exists>m' v'. intr_close cx mid now (m, v) = Some (m', v') \<and> pq_inv m' \<and> pm_masks m' = pm_masks m"
    by (auto simp: intr_close_def p_def short_def Let_def intro!: pq_inv_update)
  then show ?thesis using that by blast
qed

lemma sag_handler_inv:
  assumes "pq_inv m" "masks_ok (pm_masks m)" "length u = 3"
  obtains m' v' where "sag_handler cx mid now u (m, v) = Some (m', v')" "pq_inv m'" "pm_masks m' = pm_masks m"
proof -
  have "\<exists>m' v'. sag_handler cx mid now u (m, v) = Some (m', v') \<and> pq_inv m' \<and> pm_masks m' = pm_masks m"
  proof -
    consider "pm_sagSt m = 2" "\<not> is_interruption u m" "mk_sag (pm_masks m) = 0" "mk_sagRet (pm_masks m) = 7"
      | "pm_sagSt m = 3" "mk_sagRet (pm_masks m) = 7"
      | "\<not> (pm_sagSt m = 2 \<and> \<not> is_interruption u m \<and> mk_sag (pm_masks m) = 0 \<and> mk_sagRet (pm_masks m) = 7)"
        "\<not> (pm_sagSt m = 3 \<and> mk_sagRet (pm_masks m) = 7)" by blast
    then show ?thesis
    proof cases
      case 1
      then show ?thesis using sag_close_inv [OF assms(1), of cx mid now v]
        by (simp add: sag_handler_def sag_going_def Let_def) blast
    next
      case 2
      then show ?thesis using intr_close_inv [OF assms(1), of cx mid now v]
        by (simp add: sag_handler_def Let_def) blast
    next
      case 3
      have *: "info_ok (pm_inf_sag m)" if "pm_sagSt m = 2" using that assms(1) by (intro pq_inv_info) simp_all
      then show ?thesis using 3 assms
        by (auto simp: sag_handler_def sag_going_def Let_def sag_start_inv sag_to_intr_inv masks_ok_def
            intro!: pq_inv_update info_merge)
    qed
  qed
  then show ?thesis using that by blast
qed

lemma swell_handler_inv:
  assumes "pq_inv m" "masks_ok (pm_masks m)" "length u = 3"
  obtains m' v' where "swell_handler cx mid now u (m, v) = Some (m', v')" "pq_inv m'" "pm_masks m' = pm_masks m"
proof (cases "pm_swellSt m = 2 \<and> mk_swell (pm_masks m) = 0 \<and> mk_swellRet (pm_masks m) = 7")
  case True
  define p where "p = (pm_inf_swell m)\<lparr>pi_endTs := now, pi_type := E_SWELL\<rparr>"
  have p: "info_ok p" unfolding p_def using assms True by (intro info_end pq_inv_info(2)) simp_all
  have "pq_inv (m\<lparr>pm_inf_swell := p\<rparr>)" using assms(1) p by (rule pq_inv_update(20))
  moreover have "event_sound (event_entry cx mid p (pm_iticlog (m\<lparr>pm_inf_swell := p\<rparr>)))"
    using p by (rule event_entry_sound) (simp_all add: p_def)
  ultimately obtain m' v' where "pushEvent cx mid p (m\<lparr>pm_inf_swell := p\<rparr>, v) = Some (m', v')" "pq_inv m'"
    "pm_masks m' = pm_masks (m\<lparr>pm_inf_swell := p\<rparr>)" by (rule push_inv)
  then have "\<exists>m' v'. swell_handler cx mid now u (m, v) = Some (m', v') \<and> pq_inv m' \<and> pm_masks m' = pm_masks m"
    using True by (auto simp: swell_handler_def p_def Let_def intro!: pq_inv_update)
  then show ?thesis using that by blast
next
  case False
  have "\<exists>m' v'. swell_handler cx mid now u (m, v) = Some (m', v') \<and> pq_inv m' \<and> pm_masks m' = pm_masks m"
    using False assms pq_inv_info(2) [OF assms(1)]
    by (auto simp: swell_handler_def Let_def masks_ok_def intro!: pq_inv_update info_merge info_start)
  then show ?thesis using that by blast
qed

lemma oc_handler_inv:
  assumes "pq_inv m" "masks_ok (pm_masks m)" "length c = 3"
  obtains m' v' where "oc_handler cx mid now c (m, v) = Some (m', v')" "pq_inv m'"
proof (cases "pm_ocSt m = 2 \<and> mk_oc (pm_masks m) = 0 \<and> mk_ocRet (pm_masks m) = 7")
  case True
  define p where "p = (pm_inf_oc m)\<lparr>pi_endTs := now, pi_type := E_OC\<rparr>"
  have p: "info_ok p" unfolding p_def using assms True by (intro info_end pq_inv_info(3)) simp_all
  have "pq_inv (m\<lparr>pm_inf_oc := p\<rparr>)" using assms(1) p by (rule pq_inv_update(22))
  moreover have "event_sound (event_entry cx mid p (pm_iticlog (m\<lparr>pm_inf_oc := p\<rparr>)))"
    using p by (rule event_entry_sound) (simp_all add: p_def)
  ultimately obtain m' v' where "pushEvent cx mid p (m\<lparr>pm_inf_oc := p\<rparr>, v) = Some (m', v')" "pq_inv m'"
    by (rule push_inv)
  then have "\<exists>m' v'. oc_handler cx mid now c (m, v) = Some (m', v') \<and> pq_inv m'"
    using True by (auto simp: oc_handler_def p_def Let_def intro!: pq_inv_update)
  then show ?thesis using that by blast
next
  case False
  have "\<exists>m' v'. oc_handler cx mid now c (m, v) = Some (m', v') \<and> pq_inv m'"
    using False assms pq_inv_info(3) [OF assms(1)]
    by (auto simp: oc_handler_def Let_def masks_ok_def intro!: pq_inv_update info_merge info_start)
  then show ?thesis using that by blast
qed

lemma checkPqEvent_inv:
  assumes "pq_inv m" "length u = 3" "length c = 3"
  obtains m' v' where "checkPqEvent cx mid now u c (m, v) = Some (m', v')" "pq_inv m'"
proof -
  define m0 where "m0 = update_online m"
  define m1 where "m1 = m0\<lparr>pm_masks := make_masks u c m0\<rparr>"
  have m1: "pq_inv m1" "masks_ok (pm_masks m1)"
    using assms(1) by (auto simp: m1_def m0_def update_online_def Let_def make_masks_ok intro!: pq_inv_update)
  obtain m2 v2 where s: "sag_handler cx mid now u (m1, v) = Some (m2, v2)" "pq_inv m2" "pm_masks m2 = pm_masks m1"
    using sag_handler_inv [OF m1 assms(2)] by metis
  then have k2: "masks_ok (pm_masks m2)" using m1 by simp
  obtain m3 v3 where w: "swell_handler cx mid now u (m2, v2) = Some (m3, v3)" "pq_inv m3" "pm_masks m3 = pm_masks m2"
    using swell_handler_inv [OF s(2) k2 assms(2)] by metis
  then have k3: "masks_ok (pm_masks m3)" using k2 by simp
  obtain m4 v4 where o: "oc_handler cx mid now c (m3, v3) = Some (m4, v4)" "pq_inv m4"
    using oc_handler_inv [OF w(2) k3 assms(3)] by metis
  show ?thesis
    using s(1) w(1) o by (intro that [of m4 v4]) (simp_all add: checkPqEvent_def Let_def m1_def m0_def)
qed

lemma clear_inv:
  assumes "pq_inv m"
  shows "pq_inv (fst (clearEventList cx mid (m, v)))" "pq_inv (clearIticListData m)"
  using assms by (auto simp: pq_inv_def clearEventList_def clearIticListData_def log_empty_ok Let_def)

lemma pq_scan_step_inv:
  assumes "pq_inv m" "length (sc_u s) = 3" "length (sc_c s) = 3"
  shows "\<exists>m' v'. pq_scan_step cx mid s (m, v) = Some (m', v') \<and> pq_inv m'"
proof -
  obtain m1 v1 where m1: "(if bit (sc_stat0 s) 19 then checkPqEvent cx mid (sc_now s) (sc_u s) (sc_c s) (m, v)
      else Some (m, v)) = Some (m1, v1)" "pq_inv m1"
    using assms checkPqEvent_inv [OF assms, of cx mid "sc_now s" v] by (cases "bit (sc_stat0 s) 19") auto
  define m2 where "m2 = (let a = (if bit (sc_stat1 s) 9 then m1\<lparr>pm_zxMonCnt := pm_zxMonCnt m1 + 1\<rparr> else m1)
     in if bit (sc_stat1 s) 6 then a\<lparr>pm_zxMonCnt := 0\<rparr> else a)"
  have m2: "pq_inv m2" using m1(2) by (auto simp: m2_def Let_def intro!: pq_inv_update)
  have "pq_scan_step cx mid s (m, v) =
      Some (let me3 = (if sc_rstEvtList s then clearEventList cx mid (m2, v1) else (m2, v1))
            in if sc_rstIticList s then (clearIticListData (fst me3), snd me3) else me3)"
    unfolding pq_scan_step_def m1(1) by (simp add: m2_def Let_def)
  moreover have "pq_inv (fst (if sc_rstEvtList s then clearEventList cx mid (m2, v1) else (m2, v1)))"
    using clear_inv(1) [OF m2] m2 by simp
  ultimately show ?thesis
    using clear_inv(2) by (auto simp: Let_def split_def prod_eq_iff)
qed

lemma pq_step_inv: "pq_step cx mid me me' \<Longrightarrow> pq_inv (fst me) \<Longrightarrow> pq_inv (fst me')"
proof (induction rule: pq_step.induct)
  case (scan s me me')
  then show ?case using pq_scan_step_inv [of "fst me" s cx mid "snd me"] by auto
next
  case (wave m x q v)
  then show ?case using capq.get_head [of "pm_wQ m" x q] by (auto simp: pq_inv_def)
next
  case (rms m x q v)
  then show ?case using capq.get_head [of "pm_rQ m" x q] by (auto simp: pq_inv_def)
qed (auto simp: pq_inv_def pqQueueJob_def split: if_splits)

lemma pq_reach_inv:
  "(pq_step cx mid)\<^sup>*\<^sup>* me me' \<Longrightarrow> pq_inv (fst me) \<Longrightarrow> pq_inv (fst me')"
  by (induction rule: rtranclp_induct) (auto intro: pq_step_inv)

definition info0 :: pq_info where
  "info0 = \<lparr>pi_startTs = 0, pi_endTs = 0, pi_mask = 0, pi_type = 0, pi_Val = [0, 0, 0]\<rparr>"

text \<open>
  Power-on: zeroed memory, with thresholds and actions as configured and the event history \<open>f\<close>
  that \<open>loadEventFifo\<close> has read from its file, whose windows are set to the top.
\<close>

definition pq_boot :: "pq_levels \<Rightarrow> pqevent list \<Rightarrow> event_fifo \<Rightarrow> pq_meter" where
  "pq_boot l ev f =
     \<lparr>pm_online = False, pm_meterStatus = False, pm_zxMonCnt = 0,
      pm_masks = \<lparr>mk_sag = 0, mk_sagRet = 0, mk_swell = 0, mk_swellRet = 0, mk_oc = 0, mk_ocRet = 0\<rparr>,
      pm_levels = l, pm_sagSt = 0, pm_swellSt = 0, pm_ocSt = 0, pm_pqevt = ev,
      pm_inf_oc = info0, pm_inf_sag = info0, pm_inf_swell = info0,
      pm_wQ = cap_q_empty, pm_rQ = cap_q_empty,
      pm_count = \<lparr>pc_tvc = 0, pc_tcc = 0, pc_oc = 0, pc_sag = 0, pc_swell = 0, pc_intr = 0\<rparr>,
      pm_q_sag = replicate 4 0, pm_q_swell = replicate 4 0, pm_q_short = replicate 4 0, pm_q_long = replicate 4 0,
      pm_iticlog = itic_log0, pm_eventQ = \<lparr>eq_count = 0, eq_eq = replicate 1024 event_log0\<rparr>,
      pm_logs = \<lparr>cl_alarm = log_empty alarm_log0, cl_alist = log_list0 alarm_log0, cl_event = f,
         cl_elist = fetchEvent 3 f (log_list0 event_log0), cl_itic = fetchIticCommon 3 f (log_list0 itic_log0),
         cl_itic2 = fetchIticCommon 3 f (log_list0 itic_log0)\<rparr>,
      pm_year = 2026, pm_mon = 9\<rparr>"

lemma pq_boot_inv: "log_ok f \<Longrightarrow> \<forall>l \<in> set (log_view f). event_sound l \<Longrightarrow> pq_inv (pq_boot l ev f)"
  by (simp add: pq_inv_def pq_boot_def cap_q_empty_def cap_q_ok_def)

text \<open>What the history holds after loading: nothing, or the records of the file.\<close>

lemma loaded_events:
  assumes "f = fst (loadEventFifo io file)"
    and "case file of Some (Fifo_File magic fr cnt ts es extra) \<Rightarrow> cnt < 1024 \<and> list_all event_sound es | _ \<Rightarrow> True"
  shows "log_ok f \<and> (\<forall>l \<in> set (log_view f). event_sound l)"
proof (cases "\<exists>magic fr cnt ts es extra. file = Some (Fifo_File magic fr cnt ts es extra) \<and> f \<noteq> log_empty itic_log0")
  case True
  then obtain magic fr cnt ts es extra where fl: "file = Some (Fifo_File magic fr cnt ts es extra)" "f \<noteq> log_empty itic_log0" by blast
  define n where "n = nat cnt"
  have "cnt < 1024" "\<forall>e \<in> set es. event_sound e" using assms(2) fl(1) by (simp_all add: list_all_iff)
  then have n: "n < 1024" "\<forall>e \<in> set es. event_sound e" unfolding n_def by linarith+
  have f: "f = (log_empty itic_log0)\<lparr>lf_slot := take n es @ replicate (LOG_CAP - n) itic_log0, lf_count := n, lf_fr := n\<rparr>" "n \<le> length es"
    using fl assms(1) by (auto simp: loadEventFifo_def read_fifo_def Let_def n_def split: if_splits)
  have "log_view f ! k \<in> set es" if "k < n" for k
    using that f(2) nth_mem [of "n - 1 - k" "take n es"] by (auto simp: f(1) log_view_def slot_back_def nth_append dest: in_set_takeD)
  then have "set (log_view f) \<subseteq> set es" by (auto simp: in_set_conv_nth f(1))
  then show ?thesis using n f by (auto simp: log_ok_def log_empty_def)
next
  case False
  have "f = log_empty itic_log0"
  proof (cases "file")
    case None
    then show ?thesis by (simp add: assms(1) loadEventFifo_def read_fifo_def)
  next
    case (Some c)
    then show ?thesis using False by (cases c) (auto simp: assms(1) loadEventFifo_def read_fifo_def)
  qed
  then show ?thesis by (simp add: log_empty_ok)
qed

text \<open>C31. Whatever happens after power-on, in whatever order the scans, the consumers of the
  queues, the Modbus master and the other tasks act, the event supervision never stops on an
  out-of-range store, and every event in its history makes sense: one of the five kinds, at
  least one and only existing phases, three levels, and a short interruption below 60 s. The
  history is loaded from its file at power-on; the file is missing, unreadable or refused, or
  its header counts fewer than 1024 records and the records it holds make sense. A file with all 1024 records is loaded
  with an index behind the array, and the next event is stored out of range.\<close>

theorem recorded_events_are_sound:
  assumes "f = fst (loadEventFifo io file)"
    and "case file of Some (Fifo_File magic fr cnt ts es extra) \<Rightarrow> cnt < 1024 \<and> list_all event_sound es | _ \<Rightarrow> True"
    and "(pq_step cx mid)\<^sup>*\<^sup>* (pq_boot l ev f, v0) (m, v)"
  shows "list_all event_sound (history m) \<and>
    (length (sc_u s) = 3 \<and> length (sc_c s) = 3 \<longrightarrow> pq_scan_step cx mid s (m, v) \<noteq> None)"
proof -
  have "log_ok f \<and> (\<forall>l \<in> set (log_view f). event_sound l)" by (rule loaded_events [OF assms(1,2)])
  then have inv: "pq_inv m" using pq_reach_inv [OF assms(3)] pq_boot_inv by simp
  then show ?thesis using pq_scan_step_inv [OF inv, of s cx mid v] by (auto simp: pq_inv_def list_all_iff)
qed

definition demo_pq_ctx :: pq_ctx where
  "demo_pq_ctx = \<lparr>px_bits = (\<lambda>x. of_int \<lfloor>x\<rfloor>), px_sleep = (\<lambda>_ q. q), px_iticlog = (\<lambda>i. 64 * i),
     px_vscale = (\<lambda>_. 1), px_iscale = (\<lambda>_. 1), px_tvscale = 1, px_tcscale = 1, px_PT1 = (\<lambda>_. 220), px_CT1 = (\<lambda>_. 100)\<rparr>"

definition demo_pq_levels :: pq_levels where
  "demo_pq_levels = \<lparr>lv_sag = 198, lv_sagRet = 209, lv_swell = 242, lv_swellRet = 231, lv_oc = 120, lv_ocRet = 114, lv_intr = 11\<rparr>"

definition demo_pqevt :: "u16 \<Rightarrow> pqevent list" where
  "demo_pqevt a = [\<lparr>pv_level = 120, pv_nCyc = 1, pv_action = 0, pv_holdOffCyc = 200, pv_do_action = 0\<rparr>,
     \<lparr>pv_level = 90, pv_nCyc = 1, pv_action = a, pv_holdOffCyc = 200, pv_do_action = 0\<rparr>,
     \<lparr>pv_level = 110, pv_nCyc = 1, pv_action = 0, pv_holdOffCyc = 200, pv_do_action = 0\<rparr>,
     \<lparr>pv_level = 5, pv_nCyc = 1, pv_action = 2, pv_holdOffCyc = 200, pv_do_action = 0\<rparr>]"

definition demo_pq_env :: pq_env where
  "demo_pq_env = \<lparr>pe_fsQ = fs_q_empty, pe_mem = (\<lambda>_. 0), pe_Event_sts = 0\<rparr>"

definition demo_scan :: pq_scan where
  "demo_scan = \<lparr>sc_stat0 = 0x80000, sc_stat1 = 0x200, sc_now = 5000, sc_u = [220, 220, 220], sc_c = [1, 1, 1],
     sc_rstEvtList = False, sc_rstIticList = False\<rparr>"

text \<open>A file with one sag in it.\<close>

definition demo_event_file :: "itic_log fifo_file" where
  "demo_event_file = Fifo_File 0x1234abcd 1 1 7 [\<lparr>il_event = event_log0\<lparr>el_type := E_SAG, el_mask := 1\<rparr>, il_norm = 0\<rparr>] 0"

theorem recorded_events_are_sound_witness:
  "let f = fst (loadEventFifo \<lparr>io_seek = True, io_reads = 9\<rparr> (Some demo_event_file)) in
    lf_count f = 1 \<and> list_all event_sound (history (pq_boot demo_pq_levels (demo_pqevt 2) f)) \<and>
    pq_scan_step demo_pq_ctx 1 demo_scan (pq_boot demo_pq_levels (demo_pqevt 2) f, demo_pq_env) \<noteq> None"
proof -
  define f where "f = fst (loadEventFifo \<lparr>io_seek = True, io_reads = 9\<rparr> (Some demo_event_file))"
  have n: "lf_count f = 1" by (simp add: f_def demo_event_file_def loadEventFifo_def read_fifo_def eventFifoHeaderOk_def fifoHeaderOk_def)
  have ok: "case Some demo_event_file of Some (Fifo_File magic fr cnt ts es extra) \<Rightarrow> cnt < 1024 \<and> list_all event_sound es | _ \<Rightarrow> True"
    by (simp add: demo_event_file_def event_sound_def event_log0_def Let_def)
  have "pq_step demo_pq_ctx 1 (pq_boot demo_pq_levels (demo_pqevt 1) f, demo_pq_env)
      (pq_boot demo_pq_levels (demo_pqevt 2) f, demo_pq_env)"
    using pq_step.settings [where cx = demo_pq_ctx and mid = 1 and m = "pq_boot demo_pq_levels (demo_pqevt 1) f"
        and v = demo_pq_env and l = demo_pq_levels and ev = "demo_pqevt 2"] by (simp add: pq_boot_def)
  then have "(pq_step demo_pq_ctx 1)\<^sup>*\<^sup>* (pq_boot demo_pq_levels (demo_pqevt 1) f, demo_pq_env)
      (pq_boot demo_pq_levels (demo_pqevt 2) f, demo_pq_env)" by (rule r_into_rtranclp)
  from recorded_events_are_sound [OF f_def ok this, of demo_scan] n show ?thesis
    unfolding f_def [symmetric] Let_def by (simp add: demo_scan_def)
qed

subsection \<open>The life of a sag\<close>

text \<open>A run of passes, each with its tick, voltages and currents.\<close>

fun pq_passes ::
  "pq_ctx \<Rightarrow> nat \<Rightarrow> (u64 \<times> u32 list \<times> u32 list) list \<Rightarrow> pq_meter \<times> pq_env \<Rightarrow> (pq_meter \<times> pq_env) option" where
  "pq_passes cx mid [] me = Some me"
| "pq_passes cx mid ((now, u, c) # xs) me = Option.bind (checkPqEvent cx mid now u c me) (pq_passes cx mid xs)"

definition dips :: "pq_levels \<Rightarrow> u32 list \<Rightarrow> u16" where
  "dips l u = or_bits 0 (\<lambda>i. u ! i < lv_sag l)"

definition recovered :: "pq_levels \<Rightarrow> u32 list \<Rightarrow> bool" where
  "recovered l u \<longleftrightarrow> (\<forall>i < 3. \<not> u ! i < lv_sag l \<and> lv_sagRet l < u ! i)"

definition collapsed :: "pq_levels \<Rightarrow> u32 list \<Rightarrow> bool" where
  "collapsed l u \<longleftrightarrow> (\<exists>i < 3. u ! i < lv_sag l \<and> u ! i < lv_intr l)"

definition only_sags :: "pq_meter \<Rightarrow> bool" where
  "only_sags m \<longleftrightarrow> pq_action m 1 \<noteq> 0 \<and> pq_action m 2 = 0 \<and> pq_action m 0 = 0 \<and>
     pm_swellSt m \<noteq> 2 \<and> pm_ocSt m \<noteq> 2"

text \<open>\<open>m\<close> runs in state \<open>k\<close> with measurement \<open>p\<close> and has recorded nothing since \<open>m0\<close>.\<close>

definition tracks :: "pq_meter \<Rightarrow> nat \<Rightarrow> pq_info \<Rightarrow> pq_meter \<Rightarrow> bool" where
  "tracks m0 k p m \<longleftrightarrow> pm_sagSt m = k \<and> pm_inf_sag m = p \<and> only_sags m \<and>
     pm_levels m = pm_levels m0 \<and> pm_pqevt m = pm_pqevt m0 \<and> pm_logs m = pm_logs m0 \<and>
     pm_iticlog m = pm_iticlog m0 \<and> pm_count m = pm_count m0 \<and> pm_zxMonCnt m = pm_zxMonCnt m0"

lemma state_ids: "m\<lparr>pm_swellSt := pm_swellSt m\<rparr> = m" "m\<lparr>pm_ocSt := pm_ocSt m\<rparr> = m"
  by simp_all

lemma swell_idle:
  assumes "pm_swellSt m \<noteq> 2" "mk_swell (pm_masks m) = 0"
  obtains sw where "swell_handler cx mid now u (m, v) = Some (m\<lparr>pm_swellSt := sw\<rparr>, v)" "sw \<noteq> 2"
proof -
  define go where "go \<longleftrightarrow> pm_swellSt m = 0 \<and> pm_online m \<or>
    pm_swellSt m = 3 \<and> now - pi_endTs (pm_inf_swell m) > ucast (pv_holdOffCyc (pm_pqevt m ! 2))"
  have *: "swell_handler cx mid now u (m, v) = Some (if go then m\<lparr>pm_swellSt := 1\<rparr> else m, v)"
    using assms by (simp add: swell_handler_def Let_def go_def)
  show ?thesis
  proof (cases go)
    case True
    then show ?thesis using * by (intro that [of 1]) simp_all
  next
    case False
    then show ?thesis using * assms(1) by (intro that [of "pm_swellSt m"]) (simp_all only: state_ids if_False not_False_eq_True)
  qed
qed

lemma oc_idle:
  assumes "pm_ocSt m \<noteq> 2" "mk_oc (pm_masks m) = 0"
  obtains oc where "oc_handler cx mid now c (m, v) = Some (m\<lparr>pm_ocSt := oc\<rparr>, v)" "oc \<noteq> 2"
proof -
  define go where "go \<longleftrightarrow> pm_ocSt m = 0 \<and> pm_online m \<or>
    pm_ocSt m = 3 \<and> now - pi_endTs (pm_inf_oc m) > ucast (pv_holdOffCyc (pm_pqevt m ! 0))"
  have *: "oc_handler cx mid now c (m, v) = Some (if go then m\<lparr>pm_ocSt := 1\<rparr> else m, v)"
    using assms by (simp add: oc_handler_def Let_def go_def)
  show ?thesis
  proof (cases go)
    case True
    then show ?thesis using * by (intro that [of 1]) simp_all
  next
    case False
    then show ?thesis using * assms(1) by (intro that [of "pm_ocSt m"]) (simp_all only: state_ids if_False not_False_eq_True)
  qed
qed

lemma only_sags_pass:
  assumes "sag_handler cx mid now u ((update_online m)\<lparr>pm_masks := make_masks u c (update_online m)\<rparr>, v) = Some (m2, v2)"
    and "only_sags m2" "mk_swell (pm_masks m2) = 0" "mk_oc (pm_masks m2) = 0"
  obtains sw oc where "checkPqEvent cx mid now u c (m, v) = Some (m2\<lparr>pm_swellSt := sw, pm_ocSt := oc\<rparr>, v2)"
    "sw \<noteq> 2" "oc \<noteq> 2"
proof -
  obtain sw where sw: "swell_handler cx mid now u (m2, v2) = Some (m2\<lparr>pm_swellSt := sw\<rparr>, v2)" "sw \<noteq> 2"
    using assms(2,3) by (auto simp: only_sags_def elim: swell_idle)
  have "pm_ocSt (m2\<lparr>pm_swellSt := sw\<rparr>) \<noteq> 2" "mk_oc (pm_masks (m2\<lparr>pm_swellSt := sw\<rparr>)) = 0"
    using assms(2,4) by (simp_all add: only_sags_def)
  then obtain oc where oc: "oc_handler cx mid now c (m2\<lparr>pm_swellSt := sw\<rparr>, v2) =
      Some (m2\<lparr>pm_swellSt := sw, pm_ocSt := oc\<rparr>, v2)" "oc \<noteq> 2"
    by (rule oc_idle)
  have "checkPqEvent cx mid now u c (m, v) = Some (m2\<lparr>pm_swellSt := sw, pm_ocSt := oc\<rparr>, v2)"
    unfolding checkPqEvent_def Let_def fst_conv snd_conv assms(1) bind.bind_lunit sw(1) oc(1) ..
  then show ?thesis using sw(2) oc(2) by (rule that)
qed

text \<open>The masks of a pass while only sags are watched.\<close>

lemma masks_only_sags:
  assumes "only_sags m"
  shows "mk_sag (make_masks u c (update_online m)) = dips (pm_levels m) u"
    and "mk_swell (make_masks u c (update_online m)) = 0"
    and "mk_oc (make_masks u c (update_online m)) = 0"
    and "mk_sagRet (make_masks u c (update_online m)) = 7 \<longleftrightarrow> recovered (pm_levels m) u"
  using assms
  by (simp_all add: make_masks_def update_online_def Let_def pq_action_def only_sags_def dips_def recovered_def
      or_bits_0_eq_7 or_bits_0_eq_0)

lemma dips_0: "dips l u = 0 \<longleftrightarrow> (\<forall>i < 3. \<not> u ! i < lv_sag l)"
  by (simp add: dips_def or_bits_0_eq_0)

lemma dips_bit: "bit (dips l u) i \<longleftrightarrow> i < 3 \<and> u ! i < lv_sag l"
  by (simp add: dips_def or_bits_bit)


definition pass_meter :: "u32 list \<Rightarrow> u32 list \<Rightarrow> pq_meter \<Rightarrow> pq_meter" where
  "pass_meter u c m = (update_online m)\<lparr>pm_masks := make_masks u c (update_online m)\<rparr>"

lemma tracks_pass_meter:
  assumes "tracks m0 k p m"
  shows "tracks m0 k p (pass_meter u c m)" "mk_sag (pm_masks (pass_meter u c m)) = dips (pm_levels m0) u"
    "mk_swell (pm_masks (pass_meter u c m)) = 0" "mk_oc (pm_masks (pass_meter u c m)) = 0"
    "mk_sagRet (pm_masks (pass_meter u c m)) = 7 \<longleftrightarrow> recovered (pm_levels m0) u"
proof -
  have "only_sags m" "pm_levels m = pm_levels m0" using assms by (simp_all add: tracks_def)
  note k = masks_only_sags [OF this(1), of u c, unfolded this(2)]
  show "tracks m0 k p (pass_meter u c m)"
    using assms by (auto simp: tracks_def pass_meter_def update_online_def only_sags_def pq_action_def Let_def)
  show "mk_sag (pm_masks (pass_meter u c m)) = dips (pm_levels m0) u"
    "mk_swell (pm_masks (pass_meter u c m)) = 0" "mk_oc (pm_masks (pass_meter u c m)) = 0"
    "mk_sagRet (pm_masks (pass_meter u c m)) = 7 \<longleftrightarrow> recovered (pm_levels m0) u"
    using k by (simp_all add: pass_meter_def)
qed

text \<open>A pass is decided by the sag machine alone.\<close>

lemma tracks_pass:
  assumes "sag_handler cx mid now u (pass_meter u c m, v) = Some (m2, v2)" "tracks m0 k' p' m2"
    and "pm_masks m2 = pm_masks (pass_meter u c m)" "tracks m0 k p m"
  obtains m' where "checkPqEvent cx mid now u c (m, v) = Some (m', v2)" "tracks m0 k' p' m'"
    "pm_online m' = pm_online m2"
proof -
  have "only_sags m2" "mk_swell (pm_masks m2) = 0" "mk_oc (pm_masks m2) = 0"
    using assms(2,3) tracks_pass_meter [OF assms(4)] by (simp_all add: tracks_def)
  with assms(1) [unfolded pass_meter_def] obtain sw oc where
    "checkPqEvent cx mid now u c (m, v) = Some (m2\<lparr>pm_swellSt := sw, pm_ocSt := oc\<rparr>, v2)" "sw \<noteq> 2" "oc \<noteq> 2"
    by (rule only_sags_pass)
  note r = this
  have "tracks m0 k' p' (m2\<lparr>pm_swellSt := sw, pm_ocSt := oc\<rparr>)"
    using assms(2) r(2,3) by (auto simp: tracks_def only_sags_def pq_action_def)
  with r(1) show ?thesis by (rule that) simp
qed



lemma interruption_iff:
  assumes "tracks m0 k p m"
  shows "is_interruption u (pass_meter u c m) \<longleftrightarrow> \<not> pm_online (pass_meter u c m) \<or> collapsed (pm_levels m0) u"
proof -
  note t = tracks_pass_meter [OF assms, of u c]
  have "pm_levels (pass_meter u c m) = pm_levels m0" using t(1) by (simp add: tracks_def)
  then show ?thesis using t(2) dips_0 [of "pm_levels m0" u]
    by (auto simp: is_interruption_def collapsed_def dips_bit)
qed







definition demo_on :: pq_meter where
  "demo_on = (pq_boot demo_pq_levels (demo_pqevt 2) (log_empty itic_log0))\<lparr>pm_sagSt := 1, pm_online := True, pm_zxMonCnt := 20\<rparr>"

lemma demo_on_simps:
  "pm_sagSt demo_on = 1" "pm_online demo_on" "pm_zxMonCnt demo_on = 20" "only_sags demo_on"
  "log_ok (cl_event (pm_logs demo_on))" "pm_levels demo_on = demo_pq_levels"
  by (simp_all add: demo_on_def pq_boot_def only_sags_def pq_action_def demo_pqevt_def log_empty_ok)

lemma less_3: "(\<forall>i < (3::nat). P i) \<longleftrightarrow> P 0 \<and> P 1 \<and> P 2" "(\<exists>i < (3::nat). P i) \<longleftrightarrow> P 0 \<or> P 1 \<or> P 2"
  by (auto simp: less_Suc_eq eval_nat_numeral)


subsection \<open>Interruptions\<close>

lemma tracks_collapse:
  assumes "tracks m0 2 p m" "\<not> pm_online (pass_meter u c m) \<or> collapsed (pm_levels m0) u"
  obtains m' where "checkPqEvent cx mid now u c (m, v) = Some (m', v)" "tracks m0 3 p m'"
proof -
  let ?n = "pass_meter u c m"
  note t = tracks_pass_meter [OF assms(1), of u c]
  have h: "sag_handler cx mid now u (?n, v) = Some (sag_to_intr ?n, v)"
    using t(1) assms(2) interruption_iff [OF assms(1), of u c]
    by (simp add: tracks_def sag_handler_def sag_going_def Let_def)
  have "tracks m0 3 p (sag_to_intr ?n)"
    using t(1) by (auto simp: tracks_def sag_to_intr_def retag_caps_def put_caps_def only_sags_def pq_action_def)
  moreover have "pm_masks (sag_to_intr ?n) = pm_masks ?n"
    by (simp add: sag_to_intr_def)
  ultimately show ?thesis using tracks_pass [OF h _ _ assms(1)] that by metis
qed

lemma tracks_interrupted:
  assumes "tracks m0 3 p m" "\<not> recovered (pm_levels m0) u"
  obtains m' where "checkPqEvent cx mid now u c (m, v) = Some (m', v)" "tracks m0 3 p m'"
proof -
  let ?n = "pass_meter u c m"
  note t = tracks_pass_meter [OF assms(1), of u c]
  have h: "sag_handler cx mid now u (?n, v) = Some (?n, v)"
    using t(1,5) assms(2) by (simp add: tracks_def sag_handler_def Let_def)
  show ?thesis using tracks_pass [OF h t(1) refl assms(1)] that by metis
qed

lemma interrupted_run:
  assumes "tracks m0 3 p m" "\<forall>(now, u, c) \<in> set xs. \<not> recovered (pm_levels m0) u"
  shows "\<exists>m'. pq_passes cx mid (xs @ ys) (m, v) = pq_passes cx mid ys (m', v) \<and> tracks m0 3 p m'"
  using assms
proof (induction xs arbitrary: m)
  case (Cons x xs)
  obtain now u c where x: "x = (now, u, c)" by (cases x)
  then have "\<not> recovered (pm_levels m0) u" using Cons.prems(2) by auto
  then obtain m1 where "checkPqEvent cx mid now u c (m, v) = Some (m1, v)" "tracks m0 3 p m1"
    using tracks_interrupted [OF Cons.prems(1), of u cx mid now c v] by metis
  then show ?case using Cons.IH [of m1] Cons.prems(2) by (simp add: x)
qed auto

lemma tracks_intr_close:
  assumes "tracks m0 3 p m" "recovered (pm_levels m0) u" "log_ok (cl_event (pm_logs m0))"
    and "p1 = p\<lparr>pi_endTs := now, pi_type := if now - pi_startTs p < 60000 then E_sINTR else E_lINTR\<rparr>"
  obtains m' v' where "checkPqEvent cx mid now u c (m, v) = Some (m', v')"
    "history m' = take 1024 (event_entry cx mid p1 (pm_iticlog m0) # history m0)"
    "pm_sagSt m' = 1" "pm_count m' = (pm_count m0)\<lparr>pc_intr := pc_intr (pm_count m0) + 1\<rparr>"
proof -
  let ?n = "pass_meter u c m"
  note t = tracks_pass_meter [OF assms(1), of u c]
  have i: "pm_inf_sag ?n = p" "pm_sagSt ?n = 3" "pm_logs ?n = pm_logs m0" "pm_iticlog ?n = pm_iticlog m0"
    "pm_count ?n = pm_count m0" "only_sags ?n"
    using t(1) by (simp_all add: tracks_def)
  have h: "sag_handler cx mid now u (?n, v) = intr_close cx mid now (?n, v)"
    using i(2) t(5) assms(2) by (simp add: sag_handler_def Let_def)
  have "log_ok (cl_event (pm_logs (?n\<lparr>pm_inf_sag := p1\<rparr>)))" using i(3) assms(3) by simp
  then obtain f v' where f: "pushEvent cx mid p1 (?n\<lparr>pm_inf_sag := p1\<rparr>, v) =
      Some (?n\<lparr>pm_inf_sag := p1, pm_iticlog := event_entry cx mid p1 (pm_iticlog m0),
              pm_eventQ := eventq_add (il_event (event_entry cx mid p1 (pm_iticlog m0))) (pm_eventQ ?n),
              pm_logs := refresh_pages ((pm_logs m0)\<lparr>cl_event := f\<rparr>)\<rparr>, v')"
    "log_view f = take 1024 (event_entry cx mid p1 (pm_iticlog m0) # history m0)"
    by (rule pushEvent_ok [of _ cx mid p1 v]) (simp add: i)
  have p1: "p\<lparr>pi_endTs := now, pi_type := if now - pi_startTs p < 60000 then E_sINTR else E_lINTR\<rparr> = p1"
    by (simp only: assms(4))
  obtain m2 where m2: "sag_handler cx mid now u (?n, v) = Some (m2, v')" "only_sags m2" "pm_masks m2 = pm_masks ?n"
    "pm_sagSt m2 = 1" "pm_logs m2 = refresh_pages ((pm_logs m0)\<lparr>cl_event := f\<rparr>)"
    "pm_count m2 = (pm_count m0)\<lparr>pc_intr := pc_intr (pm_count m0) + 1\<rparr>"
    using f(1) i unfolding h
    by (cases "now - pi_startTs p < 60000")
      (auto simp: intr_close_def assms(4) Let_def only_sags_def pq_action_def)
  have k: "mk_swell (pm_masks m2) = 0" "mk_oc (pm_masks m2) = 0" using m2(3) t(3,4) by simp_all
  obtain sw oc where "checkPqEvent cx mid now u c (m, v) = Some (m2\<lparr>pm_swellSt := sw, pm_ocSt := oc\<rparr>, v')"
    using only_sags_pass [OF m2(1) [unfolded pass_meter_def] m2(2) k] by metis
  then show ?thesis by (rule that) (simp_all add: m2 f(2))
qed

text \<open>An interruption is told from a sag and classified by its length, but not measured: once
  the zero crossings have stopped or a phase has fallen below the interruption level, the passes
  up to the recovery add exactly one entry, short below 60 s and long from there on, that starts
  with the sag and counts as one interruption; its phases and voltages, however, are those
  collected before the collapse, whatever is measured during the interruption.\<close>

theorem interruption_is_classified:
  assumes "pm_sagSt m = 2" "only_sags m" "log_ok (cl_event (pm_logs m))"
    and "pm_zxMonCnt m = 0 \<or> collapsed (pm_levels m) u0"
    and "\<forall>(now, u, c) \<in> set xs. \<not> recovered (pm_levels m) u"
    and "recovered (pm_levels m) u1" "p = pm_inf_sag m"
  shows "\<exists>m' v' l. pq_passes cx mid ((t0, u0, c0) # xs @ [(t1, u1, c1)]) (m, v) = Some (m', v') \<and>
    history m' = take 1024 (l # history m) \<and>
    el_type (il_event l) = (if t1 - pi_startTs p < 60000 then E_sINTR else E_lINTR) \<and>
    el_startTs (il_event l) = ucast (pi_startTs p div 1000) \<and>
    el_duration (il_event l) = event_duration (pi_startTs p) t1 \<and>
    el_mask (il_event l) = pi_mask p \<and> el_level (il_event l) = map (scaleVrms cx mid) (pi_Val p) \<and>
    pm_sagSt m' = 1 \<and> pc_intr (pm_count m') = pc_intr (pm_count m) + 1"
proof -
  define p1 where "p1 = p\<lparr>pi_endTs := t1, pi_type := if t1 - pi_startTs p < 60000 then E_sINTR else E_lINTR\<rparr>"
  have tr: "tracks m 2 p m" using assms(1,2,7) by (simp add: tracks_def)
  have "\<not> pm_online (pass_meter u0 c0 m) \<or> collapsed (pm_levels m) u0"
    using assms(4) by (auto simp: pass_meter_def update_online_def Let_def)
  then obtain m1 where m1: "checkPqEvent cx mid t0 u0 c0 (m, v) = Some (m1, v)" "tracks m 3 p m1"
    using tracks_collapse [OF tr, of u0 c0 cx mid t0 v] by metis
  obtain m2 where m2: "pq_passes cx mid (xs @ [(t1, u1, c1)]) (m1, v) = pq_passes cx mid [(t1, u1, c1)] (m2, v)"
    "tracks m 3 p m2"
    using interrupted_run [OF m1(2) assms(5), of cx mid "[(t1, u1, c1)]" v] by metis
  obtain m3 v' where m3: "checkPqEvent cx mid t1 u1 c1 (m2, v) = Some (m3, v')"
    "history m3 = take 1024 (event_entry cx mid p1 (pm_iticlog m) # history m)" "pm_sagSt m3 = 1"
    "pm_count m3 = (pm_count m)\<lparr>pc_intr := pc_intr (pm_count m) + 1\<rparr>"
    using tracks_intr_close [OF m2(2) assms(6,3) p1_def, of cx mid c1 v] by metis
  show ?thesis
    by (intro exI [of _ m3] exI [of _ v'] exI [of _ "event_entry cx mid p1 (pm_iticlog m)"])
      (simp add: m1(1) m2(1) m3 event_entry_def p1_def Let_def)
qed

definition demo_sagging :: pq_meter where
  "demo_sagging = demo_on\<lparr>pm_sagSt := 2,
     pm_inf_sag := \<lparr>pi_startTs = 1500, pi_endTs = 0, pi_mask = 1, pi_type = 0, pi_Val = [150, 220, 220]\<rparr>\<rparr>"

theorem interruption_is_classified_witness:
  "\<exists>m' v' l. pq_passes demo_pq_ctx 1 ((1510, [5, 0, 0], []) # [(1520, [0, 0, 0], [])] @ [(70000, [215, 215, 215], [])])
      (demo_sagging, demo_pq_env) = Some (m', v') \<and>
    history m' = take 1024 (l # history demo_sagging) \<and>
    el_type (il_event l) = (if 70000 - pi_startTs (pm_inf_sag demo_sagging) < 60000 then E_sINTR else E_lINTR) \<and>
    el_startTs (il_event l) = ucast (pi_startTs (pm_inf_sag demo_sagging) div 1000) \<and>
    el_duration (il_event l) = event_duration (pi_startTs (pm_inf_sag demo_sagging)) 70000 \<and>
    el_mask (il_event l) = pi_mask (pm_inf_sag demo_sagging) \<and>
    el_level (il_event l) = map (scaleVrms demo_pq_ctx 1) (pi_Val (pm_inf_sag demo_sagging)) \<and>
    pm_sagSt m' = 1 \<and> pc_intr (pm_count m') = pc_intr (pm_count demo_sagging) + 1"
  by (rule interruption_is_classified [OF _ _ _ _ _ _ refl])
    (use demo_on_simps in \<open>simp_all add: demo_sagging_def only_sags_def pq_action_def collapsed_def recovered_def
      less_3 demo_pq_levels_def\<close>)

subsection \<open>The recovery of an over-current\<close>

text \<open>
  The recovery mask of over-currents is never cleared, so it only grows; once each phase has been
  below the recovery level in some pass, at whatever time, every later over-current ends with the
  first pass in which no phase exceeds the limit, without any phase having recovered.
\<close>

lemma oc_recovery_mask_grows: "bit (mk_ocRet (pm_masks m)) i \<Longrightarrow> bit (mk_ocRet (make_masks u c m)) i"
  by (simp add: make_masks_def Let_def or_bits_bit)

lemma oc_ends_without_recovery:
  assumes "pm_ocSt m = 2" "mk_oc (pm_masks m) = 0" "mk_ocRet (pm_masks m) = 7" "log_ok (cl_event (pm_logs m))"
  shows "\<exists>m' v'. oc_handler cx mid now c (m, v) = Some (m', v') \<and> pm_ocSt m' = 3"
proof -
  define p where "p = (pm_inf_oc m)\<lparr>pi_endTs := now, pi_type := E_OC\<rparr>"
  have "log_ok (cl_event (pm_logs (m\<lparr>pm_inf_oc := p\<rparr>)))" using assms(4) by simp
  then obtain m' v' where "pushEvent cx mid p (m\<lparr>pm_inf_oc := p\<rparr>, v) = Some (m', v')"
    by (rule pushEvent_ok)
  then show ?thesis using assms by (simp add: oc_handler_def p_def Let_def)
qed

subsection \<open>Taking wave captures\<close>

text \<open>
  The loop of the wave task over its capture queue: an event older than the ring of wave windows
  is dropped; one whose surroundings are complete is captured, unless a running sag may still turn
  into an interruption and the ring holds the data for a while; otherwise the loop stops. It is
  a loop over shared indices; not returning is \<open>None\<close>.
\<close>

partial_function (option) wave_caps ::
  "nat \<Rightarrow> u64 \<Rightarrow> u64 \<Rightarrow> u64 \<Rightarrow> u64 \<Rightarrow> (u64 \<times> u16) list \<Rightarrow> cap_q \<Rightarrow> ((u64 \<times> u16) list \<times> cap_q) option" where
  "wave_caps sagSt newestEnd oldestTs pre_ms post_ms acc q =
     (if kq_fr q = kq_re q then Some (acc, q)
      else let ev = kq_Q q ! kq_re q; q1 = q\<lparr>kq_re := (kq_re q + 1) mod 8\<rparr>
           in if fst ev < oldestTs then wave_caps sagSt newestEnd oldestTs pre_ms post_ms acc q1
              else if fst ev + post_ms < newestEnd
              then (if sagSt = 2 \<and> fst ev > oldestTs + pre_ms + 200 then Some (acc, q)
                    else wave_caps sagSt newestEnd oldestTs pre_ms post_ms (acc @ [ev]) q1)
              else Some (acc, q))"

definition cap_waits :: "nat \<Rightarrow> u64 \<Rightarrow> u64 \<Rightarrow> u64 \<Rightarrow> u64 \<Rightarrow> u64 \<times> u16 \<Rightarrow> bool" where
  "cap_waits sagSt newestEnd oldestTs pre_ms post_ms ev \<longleftrightarrow> \<not> fst ev < oldestTs \<and>
     (\<not> fst ev + post_ms < newestEnd \<or> sagSt = 2 \<and> fst ev > oldestTs + pre_ms + 200)"

lemma wave_caps_pending:
  assumes "cap_q_ok q"
  shows "\<exists>q'. wave_caps sagSt newestEnd oldestTs pre_ms post_ms acc q =
      Some (acc @ filter (\<lambda>e. \<not> fst e < oldestTs)
        (takeWhile (\<lambda>e. \<not> cap_waits sagSt newestEnd oldestTs pre_ms post_ms e) (cap_pending q)), q') \<and>
    cap_pending q' = dropWhile (\<lambda>e. \<not> cap_waits sagSt newestEnd oldestTs pre_ms post_ms e) (cap_pending q) \<and>
    cap_q_ok q'"
  using assms
proof (induction "cap_pending q" arbitrary: q acc)
  case Nil
  then have "kq_fr q = kq_re q"
    using capq.get_empty [OF Nil.prems] by (auto simp: takeEventCap_def split: if_splits)
  then show ?case using Nil by (simp add: wave_caps.simps)
next
  case (Cons ev es)
  let ?q1 = "q\<lparr>kq_re := (kq_re q + 1) mod 8\<rparr>"
  have ne: "kq_fr q \<noteq> kq_re q"
    using capq.get_empty [OF Cons.prems] Cons.hyps(2) by (auto simp: takeEventCap_def split: if_splits)
  then have t: "takeEventCap q = Some (kq_Q q ! kq_re q, ?q1)" by (simp add: takeEventCap_def)
  from capq.get_head [OF Cons.prems t] have q1: "kq_Q q ! kq_re q = ev" "cap_pending ?q1 = es" "cap_q_ok ?q1"
    using Cons.hyps(2) by auto
  show ?case
  proof (cases "cap_waits sagSt newestEnd oldestTs pre_ms post_ms ev")
    case True
    then have "wave_caps sagSt newestEnd oldestTs pre_ms post_ms acc q = Some (acc, q)"
      using ne by (auto simp: wave_caps.simps [of _ _ _ _ _ _ q] q1(1) Let_def cap_waits_def)
    then show ?thesis using True Cons.prems Cons.hyps(2) [symmetric] by simp
  next
    case False
    then have "wave_caps sagSt newestEnd oldestTs pre_ms post_ms acc q =
        wave_caps sagSt newestEnd oldestTs pre_ms post_ms (if fst ev < oldestTs then acc else acc @ [ev]) ?q1"
      using ne by (auto simp: wave_caps.simps [of _ _ _ _ _ _ q] q1(1) Let_def cap_waits_def)
    then show ?thesis
      using Cons.hyps(1) [OF q1(2) [symmetric] q1(3), of "if fst ev < oldestTs then acc else acc @ [ev]"]
        False Cons.hyps(2) [symmetric] q1(2) by (auto split: if_splits)
  qed
qed

text \<open>
  The loop is not alone: the metering task puts new events into the queue, renames the last one
  and moves the sag state while it runs. \<open>env i\<close> is what that task does before the i-th test of
  the loop: the sag state it leaves and its operations on the queue.
\<close>

datatype cap_op = Put_Cap "u64 \<times> u16" | Retag_Cap u16 u16

fun do_cap_op :: "cap_op \<Rightarrow> cap_q \<Rightarrow> cap_q" where
  "do_cap_op (Put_Cap ev) q = putEventCap ev q"
| "do_cap_op (Retag_Cap a b) q = updateLastCapType a b q"

partial_function (option) wave_caps_among ::
  "(nat \<Rightarrow> nat \<times> cap_op list) \<Rightarrow> nat \<Rightarrow> u64 \<Rightarrow> u64 \<Rightarrow> u64 \<Rightarrow> u64 \<Rightarrow> (u64 \<times> u16) list \<Rightarrow> cap_q \<Rightarrow>
     ((u64 \<times> u16) list \<times> cap_q) option" where
  "wave_caps_among env i newestEnd oldestTs pre_ms post_ms acc q0 =
     (let sagSt = fst (env i); q = fold do_cap_op (snd (env i)) q0
      in if kq_fr q = kq_re q then Some (acc, q)
         else let ev = kq_Q q ! kq_re q; q1 = q\<lparr>kq_re := (kq_re q + 1) mod 8\<rparr>
              in if fst ev < oldestTs then wave_caps_among env (i + 1) newestEnd oldestTs pre_ms post_ms acc q1
                 else if fst ev + post_ms < newestEnd
                 then (if sagSt = 2 \<and> fst ev > oldestTs + pre_ms + 200 then Some (acc, q)
                       else wave_caps_among env (i + 1) newestEnd oldestTs pre_ms post_ms (acc @ [ev]) q1)
                 else Some (acc, q))"

text \<open>Events the loop cannot take in this turn, whatever the sag state is.\<close>

definition too_young :: "u64 \<Rightarrow> u64 \<Rightarrow> u64 \<Rightarrow> u64 \<Rightarrow> bool" where
  "too_young newestEnd oldestTs post_ms t \<longleftrightarrow> \<not> t < oldestTs \<and> \<not> t + post_ms < newestEnd"

lemma retag_times: "cap_q_ok q \<Longrightarrow> map fst (cap_pending (updateLastCapType a b q)) = map fst (cap_pending q)"
  by (auto simp: updateLastCapType_def cap_pending_def ring_items_def cap_q_ok_def Let_def nth_list_update)

lemma cap_op_adds:
  assumes "cap_q_ok q"
  shows "cap_q_ok (do_cap_op x q) \<and> (\<exists>ar. map fst (cap_pending (do_cap_op x q)) = map fst (cap_pending q) @ ar \<and>
    (\<forall>t \<in> set ar. \<exists>ty. x = Put_Cap (t, ty)))"
proof (cases x)
  case (Put_Cap ev)
  have "cap_pending (putEventCap ev q) \<in> {cap_pending q @ [ev], cap_pending q}"
    using capq.put_items [OF assms, of ev] capq.put_full [OF assms, of ev] capq.items_le_cap [OF assms]
    by (cases "length (cap_pending q) < 7") auto
  then show ?thesis using capq.put_inv [OF assms, of ev] Put_Cap
    by (cases ev) (auto intro: exI [of _ "[fst ev]"] exI [of _ "[]"])
next
  case (Retag_Cap a b)
  then show ?thesis using retag_times [OF assms] updateLastCapType_ok [OF assms] by simp
qed

lemma cap_ops_add:
  assumes "cap_q_ok q" "\<forall>t ty. Put_Cap (t, ty) \<in> set ops \<longrightarrow> P t"
  shows "cap_q_ok (fold do_cap_op ops q) \<and>
    (\<exists>ar. map fst (cap_pending (fold do_cap_op ops q)) = map fst (cap_pending q) @ ar \<and> (\<forall>t \<in> set ar. P t))"
  using assms
proof (induction ops arbitrary: q)
  case (Cons x ops)
  obtain ar where x: "cap_q_ok (do_cap_op x q)" "map fst (cap_pending (do_cap_op x q)) = map fst (cap_pending q) @ ar"
    and put: "\<forall>t \<in> set ar. \<exists>ty. x = Put_Cap (t, ty)"
    using cap_op_adds [OF Cons.prems(1), of x] by blast
  have young: "\<forall>t \<in> set ar. P t" using put Cons.prems(2) by (metis list.set_intros(1))
  obtain ar' where "cap_q_ok (fold do_cap_op ops (do_cap_op x q))"
    "map fst (cap_pending (fold do_cap_op ops (do_cap_op x q))) = (map fst (cap_pending q) @ ar) @ ar'" "\<forall>t \<in> set ar'. P t"
    using Cons.IH [OF x(1)] Cons.prems(2) x(2) by auto
  then show ?case using young by (intro conjI exI [of _ "ar @ ar'"]) auto
qed auto

lemma waits_if_young: "too_young newestEnd oldestTs post_ms (fst ev) \<Longrightarrow> cap_waits sagSt newestEnd oldestTs pre_ms post_ms ev"
  by (simp add: too_young_def cap_waits_def)

lemma waves_among_pending:
  assumes "cap_q_ok q" "\<forall>i t ty. Put_Cap (t, ty) \<in> set (snd (env i)) \<longrightarrow> too_young newestEnd oldestTs post_ms t"
    and "map fst (cap_pending q) = es @ ar" "\<forall>t \<in> set ar. too_young newestEnd oldestTs post_ms t"
  shows "\<exists>evs q' n ar'. wave_caps_among env i newestEnd oldestTs pre_ms post_ms acc q = Some (acc @ evs, q') \<and> cap_q_ok q' \<and>
    n \<le> length es \<and> map fst evs = filter (\<lambda>t. \<not> t < oldestTs) (take n es) \<and>
    map fst (cap_pending q') = drop n es @ ar' \<and> (\<forall>t \<in> set ar'. too_young newestEnd oldestTs post_ms t) \<and>
    (\<forall>e \<in> set evs. fst e + post_ms < newestEnd) \<and>
    (cap_pending q' = [] \<or> cap_waits (fst (env (i + n))) newestEnd oldestTs pre_ms post_ms (hd (cap_pending q')))"
  using assms(1,3,4)
proof (induction es arbitrary: i q ar acc)
  case Nil
  obtain ar' where q1: "cap_q_ok (fold do_cap_op (snd (env i)) q)" (is "cap_q_ok ?q1")
    "map fst (cap_pending (fold do_cap_op (snd (env i)) q)) = ar @ ar'" "\<forall>t \<in> set ar'. too_young newestEnd oldestTs post_ms t"
    using cap_ops_add [OF Nil.prems(1), of "snd (env i)" "too_young newestEnd oldestTs post_ms"] assms(2) Nil.prems(2) by auto
  have young: "\<forall>t \<in> set (ar @ ar'). too_young newestEnd oldestTs post_ms t" using q1(3) Nil.prems(3) by auto
  have "wave_caps_among env i newestEnd oldestTs pre_ms post_ms acc q = Some (acc, ?q1)"
  proof (cases "cap_pending ?q1")
    case Nil
    then have "kq_fr ?q1 = kq_re ?q1" using capq.get_empty [OF q1(1)] by (auto simp: takeEventCap_def split: if_splits)
    then show ?thesis by (simp add: wave_caps_among.simps [of env i] Let_def)
  next
    case (Cons ev rest)
    then have t: "too_young newestEnd oldestTs post_ms (fst ev)" using young q1(2) by (metis list.set_intros(1) list.simps(9))
    have ne: "kq_fr ?q1 \<noteq> kq_re ?q1" using capq.get_empty [OF q1(1)] Cons by (auto simp: takeEventCap_def split: if_splits)
    then have "kq_Q ?q1 ! kq_re ?q1 = ev"
      using capq.get_head [OF q1(1), of "kq_Q ?q1 ! kq_re ?q1"] Cons by (simp add: takeEventCap_def)
    then show ?thesis using ne t by (simp add: wave_caps_among.simps [of env i] Let_def too_young_def)
  qed
  moreover have "cap_pending ?q1 = [] \<or> cap_waits s newestEnd oldestTs pre_ms post_ms (hd (cap_pending ?q1))" for s
  proof (cases "cap_pending ?q1")
    case (Cons ev rest)
    then have "fst ev \<in> set (ar @ ar')" using q1(2) by (metis list.set_intros(1) list.simps(9))
    then show ?thesis using young waits_if_young Cons by simp
  qed simp
  ultimately show ?case using q1 young by (intro exI [of _ "[]"] exI [of _ ?q1] exI [of _ 0] exI [of _ "ar @ ar'"]) simp
next
  case (Cons t es)
  obtain ar' where q1: "cap_q_ok (fold do_cap_op (snd (env i)) q)" (is "cap_q_ok ?q1")
    "map fst (cap_pending (fold do_cap_op (snd (env i)) q)) = (t # es) @ ar @ ar'" "\<forall>t \<in> set ar'. too_young newestEnd oldestTs post_ms t"
    using cap_ops_add [OF Cons.prems(1), of "snd (env i)" "too_young newestEnd oldestTs post_ms"] assms(2) Cons.prems(2) by auto
  have young: "\<forall>t \<in> set (ar @ ar'). too_young newestEnd oldestTs post_ms t" using q1(3) Cons.prems(3) by auto
  obtain ev rest where p: "cap_pending ?q1 = ev # rest" "fst ev = t" "map fst rest = es @ ar @ ar'" using q1(2) by (auto simp: map_eq_Cons_conv)
  let ?q2 = "?q1\<lparr>kq_re := (kq_re ?q1 + 1) mod 8\<rparr>"
  have ne: "kq_fr ?q1 \<noteq> kq_re ?q1" using capq.get_empty [OF q1(1)] p(1) by (auto simp: takeEventCap_def split: if_splits)
  then have tk: "takeEventCap ?q1 = Some (kq_Q ?q1 ! kq_re ?q1, ?q2)" by (simp add: takeEventCap_def)
  from capq.get_head [OF q1(1) tk] have q2: "kq_Q ?q1 ! kq_re ?q1 = ev" "cap_pending ?q2 = rest" "cap_q_ok ?q2" using p(1) by auto
  show ?case
  proof (cases "cap_waits (fst (env i)) newestEnd oldestTs pre_ms post_ms ev")
    case True
    then have "wave_caps_among env i newestEnd oldestTs pre_ms post_ms acc q = Some (acc, ?q1)"
      using ne q2(1) by (auto simp: wave_caps_among.simps [of env i] Let_def cap_waits_def)
    then show ?thesis using True q1 young p
      by (intro exI [of _ "[]"] exI [of _ ?q1] exI [of _ 0] exI [of _ "ar @ ar'"]) simp
  next
    case False
    let ?acc = "if fst ev < oldestTs then acc else acc @ [ev]"
    have step: "wave_caps_among env i newestEnd oldestTs pre_ms post_ms acc q =
        wave_caps_among env (i + 1) newestEnd oldestTs pre_ms post_ms ?acc ?q2"
      using ne q2(1) False by (auto simp: wave_caps_among.simps [of env i] Let_def cap_waits_def)
    have rest: "map fst (cap_pending ?q2) = es @ ar @ ar'" using q2(2) p(3) by simp
    from Cons.IH [OF q2(3) rest young, of "i + 1" ?acc]
    obtain evs q' n ar2 where IH: "wave_caps_among env (i + 1) newestEnd oldestTs pre_ms post_ms ?acc ?q2 = Some (?acc @ evs, q')"
      "cap_q_ok q'" "n \<le> length es" "map fst evs = filter (\<lambda>t. \<not> t < oldestTs) (take n es)"
      "map fst (cap_pending q') = drop n es @ ar2" "\<forall>t \<in> set ar2. too_young newestEnd oldestTs post_ms t"
      "\<forall>e \<in> set evs. fst e + post_ms < newestEnd"
      "cap_pending q' = [] \<or> cap_waits (fst (env (i + 1 + n))) newestEnd oldestTs pre_ms post_ms (hd (cap_pending q'))"
      by blast
    have fresh: "\<not> fst ev < oldestTs \<Longrightarrow> fst ev + post_ms < newestEnd" using False by (simp add: cap_waits_def)
    show ?thesis
      using IH step p(2) fresh
      by (intro exI [of _ "if fst ev < oldestTs then evs else ev # evs"] exI [of _ q'] exI [of _ "n + 1"] exI [of _ ar2]) auto
  qed
qed

text \<open>Alone, it is the loop as it is used in a pass of the wave task.\<close>

lemma wave_caps_alone:
  assumes "cap_q_ok q"
  shows "wave_caps_among (\<lambda>_. (sagSt, [])) i newestEnd oldestTs pre_ms post_ms acc q =
    wave_caps sagSt newestEnd oldestTs pre_ms post_ms acc q"
  using assms
proof (induction "length (cap_pending q)" arbitrary: i q acc)
  case 0
  then have "kq_fr q = kq_re q" using capq.get_empty [OF 0(2)] by (auto simp: takeEventCap_def split: if_splits)
  then show ?case by (simp add: wave_caps_among.simps [of _ i] wave_caps.simps)
next
  case (Suc n)
  let ?q1 = "q\<lparr>kq_re := (kq_re q + 1) mod 8\<rparr>"
  have ne: "kq_fr q \<noteq> kq_re q" using capq.get_empty [OF Suc.prems] Suc(2) by (auto simp: takeEventCap_def split: if_splits)
  have "cap_pending q = kq_Q q ! kq_re q # cap_pending ?q1" "cap_q_ok ?q1"
    using capq.get_head [OF Suc.prems, of "kq_Q q ! kq_re q" ?q1] ne by (auto simp: takeEventCap_def)
  then have "wave_caps_among (\<lambda>_. (sagSt, [])) (i + 1) newestEnd oldestTs pre_ms post_ms a ?q1 =
      wave_caps sagSt newestEnd oldestTs pre_ms post_ms a ?q1" for a
    using Suc(1) [of ?q1 "i + 1" a] Suc(2) by simp
  note IH = this
  show ?case
    by (subst wave_caps_among.simps, subst wave_caps.simps) (simp add: ne IH [unfolded Suc_eq_plus1 [symmetric]] Let_def)
qed

text \<open>C32. The wave task always gets through its capture queue, although the metering task acts on it
  and on the sag state before every test of the loop: it returns for every endless sequence of
  such actions (new events, of which those that find the queue full are lost, renamings of the
  last event and any sag states), provided the new events are younger than the window that has
  just ended, that is, not older than the ring and not yet followed by their post time. It
  captures the events that were queued when it started in their order, skipping exactly those the ring no longer holds, up to a
  number n; the rest of them stay queued, and behind them come only new events. It has stopped
  because the queue is empty or because its first event has to wait in the sag state at that
  moment, and every captured event has its post time on record.\<close>

theorem wave_capture_loop_returns:
  assumes "cap_q_ok q"
    and "\<forall>i t ty. Put_Cap (t, ty) \<in> set (snd (env i)) \<longrightarrow> \<not> t < oldestTs \<and> \<not> t + post_ms < newestEnd"
  shows "\<exists>evs q' n new. wave_caps_among env 0 newestEnd oldestTs pre_ms post_ms [] q = Some (evs, q') \<and> cap_q_ok q' \<and>
    n \<le> length (cap_pending q) \<and> map fst evs = filter (\<lambda>t. \<not> t < oldestTs) (map fst (take n (cap_pending q))) \<and>
    map fst (cap_pending q') = map fst (drop n (cap_pending q)) @ new \<and>
    (\<forall>t \<in> set new. \<not> t < oldestTs \<and> \<not> t + post_ms < newestEnd) \<and>
    (\<forall>e \<in> set evs. fst e + post_ms < newestEnd) \<and>
    (cap_pending q' = [] \<or> (let t = fst (hd (cap_pending q')) in \<not> t < oldestTs \<and>
       (\<not> t + post_ms < newestEnd \<or> fst (env n) = 2 \<and> t > oldestTs + pre_ms + 200)))"
proof -
  have "\<forall>i t ty. Put_Cap (t, ty) \<in> set (snd (env i)) \<longrightarrow> too_young newestEnd oldestTs post_ms t"
    using assms(2) by (simp add: too_young_def)
  from waves_among_pending [OF assms(1) this, of "map fst (cap_pending q)" "[]" 0 pre_ms "[]"]
  show ?thesis by (simp add: too_young_def cap_waits_def Let_def take_map drop_map)
qed

definition demo_caps :: cap_q where
  "demo_caps = fold putEventCap [(900, E_SAG), (1500, E_SAG), (2900, E_SWELL)] cap_q_empty"

text \<open>The first event is too old, the second is captured, the third waits; a fourth comes and a sag
  begins while the loop runs.\<close>

theorem wave_capture_loop_returns_witness:
  "\<exists>evs q' n. wave_caps_among (\<lambda>i. (if i < 2 then 1 else 2, if i = 1 then [Put_Cap (3000, E_SAG)] else [])) 0 3000 1000 200 400 [] demo_caps =
      Some (evs, q') \<and> n \<le> 3 \<and> map fst evs = filter (\<lambda>t. \<not> t < 1000) (take n [900, 1500, 2900])"
proof -
  let ?env = "\<lambda>i. (if i < 2 then 1 else 2, if i = 1 then [Put_Cap (3000, E_SAG)] else []) :: nat \<times> cap_op list"
  have ok: "cap_q_ok demo_caps" by (simp add: demo_caps_def cap_q_empty_def cap_q_ok_def putEventCap_def Let_def)
  have p: "cap_pending demo_caps = [(900, E_SAG), (1500, E_SAG), (2900, E_SWELL)]"
    by (simp add: demo_caps_def cap_q_empty_def cap_pending_def ring_items_def putEventCap_def Let_def upt_rec)
  have young: "\<forall>i t ty. Put_Cap (t, ty) \<in> set (snd (?env i)) \<longrightarrow> \<not> t < 1000 \<and> \<not> t + 400 < (3000 :: u64)"
    by auto
  from wave_capture_loop_returns [OF ok young, of 200] obtain evs q' n where
    "wave_caps_among ?env 0 3000 1000 200 400 [] demo_caps = Some (evs, q')"
    "n \<le> length (cap_pending demo_caps)" "map fst evs = filter (\<lambda>t. \<not> t < 1000) (map fst (take n (cap_pending demo_caps)))"
    by blast
  moreover have "map fst (take n (cap_pending demo_caps)) = take n [900, 1500, 2900]" by (simp add: p take_map [symmetric])
  ultimately show ?thesis unfolding p by (intro exI [of _ evs] exI [of _ q'] exI [of _ n]) simp
qed

end
