(* ===== verification/Web.thy ===== *)
theory Web
  imports Modbus FsTask
begin

text \<open>
  The web interface (\<open>web.c\<close>): signed session tokens, the small parsers of request data, the
  handlers that change the device and the router in front of them; with the firmware file
  functions of \<open>FS.c\<close>. HMAC-SHA1 is the parameter \<open>wx_hmac\<close>; the texts of replies are reduced to
  what they report, and the read-only reports to their name.
\<close>

subsection \<open>C strings\<close>

abbreviation (input) NUL :: char where "NUL \<equiv> CHR 0x00"
abbreviation (input) DQ :: char where "DQ \<equiv> CHR 0x22"
abbreviation (input) BSL :: char where "BSL \<equiv> CHR 0x5C"

definition cstr :: "string \<Rightarrow> string" where
  "cstr s = takeWhile (\<lambda>c. c \<noteq> NUL) s"

text \<open>A pointer into a string is the rest of the string from there.\<close>

definition strchr :: "char \<Rightarrow> string \<Rightarrow> string option" where
  "strchr c s = (case dropWhile (\<lambda>x. x \<noteq> c) s of [] \<Rightarrow> None | p \<Rightarrow> Some p)"

fun strstr :: "string \<Rightarrow> string \<Rightarrow> string option" where
  "strstr pat [] = (if pat = [] then Some [] else None)"
| "strstr pat (c # cs) = (if take (length pat) (c # cs) = pat then Some (c # cs) else strstr pat cs)"

definition isspace :: "char \<Rightarrow> bool" where
  "isspace c \<longleftrightarrow> of_char c = (32 :: nat) \<or> 9 \<le> (of_char c :: nat) \<and> of_char c \<le> (13 :: nat)"

definition dec_val :: "string \<Rightarrow> nat" where
  "dec_val s = foldl (\<lambda>v c. 10 * v + (of_char c - 48)) 0 (takeWhile is_digit s)"

definition sign_skip :: "string \<Rightarrow> bool \<times> string" where
  "sign_skip s =
     (case dropWhile isspace s of
        [] \<Rightarrow> (False, [])
      | c # r \<Rightarrow> if c = CHR ''-'' then (True, r) else if c = CHR ''+'' then (False, r) else (False, c # r))"

definition strtoul :: "string \<Rightarrow> u32" where
  "strtoul s =
     (let (neg, r) = sign_skip s; v = dec_val r
      in if v > 2 ^ 32 - 1 then -1 else if neg then - of_nat v else of_nat v)"

definition atoi :: "string \<Rightarrow> int" where
  "atoi s =
     (let (neg, r) = sign_skip s; v = int (dec_val r)
      in if neg then max (- (2 ^ 31)) (- v) else min (2 ^ 31 - 1) v)"

subsection \<open>State\<close>

record web_ctx =
  wx_hmac :: "bytes \<Rightarrow> string \<Rightarrow> bytes"
  wx_copyWave :: "nat \<Rightarrow> regs \<Rightarrow> regs"
  wx_hdr_ok :: bool
  wx_mounted :: bool
  wx_open :: bool
  wx_fwrite :: "nat \<Rightarrow> bool"

record web_state =
  wb_mb :: mb
  wb_key :: bytes
  wb_now :: u32
  wb_usrApp :: "string option"
  wb_reboot :: int

record web_request =
  rq_post :: bool
  rq_uri :: string
  rq_query :: string
  rq_cookie :: string
  rq_length :: nat
  rq_chunks :: "string option list"

datatype web_reply =
    Page
  | Write_Failed
  | Not_Found
  | Err nat
  | Done bool
  | Login u8 string string
  | Logout
  | Me u8
  | Words "u16 list"
  | Fw_Saved nat int
  | Fw_Status int
  | Rebooting
  | Report string

abbreviation (input) ROLE_NONE :: u8 where "ROLE_NONE \<equiv> 0"
abbreviation (input) ROLE_VIEWER :: u8 where "ROLE_VIEWER \<equiv> 1"
abbreviation (input) ROLE_ADMIN :: u8 where "ROLE_ADMIN \<equiv> 2"
abbreviation WEB_TOK_LEN :: nat where "WEB_TOK_LEN \<equiv> 26"
abbreviation (input) WEB_SESS_TTL :: u32 where "WEB_SESS_TTL \<equiv> 28800"
abbreviation (input) WEB_KEY_LEN :: nat where "WEB_KEY_LEN \<equiv> 16"

subsection \<open>Tokens\<close>

text \<open>The device key is read once; a missing or short file is replaced by a fresh key.\<close>

definition webRand :: "u32 \<Rightarrow> u32" where
  "webRand x0 =
     (let x1 = x0 XOR push_bit 13 x0; x2 = x1 XOR drop_bit 17 x1 in x2 XOR push_bit 5 x2)"

fun rand_key :: "nat \<Rightarrow> u32 \<Rightarrow> bytes \<times> u32" where
  "rand_key 0 x = ([], x)"
| "rand_key (Suc n) x =
     (let y = webRand x; (k, z) = rand_key n y in (ucast (drop_bit 13 y) # k, z))"

definition webKeyLoad :: "bool \<Rightarrow> u32 \<Rightarrow> bytes option \<Rightarrow> bytes \<times> u32 \<times> bytes option" where
  "webKeyLoad can_write rnd file =
     (case file of
        Some bs \<Rightarrow>
          if length (take WEB_KEY_LEN bs) = WEB_KEY_LEN then (take WEB_KEY_LEN bs, rnd, file)
          else let (k, r) = rand_key WEB_KEY_LEN rnd in (k, r, if can_write then Some k else file)
      | None \<Rightarrow> let (k, r) = rand_key WEB_KEY_LEN rnd in (k, r, if can_write then Some k else None))"

definition hx :: "nat \<Rightarrow> char" where
  "hx i = ''0123456789abcdef'' ! i"

definition webSign :: "web_ctx \<Rightarrow> bytes \<Rightarrow> string \<Rightarrow> string" where
  "webSign cx key head =
     concat (map (\<lambda>d. [hx (unat (drop_bit 4 d)), hx (unat (d AND 0xf))]) (take 8 (wx_hmac cx key (take 10 head))))"

text \<open>\<open>%02x\<close> and \<open>%08x\<close> for arguments that fit.\<close>

fun hex_digits :: "nat \<Rightarrow> nat \<Rightarrow> string" where
  "hex_digits 0 v = []"
| "hex_digits (Suc n) v = hex_digits n (v div 16) @ [hx (v mod 16)]"

definition webMakeToken :: "web_ctx \<Rightarrow> bytes \<Rightarrow> u32 \<Rightarrow> u8 \<Rightarrow> string" where
  "webMakeToken cx key now role =
     (let head = hex_digits 2 (unat role) @ hex_digits 8 (unat (now + WEB_SESS_TTL))
      in head @ webSign cx key head)"

definition hex_nibble :: "char \<Rightarrow> u32 option" where
  "hex_nibble ch =
     (let c = of_char ch :: nat
      in if 48 \<le> c \<and> c \<le> 57 then Some (of_nat (c - 48))
         else if 97 \<le> c \<and> c \<le> 102 then Some (of_nat (c - 87))
         else if 65 \<le> c \<and> c \<le> 70 then Some (of_nat (c - 55))
         else None)"

fun hexParse_loop :: "string \<Rightarrow> u32 \<Rightarrow> u32 option" where
  "hexParse_loop [] v = Some v"
| "hexParse_loop (c # cs) v =
     (case hex_nibble c of None \<Rightarrow> None | Some d \<Rightarrow> hexParse_loop cs (push_bit 4 v OR d))"

definition hexParse :: "string \<Rightarrow> nat \<Rightarrow> u32 option" where
  "hexParse s n = hexParse_loop (take n s) 0"

definition webVerifyToken :: "web_ctx \<Rightarrow> bytes \<Rightarrow> u32 \<Rightarrow> string \<Rightarrow> u8" where
  "webVerifyToken cx key now tok =
     (if length tok \<noteq> WEB_TOK_LEN then ROLE_NONE
      else case (hexParse tok 2, hexParse (drop 2 tok) 8) of
        (Some role, Some ex) \<Rightarrow>
          if role \<noteq> 1 \<and> role \<noteq> 2 then ROLE_NONE
          else if webSign cx key (take 10 tok) \<noteq> take 16 (drop 10 tok) then ROLE_NONE
          else if sint (ex - now) \<le> 0 then ROLE_NONE
          else ucast role
      | _ \<Rightarrow> ROLE_NONE)"

definition cookie_skip :: "string \<Rightarrow> string" where
  "cookie_skip p = dropWhile (\<lambda>c. c = CHR '' '' \<or> c = CHR '';'') p"

definition cookie_next :: "string \<Rightarrow> string" where
  "cookie_next q = dropWhile (\<lambda>c. c \<noteq> CHR '';'') q"

definition cookie_value :: "nat \<Rightarrow> string \<Rightarrow> string" where
  "cookie_value mx q = take (mx - 1) (takeWhile (\<lambda>c. c \<noteq> CHR '';'' \<and> c \<noteq> CHR '' '') (drop 4 q))"

lemma dropWhile_shorter: "p \<noteq> [] \<Longrightarrow> P (hd p) \<Longrightarrow> length (dropWhile P p) < length p"
  by (cases p) (simp_all add: length_dropWhile_le less_Suc_eq_le)

lemma cookie_next_shorter: "p \<noteq> [] \<Longrightarrow> length (cookie_next (cookie_skip p)) < length p"
proof (cases "cookie_skip p = []")
  case False
  have le: "length (cookie_skip p) \<le> length p" unfolding cookie_skip_def by (rule length_dropWhile_le)
  have "hd (cookie_skip p) \<noteq> CHR '';''"
    using False hd_dropWhile [of "\<lambda>c. c = CHR '' '' \<or> c = CHR '';''" p] by (simp add: cookie_skip_def)
  then have "length (cookie_next (cookie_skip p)) < length (cookie_skip p)"
    unfolding cookie_next_def using False by (intro dropWhile_shorter) simp_all
  then show ?thesis using le by simp
qed (simp add: cookie_next_def)

function cookieToken :: "nat \<Rightarrow> string \<Rightarrow> string" where
  "cookieToken mx p =
     (if p = [] then []
      else if take 4 (cookie_skip p) = ''sid='' then cookie_value mx (cookie_skip p)
      else cookieToken mx (cookie_next (cookie_skip p)))"
  by pat_completeness (elim Pair_inject, hypsubst, rule refl)
termination
  by (relation "measure (\<lambda>(mx, p). length p)") (simp_all add: cookie_next_shorter)

declare cookieToken.simps [simp del]

definition webRole :: "web_ctx \<Rightarrow> web_request \<Rightarrow> web_state \<Rightarrow> u8" where
  "webRole cx rq st =
     webVerifyToken cx (wb_key st) (wb_now st) (cookieToken (WEB_TOK_LEN + 1) (cstr (rq_cookie rq)))"

subsection \<open>Request bodies\<close>

text \<open>
  The body is read in pieces; a failed read is \<open>None\<close>, and an empty read ends the loop. The buffer
  is then used as a C string.
\<close>

fun read_loop_body :: "nat \<Rightarrow> string option list \<Rightarrow> string \<Rightarrow> string" where
  "read_loop_body len [] buf = buf"
| "read_loop_body len (r # rs) buf =
     (if length buf < len
      then case r of
             None \<Rightarrow> buf
           | Some ch \<Rightarrow> if ch = [] then buf else read_loop_body len rs (buf @ take (len - length buf) ch)
      else buf)"

definition webReadBody :: "nat \<Rightarrow> web_request \<Rightarrow> string" where
  "webReadBody mx rq = read_loop_body (if rq_length rq \<ge> mx then mx - 1 else rq_length rq) (rq_chunks rq) []"

definition hex2 :: "char \<Rightarrow> nat" where
  "hex2 ch =
     (let h = of_char ch :: nat
      in if 48 \<le> h \<and> h \<le> 57 then h - 48
         else if 97 \<le> h \<and> h \<le> 102 then h - 97 + 10
         else if 65 \<le> h \<and> h \<le> 70 then h - 65 + 10
         else 0)"

fun form_decode :: "nat \<Rightarrow> string \<Rightarrow> string" where
  "form_decode 0 v = []"
| "form_decode (Suc n) [] = []"
| "form_decode (Suc n) (c # cs) =
     (if c = CHR ''&'' then []
      else if c = CHR ''%'' \<and> 2 \<le> length cs
      then char_of (hex2 (cs ! 0) * 16 + hex2 (cs ! 1)) # form_decode n (drop 2 cs)
      else if c = CHR ''+'' then CHR '' '' # form_decode n cs
      else c # form_decode n cs)"

definition amp_next :: "string \<Rightarrow> string" where
  "amp_next p = (case strchr (CHR ''&'') p of None \<Rightarrow> [] | Some q \<Rightarrow> tl q)"

lemma amp_next_shorter: "p \<noteq> [] \<Longrightarrow> length (amp_next p) < length p"
proof -
  assume p: "p \<noteq> []"
  have "length (dropWhile (\<lambda>x. x \<noteq> CHR ''&'') p) \<le> length p" by (rule length_dropWhile_le)
  then show ?thesis using p by (auto simp: amp_next_def strchr_def split: list.split)
qed

function form_find :: "string \<Rightarrow> string \<Rightarrow> string option" where
  "form_find key p =
     (if p = [] then None
      else if take (length key + 1) p = key @ ''='' then Some (drop (length key + 1) p)
      else form_find key (amp_next p))"
  by pat_completeness (elim Pair_inject, hypsubst, rule refl)
termination
  by (relation "measure (\<lambda>(key, p). length p)") (simp_all add: amp_next_shorter)

declare form_find.simps [simp del]

text \<open>The output buffer, as a C string; a missing field leaves the empty string.\<close>

definition formField :: "string \<Rightarrow> string \<Rightarrow> nat \<Rightarrow> int \<times> string" where
  "formField body key mx =
     (case form_find key body of
        Some v \<Rightarrow> (let out = form_decode (mx - 1) v in (int (length out), cstr out))
      | None \<Rightarrow> (-1, []))"

definition json_colon :: "nat \<Rightarrow> string \<Rightarrow> string \<Rightarrow> string option" where
  "json_colon sz body key =
     (let pat = take (sz - 1) ([DQ] @ key @ [DQ])
      in Option.bind (strstr pat body) (\<lambda>p. strchr (CHR '':'') (drop (length pat) p)))"

definition jsonNum :: "string \<Rightarrow> string \<Rightarrow> u32" where
  "jsonNum body key = (case json_colon 20 body key of None \<Rightarrow> 0 | Some p \<Rightarrow> strtoul (tl p))"

text \<open>\<open>jsonStr\<close> answers 1 with the value, 0 when the key is missing, -1 for a malformed value.\<close>

fun json_chars :: "nat \<Rightarrow> string \<Rightarrow> string option" where
  "json_chars room [] = None"
| "json_chars room (c # cs) =
     (if c = DQ then Some []
      else if of_char c < (0x20 :: nat) \<or> of_char c > (0x7e :: nat) \<or> c = BSL \<or> room = 0 then None
      else map_option ((#) c) (json_chars (room - 1) cs))"

definition jsonStr :: "string \<Rightarrow> string \<Rightarrow> nat \<Rightarrow> int \<times> string" where
  "jsonStr body key sz =
     (let pat = take 23 ([DQ] @ key @ [DQ])
      in case strstr pat body of
           None \<Rightarrow> (0, [])
         | Some p \<Rightarrow>
             (case strchr (CHR '':'') (drop (length pat) p) of
                None \<Rightarrow> (-1, [])
              | Some q \<Rightarrow>
                  (case dropWhile (\<lambda>c. c = CHR '' '') (tl q) of
                     [] \<Rightarrow> (-1, [])
                   | c # cs \<Rightarrow>
                       if c \<noteq> DQ then (-1, [])
                       else case json_chars (sz - 1) cs of None \<Rightarrow> (-1, []) | Some v \<Rightarrow> (1, v))))"

text \<open>The quoted word after a key, as \<open>apiCommand\<close> and \<open>apiSetReg\<close> cut it out.\<close>

definition json_word :: "string \<Rightarrow> string \<Rightarrow> nat \<Rightarrow> string" where
  "json_word body key sz =
     (case Option.bind (Option.bind (strstr ([DQ] @ key @ [DQ]) body) (strchr (CHR '':''))) (strchr DQ) of
        None \<Rightarrow> []
      | Some p \<Rightarrow> take (sz - 1) (takeWhile (\<lambda>c. c \<noteq> DQ) (tl p)))"

definition qparam :: "string \<Rightarrow> string \<Rightarrow> int" where
  "qparam qs key =
     (let pat = take 15 (key @ ''='')
      in case strstr pat qs of None \<Rightarrow> -1 | Some p \<Rightarrow> atoi (drop (length pat) p))"

subsection \<open>Handlers\<close>

definition apiLogin :: "web_ctx \<Rightarrow> web_request \<Rightarrow> web_state \<Rightarrow> web_reply" where
  "apiLogin cx rq st =
     (if \<not> rq_post rq then (if wx_hdr_ok cx then Err 405 else Write_Failed)
      else let body = cstr (webReadBody 192 rq);
               user = snd (formField body ''username'' 40); pass = snd (formField body ''password'' 40);
               role = (if user = ''ntek'' \<and> pass = ''0300'' then ROLE_ADMIN
                       else if user = ''sv300'' \<and> pass = ''0000'' then ROLE_VIEWER else ROLE_NONE)
           in if \<not> wx_hdr_ok cx then Write_Failed
              else if role = ROLE_NONE then Err 401
              else Login role user (webMakeToken cx (wb_key st) (wb_now st) role))"

definition deny :: "web_ctx \<Rightarrow> nat \<Rightarrow> web_reply" where
  "deny cx code = (if wx_hdr_ok cx then Err code else Write_Failed)"

definition answer :: "web_ctx \<Rightarrow> web_reply \<Rightarrow> web_reply" where
  "answer cx r = (if wx_hdr_ok cx then r else Write_Failed)"

text \<open>A register write; an error leaves the registers as they are.\<close>

definition write_reg :: "u16 \<Rightarrow> u16 \<Rightarrow> web_state \<Rightarrow> bool \<times> web_state" where
  "write_reg a v st =
     (case writeMemCb a v (wb_mb st) of None \<Rightarrow> (False, st) | Some m \<Rightarrow> (True, st\<lparr>wb_mb := m\<rparr>))"

definition apiCommand :: "web_ctx \<Rightarrow> web_request \<Rightarrow> web_state \<Rightarrow> web_reply \<times> web_state" where
  "apiCommand cx rq st =
     (if webRole cx rq st \<noteq> ROLE_ADMIN then (deny cx 403, st)
      else let cmd = json_word (cstr (webReadBody 96 rq)) ''cmd'' 32;
               ofs = (if cmd = ''clear_alarm'' then Some 30 else if cmd = ''clear_event'' then Some 34
                      else if cmd = ''ack_alarm'' then Some 46 else if cmd = ''ack_event'' then Some 50 else None)
           in case ofs of
                None \<Rightarrow> (deny cx 400, st)
              | Some k \<Rightarrow> (answer cx (Done True), snd (write_reg (MBAD_SET_CMD + k) 0x1234 st)))"

definition apiSetReg :: "web_ctx \<Rightarrow> web_request \<Rightarrow> web_state \<Rightarrow> web_reply \<times> web_state" where
  "apiSetReg cx rq st =
     (if webRole cx rq st \<noteq> ROLE_ADMIN then (deny cx 403, st)
      else let body = cstr (webReadBody 128 rq); addr = jsonNum body ''addr''; val = jsonNum body ''val'';
               type = json_word body ''type'' 8
           in if sint addr \<le> 0 then (deny cx 400, st)
              else let (r, st1) = write_reg (ucast addr) (ucast val) st;
                       st2 = (if type = ''u32'' then snd (write_reg (ucast (addr + 1)) (ucast (drop_bit 16 val)) st1) else st1)
                   in (answer cx (Done r), st2))"

definition apiSaveCfg :: "web_ctx \<Rightarrow> web_request \<Rightarrow> web_state \<Rightarrow> web_reply \<times> web_state" where
  "apiSaveCfg cx rq st =
     (if webRole cx rq st \<noteq> ROLE_ADMIN then (deny cx 403, st)
      else (answer cx (Done True), snd (write_reg (MBAD_SET_CMD + 1) 0x1234 st)))"

text \<open>Reading registers counts each access, as the Modbus callbacks do; an error reads as 0.\<close>

fun rd_regs :: "web_ctx \<Rightarrow> int \<Rightarrow> nat \<Rightarrow> mb \<Rightarrow> u16 list \<times> mb" where
  "rd_regs cx a 0 m = ([], m)"
| "rd_regs cx a (Suc n) m =
     (let (w, m1) = readMemCb (wx_copyWave cx) (of_int a) m; (ws, m2) = rd_regs cx (a + 1) n m1
      in ((case w of None \<Rightarrow> 0 | Some x \<Rightarrow> x) # ws, m2))"

definition apiRegs :: "web_ctx \<Rightarrow> web_request \<Rightarrow> web_state \<Rightarrow> web_reply \<times> web_state" where
  "apiRegs cx rq st =
     (let addr = qparam (cstr (rq_query rq)) ''addr''; n = qparam (cstr (rq_query rq)) ''n''
      in if addr < 0 \<or> n \<le> 0 \<or> n > 256 then (deny cx 400, st)
         else if \<not> wx_hdr_ok cx then (Write_Failed, st)
         else let (ws, m) = rd_regs cx addr (nat n) (wb_mb st) in (Words ws, st\<lparr>wb_mb := m\<rparr>))"

text \<open>
  The SNMP strings are part of the settings registers, two characters to a register, the first in
  the low byte; \<open>strcpy\<close> writes the characters and the terminator.
\<close>

definition poke :: "nat \<Rightarrow> u8 \<Rightarrow> mb \<Rightarrow> mb" where
  "poke k b m =
     (let w = mb_reg m 0 (k div 2)
      in set_reg 0 (k div 2)
           (if even k then (w AND 0xFF00) OR ucast b else (w AND 0x00FF) OR push_bit 8 (ucast b)) m)"

fun put_cstr :: "nat \<Rightarrow> string \<Rightarrow> mb \<Rightarrow> mb" where
  "put_cstr k [] m = poke k 0 m"
| "put_cstr k (c # cs) m = put_cstr (k + 1) cs (poke k (of_char c) m)"

definition str_empty :: "nat \<Rightarrow> mb \<Rightarrow> bool" where
  "str_empty a m \<longleftrightarrow> (ucast (mb_reg m 0 a) :: u8) = 0"

definition apiSnmpSet :: "web_ctx \<Rightarrow> web_request \<Rightarrow> web_state \<Rightarrow> web_reply \<times> web_state" where
  "apiSnmpSet cx rq st =
     (if webRole cx rq st \<noteq> ROLE_ADMIN then (deny cx 403, st)
      else let body = cstr (webReadBody 320 rq); m = wb_mb st;
               (rc, comm) = jsonStr body ''community'' 32; (rt, cont) = jsonStr body ''contact'' 32;
               (rl, loc) = jsonStr body ''location'' 32; (ru, v3u) = jsonStr body ''v3user'' 32;
               (ra, v3a) = jsonStr body ''v3auth'' 32; (rp, v3p) = jsonStr body ''v3priv'' 32
           in if rc < 0 \<or> rt < 0 \<or> rl < 0 \<or> ru < 0 \<or> ra < 0 \<or> rp < 0 then (deny cx 400, st)
              else if rc > 0 \<and> (comm = [] \<or> CHR '' '' \<in> set comm) then (deny cx 400, st)
              else if ru > 0 \<and> (v3u = [] \<or> CHR '' '' \<in> set v3u) then (deny cx 400, st)
              else if ra > 0 \<and> length v3a < 8 \<or> rp > 0 \<and> length v3p < 8 then (deny cx 400, st)
              else if (ra > 0 \<or> rp > 0) \<and> (if ru > 0 then v3u = [] else str_empty 7348 m) then (deny cx 400, st)
              else if rp > 0 \<and> ra \<le> 0 \<and> str_empty 7364 m then (deny cx 400, st)
              else let m1 = (if rc > 0 then put_cstr (2 * 7300) comm m else m);
                       m2 = (if rt > 0 then put_cstr (2 * 7316) cont m1 else m1);
                       m3 = (if rl > 0 then put_cstr (2 * 7332) loc m2 else m2);
                       m4 = (if ru > 0 then put_cstr (2 * 7348) v3u m3 else m3);
                       m5 = (if ra > 0 then put_cstr (2 * 7364) v3a m4 else m4);
                       m6 = (if rp > 0 then put_cstr (2 * 7380) v3p m5 else m5)
                   in (answer cx (Done True), st\<lparr>wb_mb := m6\<rparr>))"

subsection \<open>Firmware update\<close>

definition fwCheckUsrApp :: "web_ctx \<Rightarrow> string option \<Rightarrow> int" where
  "fwCheckUsrApp cx file =
     (if \<not> wx_mounted cx then -1
      else case file of
        None \<Rightarrow> -1
      | Some bs \<Rightarrow>
          if length bs < 1024 \<or> length bs > 1024 * 1024 then -2
          else if \<not> wx_open cx then -1
          else if take 4 (drop 28 bs) \<noteq> replicate 4 (CHR 0x5A) then -4
          else 0)"

fun fw_loop :: "web_ctx \<Rightarrow> nat \<Rightarrow> string option list \<Rightarrow> string \<Rightarrow> nat \<Rightarrow> nat \<times> string" where
  "fw_loop cx len [] file got = (got, file)"
| "fw_loop cx len (r # rs) file got =
     (if got < len
      then case r of
             None \<Rightarrow> (got, file)
           | Some ch \<Rightarrow>
               let d = take (min (len - got) 1024) ch
               in if d = [] then (got, file)
                  else if \<not> wx_fwrite cx got then (got, file)
                  else fw_loop cx len rs (file @ d) (got + length d)
      else (got, file))"

definition apiFwUpload :: "web_ctx \<Rightarrow> web_request \<Rightarrow> web_state \<Rightarrow> web_reply \<times> web_state" where
  "apiFwUpload cx rq st =
     (if webRole cx rq st \<noteq> ROLE_ADMIN then (deny cx 403, st)
      else if rq_length rq < 1024 \<or> rq_length rq > 1024 * 1024 then (deny cx 400, st)
      else if \<not> wx_open cx then (deny cx 500, st)
      else let (got, file) = fw_loop cx (rq_length rq) (rq_chunks rq) [] 0; ok = (got = rq_length rq);
               st1 = st\<lparr>wb_usrApp := (if ok then Some file else None)\<rparr>
           in if \<not> ok then (deny cx 400, st1)
              else (answer cx (Fw_Saved got (fwCheckUsrApp cx (wb_usrApp st1))), st1))"

definition apiFwStatus :: "web_ctx \<Rightarrow> web_request \<Rightarrow> web_state \<Rightarrow> web_reply" where
  "apiFwStatus cx rq st =
     (if webRole cx rq st \<noteq> ROLE_ADMIN then deny cx 403
      else answer cx (Fw_Status (fwCheckUsrApp cx (wb_usrApp st))))"

definition apiFwApply :: "web_ctx \<Rightarrow> web_request \<Rightarrow> web_state \<Rightarrow> web_reply \<times> web_state" where
  "apiFwApply cx rq st =
     (if webRole cx rq st \<noteq> ROLE_ADMIN then (deny cx 403, st)
      else if fwCheckUsrApp cx (wb_usrApp st) \<noteq> 0 then (deny cx 400, st)
      else if \<not> wx_hdr_ok cx then (Write_Failed, st)
      else (Rebooting, st\<lparr>wb_reboot := 0x1234\<rparr>))"

subsection \<open>The router\<close>

definition reports :: "string list" where
  "reports = [''/api/dashboard'', ''/api/sv300/events'', ''/api/feeders'', ''/api/channels'', ''/api/minmax'',
     ''/api/energynow'', ''/api/energylog'', ''/api/energy.csv'', ''/api/demandlog'', ''/api/demand.csv'',
     ''/api/harmonics'', ''/api/waveform'', ''/api/en50160'', ''/api/vq'', ''/api/monthly'', ''/api/general'', ''/api/snmp'']"

definition webRequestCallback :: "web_ctx \<Rightarrow> web_request \<Rightarrow> web_state \<Rightarrow> web_reply \<times> web_state" where
  "webRequestCallback cx rq st =
     (let uri = rq_uri rq
      in if uri \<in> {''/'', ''index.html'', ''/index.html'', ''index.htm'', ''/index.htm''} then (answer cx Page, st)
         else if uri = ''/api/login'' then (apiLogin cx rq st, st)
         else if uri = ''/api/logout'' then (answer cx Logout, st)
         else if uri = ''/api/me'' then (answer cx (Me (webRole cx rq st)), st)
         else if uri = ''/api/sv300/command'' then apiCommand cx rq st
         else if uri = ''/api/setreg'' then apiSetReg cx rq st
         else if uri = ''/api/savecfg'' then apiSaveCfg cx rq st
         else if uri = ''/api/snmp'' \<and> rq_post rq then apiSnmpSet cx rq st
         else if uri = ''/api/fwupload'' then apiFwUpload cx rq st
         else if uri = ''/api/fwstatus'' then (apiFwStatus cx rq st, st)
         else if uri = ''/api/fwapply'' then apiFwApply cx rq st
         else if take 5 uri = ''/api/''
         then (if webRole cx rq st = ROLE_NONE then (deny cx 401, st)
               else if uri \<in> set reports then (answer cx (Report uri), st)
               else if take 9 uri = ''/api/regs'' then apiRegs cx rq st
               else (deny cx 404, st))
         else (Not_Found, st))"

subsection \<open>Tokens hold for eight hours and only with a signature\<close>

lemma hex_nibble_hx: "i < 16 \<Longrightarrow> hex_nibble (hx i) = Some (of_nat i)"
proof -
  have "\<forall>i \<in> set [0..<16]. hex_nibble (hx i) = Some (of_nat i)" by code_simp
  then show "i < 16 \<Longrightarrow> hex_nibble (hx i) = Some (of_nat i)" by simp
qed

lemma length_hex_digits [simp]: "length (hex_digits n v) = n"
  by (induction n arbitrary: v) simp_all

lemma hexParse_loop_append:
  "hexParse_loop (xs @ ys) v = Option.bind (hexParse_loop xs v) (hexParse_loop ys)"
  by (induction xs arbitrary: v) (auto split: option.split)

lemma nibble_join: "push_bit 4 (of_nat (v div 16)) OR of_nat (v mod 16) = (of_nat v :: u32)"
proof -
  have b: "\<not> bit (of_nat (v mod 16) :: u32) i" if "4 \<le> i" for i
  proof -
    have "v mod 16 < 2 ^ i" using that by (intro order.strict_trans2 [OF _ power_increasing [OF that]]) auto
    then have "\<not> bit (v mod 16) i" by (simp add: bit_iff_odd)
    then show ?thesis by (simp add: bit_of_nat_iff)
  qed
  have "push_bit 4 (of_nat (v div 16) :: u32) AND of_nat (v mod 16) = 0"
    by (rule bit_word_eqI) (use b in \<open>auto simp: bit_and_iff bit_push_bit_iff\<close>)
  then have "push_bit 4 (of_nat (v div 16) :: u32) OR of_nat (v mod 16) = push_bit 4 (of_nat (v div 16)) + of_nat (v mod 16)"
    by (simp add: disjunctive_add_eq_or)
  also have "\<dots> = of_nat (v div 16 * 16 + v mod 16)" by (simp only: push_bit_eq_mult of_nat_add of_nat_mult) simp
  finally show ?thesis by (simp only: div_mult_mod_eq)
qed

lemma hexParse_digits: "v < 16 ^ n \<Longrightarrow> hexParse_loop (hex_digits n v) 0 = Some (of_nat v)"
proof (induction n arbitrary: v)
  case (Suc n)
  have "v div 16 < 16 ^ n" using Suc.prems by (simp add: less_mult_imp_div_less mult.commute)
  then show ?case
    using Suc.IH [of "v div 16"] hex_nibble_hx [of "v mod 16"] nibble_join [of v] by (simp add: hexParse_loop_append)
qed simp

lemma length_webSign: "8 \<le> length (wx_hmac cx key (take 10 head)) \<Longrightarrow> length (webSign cx key head) = 16"
  by (simp add: webSign_def length_concat o_def sum_list_triv)

lemma sint_u32_of_int: "- (2 ^ 31) \<le> i \<Longrightarrow> i < 2 ^ 31 \<Longrightarrow> sint (of_int i :: u32) = i"
  by (simp add: signed_of_int signed_take_bit_int_eq_self)

lemma unat_less_uint: "unat (d :: u32) < n \<longleftrightarrow> uint d < int n"
proof -
  have "unat d < n \<longleftrightarrow> int (unat d) < int n" by (simp only: of_nat_less_iff)
  then show ?thesis by simp
qed

lemma expiry_left:
  assumes "unat d < 2 ^ 31"
  shows "sint (28800 - d :: u32) = 28800 - uint d"
proof -
  have b: "uint d < 2147483648" "0 \<le> uint d" using assms by (simp_all add: unat_less_uint)
  have "sint (of_int (28800 - uint d) :: u32) = 28800 - uint d"
  proof (rule sint_u32_of_int)
    show "- (2 ^ 31) \<le> 28800 - uint d" using b(1) by simp
    have "28800 - uint d \<le> 28800" using b(2) by linarith
    then show "28800 - uint d < 2 ^ 31" by (rule order.strict_trans1) simp
  qed
  then show ?thesis by simp
qed

lemma token_role:
  assumes "role = ROLE_VIEWER \<or> role = ROLE_ADMIN" "\<forall>k h. 8 \<le> length (wx_hmac cx k h)"
    and "unat (now' - now) < 2 ^ 31"
  shows "webVerifyToken cx key now' (webMakeToken cx key now role) =
    (if unat (now' - now) < 28800 then role else ROLE_NONE)"
proof -
  let ?ex = "now + 28800"
  let ?head = "hex_digits 2 (unat role) @ hex_digits 8 (unat ?ex)"
  have r: "hexParse ?head 2 = Some (of_nat (unat role))"
    using assms(1) hexParse_digits [of "unat role" 2] by (auto simp: hexParse_def)
  have "unat ?ex < 2 ^ LENGTH(32)" by (rule unsigned_less)
  then have e: "hexParse (hex_digits 8 (unat ?ex)) 8 = Some ?ex"
    using hexParse_digits [of "unat ?ex" 8] by (simp add: hexParse_def)
  have ex: "?ex - now' = 28800 - (now' - now)" by simp
  have left: "sint (?ex - now') \<le> 0 \<longleftrightarrow> \<not> unat (now' - now) < 28800"
    unfolding ex expiry_left [OF assms(3)] unat_less_uint by (simp add: not_less)
  define sg where "sg = webSign cx key ?head"
  have sg: "length sg = 16" unfolding sg_def using assms(2) by (intro length_webSign) simp
  have tok: "webMakeToken cx key now role = ?head @ sg" by (simp add: webMakeToken_def sg_def)
  have s10: "webSign cx key (take 10 (?head @ sg)) = sg" by (simp add: sg_def)
  have p1: "hexParse (?head @ sg) 2 = Some (of_nat (unat role))" using r by (simp add: hexParse_def)
  have p2: "hexParse (drop 2 (?head @ sg)) 8 = Some ?ex" using e by (simp add: hexParse_def)
  have "webVerifyToken cx key now' (?head @ sg) = (if sint (?ex - now') \<le> 0 then 0 else ucast (of_nat (unat role) :: u32))"
    unfolding webVerifyToken_def p1 p2 using s10 sg assms(1) by auto
  then show ?thesis unfolding tok left using assms(1) by auto
qed

text \<open>A session lasts eight hours and no longer: a token made by a login verifies to exactly
  the role it was made for while fewer than 28800 seconds have passed, whatever the clock stood
  at, and to none from then on, until the 32-bit clock difference reaches half its range.\<close>

theorem token_lasts_eight_hours:
  assumes "role = ROLE_VIEWER \<or> role = ROLE_ADMIN" "\<forall>k h. 8 \<le> length (wx_hmac cx k h)"
    and "unat (now' - now) < 2 ^ 31"
  shows "webVerifyToken cx key now' (webMakeToken cx key now role) =
    (if unat (now' - now) < 28800 then role else ROLE_NONE)"
  using assms by (rule token_role)

definition demo_web_ctx :: web_ctx where
  "demo_web_ctx = \<lparr>wx_hmac = (\<lambda>k h. take 20 (map of_char h @ k) @ replicate 20 0), wx_copyWave = (\<lambda>_ r. r),
     wx_hdr_ok = True, wx_mounted = True, wx_open = True, wx_fwrite = (\<lambda>_. True)\<rparr>"

theorem token_lasts_eight_hours_witness:
  "webVerifyToken demo_web_ctx (replicate 16 7) 30000 (webMakeToken demo_web_ctx (replicate 16 7) 5000 1) =
    (if unat (30000 - 5000 :: u32) < 28800 then 1 else 0)"
  by (rule token_lasts_eight_hours) (simp_all add: demo_web_ctx_def)

text \<open>A token cannot be made up: whatever is presented, it gets a role only if its last sixteen
  characters are the signature of its first ten under the device key, its role digits name that
  role and its expiry lies ahead; no other text of that length, and none of another, is accepted.\<close>

theorem token_needs_signature:
  assumes "webVerifyToken cx key now tok = r" "r \<noteq> ROLE_NONE"
  shows "length tok = 26 \<and> drop 10 tok = webSign cx key (take 10 tok) \<and>
    (r = ROLE_VIEWER \<or> r = ROLE_ADMIN) \<and> hexParse tok 2 = Some (ucast r) \<and>
    (\<exists>ex. hexParse (drop 2 tok) 8 = Some ex \<and> 0 < sint (ex - now))"
  using assms
  by (auto simp: webVerifyToken_def not_le split: if_splits option.splits)

theorem token_needs_signature_witness:
  "length (webMakeToken demo_web_ctx (replicate 16 7) 5000 2) = 26 \<and>
    drop 10 (webMakeToken demo_web_ctx (replicate 16 7) 5000 2) =
      webSign demo_web_ctx (replicate 16 7) (take 10 (webMakeToken demo_web_ctx (replicate 16 7) 5000 2)) \<and>
    ((2 :: u8) = ROLE_VIEWER \<or> (2 :: u8) = ROLE_ADMIN) \<and>
    hexParse (webMakeToken demo_web_ctx (replicate 16 7) 5000 2) 2 = Some (ucast (2 :: u8)) \<and>
    (\<exists>ex. hexParse (drop 2 (webMakeToken demo_web_ctx (replicate 16 7) 5000 2)) 8 = Some ex \<and> 0 < sint (ex - 6000))"
proof (rule token_needs_signature)
  have "\<forall>k h. 8 \<le> length (wx_hmac demo_web_ctx k h)" by (simp add: demo_web_ctx_def)
  then show "webVerifyToken demo_web_ctx (replicate 16 7) 6000 (webMakeToken demo_web_ctx (replicate 16 7) 5000 2) = 2"
    by (subst token_role) simp_all
qed simp

subsection \<open>Who may change the device\<close>

text \<open>What \<open>copyModbusWaveData\<close> touches: the 1450 words of the wave form page.\<close>

definition wave_only :: "(nat \<Rightarrow> regs \<Rightarrow> regs) \<Rightarrow> bool" where
  "wave_only cw \<longleftrightarrow> (\<forall>mid g i k. k < 3430 \<or> 4880 \<le> k \<longrightarrow> cw mid g i k = g i k)"

text \<open>Two register states that differ in the counter of requests and the wave form pages only.\<close>

definition same_settings :: "mb \<Rightarrow> mb \<Rightarrow> bool" where
  "same_settings m m' \<longleftrightarrow> mb_cmdq m' = mb_cmdq m \<and> mb_utc m' = mb_utc m \<and> mb_clock m' = mb_clock m \<and>
     mb_logs m' = mb_logs m \<and> mb_ready m' = mb_ready m \<and>
     (\<forall>i k. (k < 3430 \<or> 4880 \<le> k) \<and> k \<noteq> unat MBAD_RXCNT \<longrightarrow> mb_reg m' i k = mb_reg m i k)"

lemma same_settings_refl [simp]: "same_settings m m"
  by (simp add: same_settings_def)

lemma same_settings_trans: "same_settings a b \<Longrightarrow> same_settings b c \<Longrightarrow> same_settings a c"
  by (simp add: same_settings_def)

lemma same_settings_count: "same_settings m (count_rx m)"
  by (simp add: same_settings_def count_rx_def set_reg_def)

lemma readMemCb_same:
  assumes "wave_only cw" "readMemCb cw a m = (w, m')"
  shows "same_settings m m'"
proof -
  have "m' = count_rx m \<or> (\<exists>i. m' = (count_rx m)\<lparr>mb_reg := cw i (mb_reg (count_rx m))\<rparr>)"
    using assms(2) by (auto simp: readMemCb_def Let_def split: option.splits if_splits prod.splits)
  moreover have "same_settings (count_rx m) ((count_rx m)\<lparr>mb_reg := cw i (mb_reg (count_rx m))\<rparr>)" for i
    using assms(1) by (auto simp: same_settings_def wave_only_def)
  ultimately show ?thesis using same_settings_count same_settings_trans by blast
qed

lemma rd_regs_same:
  "wave_only (wx_copyWave cx) \<Longrightarrow> rd_regs cx a n m = (ws, m') \<Longrightarrow> same_settings m m'"
proof (induction n arbitrary: a m ws m')
  case (Suc n)
  obtain w m1 where 1: "readMemCb (wx_copyWave cx) (of_int a) m = (w, m1)" by fastforce
  obtain ws2 m2 where 2: "rd_regs cx (a + 1) n m1 = (ws2, m2)" by fastforce
  have "same_settings m m1" using Suc.prems(1) 1 by (rule readMemCb_same)
  moreover have "same_settings m1 m2" using Suc.IH [OF Suc.prems(1) 2] .
  ultimately show ?case using Suc.prems(2) 1 2 same_settings_trans by simp
qed simp

text \<open>C33. Only an administrator changes the device: a request whose cookie does not carry a valid
  administrator token, whatever its address, method and body, leaves the firmware image, the
  reboot request, the command queue, the clock, the logs and every register as they were, the
  request counter and the wave form pages apart; without any valid token nothing changes at all.\<close>

theorem only_admin_changes_device:
  assumes "webRole cx rq st \<noteq> ROLE_ADMIN" "webRequestCallback cx rq st = (r, st')"
    and "wave_only (wx_copyWave cx)"
  shows "wb_usrApp st' = wb_usrApp st \<and> wb_reboot st' = wb_reboot st \<and> wb_key st' = wb_key st \<and>
    same_settings (wb_mb st) (wb_mb st') \<and> (webRole cx rq st = ROLE_NONE \<longrightarrow> st' = st)"
proof -
  have regs: "apiRegs cx rq st = (r, st1) \<Longrightarrow> wb_usrApp st1 = wb_usrApp st \<and> wb_reboot st1 = wb_reboot st \<and>
      wb_key st1 = wb_key st \<and> same_settings (wb_mb st) (wb_mb st1)" for r st1
    using rd_regs_same [OF assms(3)]
    by (auto simp: apiRegs_def Let_def split: if_splits prod.splits)
  have "st' = st \<or> (webRole cx rq st \<noteq> ROLE_NONE \<and> apiRegs cx rq st = (r, st'))"
    using assms(2) unfolding webRequestCallback_def Let_def apiCommand_def apiSetReg_def apiSaveCfg_def apiSnmpSet_def
      apiFwUpload_def apiFwApply_def
    by (simp only: assms(1) if_True if_False not_False_eq_True split: if_split_asm) (simp_all only: prod.inject simp_thms)
  then show ?thesis using regs by auto
qed

definition demo_web :: web_state where
  "demo_web = \<lparr>wb_mb = mb_start, wb_key = replicate 16 7, wb_now = 6000, wb_usrApp = None, wb_reboot = 0\<rparr>"

definition demo_request :: "string \<Rightarrow> string \<Rightarrow> string \<Rightarrow> web_request" where
  "demo_request uri cookie body = \<lparr>rq_post = True, rq_uri = uri, rq_query = ''addr=7364&n=16'', rq_cookie = cookie,
     rq_length = length body, rq_chunks = [Some body]\<rparr>"

lemma no_cookie: "webRole cx (demo_request uri [] body) st = ROLE_NONE"
  by (simp add: webRole_def demo_request_def cstr_def cookieToken.simps webVerifyToken_def)

theorem only_admin_changes_device_witness:
  "(let rq = demo_request ''/api/savecfg'' [] []; st' = snd (webRequestCallback demo_web_ctx rq demo_web) in
    wb_usrApp st' = wb_usrApp demo_web \<and> wb_reboot st' = wb_reboot demo_web \<and> wb_key st' = wb_key demo_web \<and>
    same_settings (wb_mb demo_web) (wb_mb st'))"
  using only_admin_changes_device [of demo_web_ctx "demo_request ''/api/savecfg'' [] []" demo_web,
      OF _ prod.collapse [symmetric]]
  by (simp add: no_cookie demo_web_ctx_def wave_only_def Let_def)

subsection \<open>Form fields\<close>

text \<open>
  What a browser sends: \<open>name=value\<close> pairs joined by ampersands, letters and digits plain and
  every other character as a percent sign and two hexadecimal digits.
\<close>

definition plain :: "char \<Rightarrow> bool" where
  "plain c \<longleftrightarrow> (let n = of_char c :: nat in 48 \<le> n \<and> n \<le> 57 \<or> 65 \<le> n \<and> n \<le> 90 \<or> 97 \<le> n \<and> n \<le> 122)"

definition url_char :: "char \<Rightarrow> string" where
  "url_char c = (if plain c then [c] else [CHR ''%'', hx (of_char c div 16), hx (of_char c mod 16)])"

definition url_encode :: "string \<Rightarrow> string" where
  "url_encode s = concat (map url_char s)"

fun form_body :: "(string \<times> string) list \<Rightarrow> string" where
  "form_body [] = []"
| "form_body [(k, v)] = k @ ''='' @ url_encode v"
| "form_body ((k, v) # kvs) = k @ ''='' @ url_encode v @ ''&'' @ form_body kvs"

lemma hex2_hx: "i < 16 \<Longrightarrow> hex2 (hx i) = i"
proof -
  have "\<forall>i \<in> set [0..<16]. hex2 (hx i) = i" by code_simp
  then show "i < 16 \<Longrightarrow> hex2 (hx i) = i" by simp
qed

lemma of_char_less: "(of_char c :: nat) < 256"
  by (cases c) (simp add: of_char_def)

lemma plain_chars: "plain c \<Longrightarrow> c \<noteq> CHR ''&'' \<and> c \<noteq> CHR ''%'' \<and> c \<noteq> CHR ''+'' \<and> c \<noteq> CHR ''=''"
  by (auto simp: plain_def Let_def)

lemma decode_char: "form_decode (Suc n) (url_char c @ r) = c # form_decode n r"
proof (cases "plain c")
  case True
  then show ?thesis using plain_chars [OF True] by (simp add: url_char_def)
next
  case False
  have "(of_char c :: nat) div 16 < 16" using of_char_less [of c] by (intro less_mult_imp_div_less) simp
  then show ?thesis using False
    by (simp add: url_char_def hex2_hx)
qed

lemma decode_encoded:
  assumes "r = [] \<or> hd r = CHR ''&''"
  shows "form_decode n (url_encode v @ r) = take n v"
proof (induction v arbitrary: n)
  case Nil
  then show ?case using assms by (cases n; cases r) (auto simp: url_encode_def)
next
  case (Cons c v)
  show ?case
  proof (cases n)
    case (Suc k)
    have "form_decode (Suc k) (url_char c @ url_encode v @ r) = c # form_decode k (url_encode v @ r)" by (rule decode_char)
    then show ?thesis using Cons Suc by (simp add: url_encode_def)
  qed simp
qed

lemma hx_plain: "i < 16 \<Longrightarrow> plain (hx i)"
proof -
  have "\<forall>i \<in> set [0..<16]. plain (hx i)" by code_simp
  then show "i < 16 \<Longrightarrow> plain (hx i)" by simp
qed

lemma url_char_no_amp: "CHR ''&'' \<notin> set (url_char c)"
proof -
  have "(of_char c :: nat) div 16 < 16" using of_char_less [of c] by (intro less_mult_imp_div_less) simp
  then have "plain (hx (of_char c div 16))" "plain (hx (of_char c mod 16))" by (simp_all add: hx_plain)
  from plain_chars [OF this(1)] plain_chars [OF this(2)] plain_chars [of c] show ?thesis
    by (auto simp: url_char_def)
qed

lemma url_encode_no_amp: "CHR ''&'' \<notin> set (url_encode v)"
  using url_char_no_amp by (auto simp: url_encode_def)

lemma amp_next_skip: "CHR ''&'' \<notin> set s \<Longrightarrow> amp_next (s @ CHR ''&'' # r) = r"
  by (simp add: amp_next_def strchr_def dropWhile_append2 dropWhile_append3 dropWhile_eq_Nil_conv split: list.split)
    (induction s, auto)

lemma amp_next_last: "CHR ''&'' \<notin> set s \<Longrightarrow> amp_next s = []"
proof -
  assume "CHR ''&'' \<notin> set s"
  then have *: "dropWhile (\<lambda>x. x \<noteq> CHR ''&'') s = []" by (auto simp: dropWhile_eq_Nil_conv)
  show ?thesis unfolding amp_next_def strchr_def * by simp
qed

lemma key_prefix:
  assumes "CHR ''='' \<notin> set k" "CHR ''='' \<notin> set key"
  shows "take (length key + 1) (k @ CHR ''='' # r) = key @ ''='' \<longleftrightarrow> k = key"
proof
  assume t: "take (length key + 1) (k @ CHR ''='' # r) = key @ ''=''"
  have "k @ CHR ''='' # r = take (length key + 1) (k @ CHR ''='' # r) @ drop (length key + 1) (k @ CHR ''='' # r)"
    by (rule append_take_drop_id [symmetric])
  then have "k @ CHR ''='' # r = key @ CHR ''='' # drop (length key + 1) (k @ CHR ''='' # r)" unfolding t by simp
  moreover have "takeWhile (\<lambda>c. c \<noteq> CHR ''='') (x @ CHR ''='' # y) = x" if "CHR ''='' \<notin> set x" for x y
    using that by (induction x) auto
  ultimately show "k = key" using assms by metis
qed simp

lemma form_find_body:
  assumes "\<forall>c \<in> set key. plain c" "\<forall>(k, v) \<in> set kvs. \<forall>c \<in> set k. plain c"
  shows "case map_of kvs key of None \<Rightarrow> form_find key (form_body kvs) = None
    | Some v \<Rightarrow> \<exists>r. form_find key (form_body kvs) = Some (url_encode v @ r) \<and> (r = [] \<or> hd r = CHR ''&'')"
  using assms(2)
proof (induction kvs rule: form_body.induct)
  case 1
  then show ?case by (simp add: form_find.simps)
next
  case (2 k v)
  have ne: "CHR ''='' \<notin> set k" "CHR ''='' \<notin> set key" "CHR ''&'' \<notin> set (k @ ''='' @ url_encode v)"
    using 2 assms(1) plain_chars url_encode_no_amp by fastforce+
  have "form_find key (k @ ''='' @ url_encode v) = (if k = key then Some (url_encode v) else None)"
    using key_prefix [OF ne(1,2), of "url_encode v"] amp_next_last [OF ne(3)]
    by (simp add: form_find.simps [of key "k @ CHR ''='' # url_encode v"] form_find.simps [of key "[]"])
  then show ?case by auto
next
  case (3 k v kv kvs)
  have ne: "CHR ''='' \<notin> set k" "CHR ''='' \<notin> set key" "CHR ''&'' \<notin> set (k @ ''='' @ url_encode v)"
    using 3 assms(1) plain_chars url_encode_no_amp by fastforce+
  let ?b = "form_body (kv # kvs)"
  have "form_find key (k @ ''='' @ url_encode v @ ''&'' @ ?b) =
      (if k = key then Some (url_encode v @ ''&'' @ ?b) else form_find key ?b)"
    using key_prefix [OF ne(1,2), of "url_encode v @ ''&'' @ ?b"] amp_next_skip [OF ne(3), of ?b]
    by (simp add: form_find.simps [of key "k @ CHR ''='' # url_encode v @ CHR ''&'' # ?b"])
  then show ?case using 3 by (auto split: option.splits)
qed

text \<open>Form data arrives as it was typed: whatever fields a browser encodes, with whatever
  characters in their values, the parser returns for every field name the first value of that
  name, cut to the size of the buffer, and a missing field is reported as such.\<close>

theorem form_fields_round_trip:
  assumes "\<forall>c \<in> set key. plain c" "\<forall>(k, v) \<in> set kvs. \<forall>c \<in> set k. plain c"
  shows "formField (form_body kvs) key mx =
    (case map_of kvs key of None \<Rightarrow> (-1, [])
     | Some v \<Rightarrow> (int (min (length v) (mx - 1)), cstr (take (mx - 1) v)))"
proof (cases "map_of kvs key")
  case None
  then show ?thesis using form_find_body [OF assms] by (simp add: formField_def)
next
  case (Some v)
  then obtain r where r: "form_find key (form_body kvs) = Some (url_encode v @ r)" "r = [] \<or> hd r = CHR ''&''"
    using form_find_body [OF assms] by auto
  show ?thesis using Some by (simp add: formField_def r(1) decode_encoded [OF r(2)] Let_def min.commute)
qed

theorem form_fields_round_trip_witness:
  "formField (form_body [(''username'', ''ntek''), (''password'', ''0&3 0%'')]) ''password'' 40 =
    (case map_of [(''username'', ''ntek''), (''password'', ''0&3 0%'')] ''password'' of None \<Rightarrow> (-1, [])
     | Some v \<Rightarrow> (int (min (length v) (40 - 1)), cstr (take (40 - 1) v)))"
  by (rule form_fields_round_trip) (simp_all add: plain_def)

subsection \<open>Register writes from the page\<close>

text \<open>The body the page sends for one register.\<close>

definition setreg_body :: "bool \<Rightarrow> nat \<Rightarrow> nat \<Rightarrow> string" where
  "setreg_body wide a v = CHR ''{'' # [DQ] @ ''addr'' @ [DQ] @ '':'' @ dec a @ '','' @ [DQ] @ ''type'' @ [DQ] @ '':'' @
     [DQ] @ (if wide then ''u32'' else ''u16'') @ [DQ] @ '','' @ [DQ] @ ''val'' @ [DQ] @ '':'' @ dec v @ ''}''"

lemma foldl_dec: "foldl (\<lambda>v c. 10 * v + (of_char c - 48)) 0 (dec n) = n"
  using digits_val_dec [of n] by (simp add: digits_val_def mult.commute)

lemma dec_val_dec: "r = [] \<or> \<not> is_digit (hd r) \<Longrightarrow> dec_val (dec n @ r) = n"
proof -
  assume r: "r = [] \<or> \<not> is_digit (hd r)"
  have "takeWhile is_digit (dec n @ r) = dec n"
    using dec_digits [of n] r by (cases r) (simp_all add: takeWhile_append)
  then show "dec_val (dec n @ r) = n" by (simp add: dec_val_def foldl_dec)
qed

lemma strtoul_dec:
  assumes "n < 2 ^ 32" "r = [] \<or> \<not> is_digit (hd r)"
  shows "strtoul (dec n @ r) = of_nat n"
proof -
  obtain c cs where d: "dec n = c # cs" using dec_nonempty [of n] by (cases "dec n") auto
  then have c: "is_digit c" using dec_digits [of n] by simp
  then have "\<not> isspace c" "c \<noteq> CHR ''-''" "c \<noteq> CHR ''+''" by (auto simp: is_digit_def isspace_def)
  then have "sign_skip (dec n @ r) = (False, dec n @ r)" by (simp add: sign_skip_def d)
  then show ?thesis using assms by (simp add: strtoul_def dec_val_dec)
qed

lemma strstr_skip: "pat \<noteq> [] \<Longrightarrow> hd pat \<notin> set pre \<Longrightarrow> strstr pat (pre @ s) = strstr pat s"
  by (induction pre) (cases pat; auto)+

lemma DQ_not_digit: "DQ \<notin> set (dec n)"
  using dec_digits [of n] by (auto simp: is_digit_def)

lemma length_dec: "n < 100000 \<Longrightarrow> length (dec n) \<le> 5"
  using length_dec_le [of 5 n] by simp

lemma setreg_addr: "a < 2 ^ 32 \<Longrightarrow> jsonNum (setreg_body wide a v) ''addr'' = of_nat a"
  by (simp add: jsonNum_def json_colon_def setreg_body_def strchr_def Let_def strtoul_dec is_digit_def)

lemma setreg_type: "json_word (setreg_body wide a v) ''type'' 8 = (if wide then ''u32'' else ''u16'')"
  by (simp add: json_word_def setreg_body_def strstr_skip DQ_not_digit strchr_def Let_def)

lemma setreg_val: "v < 2 ^ 32 \<Longrightarrow> jsonNum (setreg_body wide a v) ''val'' = of_nat v"
  by (simp add: jsonNum_def json_colon_def setreg_body_def strstr_skip DQ_not_digit strchr_def Let_def strtoul_dec is_digit_def)

lemma hx_char: "i < 16 \<Longrightarrow> hx i \<noteq> NUL \<and> hx i \<noteq> CHR '';'' \<and> hx i \<noteq> CHR '' ''"
proof -
  have "\<forall>i \<in> set [0..<16]. hx i \<noteq> NUL \<and> hx i \<noteq> CHR '';'' \<and> hx i \<noteq> CHR '' ''" by code_simp
  then show "i < 16 \<Longrightarrow> hx i \<noteq> NUL \<and> hx i \<noteq> CHR '';'' \<and> hx i \<noteq> CHR '' ''" by simp
qed

lemma hex_digits_char: "c \<in> set (hex_digits n v) \<Longrightarrow> c \<noteq> NUL \<and> c \<noteq> CHR '';'' \<and> c \<noteq> CHR '' ''"
  by (induction n arbitrary: v) (auto simp: hx_char)

lemma nibble_less: "unat (drop_bit 4 d :: u8) < 16" "unat (d AND 0xf :: u8) < 16"
proof -
  have "unat d < 2 ^ LENGTH(8)" by (rule unsigned_less)
  moreover have "unat (drop_bit 4 d) = unat d div 16" unfolding unat_drop_bit_eq by (simp add: drop_bit_eq_div)
  ultimately show "unat (drop_bit 4 d) < 16" by (simp add: less_mult_imp_div_less)
  have "d AND 0xf = take_bit 4 d" by (simp add: take_bit_eq_mask mask_eq_exp_minus_1)
  then show "unat (d AND 0xf) < 16" using take_bit_nat_less_exp [of 4 "unat d"] by (simp add: unsigned_take_bit_eq)
qed

lemma token_char: "c \<in> set (webMakeToken cx key now role) \<Longrightarrow> c \<noteq> NUL \<and> c \<noteq> CHR '';'' \<and> c \<noteq> CHR '' ''"
  using hx_char nibble_less by (auto simp: webMakeToken_def webSign_def Let_def dest: hex_digits_char)

lemma length_token: "\<forall>k h. 8 \<le> length (wx_hmac cx k h) \<Longrightarrow> length (webMakeToken cx key now role) = 26"
  by (simp add: webMakeToken_def Let_def length_webSign)

lemma cookie_carries_token:
  assumes "\<forall>k h. 8 \<le> length (wx_hmac cx k h)"
  shows "cookieToken 27 (cstr (''sid='' @ webMakeToken cx key now role)) = webMakeToken cx key now role"
proof -
  let ?t = "webMakeToken cx key now role"
  have t: "\<forall>c \<in> set ?t. c \<noteq> NUL \<and> c \<noteq> CHR '';'' \<and> c \<noteq> CHR '' ''" using token_char by blast
  have c: "cstr (''sid='' @ ?t) = ''sid='' @ ?t" using t by (simp add: cstr_def takeWhile_eq_all_conv)
  have w: "takeWhile (\<lambda>c. c \<noteq> CHR '';'' \<and> c \<noteq> CHR '' '') ?t = ?t" using t by (simp add: takeWhile_eq_all_conv)
  show ?thesis unfolding c
    by (simp add: w cookieToken.simps cookie_skip_def cookie_value_def length_token [OF assms])
qed

lemma setreg_body_plain: "a < 65536 \<Longrightarrow> v < 2 ^ 32 \<Longrightarrow> length (setreg_body wide a v) < 128"
  using length_dec [of a] length_dec_le [of 10 v] by (simp add: setreg_body_def)

lemma cstr_setreg: "cstr (setreg_body wide a v) = setreg_body wide a v"
proof -
  have "\<forall>c \<in> set (dec n). c \<noteq> NUL" for n using dec_digits [of n] by (auto simp: is_digit_def)
  then show ?thesis by (auto simp: cstr_def takeWhile_eq_all_conv setreg_body_def)
qed

lemma read_pieces:
  "\<forall>c \<in> set cs. c \<noteq> [] \<Longrightarrow> length buf + length (concat cs) = len \<Longrightarrow>
   read_loop_body len (map Some cs) buf = buf @ concat cs"
proof (induction cs arbitrary: buf)
  case (Cons c cs)
  then have "length buf < len" by (cases c) auto
  then show ?case using Cons by simp
qed simp

lemma setreg_read:
  assumes "a < 65536" "v < 2 ^ 32" "concat cs = setreg_body wide a v" "\<forall>c \<in> set cs. c \<noteq> []"
    and "rq_length rq = length (setreg_body wide a v)" "rq_chunks rq = map Some cs"
  shows "cstr (webReadBody 128 rq) = setreg_body wide a v"
  using setreg_body_plain [OF assms(1,2), of wide] read_pieces [OF assms(4), of "[]"] assms(3,5,6)
  by (simp add: webReadBody_def cstr_setreg)

lemma apiLogin_token: "apiLogin cx rq st = Login ROLE_ADMIN user tok \<Longrightarrow> tok = webMakeToken cx (wb_key st) (wb_now st) ROLE_ADMIN"
  by (auto simp: apiLogin_def Let_def split: if_splits)

lemma sint_small: "0 < a \<Longrightarrow> a < 65536 \<Longrightarrow> 0 < sint (of_nat a :: u32)"
  by (simp add: signed_of_nat signed_take_bit_int_eq_self)

text \<open>C34. The page and the field bus write alike: with the token a login as administrator handed out less than eight
  hours ago, the register request of the page, its body in whatever pieces it arrives, does to the registers exactly what Modbus writes do: for a
  register of 16 bits the write of the low half of the value to the address (1 to 65535), and for one of 32 bits
  after it the write of the high half to the next address. The answer tells whether the first
  of the two succeeded; a second one that is refused goes unnoticed.\<close>

theorem web_write_is_modbus_write:
  assumes "apiLogin cx rq0 st0 = Login ROLE_ADMIN user tok" "wb_key st = wb_key st0"
    and "unat (wb_now st - wb_now st0) < 28800"
    and "\<forall>k h. 8 \<le> length (wx_hmac cx k h)" "wx_hdr_ok cx" "0 < a" "a < 65536" "v < 2 ^ 32"
    and "rq_post rq" "rq_uri rq = ''/api/setreg''" "rq_cookie rq = ''sid='' @ tok"
    and "rq_length rq = length (setreg_body wide a v)" "rq_chunks rq = map Some cs"
    and "concat cs = setreg_body wide a v" "\<forall>c \<in> set cs. c \<noteq> []"
    and "write1 = writeMemCb (of_nat a) (of_nat v) (wb_mb st)" "mb1 = (case write1 of None \<Rightarrow> wb_mb st | Some m \<Rightarrow> m)"
    and "write2 = writeMemCb (of_nat (a + 1)) (of_nat (v div 65536)) mb1"
  shows "webRequestCallback cx rq st =
    (Done (write1 \<noteq> None), st\<lparr>wb_mb := (if wide then (case write2 of None \<Rightarrow> mb1 | Some m \<Rightarrow> m) else mb1)\<rparr>)"
proof -
  have tok: "tok = webMakeToken cx (wb_key st) (wb_now st0) ROLE_ADMIN"
    using apiLogin_token [OF assms(1)] assms(2) by simp
  have "webVerifyToken cx (wb_key st) (wb_now st) tok = ROLE_ADMIN"
    unfolding tok using assms(3) by (subst token_role) (simp_all add: assms(4))
  then have role: "webRole cx rq st = ROLE_ADMIN"
    using cookie_carries_token [OF assms(4)] by (simp add: webRole_def assms(11) tok)
  have w: "(ucast (of_nat n :: u32) :: u16) = of_nat n" for n
    by (rule bit_word_eqI) (simp add: bit_simps)
  have w1: "(ucast (of_nat a + 1 :: u32) :: u16) = of_nat (a + 1)" using w [of "a + 1"] by (simp add: add.commute)
  have hi: "(ucast (drop_bit 16 (of_nat v :: u32)) :: u16) = of_nat (v div 65536)"
  proof -
    have "v div 65536 = drop_bit 16 v" by (simp add: drop_bit_eq_div)
    then show ?thesis by (simp only:) (rule bit_word_eqI, simp add: bit_simps add.commute)
  qed
  have uri: "webRequestCallback cx rq st = apiSetReg cx rq st"
    using assms(9,10) by (simp add: webRequestCallback_def Let_def)
  note body = setreg_read [OF assms(7,8,14,15,12,13)]
  have num: "jsonNum (setreg_body wd a v) ''addr'' = of_nat a" "jsonNum (setreg_body wd a v) ''val'' = of_nat v" for wd
    using setreg_addr [of a] setreg_val [of v] assms(7,8) by simp_all
  then have "apiSetReg cx rq st = (let (r, st1) = write_reg (of_nat a) (of_nat v) st;
      st2 = (if wide then snd (write_reg (of_nat (a + 1)) (of_nat (v div 65536)) st1) else st1) in (answer cx (Done r), st2))"
    using sint_small [OF assms(6,7)] by (simp add: apiSetReg_def role body num setreg_type w w1 hi Let_def)
  then show ?thesis
    unfolding uri assms(16-18) using assms(5) by (simp add: write_reg_def answer_def split: option.split)
qed

definition demo_login :: web_request where
  "demo_login = (let b = ''username=ntek&password=0300''
     in \<lparr>rq_post = True, rq_uri = ''/api/login'', rq_query = [], rq_cookie = [], rq_length = length b, rq_chunks = [Some b]\<rparr>)"

definition demo_setreg :: web_request where
  "demo_setreg = (let b = setreg_body False 6100 7
     in \<lparr>rq_post = True, rq_uri = ''/api/setreg'', rq_query = [],
          rq_cookie = ''sid='' @ webMakeToken demo_web_ctx (wb_key demo_web) (wb_now demo_web) 2, rq_length = length b,
          rq_chunks = [Some (take 9 b), Some (drop 9 b)]\<rparr>)"

theorem web_write_is_modbus_write_witness:
  "webRequestCallback demo_web_ctx demo_setreg demo_web =
    (Done (writeMemCb (of_nat 6100) (of_nat 7) (wb_mb demo_web) \<noteq> None),
     demo_web\<lparr>wb_mb := (case writeMemCb (of_nat 6100) (of_nat 7) (wb_mb demo_web) of None \<Rightarrow> wb_mb demo_web | Some m \<Rightarrow> m)\<rparr>)"
proof -
  have f: "snd (formField (cstr (webReadBody 192 demo_login)) ''username'' 40) = ''ntek''"
    "snd (formField (cstr (webReadBody 192 demo_login)) ''password'' 40) = ''0300''"
    by (simp_all add: demo_login_def Let_def webReadBody_def cstr_def formField_def form_find.simps amp_next_def strchr_def
        eval_nat_numeral)
  have l: "apiLogin demo_web_ctx demo_login demo_web =
      Login 2 ''ntek'' (webMakeToken demo_web_ctx (wb_key demo_web) (wb_now demo_web) 2)"
    unfolding apiLogin_def Let_def f by (simp add: demo_login_def Let_def demo_web_ctx_def)
  let ?b = "setreg_body False 6100 7"
  have "9 < length ?b" by (simp add: setreg_body_def)
  then have cs: "concat [take 9 ?b, drop 9 ?b] = ?b" "\<forall>c \<in> set [take 9 ?b, drop 9 ?b]. c \<noteq> []" by auto
  show ?thesis
    by (rule web_write_is_modbus_write [where wide = False, simplified if_False, OF l _ _ _ _ _ _ _ _ _ _ _ _ cs refl refl refl])
      (simp_all add: demo_setreg_def Let_def demo_web_ctx_def)
qed

subsection \<open>Firmware images arrive whole or not at all\<close>

lemma fw_loop_pieces:
  assumes "\<forall>k. wx_fwrite cx k"
  shows "\<forall>c \<in> set cs. c \<noteq> [] \<and> length c \<le> 1024 \<Longrightarrow> g + length (concat cs) \<le> len \<Longrightarrow>
    fw_loop cx len (map Some cs) img g = (g + length (concat cs), img @ concat cs)"
proof (induction cs arbitrary: img g)
  case (Cons c cs)
  then have "0 < length c" "length c \<le> min (len - g) 1024" by auto
  moreover from this Cons.prems(2) have "g < len" by linarith
  ultimately show ?case using Cons assms by auto
qed simp

text \<open>A firmware image arrives whole or not at all: an administrator's upload whose announced
  length fits becomes the image for the boot loader, byte for byte as it was sent in pieces, and
  is checked; when the stream stops early, no image is left and the upload is refused.\<close>

theorem upload_is_all_or_nothing:
  assumes "webRole cx rq st = ROLE_ADMIN" "rq_uri rq = ''/api/fwupload''" "1024 \<le> rq_length rq" "rq_length rq \<le> 1024 * 1024"
    and "wx_open cx" "wx_hdr_ok cx" "\<forall>k. wx_fwrite cx k"
    and "rq_chunks rq = map Some cs" "\<forall>c \<in> set cs. c \<noteq> [] \<and> length c \<le> 1024" "length (concat cs) \<le> rq_length rq"
  shows "webRequestCallback cx rq st =
    (if length (concat cs) = rq_length rq
     then (Fw_Saved (rq_length rq) (fwCheckUsrApp cx (Some (concat cs))), st\<lparr>wb_usrApp := Some (concat cs)\<rparr>)
     else (Err 400, st\<lparr>wb_usrApp := None\<rparr>))"
proof -
  have l: "fw_loop cx (rq_length rq) (map Some cs) [] 0 = (length (concat cs), concat cs)"
    using fw_loop_pieces [OF assms(7,9), of 0 "rq_length rq" "[]"] assms(10) by simp
  have c: "webRequestCallback cx rq st = apiFwUpload cx rq st"
    using assms(2) by (simp add: webRequestCallback_def Let_def)
  have n: "\<not> (rq_length rq < 1024 \<or> 1024 * 1024 < rq_length rq)" using assms(3,4) by linarith
  show ?thesis
    unfolding c apiFwUpload_def Let_def assms(1,8) l if_not_P [OF n] by (simp add: assms(5,6) deny_def answer_def)
qed

definition demo_upload :: web_request where
  "demo_upload = \<lparr>rq_post = True, rq_uri = ''/api/fwupload'', rq_query = [],
     rq_cookie = ''sid='' @ webMakeToken demo_web_ctx (wb_key demo_web) (wb_now demo_web) 2, rq_length = 1100,
     rq_chunks = map Some [replicate 1000 (CHR ''Z''), replicate 100 (CHR ''a'')]\<rparr>"

theorem upload_is_all_or_nothing_witness:
  "webRequestCallback demo_web_ctx demo_upload demo_web =
    (Fw_Saved 1100 (fwCheckUsrApp demo_web_ctx (Some (replicate 1000 (CHR ''Z'') @ replicate 100 (CHR ''a'')))),
     demo_web\<lparr>wb_usrApp := Some (replicate 1000 (CHR ''Z'') @ replicate 100 (CHR ''a''))\<rparr>)"
proof -
  have h: "\<forall>k h. 8 \<le> length (wx_hmac demo_web_ctx k h)" by (simp add: demo_web_ctx_def)
  have "webVerifyToken demo_web_ctx (wb_key demo_web) (wb_now demo_web)
      (webMakeToken demo_web_ctx (wb_key demo_web) (wb_now demo_web) 2) = 2"
    by (subst token_role) (simp_all add: h)
  then have r: "webRole demo_web_ctx demo_upload demo_web = 2"
    using cookie_carries_token [OF h] by (simp add: webRole_def demo_upload_def)
  have "webRequestCallback demo_web_ctx demo_upload demo_web =
    (if length (concat [replicate 1000 (CHR ''Z''), replicate 100 (CHR ''a'')]) = rq_length demo_upload
     then (Fw_Saved (rq_length demo_upload) (fwCheckUsrApp demo_web_ctx (Some (concat [replicate 1000 (CHR ''Z''), replicate 100 (CHR ''a'')]))),
       demo_web\<lparr>wb_usrApp := Some (concat [replicate 1000 (CHR ''Z''), replicate 100 (CHR ''a'')])\<rparr>)
     else (Err 400, demo_web\<lparr>wb_usrApp := None\<rparr>))"
    by (rule upload_is_all_or_nothing [OF r]) (simp_all add: demo_upload_def demo_web_ctx_def)
  then show ?thesis by (simp add: demo_upload_def)
qed
end
