(* ===== verification/Calendar.thy ===== *)
theory Calendar
  imports C_Prelude
begin

text \<open>
  Dates: \<open>uLocalTime\<close> and the library functions \<open>localtime_r\<close> and \<open>mktime\<close> behind it (the
  proleptic Gregorian calendar, seconds since 1970, no time zone, as the C library of the
  device has it), the date keys by which files are kept (\<open>logCutoffKeyDays\<close>,
  \<open>logCutoffKeyMonths\<close> in \<open>meter.c\<close>) and the week of the quality reports (\<open>Quality.c\<close>).
\<close>

subsection \<open>The calendar of the C library\<close>

definition leap :: "nat \<Rightarrow> bool" where
  "leap y \<longleftrightarrow> 4 dvd y \<and> (\<not> 100 dvd y \<or> 400 dvd y)"

definition year_len :: "nat \<Rightarrow> nat" where
  "year_len y = (if leap y then 366 else 365)"

definition month_len :: "nat \<Rightarrow> nat \<Rightarrow> nat" where
  "month_len y m = (if m = 2 then (if leap y then 29 else 28) else if m \<in> {4, 6, 9, 11} then 30 else 31)"

lemma year_len_pos [simp]: "0 < year_len y"
  by (simp add: year_len_def)

lemma month_len_pos [simp]: "0 < month_len y m"
  by (simp add: month_len_def)

function civil_year :: "nat \<Rightarrow> nat \<Rightarrow> nat \<times> nat" where
  "civil_year y n = (if n < year_len y then (y, n) else civil_year (y + 1) (n - year_len y))"
  by auto
termination
  by (relation "measure snd") (simp_all, metis diff_less le_less_trans not_less year_len_pos zero_le neq0_conv less_le_trans)

function civil_month :: "nat \<Rightarrow> nat \<Rightarrow> nat \<Rightarrow> nat \<times> nat" where
  "civil_month y m n = (if n < month_len y m then (m, n) else civil_month y (m + 1) (n - month_len y m))"
  by auto
termination
  by (relation "measure (snd \<circ> snd)") (simp_all, metis diff_less month_len_pos not_less less_le_trans)

declare civil_year.simps [simp del] civil_month.simps [simp del]

record tm =
  tm_sec :: nat
  tm_min :: nat
  tm_hour :: nat
  tm_mday :: nat
  tm_mon :: nat
  tm_year :: nat
  tm_wday :: nat
  tm_yday :: nat

definition civil :: "nat \<Rightarrow> nat \<times> nat \<times> nat \<times> nat" where
  "civil days = (let (y, yd) = civil_year 1970 days; (m, d) = civil_month y 1 yd in (y, m, d + 1, yd))"

text \<open>\<open>uLocalTime\<close> with full years and months from 1; the time 0 stands for no time.\<close>

definition uLocalTime :: "u32 \<Rightarrow> tm" where
  "uLocalTime utc =
     (if utc = 0
      then \<lparr>tm_sec = 0, tm_min = 0, tm_hour = 0, tm_mday = 0, tm_mon = 0, tm_year = 0, tm_wday = 0, tm_yday = 0\<rparr>
      else let t = unat utc; days = t div 86400; s = t mod 86400; (y, m, d, yd) = civil days
           in \<lparr>tm_sec = s mod 60, tm_min = s div 60 mod 60, tm_hour = s div 3600, tm_mday = d, tm_mon = m,
               tm_year = y, tm_wday = (days + 4) mod 7, tm_yday = yd\<rparr>)"

definition days_before_year :: "nat \<Rightarrow> nat" where
  "days_before_year y = sum_list (map year_len [1970..<y])"

definition days_before_month :: "nat \<Rightarrow> nat \<Rightarrow> nat" where
  "days_before_month y m = sum_list (map (month_len y) [1..<m])"

text \<open>\<open>mktime\<close> of a date with full years and months from 1, as its callers prepare it.\<close>

definition mktime :: "tm \<Rightarrow> u32" where
  "mktime tm =
     of_nat ((days_before_year (tm_year tm) + days_before_month (tm_year tm) (tm_mon tm) + (tm_mday tm - 1)) * 86400 +
             tm_hour tm * 3600 + tm_min tm * 60 + tm_sec tm)"

subsection \<open>Laws of the calendar\<close>

lemma year_len_months: "days_before_month y 13 = year_len y"
  by (simp add: days_before_month_def year_len_def month_len_def upt_rec)

lemma civil_year_ok:
  "civil_year y n = (y', r) \<Longrightarrow> y \<le> y' \<and> r < year_len y' \<and> n = sum_list (map year_len [y..<y']) + r"
proof (induction y n arbitrary: y' r rule: civil_year.induct)
  case (1 y n)
  show ?case
  proof (cases "n < year_len y")
    case True
    then show ?thesis using 1(2) by (simp add: civil_year.simps)
  next
    case False
    then have "civil_year (y + 1) (n - year_len y) = (y', r)" using 1(2) by (simp add: civil_year.simps [of y n])
    then have i: "y + 1 \<le> y'" "r < year_len y'" "n - year_len y = sum_list (map year_len [y + 1..<y']) + r"
      using 1(1) [OF False] by auto
    have "[y..<y'] = y # [y + 1..<y']" using i(1) by (simp add: upt_conv_Cons)
    then show ?thesis using i False by simp
  qed
qed

lemma civil_month_ok:
  "civil_month y m n = (m', r) \<Longrightarrow> m \<le> m' \<and> r < month_len y m' \<and> n = sum_list (map (month_len y) [m..<m']) + r"
proof (induction y m n arbitrary: m' r rule: civil_month.induct)
  case (1 y m n)
  show ?case
  proof (cases "n < month_len y m")
    case True
    then show ?thesis using 1(2) by (simp add: civil_month.simps)
  next
    case False
    then have "civil_month y (m + 1) (n - month_len y m) = (m', r)" using 1(2) by (simp add: civil_month.simps [of y m n])
    then have i: "m + 1 \<le> m'" "r < month_len y m'" "n - month_len y m = sum_list (map (month_len y) [m + 1..<m']) + r"
      using 1(1) [OF False] by auto
    have "[m..<m'] = m # [m + 1..<m']" using i(1) by (simp add: upt_conv_Cons)
    then show ?thesis using i False by simp
  qed
qed

lemma sum_upt_le: "a \<le> b \<Longrightarrow> b \<le> c \<Longrightarrow> sum_list (map f [a..<b]) \<le> (sum_list (map f [a..<c]) :: nat)"
proof -
  assume "a \<le> b" "b \<le> c"
  then have "[a..<c] = [a..<b] @ [b..<c]" by (metis le_add_diff_inverse upt_add_eq_append)
  then show ?thesis by simp
qed

text \<open>Every day has one date, with the fields in their ranges.\<close>

lemma civil_ok:
  assumes "civil days = (y, m, d, yd)"
  shows "days = days_before_year y + yd \<and> yd = days_before_month y m + (d - 1) \<and> yd < year_len y \<and>
    1970 \<le> y \<and> 1 \<le> m \<and> m \<le> 12 \<and> 1 \<le> d \<and> d \<le> month_len y m"
proof -
  obtain r where 1: "civil_year 1970 days = (y, yd)" "civil_month y 1 yd = (m, r)" "d = r + 1"
    using assms by (auto simp: civil_def Let_def split: prod.splits)
  have y: "1970 \<le> y" "yd < year_len y" "days = days_before_year y + yd"
    using civil_year_ok [OF 1(1)] by (auto simp: days_before_year_def)
  have m: "1 \<le> m" "r < month_len y m" "yd = days_before_month y m + r"
    using civil_month_ok [OF 1(2)] by (auto simp: days_before_month_def)
  have "m \<le> 12"
  proof (rule ccontr)
    assume "\<not> m \<le> 12"
    then have "days_before_month y 13 \<le> days_before_month y m"
      unfolding days_before_month_def by (intro sum_upt_le) auto
    then show False using y(2) m(3) by (simp add: year_len_months)
  qed
  then show ?thesis using y m 1(3) by auto
qed

text \<open>The year, month and day of a day number, as a number of eight digits.\<close>

definition day_key :: "nat \<Rightarrow> nat" where
  "day_key days = (let (y, m, d, yd) = civil days in y * 10000 + m * 100 + d)"

lemma month_len_le: "month_len y m \<le> 31"
  by (simp add: month_len_def)

lemma days_before_month_Suc: "1 \<le> m \<Longrightarrow> days_before_month y (Suc m) = days_before_month y m + month_len y m"
  by (simp add: days_before_month_def)

lemma days_before_year_Suc: "1970 \<le> y \<Longrightarrow> days_before_year (Suc y) = days_before_year y + year_len y"
  by (simp add: days_before_year_def)

lemma days_before_year_mono: "1970 \<le> y \<Longrightarrow> y < y' \<Longrightarrow> days_before_year y + year_len y \<le> days_before_year y'"
  unfolding days_before_year_Suc [symmetric] unfolding days_before_year_def by (intro sum_upt_le) auto

lemma days_before_month_mono: "1 \<le> m \<Longrightarrow> m < m' \<Longrightarrow> days_before_month y m + month_len y m \<le> days_before_month y m'"
  unfolding days_before_month_Suc [symmetric] unfolding days_before_month_def by (intro sum_upt_le) auto

text \<open>Earlier days have smaller keys.\<close>

lemma day_key_less:
  assumes "a < b"
  shows "day_key a < day_key b"
proof -
  obtain y m d yd where a: "civil a = (y, m, d, yd)" using prod_cases4 by blast
  obtain y' m' d' yd' where b: "civil b = (y', m', d', yd')" using prod_cases4 by blast
  note A = civil_ok [OF a] and B = civil_ok [OF b]
  have d: "d \<le> 31" "d' \<le> 31" using A B month_len_le le_trans by blast+
  have "y \<le> y'"
  proof (rule ccontr)
    assume "\<not> y \<le> y'"
    then have "days_before_year y' + year_len y' \<le> days_before_year y" using B by (intro days_before_year_mono) auto
    then show False using A B assms by linarith
  qed
  moreover have "m \<le> m'" if "y = y'"
  proof (rule ccontr)
    assume "\<not> m \<le> m'"
    then have "days_before_month y m' + month_len y m' \<le> days_before_month y m" using B by (intro days_before_month_mono) auto
    then show False using A B assms unfolding that by linarith
  qed
  moreover have "d < d'" if "y = y'" "m = m'"
    using A B assms that by simp
  ultimately consider "y < y'" | "y = y'" "m < m'" | "y = y'" "m = m'" "d < d'" by linarith
  then have "y * 10000 + m * 100 + d < y' * 10000 + m' * 100 + d'"
    using A B d by cases linarith+
  then show ?thesis by (simp add: day_key_def a b)
qed

lemma day_key_le: "a \<le> b \<Longrightarrow> day_key a \<le> day_key b"
  using day_key_less [of a b] by (cases "a = b") auto

lemma day_key_inj: "day_key a = day_key b \<longleftrightarrow> a = b"
  using day_key_less [of a b] day_key_less [of b a] by (cases a b rule: linorder_cases) auto

lemma day_key_le_iff: "day_key a \<le> day_key b \<longleftrightarrow> a \<le> b"
  using day_key_less [of b a] day_key_le [of a b] by (cases "a \<le> b") auto

lemma day_key_less_iff: "day_key a < day_key b \<longleftrightarrow> a < b"
  using day_key_le_iff [of b a] by linarith

text \<open>\<open>mktime\<close> undoes \<open>uLocalTime\<close>.\<close>

lemma mktime_uLocalTime: "t \<noteq> 0 \<Longrightarrow> mktime (uLocalTime t) = t"
proof -
  assume t: "t \<noteq> 0"
  obtain y m d yd where c: "civil (unat t div 86400) = (y, m, d, yd)" using prod_cases4 by blast
  note C = civil_ok [OF c]
  let ?s = "unat t mod 86400"
  have s: "?s div 3600 * 3600 + ?s div 60 mod 60 * 60 + ?s mod 60 = ?s"
  proof -
    have "?s div 3600 = ?s div 60 div 60" by (simp add: div_mult2_eq [symmetric])
    then show ?thesis using div_mult_mod_eq [of "?s div 60" 60] div_mult_mod_eq [of ?s 60] by linarith
  qed
  have fields: "D = q \<Longrightarrow> a * 3600 + b * 60 + c = r \<Longrightarrow> q * 86400 + r = n \<Longrightarrow> D * 86400 + a * 3600 + b * 60 + c = n"
    for D q a b c r n :: nat by simp
  have "days_before_year y + days_before_month y m + (d - 1) = unat t div 86400" using C by linarith
  then have "(days_before_year y + days_before_month y m + (d - 1)) * 86400 + ?s div 3600 * 3600 + ?s div 60 mod 60 * 60 + ?s mod 60
      = unat t"
    by (rule fields) (rule s, rule div_mult_mod_eq)
  note sum = this
  have u: "uLocalTime t = \<lparr>tm_sec = ?s mod 60, tm_min = ?s div 60 mod 60, tm_hour = ?s div 3600, tm_mday = d, tm_mon = m,
      tm_year = y, tm_wday = (unat t div 86400 + 4) mod 7, tm_yday = yd\<rparr>"
    using t by (simp add: uLocalTime_def Let_def c)
  show ?thesis unfolding mktime_def u tm.simps sum by simp
qed

subsection \<open>Keys of files\<close>

abbreviation (input) LOG_TS_MIN :: u32 where "LOG_TS_MIN \<equiv> 1600000000"
abbreviation (input) LOG_TS_MAX :: u32 where "LOG_TS_MAX \<equiv> 2500000000"

definition date_key :: "tm \<Rightarrow> nat" where
  "date_key tm = tm_year tm * 10000 + tm_mon tm * 100 + tm_mday tm"

definition logCutoffKeyDays :: "u32 \<Rightarrow> nat \<Rightarrow> nat" where
  "logCutoffKeyDays sysTick1s days =
     (if sysTick1s < LOG_TS_MIN \<or> LOG_TS_MAX < sysTick1s then 0
      else date_key (uLocalTime (sysTick1s - of_nat days * 24 * 3600)))"

function month_back :: "int \<Rightarrow> int \<Rightarrow> int \<times> int" where
  "month_back y m = (if m \<le> 0 then month_back (y - 1) (m + 12) else (y, m))"
  by auto
termination
  by (relation "measure (\<lambda>(y, m). nat (1 - m))") auto

declare month_back.simps [simp del]

definition logCutoffKeyMonths :: "u32 \<Rightarrow> int \<Rightarrow> int" where
  "logCutoffKeyMonths sysTick1s months =
     (if sysTick1s < LOG_TS_MIN \<or> LOG_TS_MAX < sysTick1s then 0
      else let ltm = uLocalTime sysTick1s; (y, m) = month_back (int (tm_year ltm)) (int (tm_mon ltm) - months)
           in y * 100 + m)"

lemma date_key_day: "t \<noteq> 0 \<Longrightarrow> date_key (uLocalTime t) = day_key (unat t div 86400)"
  by (simp add: date_key_def uLocalTime_def day_key_def Let_def split: prod.splits)

text \<open>The month key is the number of the month counted in months, written in years and months.\<close>

lemma month_back_ok: "m \<le> 12 \<Longrightarrow> month_back y m = (y + (m - 1) div 12, (m - 1) mod 12 + 1)"
proof (induction y m rule: month_back.induct)
  case (1 y m)
  show ?case
  proof (cases "m \<le> 0")
    case True
    have "(m + 12 - 1) div 12 = (m - 1) div 12 + 1" "(m + 12 - 1) mod 12 = (m - 1) mod 12"
      using div_add_self2 [of 12 "m - 1"] mod_add_self2 [of "m - 1" 12] by (simp_all add: algebra_simps)
    then show ?thesis using 1 True by (simp add: month_back.simps [of y m])
  next
    case False
    then have "(m - 1) div 12 = 0" "(m - 1) mod 12 = m - 1" using 1(2) by simp_all
    then show ?thesis using False by (simp add: month_back.simps)
  qed
qed
end
