(* ===== verification/Retention.thy ===== *)
theory Retention
  imports FsTask Demand Calendar
begin

text \<open>
  How the device keeps its flash from filling up: the energy archive of \<open>meter.c\<close>, the trend
  files of \<open>alarm.c\<close> and the quality logs of \<open>Quality.c\<close> are each searched for their oldest
  file, which is deleted while the group is over its budget or older than it has to be kept.
  The contract of the search and of the deleting loop are the locales \<open>oldest_first\<close> and
  \<open>budget_trim\<close>, interpreted on the three groups. Also here: the energy logs in files and the
  work of \<open>egyIoTick\<close> on them.
\<close>

record ret_env =
  re_open :: "string \<Rightarrow> dir \<Rightarrow> bool"
  re_del :: "string \<Rightarrow> bool"
  re_junk :: "string \<Rightarrow> nat \<Rightarrow> char"

subsection \<open>Dates in file names\<close>

fun egyArchNameKey :: "string \<Rightarrow> nat" where
  "egyArchNameKey [] = 0"
| "egyArchNameKey (c # cs) =
     (let p = c # cs; ym = take 6 (drop 3 p)
      in if take 3 p = ''egy'' \<and> length ym = 6 \<and> list_all is_digit ym \<and> take 1 (drop 9 p) = ''_''
         then digits_val ym else egyArchNameKey cs)"

text \<open>A byte of the name as it lies in the record of \<open>ffind\<close>; behind the terminator lies what a longer name left.\<close>

definition name_at :: "ret_env \<Rightarrow> string \<Rightarrow> string \<Rightarrow> nat \<Rightarrow> int" where
  "name_at env nm cs k =
     int (of_char (if k < length cs then cs ! k else if k = length cs then CHR 0x00
                   else re_junk env nm (length nm - length cs + k)) :: nat) - 48"

fun trend_key_from :: "ret_env \<Rightarrow> string \<Rightarrow> string \<Rightarrow> int" where
  "trend_key_from env nm [] = 999999"
| "trend_key_from env nm (c # cs) =
     (if c = CHR ''_'' \<and> cs \<noteq> [] \<and> is_digit (hd cs)
      then (name_at env nm cs 0 * 1000 + name_at env nm cs 1 * 100 + name_at env nm cs 2 * 10 + name_at env nm cs 3) * 100 +
           (name_at env nm cs 4 * 10 + name_at env nm cs 5)
      else trend_key_from env nm cs)"

definition parseTrendMonthKey :: "ret_env \<Rightarrow> string \<Rightarrow> int" where
  "parseTrendMonthKey env nm = trend_key_from env nm nm"

fun date8_scan :: "string \<Rightarrow> nat option" where
  "date8_scan [] = None"
| "date8_scan (c # cs) =
     (if c = CHR ''_'' \<and> length (takeWhile is_digit (take 8 cs)) = 8
      then Some (digits_val (take 8 cs)) else date8_scan cs)"

definition parseDateKey8 :: "string \<Rightarrow> nat" where
  "parseDateKey8 nm =
     (case date8_scan nm of
        Some k \<Rightarrow> k
      | None \<Rightarrow> if 8 \<le> length nm \<and> list_all is_digit (take 8 nm) then digits_val (take 8 nm) else 99999999)"

subsection \<open>The search\<close>

text \<open>
  The loop over \<open>ffind\<close> that all three searches share: a file that is not counted is passed
  over, one that may not go is only counted, of the others the first with the smallest key stays.
\<close>

fun oldest_scan ::
  "(string \<Rightarrow> bool) \<Rightarrow> (string \<Rightarrow> bool) \<Rightarrow> (string \<Rightarrow> int) \<Rightarrow> dir \<Rightarrow> (string \<times> int) option \<times> nat \<Rightarrow> (string \<times> int) option \<times> nat" where
  "oldest_scan cnt del key [] r = r"
| "oldest_scan cnt del key (f # fs) (old, tot) =
     (let nm = fst f
      in if \<not> cnt nm then oldest_scan cnt del key fs (old, tot)
         else if \<not> del nm then oldest_scan cnt del key fs (old, tot + length (snd f))
         else oldest_scan cnt del key fs
                (case old of None \<Rightarrow> Some (nm, key nm)
                 | Some (o1, k) \<Rightarrow> if key nm < k then Some (nm, key nm) else Some (o1, k),
                 tot + length (snd f)))"

definition ffind_all :: "string \<Rightarrow> dir \<Rightarrow> dir" where
  "ffind_all pre d = filter (\<lambda>f. mask_match pre (fst f)) d"

definition findOldestEgyArch :: "dir \<Rightarrow> (string \<times> int) option \<times> nat" where
  "findOldestEgyArch d =
     oldest_scan (\<lambda>nm. egyArchNameKey nm \<noteq> 0) (\<lambda>nm. True) (\<lambda>nm. int (egyArchNameKey nm)) (ffind_all ''egy_egy'' d) (None, 0)"

text \<open>The keys of the present month and of the month before, from the clock.\<close>

definition getTrendMonthKeys :: "tm \<Rightarrow> int \<times> int" where
  "getTrendMonthKeys tod =
     (let y = int (tm_year tod); m = int (tm_mon tod); m1 = m - 1
      in (y * 100 + m, if m1 < 1 then (y - 1) * 100 + 12 else y * 100 + m1))"

definition findOldestTrendLog :: "ret_env \<Rightarrow> tm \<Rightarrow> dir \<Rightarrow> (string \<times> int) option \<times> nat" where
  "findOldestTrendLog env tod d =
     (let (cur, lastMonth) = getTrendMonthKeys tod
      in oldest_scan (\<lambda>nm. True) (\<lambda>nm. parseTrendMonthKey env nm < lastMonth) (parseTrendMonthKey env)
           (ffind_all ''trd_trd'' d) (None, 0))"

definition findOldestQualLog :: "nat \<Rightarrow> dir \<Rightarrow> (string \<times> int) option \<times> nat" where
  "findOldestQualLog currentKey d =
     (let del = (\<lambda>nm. parseDateKey8 nm < currentKey); key = (\<lambda>nm. int (parseDateKey8 nm))
      in oldest_scan (\<lambda>nm. True) del key (ffind_all ''pq_qw'' d)
           (oldest_scan (\<lambda>nm. True) del key (ffind_all ''pq_ql'' d) (None, 0)))"

subsection \<open>What every search promises\<close>

lemma oldest_scan_total:
  "snd (oldest_scan cnt del key d (old, n)) = n + sum_list (map (length \<circ> snd) (filter (cnt \<circ> fst) d))"
  by (induction d arbitrary: old n) (simp_all add: Let_def)

text \<open>The best so far is a candidate with the least key, or there is none.\<close>

definition least_of :: "(string \<Rightarrow> int) \<Rightarrow> string set \<Rightarrow> (string \<times> int) option \<Rightarrow> bool" where
  "least_of key S old \<longleftrightarrow>
     (case old of None \<Rightarrow> S = {} | Some (nm, k) \<Rightarrow> nm \<in> S \<and> k = key nm \<and> (\<forall>g \<in> S. k \<le> key g))"

lemma least_of_none [simp]: "least_of key {} None"
  by (simp add: least_of_def)

lemma least_of_insert:
  "least_of key S old \<Longrightarrow>
    least_of key (insert nm S)
      (case old of None \<Rightarrow> Some (nm, key nm) | Some (o1, k) \<Rightarrow> if key nm < k then Some (nm, key nm) else Some (o1, k))"
  by (fastforce simp: least_of_def split: option.splits)

lemma oldest_scan_least:
  "least_of key S old \<Longrightarrow>
    least_of key (S \<union> {nm \<in> fst ` set d. cnt nm \<and> del nm}) (fst (oldest_scan cnt del key d (old, n)))"
proof (induction d arbitrary: S old n)
  case (Cons f d)
  let ?T = "\<lambda>d. {nm \<in> fst ` set d. cnt nm \<and> del nm}"
  show ?case
  proof (cases "cnt (fst f) \<and> del (fst f)")
    case True
    then have "?T (f # d) = insert (fst f) (?T d)" by auto
    then have "S \<union> ?T (f # d) = insert (fst f) S \<union> ?T d" by simp
    then show ?thesis using Cons.IH [OF least_of_insert [OF Cons.prems, of "fst f"]] True by (simp add: Let_def)
  next
    case False
    then have "?T (f # d) = ?T d" by auto
    then show ?thesis using Cons.IH [OF Cons.prems] False by (auto simp: Let_def)
  qed
qed simp

text \<open>The flash that a group of files takes up.\<close>

definition group_size :: "(string \<Rightarrow> bool) \<Rightarrow> dir \<Rightarrow> nat" where
  "group_size cnt d = sum_list (map (length \<circ> snd) (filter (cnt \<circ> fst) d))"

lemma oldest_scan_size: "snd (oldest_scan cnt del key d (old, n)) = n + group_size cnt d"
  by (simp add: oldest_scan_total group_size_def)

lemma group_size_ffind: "group_size cnt (ffind_all pre d) = group_size (\<lambda>nm. mask_match pre nm \<and> cnt nm) d"
  by (simp add: group_size_def ffind_all_def o_def conj_commute)

lemma fcontent_fdelete: "fcontent p (fdelete nm d) = (if p = nm then [] else fcontent p d)"
  by (induction d) (auto simp: fcontent_def fdelete_def split: option.splits)

locale oldest_first =
  fixes counted deletable :: "string \<Rightarrow> bool" and key :: "string \<Rightarrow> int"
    and find :: "dir \<Rightarrow> (string \<times> int) option \<times> nat"
  assumes find_total: "snd (find d) = group_size counted d"
    and find_least: "least_of key {nm \<in> fst ` set d. deletable nm} (fst (find d))"
    and deletable_counted: "deletable nm \<Longrightarrow> counted nm"
begin

lemma find_none: "fst (find d) = None \<Longrightarrow> f \<in> set d \<Longrightarrow> \<not> deletable (fst f)"
  using find_least [of d] by (auto simp: least_of_def)

lemma find_some:
  assumes "fst (find d) = Some (nm, k)"
  shows "nm \<in> fst ` set d" "deletable nm" "k = key nm" "f \<in> set d \<Longrightarrow> deletable (fst f) \<Longrightarrow> key nm \<le> key (fst f)"
  using find_least [of d] assms by (auto simp: least_of_def)

lemma delete_shorter: "fst (find d) = Some (nm, k) \<Longrightarrow> length (fdelete nm d) < length d"
  using find_some(1) [of d nm k] by (auto simp: fdelete_def intro!: length_filter_less)

lemma delete_found_shorter: "(Some (nm, k), n) = find d \<Longrightarrow> length (fdelete nm d) < length d"
  using delete_shorter [of d nm k] by (metis fst_conv)

end

locale budget_trim = oldest_first +
  fixes budget :: nat and del_ok :: "string \<Rightarrow> bool" and trim :: "dir \<Rightarrow> dir"
  assumes trim_eq: "trim d =
    (case find d of
       (None, n) \<Rightarrow> d
     | (Some (nm, k), n) \<Rightarrow> if n \<le> budget then d else if \<not> del_ok nm then d else trim (fdelete nm d))"
begin

lemma trim_cases:
  obtains (None) "fst (find d) = None" "trim d = d"
  | (Fits) "group_size counted d \<le> budget" "trim d = d"
  | (Fail) nm k where "fst (find d) = Some (nm, k)" "\<not> del_ok nm" "trim d = d"
  | (Del) nm k where "fst (find d) = Some (nm, k)" "del_ok nm" "budget < group_size counted d" "trim d = trim (fdelete nm d)"
proof -
  obtain o1 n where f: "find d = (o1, n)" by (cases "find d")
  have n: "n = group_size counted d" using find_total [of d] by (simp add: f)
  show thesis
  proof (cases o1)
    case None
    then show thesis using that(1) f trim_eq [of d] by simp
  next
    case (Some p)
    obtain nm k where p: "p = (nm, k)" by (cases p)
    show thesis using that(2-4) f Some p n trim_eq [of d] by (cases "n \<le> budget"; cases "del_ok nm") auto
  qed
qed

lemma trim_induct [case_names Stop Del]:
  assumes "\<And>d. trim d = d \<Longrightarrow> P d"
    and "\<And>d nm k. fst (find d) = Some (nm, k) \<Longrightarrow> del_ok nm \<Longrightarrow> budget < group_size counted d \<Longrightarrow> trim d = trim (fdelete nm d) \<Longrightarrow>
      P (fdelete nm d) \<Longrightarrow> P d"
  shows "P d"
proof (induction "length d" arbitrary: d rule: less_induct)
  case less
  show ?case
  proof (cases d rule: trim_cases)
    case (Del nm k)
    then show ?thesis using less delete_shorter [of d nm k] assms(2) by blast
  qed (auto intro: assms(1))
qed

lemma trim_subset: "set (trim d) \<subseteq> set d"
proof (induction d rule: trim_induct)
  case (Del d nm k)
  then show ?case by (auto simp: fdelete_def)
qed simp

lemma trim_protects: "f \<in> set d \<Longrightarrow> \<not> deletable (fst f) \<Longrightarrow> f \<in> set (trim d)"
proof (induction d rule: trim_induct)
  case (Del d nm k)
  have "fst f \<noteq> nm" using find_some(2) [OF Del(1)] Del.prems(2) by auto
  then show ?case using Del by (auto simp: fdelete_def)
qed simp

lemma trim_oldest_first:
  "f \<in> set d \<Longrightarrow> f \<notin> set (trim d) \<Longrightarrow> g \<in> set (trim d) \<Longrightarrow> deletable (fst g) \<Longrightarrow> key (fst f) \<le> key (fst g)"
proof (induction d rule: trim_induct)
  case (Del d nm k)
  show ?case
  proof (cases "fst f = nm")
    case True
    have "g \<in> set d" using Del.prems(3) trim_subset by blast
    then show ?thesis using find_some(4) [OF Del(1)] Del.prems(4) True by blast
  next
    case False
    then have "f \<in> set (fdelete nm d)" using Del.prems(1) by (simp add: fdelete_def)
    then show ?thesis using Del by simp
  qed
qed simp

lemma trim_fits:
  assumes "\<And>nm. del_ok nm"
  shows "group_size counted (trim d) \<le> budget \<or> (\<forall>f \<in> set (trim d). \<not> deletable (fst f))"
proof (induction "length d" arbitrary: d rule: less_induct)
  case less
  show ?case
  proof (cases d rule: trim_cases)
    case None
    then show ?thesis using find_none by auto
  next
    case (Fail nm k)
    then show ?thesis using assms by blast
  next
    case (Del nm k)
    then show ?thesis using less delete_shorter [of d nm k] by simp
  qed simp
qed

lemma trim_content: "\<not> deletable p \<Longrightarrow> fcontent p (trim d) = fcontent p d"
proof (induction d rule: trim_induct)
  case (Del d nm k)
  then show ?case using find_some(2) [OF Del(1)] by (auto simp: fcontent_fdelete)
qed simp

lemma trim_names: "\<not> deletable p \<Longrightarrow> p \<in> fst ` set (trim d) \<longleftrightarrow> p \<in> fst ` set d"
  using trim_subset [of d] trim_protects [of _ d] by fastforce

lemma trim_idle: "group_size counted d \<le> budget \<Longrightarrow> trim d = d"
  by (cases d rule: trim_cases) auto

end

subsection \<open>The energy archive\<close>

definition egy_file :: "string \<Rightarrow> bool" where
  "egy_file nm \<longleftrightarrow> mask_match ''egy_egy'' nm \<and> egyArchNameKey nm \<noteq> 0"

interpretation egy_find: oldest_first egy_file egy_file "\<lambda>nm. int (egyArchNameKey nm)" findOldestEgyArch
proof
  show "snd (findOldestEgyArch d) = group_size egy_file d" for d
    by (simp add: findOldestEgyArch_def oldest_scan_size group_size_ffind egy_file_def [abs_def])
  show "least_of (\<lambda>nm. int (egyArchNameKey nm)) {nm \<in> fst ` set d. egy_file nm} (fst (findOldestEgyArch d))" for d
  proof -
    have "{nm \<in> fst ` set (ffind_all ''egy_egy'' d). egyArchNameKey nm \<noteq> 0 \<and> True} = {nm \<in> fst ` set d. egy_file nm}"
      by (auto simp: ffind_all_def egy_file_def)
    then show ?thesis
      using oldest_scan_least [of "\<lambda>nm. int (egyArchNameKey nm)" "{}" None "ffind_all ''egy_egy'' d"
          "\<lambda>nm. egyArchNameKey nm \<noteq> 0" "\<lambda>nm. True" 0]
      by (simp add: findOldestEgyArch_def)
  qed
qed

function trimEgyArchBudget :: "ret_env \<Rightarrow> dir \<Rightarrow> dir" where
  "trimEgyArchBudget env d =
     (case findOldestEgyArch d of
        (None, n) \<Rightarrow> d
      | (Some (nm, k), n) \<Rightarrow>
          if n \<le> 1024 * 1024 then d
          else if \<not> re_del env nm then d
          else trimEgyArchBudget env (fdelete nm d))"
  by auto
termination
  by (relation "measure (length \<circ> snd)") (auto intro: egy_find.delete_found_shorter)

declare trimEgyArchBudget.simps [simp del]

interpretation egy_trim: budget_trim egy_file egy_file "\<lambda>nm. int (egyArchNameKey nm)" findOldestEgyArch
  "1024 * 1024" "re_del env" "trimEgyArchBudget env" for env
  by unfold_locales (rule trimEgyArchBudget.simps)

definition trimEgyArchAge :: "ret_env \<Rightarrow> int \<Rightarrow> dir \<Rightarrow> dir" where
  "trimEgyArchAge env cutoffKey d =
     (if cutoffKey = 0 then d
      else case findOldestEgyArch d of
        (None, n) \<Rightarrow> d
      | (Some (nm, k), n) \<Rightarrow>
          if int (egyArchNameKey nm) \<ge> cutoffKey then d else if re_del env nm then fdelete nm d else d)"

text \<open>A log as the bytes of its structure: the reserved words and the check sum are never set.\<close>

definition elog_bytes :: "energy_log \<Rightarrow> bytes" where
  "elog_bytes l = le_bytes 4 (el_ts l) @ concat (map (le_array 4) (el_egy l)) @ replicate 8 0 @ le_bytes 2 (el_magic l) @ replicate 2 0"

definition egyArchFile :: "tm \<Rightarrow> nat \<Rightarrow> string" where
  "egyArchFile ltm k = ''egy_egy'' @ pad0 4 (tm_year ltm) @ pad0 2 (tm_mon ltm) @ ''_m'' @ dec k @ ''.d''"

definition archiveEnergyLog15Day :: "ret_env \<Rightarrow> u32 \<Rightarrow> nat \<Rightarrow> energy_log \<Rightarrow> dir \<Rightarrow> dir" where
  "archiveEnergyLog15Day env sysTick1s k pDay d =
     (if el_ts pDay = 0 then d
      else let d0 = (if re_open env ''egy_temp.$$$'' d then fappend ''egy_temp.$$$'' [] d else d);
               path = egyArchFile (uLocalTime (el_ts pDay)) k;
               d1 = (if re_open env path d0 then d0 else trimEgyArchBudget env d0);
               d2 = (if re_open env path d1 then fappend path (elog_bytes pDay) d1 else d1)
           in trimEgyArchAge env (logCutoffKeyMonths sysTick1s 6) (trimEgyArchBudget env d2))"

subsection \<open>Trend files\<close>

definition trend_old :: "ret_env \<Rightarrow> tm \<Rightarrow> string \<Rightarrow> bool" where
  "trend_old env tod nm \<longleftrightarrow> mask_match ''trd_trd'' nm \<and> parseTrendMonthKey env nm < snd (getTrendMonthKeys tod)"

interpretation trd_find: oldest_first "mask_match ''trd_trd''" "trend_old env tod" "parseTrendMonthKey env" "findOldestTrendLog env tod"
  for env tod
proof
  let ?old = "\<lambda>nm. parseTrendMonthKey env nm < snd (getTrendMonthKeys tod)"
  have find: "findOldestTrendLog env tod d =
      oldest_scan (\<lambda>nm. True) ?old (parseTrendMonthKey env) (ffind_all ''trd_trd'' d) (None, 0)" for d
    by (simp add: findOldestTrendLog_def split: prod.split)
  show "snd (findOldestTrendLog env tod d) = group_size (mask_match ''trd_trd'') d" for d
    by (simp add: find oldest_scan_size group_size_ffind)
  show "least_of (parseTrendMonthKey env) {nm \<in> fst ` set d. trend_old env tod nm} (fst (findOldestTrendLog env tod d))" for d
  proof -
    have "{nm \<in> fst ` set (ffind_all ''trd_trd'' d). True \<and> ?old nm} = {nm \<in> fst ` set d. trend_old env tod nm}"
      by (auto simp: ffind_all_def trend_old_def)
    then show ?thesis
      using oldest_scan_least [of "parseTrendMonthKey env" "{}" None "ffind_all ''trd_trd'' d"
          "\<lambda>nm. True" ?old 0]
      by (simp add: find)
  qed
  show "mask_match ''trd_trd'' nm" if "trend_old env tod nm" for nm
    using that by (simp add: trend_old_def)
qed

function trimTrendLogBudget :: "ret_env \<Rightarrow> tm \<Rightarrow> dir \<Rightarrow> dir" where
  "trimTrendLogBudget env tod d =
     (case findOldestTrendLog env tod d of
        (None, n) \<Rightarrow> d
      | (Some (nm, k), n) \<Rightarrow>
          if n \<le> 3000 * 1024 then d
          else if \<not> re_del env nm then d
          else trimTrendLogBudget env tod (fdelete nm d))"
  by auto
termination
  by (relation "measure (length \<circ> snd \<circ> snd)") (auto intro: trd_find.delete_found_shorter)

declare trimTrendLogBudget.simps [simp del]

interpretation trd_trim: budget_trim "mask_match ''trd_trd''" "trend_old env tod" "parseTrendMonthKey env"
  "findOldestTrendLog env tod" "3000 * 1024" "re_del env" "trimTrendLogBudget env tod" for env tod
  by unfold_locales (rule trimTrendLogBudget.simps)

subsection \<open>Quality logs\<close>

definition qual_file :: "string \<Rightarrow> bool" where
  "qual_file nm \<longleftrightarrow> mask_match ''pq_ql'' nm \<or> mask_match ''pq_qw'' nm"

definition qual_old :: "nat \<Rightarrow> string \<Rightarrow> bool" where
  "qual_old currentKey nm \<longleftrightarrow> qual_file nm \<and> parseDateKey8 nm < currentKey"

lemma qual_masks: "mask_match ''pq_ql'' nm \<Longrightarrow> \<not> mask_match ''pq_qw'' nm"
  by (auto simp: mask_match_def starts_def)

lemma qual_sizes:
  "group_size qual_file d = group_size (mask_match ''pq_ql'') d + group_size (mask_match ''pq_qw'') d"
  by (induction d) (auto simp: group_size_def qual_file_def dest: qual_masks)

interpretation ql_find: oldest_first qual_file "qual_old cur" "\<lambda>nm. int (parseDateKey8 nm)" "findOldestQualLog cur" for cur
proof
  let ?key = "\<lambda>nm. int (parseDateKey8 nm)"
  let ?ql = "\<lambda>d. oldest_scan (\<lambda>nm. True) (\<lambda>nm. parseDateKey8 nm < cur) ?key (ffind_all ''pq_ql'' d) (None, 0)"
  have find: "findOldestQualLog cur d = oldest_scan (\<lambda>nm. True) (\<lambda>nm. parseDateKey8 nm < cur) ?key (ffind_all ''pq_qw'' d) (fst (?ql d), snd (?ql d))" for d
    by (simp add: findOldestQualLog_def Let_def)
  show "snd (findOldestQualLog cur d) = group_size qual_file d" for d
    unfolding find qual_sizes by (simp add: oldest_scan_size group_size_ffind)
  show "least_of ?key {nm \<in> fst ` set d. qual_old cur nm} (fst (findOldestQualLog cur d))" for d
  proof -
    let ?S = "\<lambda>p. {nm \<in> fst ` set (ffind_all p d). True \<and> parseDateKey8 nm < cur}"
    have "?S ''pq_ql'' \<union> ?S ''pq_qw'' = {nm \<in> fst ` set d. qual_old cur nm}"
      by (auto simp: ffind_all_def qual_old_def qual_file_def)
    moreover have "least_of ?key ({} \<union> ?S ''pq_ql'') (fst (?ql d))" by (rule oldest_scan_least) simp
    then have "least_of ?key (?S ''pq_ql'' \<union> ?S ''pq_qw'') (fst (findOldestQualLog cur d))"
      unfolding find by (intro oldest_scan_least) simp
    ultimately show ?thesis by simp
  qed
  show "qual_file nm" if "qual_old cur nm" for nm using that by (simp add: qual_old_def)
qed

text \<open>\<open>getQualStartDate\<close>: the first day of the running week, whose start day is a setting.\<close>

definition week_back :: "nat \<Rightarrow> tm \<Rightarrow> nat" where
  "week_back startDay ltm = (tm_wday ltm + 7 - (if 6 < startDay then 0 else startDay)) mod 7"

definition date_str :: "tm \<Rightarrow> string" where
  "date_str ltm = pad0 4 (tm_year ltm) @ pad0 2 (tm_mon ltm) @ pad0 2 (tm_mday ltm)"

definition getQualStartDate :: "nat \<Rightarrow> u32 \<Rightarrow> string" where
  "getQualStartDate startDay sysTick1s =
     date_str (uLocalTime (sysTick1s - of_nat (week_back startDay (uLocalTime sysTick1s)) * 24 * 3600))"

definition trimQualLogStep_nolock :: "ret_env \<Rightarrow> nat \<Rightarrow> nat \<Rightarrow> dir \<Rightarrow> bool \<times> dir" where
  "trimQualLogStep_nolock env currentKey cutoffKey d =
     (case findOldestQualLog currentKey d of
        (None, n) \<Rightarrow> (False, d)
      | (Some (nm, k), n) \<Rightarrow>
          (let over = n > 11500 * 1024; aged = (cutoffKey \<noteq> 0 \<and> parseDateKey8 nm < cutoffKey)
           in if \<not> over \<and> \<not> aged then (False, d)
              else if re_del env nm then (True, fdelete nm d) else (False, d)))"

text \<open>At most \<open>PQ_TRIM_MAX\<close> steps to a run.\<close>

fun trimQual_loop :: "nat \<Rightarrow> ret_env \<Rightarrow> nat \<Rightarrow> nat \<Rightarrow> dir \<Rightarrow> dir" where
  "trimQual_loop 0 env cur cutoffKey d = d"
| "trimQual_loop (Suc n) env cur cutoffKey d =
     (case trimQualLogStep_nolock env cur cutoffKey d of
        (False, d') \<Rightarrow> d' | (True, d') \<Rightarrow> trimQual_loop n env cur cutoffKey d')"

abbreviation (input) PQ_TRIM_MAX :: nat where "PQ_TRIM_MAX \<equiv> 8"

definition trimQualLogs :: "ret_env \<Rightarrow> nat \<Rightarrow> u32 \<Rightarrow> nat \<Rightarrow> dir \<Rightarrow> dir" where
  "trimQualLogs env startDay sysTick1s cutoffKey d =
     trimQual_loop PQ_TRIM_MAX env (parseDateKey8 (getQualStartDate startDay sysTick1s)) cutoffKey d"

subsection \<open>Names and dates\<close>

lemma civil_year_range: "tm_year (uLocalTime t) < 10000"
proof (cases "t = 0")
  case False
  obtain y m d yd where c: "civil (unat t div 86400) = (y, m, d, yd)" using prod_cases4 by blast
  have "unat t < 2 ^ LENGTH(32)" by (rule unsigned_less)
  then have days: "unat t div 86400 < 49711" by (simp add: less_mult_imp_div_less)
  have "365 * (y - 1970) \<le> days_before_year y"
  proof -
    have "365 * length ys \<le> sum_list (map year_len ys)" for ys by (induction ys) (simp_all add: year_len_def)
    from this [of "[1970..<y]"] show ?thesis by (simp add: days_before_year_def)
  qed
  then have "y < 10000" using civil_ok [OF c] days by linarith
  then show ?thesis using False by (simp add: uLocalTime_def Let_def c)
qed (simp add: uLocalTime_def)

lemma civil_mon_range: "tm_mon (uLocalTime t) < 100 \<and> tm_mday (uLocalTime t) < 100"
proof (cases "t = 0")
  case False
  obtain y m d yd where c: "civil (unat t div 86400) = (y, m, d, yd)" using prod_cases4 by blast
  have "m < 100" "d < 100" using civil_ok [OF c] month_len_le [of y m] by linarith+
  then show ?thesis using False by (simp add: uLocalTime_def Let_def c)
qed (simp add: uLocalTime_def)

definition dated :: "tm \<Rightarrow> bool" where
  "dated ltm \<longleftrightarrow> tm_year ltm < 10000 \<and> tm_mon ltm < 100 \<and> tm_mday ltm < 100"

lemma dated_uLocalTime [simp]: "dated (uLocalTime t)"
  using civil_year_range civil_mon_range by (simp add: dated_def)

lemma year_digits: "dated ltm \<Longrightarrow> length (pad0 4 (tm_year ltm)) = 4 \<and> list_all is_digit (pad0 4 (tm_year ltm)) \<and>
    digits_val (pad0 4 (tm_year ltm)) = tm_year ltm"
  using pad0_ok [of 4 "tm_year ltm"] by (simp add: dated_def)

lemma mon_digits: "dated ltm \<Longrightarrow> length (pad0 2 (tm_mon ltm)) = 2 \<and> list_all is_digit (pad0 2 (tm_mon ltm)) \<and>
    digits_val (pad0 2 (tm_mon ltm)) = tm_mon ltm"
  using pad0_ok [of 2 "tm_mon ltm"] by (simp add: dated_def)

lemma day_digits: "dated ltm \<Longrightarrow> length (pad0 2 (tm_mday ltm)) = 2 \<and> list_all is_digit (pad0 2 (tm_mday ltm)) \<and>
    digits_val (pad0 2 (tm_mday ltm)) = tm_mday ltm"
  using pad0_ok [of 2 "tm_mday ltm"] by (simp add: dated_def)

lemma egy_key_of_file:
  assumes "dated ltm"
  shows "egyArchNameKey (egyArchFile ltm k) = tm_year ltm * 100 + tm_mon ltm"
  using year_digits [OF assms] mon_digits [OF assms]
  by (simp add: egyArchFile_def is_digit_def [of "CHR ''_''"] digits_val_append)

lemma date_str_ok: "dated ltm \<Longrightarrow> length (date_str ltm) = 8 \<and> list_all is_digit (date_str ltm) \<and>
    digits_val (date_str ltm) = date_key ltm"
  using year_digits [of ltm] mon_digits [of ltm] day_digits [of ltm] by (simp add: date_str_def digits_val_append date_key_def)

lemma takeWhile_digits: "list_all P xs \<Longrightarrow> takeWhile P xs = xs"
  by (induction xs) simp_all

lemma date_key_of_str: "dated ltm \<Longrightarrow> parseDateKey8 (date_str ltm) = date_key ltm"
proof -
  assume "dated ltm"
  then have d: "length (date_str ltm) = 8" "list_all is_digit (date_str ltm)" "digits_val (date_str ltm) = date_key ltm"
    using date_str_ok by auto
  have "date8_scan s = None" if "list_all is_digit s" for s
    using that by (induction s) (auto simp: is_digit_def)
  then show ?thesis using d by (simp add: parseDateKey8_def)
qed

lemma date_key_of_file:
  assumes "dated ltm" "c \<noteq> CHR ''_''"
  shows "parseDateKey8 (''pq_q'' @ [c, CHR ''_''] @ date_str ltm @ r) = date_key ltm"
proof -
  have d: "length (date_str ltm) = 8" "list_all is_digit (date_str ltm)" "digits_val (date_str ltm) = date_key ltm"
    using date_str_ok [OF assms(1)] by auto
  have t: "take 8 (date_str ltm @ r) = date_str ltm" using d(1) by simp
  have w: "takeWhile is_digit (date_str ltm) = date_str ltm" using d(2) by (rule takeWhile_digits)
  have "date8_scan (CHR ''_'' # date_str ltm @ r) = Some (date_key ltm)"
    by (simp only: date8_scan.simps t w d simp_thms if_True)
  moreover have "date8_scan (''pq_q'' @ [c, CHR ''_''] @ date_str ltm @ r) = date8_scan (CHR ''_'' # date_str ltm @ r)"
    using assms(2) by (simp add: is_digit_def [of "CHR ''q''"] del: date8_scan.simps(2)) (simp add: is_digit_def [of "CHR ''q''"])
  ultimately show ?thesis by (simp add: parseDateKey8_def)
qed

definition getQualFN :: "char \<Rightarrow> nat \<Rightarrow> u32 \<Rightarrow> nat \<Rightarrow> string" where
  "getQualFN c startDay sysTick1s k = ''pq_q'' @ [c, CHR ''_''] @ getQualStartDate startDay sysTick1s @ ''_m'' @ dec k @ ''.d''"

text \<open>Trend files carry the group, the year and the month, and the meter.\<close>

definition getTrendFile :: "tm \<Rightarrow> nat \<Rightarrow> nat \<Rightarrow> string" where
  "getTrendFile tod mid g =
     (if mid = 0 then ''trd_trd'' @ dec g @ ''_'' @ pad0 4 (tm_year tod) @ pad0 2 (tm_mon tod) @ ''V'' @ dec 0 @ ''.d''
      else ''trd_trd'' @ dec g @ ''_'' @ pad0 4 (tm_year tod) @ pad0 2 (tm_mon tod) @ ''M'' @ dec mid @ ''.d'')"

definition getTrendBackupFile :: "tm \<Rightarrow> nat \<Rightarrow> nat \<Rightarrow> string" where
  "getTrendBackupFile tod mid g =
     (if mid = 0
      then ''trd'' @ dec g @ ''_'' @ pad0 4 (tm_year tod) @ pad0 2 (tm_mon tod) @ ''V'' @ dec 0 @ ''_'' @ pad0 2 (tm_mday tod) @ ''.d''
      else ''trd'' @ dec g @ ''_'' @ pad0 4 (tm_year tod) @ pad0 2 (tm_mon tod) @ ''M'' @ dec mid @ ''_'' @ pad0 2 (tm_mday tod) @ ''.d'')"

lemma digit_nat: "is_digit c \<Longrightarrow> int (of_char c) - 48 = int (of_char c - 48 :: nat)"
  by (simp add: is_digit_def of_nat_diff)

lemma trend_key_skip:
  "list_all is_digit s \<Longrightarrow> trend_key_from env nm (s @ CHR ''_'' # t) = trend_key_from env nm (CHR ''_'' # t)"
  by (induction s) (auto simp: is_digit_def)

lemma trend_key_of_date:
  assumes "dated ltm"
  shows "trend_key_from env nm (CHR ''_'' # pad0 4 (tm_year ltm) @ pad0 2 (tm_mon ltm) @ r) = int (tm_year ltm * 100 + tm_mon ltm)"
proof -
  obtain a b c d where y: "pad0 4 (tm_year ltm) = [a, b, c, d]"
    using year_digits [OF assms] by (auto simp: length_Suc_conv eval_nat_numeral)
  obtain e f where m: "pad0 2 (tm_mon ltm) = [e, f]"
    using mon_digits [OF assms] by (auto simp: length_Suc_conv eval_nat_numeral)
  have dig: "is_digit a" "is_digit b" "is_digit c" "is_digit d" "is_digit e" "is_digit f"
    using year_digits [OF assms] mon_digits [OF assms] by (simp_all add: y m)
  have v: "tm_year ltm = digits_val [a, b, c, d]" "tm_mon ltm = digits_val [e, f]"
    using year_digits [OF assms] mon_digits [OF assms] by (simp_all add: y m)
  have "trend_key_from env nm (CHR ''_'' # [a, b, c, d] @ [e, f] @ r) = int (digits_val [a, b, c, d] * 100 + digits_val [e, f])"
    using dig by (simp add: name_at_def digit_nat digits_val_def)
  then show ?thesis unfolding v [symmetric] y m .
qed

lemma trend_key_prefix: "trend_key_from env nm (''trd_trd'' @ s) = trend_key_from env nm s"
  by (simp add: is_digit_def)

lemma trend_key_of_file:
  assumes "dated tod"
  shows "parseTrendMonthKey env (getTrendFile tod mid g) = int (tm_year tod * 100 + tm_mon tod)"
proof -
  have d: "list_all is_digit (dec g)" using dec_digits [of g] by (simp add: list_all_iff)
  have "trend_key_from env nm (''trd_trd'' @ dec g @ ''_'' @ pad0 4 (tm_year tod) @ pad0 2 (tm_mon tod) @ r) =
      int (tm_year tod * 100 + tm_mon tod)" for nm r
    unfolding trend_key_prefix using trend_key_skip [OF d] trend_key_of_date [OF assms] by (simp only: append_Cons append_Nil)
  then show ?thesis unfolding parseTrendMonthKey_def getTrendFile_def by (simp split: if_split)
qed

subsection \<open>The energy archive keeps every day\<close>

lemma group_size_fwrite_all:
  "group_size cnt (fwrite_all p bs d) + (if cnt p then length (fcontent p d) else 0) =
    group_size cnt d + (if cnt p then length bs else 0)"
  by (induction p bs d rule: fwrite_all.induct) (auto simp: group_size_def fcontent_def split: option.splits)

lemma group_size_fappend: "group_size cnt (fappend p bs d) = group_size cnt d + (if cnt p then length bs else 0)"
  using group_size_fwrite_all [of cnt p "fcontent p d @ bs" d] by (simp add: fappend_def split: if_splits)

lemma egy_file_archive: "dated ltm \<Longrightarrow> 0 < tm_mon ltm \<Longrightarrow> egy_file (egyArchFile ltm k)"
  unfolding egy_file_def egy_key_of_file by (simp add: egyArchFile_def mask_match_def starts_def)

lemma trimEgyArchAge_content:
  "\<not> egy_file p \<or> int (egyArchNameKey p) \<ge> cutoffKey \<Longrightarrow>
    fcontent p (trimEgyArchAge env cutoffKey d) = fcontent p d"
  using egy_find.find_some(2) [of d]
  by (auto simp: trimEgyArchAge_def fcontent_fdelete split: option.splits prod.splits if_splits)

lemma mon_pos: "t \<noteq> 0 \<Longrightarrow> 0 < tm_mon (uLocalTime t)"
proof -
  assume t: "t \<noteq> 0"
  obtain y m d yd where c: "civil (unat t div 86400) = (y, m, d, yd)" using prod_cases4 by blast
  then show ?thesis using t civil_ok [OF c] by (simp add: uLocalTime_def Let_def)
qed

text \<open>C36. No day of energy is lost and nothing else is touched: while the archive fits its budget and
  the day's month is within the months to be kept, archiving a finished day adds its record to the
  end of the file of its month and meter, and no file outside the archive changes but the empty
  marker file.\<close>

theorem archived_day_is_kept:
  assumes "\<forall>nm d. re_open env nm d" "el_ts l \<noteq> 0"
    and "group_size egy_file d + length (elog_bytes l) \<le> 1024 * 1024"
    and "logCutoffKeyMonths now 6 \<le> int (tm_year (uLocalTime (el_ts l)) * 100 + tm_mon (uLocalTime (el_ts l)))"
  shows "let path = egyArchFile (uLocalTime (el_ts l)) k; d' = archiveEnergyLog15Day env now k l d
    in fcontent path d' = fcontent path d @ elog_bytes l \<and>
       (\<forall>nm. \<not> egy_file nm \<longrightarrow> fcontent nm d' = fcontent nm d)"
proof -
  define path where "path = egyArchFile (uLocalTime (el_ts l)) k"
  define d2 where "d2 = fappend path (elog_bytes l) (fappend ''egy_temp.$$$'' [] d)"
  have temp: "\<not> egy_file ''egy_temp.$$$''" by (simp add: egy_file_def mask_match_def starts_def)
  have path: "egy_file path" unfolding path_def using mon_pos [OF assms(2)] by (intro egy_file_archive) simp_all
  have key: "int (egyArchNameKey path) \<ge> logCutoffKeyMonths now 6"
    using assms(4) by (simp add: path_def egy_key_of_file)
  have "group_size egy_file d2 \<le> 1024 * 1024" using assms(3) path temp by (simp add: d2_def group_size_fappend)
  then have "trimEgyArchBudget env d2 = d2" by (rule egy_trim.trim_idle)
  then have d': "archiveEnergyLog15Day env now k l d = trimEgyArchAge env (logCutoffKeyMonths now 6) d2"
    using assms(1,2) by (simp add: archiveEnergyLog15Day_def Let_def d2_def path_def)
  have "fcontent path d2 = fcontent path d @ elog_bytes l" using path temp by (auto simp: d2_def fcontent_fappend)
  moreover have "fcontent nm d2 = fcontent nm d" if "\<not> egy_file nm" for nm
    using path that by (auto simp: d2_def fcontent_fappend)
  ultimately show ?thesis
    using trimEgyArchAge_content [of _ "logCutoffKeyMonths now 6" env d2] key
    unfolding Let_def path_def [symmetric] d' by simp
qed

definition demo_ret_env :: ret_env where
  "demo_ret_env = \<lparr>re_open = (\<lambda>_ _. True), re_del = (\<lambda>_. True), re_junk = (\<lambda>_ _. CHR 0x00)\<rparr>"

lemma demo_civil: "uLocalTime 1700000000 = \<lparr>tm_sec = 20, tm_min = 13, tm_hour = 22, tm_mday = 14, tm_mon = 11, tm_year = 2023,
    tm_wday = 2, tm_yday = 317\<rparr>"
  by (simp add: uLocalTime_def Let_def civil_def civil_year.simps civil_month.simps year_len_def month_len_def leap_def)

theorem archived_day_is_kept_witness:
  "let path = egyArchFile (uLocalTime 1700000000) 1;
       d' = archiveEnergyLog15Day demo_ret_env 1700000100 1 ((zero_log 96)\<lparr>el_ts := 1700000000\<rparr>) []
    in fcontent path d' = elog_bytes ((zero_log 96)\<lparr>el_ts := 1700000000\<rparr>)"
proof -
  let ?l = "(zero_log 96)\<lparr>el_ts := 1700000000\<rparr>"
  have len: "length (elog_bytes ?l) \<le> 1024 * 1024"
    by (simp add: elog_bytes_def zero_log_def length_concat o_def sum_list_replicate)
  have "logCutoffKeyMonths 1700000100 6 = 202305"
    by (simp add: logCutoffKeyMonths_def uLocalTime_def Let_def civil_def civil_year.simps civil_month.simps
        year_len_def month_len_def leap_def month_back.simps)
  then show ?thesis
    using archived_day_is_kept [of demo_ret_env ?l "[]" 1700000100 1] len
    by (simp add: demo_civil Let_def demo_ret_env_def group_size_def fcontent_def [of _ "[]"])
qed

subsection \<open>Trend files of this month and the last stay\<close>

text \<open>C37. Clearing trend files frees flash without touching what is in use: for every valid date, the
  trend files of this month and the last, of every group and meter, and every file that is no
  trend file stay as they are; the others go oldest month first; and when deleting works, the
  trend files end up within their budget of 3000 KB or no file of an older month is left (files
  of a later month and files whose name is read as one are kept, though they count).\<close>

theorem trend_trim_keeps_recent:
  assumes "dated tod" "1 \<le> tm_mon tod"
  shows "let d' = trimTrendLogBudget env tod d; old = (\<lambda>f. trend_old env tod (fst f)); key = (\<lambda>f. parseTrendMonthKey env (fst f))
    in set d' \<subseteq> set d \<and> (\<forall>f \<in> set d. \<not> old f \<longrightarrow> f \<in> set d') \<and>
       (\<forall>mid g. \<not> trend_old env tod (getTrendFile tod mid g)) \<and>
       (\<forall>mid g. \<not> trend_old env tod (getTrendFile (tod\<lparr>tm_year := (if tm_mon tod = 1 then tm_year tod - 1 else tm_year tod),
          tm_mon := (if tm_mon tod = 1 then 12 else tm_mon tod - 1)\<rparr>) mid g)) \<and>
       (\<forall>f \<in> set d - set d'. \<forall>g \<in> set d'. old g \<longrightarrow> key f \<le> key g) \<and>
       ((\<forall>nm. re_del env nm) \<longrightarrow> group_size (mask_match ''trd_trd'') d' \<le> 3000 * 1024 \<or> (\<forall>f \<in> set d'. \<not> old f))"
proof -
  have snd: "snd (getTrendMonthKeys tod) =
      (if tm_mon tod = 1 then (int (tm_year tod) - 1) * 100 + 12 else int (tm_year tod) * 100 + int (tm_mon tod) - 1)"
    using assms(2) by (simp add: getTrendMonthKeys_def Let_def)
  have 1: "\<not> trend_old env tod (getTrendFile tod mid g)" for mid g
    using trend_key_of_file [OF assms(1)] assms(2) by (simp add: trend_old_def snd)
  have 2: "\<not> trend_old env tod (getTrendFile (tod\<lparr>tm_year := (if tm_mon tod = 1 then tm_year tod - 1 else tm_year tod),
          tm_mon := (if tm_mon tod = 1 then 12 else tm_mon tod - 1)\<rparr>) mid g)" for mid g
  proof -
    let ?t = "tod\<lparr>tm_year := (if tm_mon tod = 1 then tm_year tod - 1 else tm_year tod),
          tm_mon := (if tm_mon tod = 1 then 12 else tm_mon tod - 1)\<rparr>"
    have "dated ?t" using assms by (auto simp: dated_def)
    then show ?thesis using trend_key_of_file [of ?t] assms(2) by (auto simp: trend_old_def snd of_nat_diff)
  qed
  have fit: "(\<forall>nm. re_del env nm) \<longrightarrow> group_size (mask_match ''trd_trd'') (trimTrendLogBudget env tod d) \<le> 3000 * 1024 \<or>
      (\<forall>f \<in> set (trimTrendLogBudget env tod d). \<not> trend_old env tod (fst f))"
    using trd_trim.trim_fits [of env tod d] by blast
  show ?thesis
    unfolding Let_def using trd_trim.trim_subset [of env tod d] trd_trim.trim_protects [of _ d env tod]
      trd_trim.trim_oldest_first [of _ d env tod] 1 2 fit by blast
qed

definition demo_trend_dir :: dir where
  "demo_trend_dir = [(''trd_trd0_202306V0.d'', [1, 2, 3]), (''trd_trd0_202311V0.d'', [4])]"

theorem trend_trim_keeps_recent_witness:
  "(''trd_trd0_202311V0.d'', [4]) \<in> set (trimTrendLogBudget demo_ret_env (uLocalTime 1700000000) demo_trend_dir)"
proof -
  have k: "getTrendFile (uLocalTime 1700000000) 0 0 = ''trd_trd0_202311V0.d''"
    by (simp add: demo_civil getTrendFile_def pad0_def dec.simps char_of_def bit_0)
  have "dated (uLocalTime 1700000000)" "1 \<le> tm_mon (uLocalTime 1700000000)" by (simp, simp add: demo_civil)
  note p = trend_trim_keeps_recent [OF this, of demo_ret_env demo_trend_dir, unfolded Let_def]
  have "\<not> trend_old demo_ret_env (uLocalTime 1700000000) ''trd_trd0_202311V0.d''"
    using p unfolding k [symmetric] by blast
  moreover have "(''trd_trd0_202311V0.d'', [4]) \<in> set demo_trend_dir" by (simp add: demo_trend_dir_def)
  ultimately show ?thesis using p by fastforce
qed

text \<open>A renamed trend file has left the group: it is neither counted nor ever deleted.\<close>

lemma dec_hd: "d = dec g @ r \<Longrightarrow> d \<noteq> [] \<and> is_digit (hd d)"
  using dec_digits [of g] dec_nonempty [of g] by (cases "dec g") auto

theorem trend_backup_escapes_budget: "\<not> mask_match ''trd_trd'' (getTrendBackupFile tod mid g)"
proof -
  have "starts ''trd_trd'' (''trd'' @ dec g @ r) = False" for r
    using dec_hd [OF refl, of g r] by (cases "dec g @ r") (auto simp: starts_def is_digit_def)
  then show ?thesis by (simp only: mask_match_def getTrendBackupFile_def simp_thms split: if_split)
qed

subsection \<open>Quality logs of this week stay\<close>

lemma trimQual_loop_safe:
  fixes cur cutoffKey :: nat
  defines "key \<equiv> \<lambda>f :: string \<times> bytes. parseDateKey8 (fst f)"
  shows "set (trimQual_loop n env cur cutoffKey d) \<subseteq> set d \<and>
    (\<forall>f \<in> set d. \<not> qual_old cur (fst f) \<longrightarrow> f \<in> set (trimQual_loop n env cur cutoffKey d)) \<and>
    (\<forall>f \<in> set d - set (trimQual_loop n env cur cutoffKey d). \<forall>g \<in> set (trimQual_loop n env cur cutoffKey d).
       qual_old cur (fst g) \<longrightarrow> key f \<le> key g) \<and>
    (\<forall>f \<in> set d - set (trimQual_loop n env cur cutoffKey d).
       11500 * 1024 < group_size qual_file d \<or> cutoffKey \<noteq> 0 \<and> key f < cutoffKey)"
proof (induction n arbitrary: d)
  case (Suc n)
  obtain more d1 where s: "trimQualLogStep_nolock env cur cutoffKey d = (more, d1)" by fastforce
  show ?case
  proof (cases more)
    case False
    then have "d1 = d" using s by (auto simp: trimQualLogStep_nolock_def Let_def split: option.splits prod.splits if_splits)
    then show ?thesis using s False by simp
  next
    case True
    then obtain nm k where f: "fst (findOldestQualLog cur d) = Some (nm, k)" and d1: "d1 = fdelete nm d" and
      why: "11500 * 1024 < group_size qual_file d \<or> cutoffKey \<noteq> 0 \<and> parseDateKey8 nm < cutoffKey"
      using s ql_find.find_total [of cur d]
      by (auto simp: trimQualLogStep_nolock_def Let_def split: option.splits prod.splits if_splits)
    note old = ql_find.find_some [OF f]
    have loop: "trimQual_loop (Suc n) env cur cutoffKey d = trimQual_loop n env cur cutoffKey d1" using s True by simp
    have sub: "set d1 \<subseteq> set d" "\<And>f. f \<in> set d \<Longrightarrow> fst f \<noteq> nm \<Longrightarrow> f \<in> set d1" by (auto simp: d1 fdelete_def)
    have size: "group_size qual_file d1 \<le> group_size qual_file d"
      unfolding group_size_def d1 fdelete_def by (induction d) auto
    note IH = Suc.IH [of d1, folded loop]
    have gone: "f \<in> set d1 - set (trimQual_loop (Suc n) env cur cutoffKey d) \<or> fst f = nm"
      if "f \<in> set d - set (trimQual_loop (Suc n) env cur cutoffKey d)" for f
      using that sub(2) by blast
    have 1: "set (trimQual_loop (Suc n) env cur cutoffKey d) \<subseteq> set d" using IH sub(1) by blast
    have 2: "\<forall>f \<in> set d. \<not> qual_old cur (fst f) \<longrightarrow> f \<in> set (trimQual_loop (Suc n) env cur cutoffKey d)"
      using IH sub(2) old(2) by metis
    have 3: "\<forall>f \<in> set d - set (trimQual_loop (Suc n) env cur cutoffKey d). \<forall>g \<in> set (trimQual_loop (Suc n) env cur cutoffKey d).
       qual_old cur (fst g) \<longrightarrow> key f \<le> key g"
    proof (intro ballI impI)
      fix f g assume f: "f \<in> set d - set (trimQual_loop (Suc n) env cur cutoffKey d)"
        and g: "g \<in> set (trimQual_loop (Suc n) env cur cutoffKey d)" "qual_old cur (fst g)"
      have "key f \<le> key g" if "fst f = nm" using old(4) [of g] g 1 that by (auto simp: key_def)
      then show "key f \<le> key g" using gone [OF f] IH g by blast
    qed
    have 4: "\<forall>f \<in> set d - set (trimQual_loop (Suc n) env cur cutoffKey d).
       11500 * 1024 < group_size qual_file d \<or> cutoffKey \<noteq> 0 \<and> key f < cutoffKey"
    proof
      fix f assume "f \<in> set d - set (trimQual_loop (Suc n) env cur cutoffKey d)"
      from gone [OF this] show "11500 * 1024 < group_size qual_file d \<or> cutoffKey \<noteq> 0 \<and> key f < cutoffKey"
        using IH size why by (auto simp: key_def dest: order.strict_trans2)
    qed
    show ?thesis using 1 2 3 4 by blast
  qed
qed simp

text \<open>Clearing quality logs is safe: the logs of the running week, whatever their meter, and every
  other file stay; of the older logs those of the earliest weeks go first, and one goes only when
  the logs exceed their budget of 11500 KB or its week lies before the cut-off date.\<close>

theorem quality_trim_is_safe:
  "let d' = trimQualLogs env startDay now cutoffKey d; cur = parseDateKey8 (getQualStartDate startDay now);
       key = (\<lambda>f. parseDateKey8 (fst f))
    in set d' \<subseteq> set d \<and> (\<forall>f \<in> set d. \<not> qual_old cur (fst f) \<longrightarrow> f \<in> set d') \<and>
       (\<forall>k. \<not> qual_old cur (getQualFN (CHR ''l'') startDay now k) \<and> \<not> qual_old cur (getQualFN (CHR ''w'') startDay now k)) \<and>
       (\<forall>f \<in> set d - set d'. \<forall>g \<in> set d'. qual_old cur (fst g) \<longrightarrow> key f \<le> key g) \<and>
       (\<forall>f \<in> set d - set d'. 11500 * 1024 < group_size qual_file d \<or> cutoffKey \<noteq> 0 \<and> key f < cutoffKey)"
proof -
  have "\<not> qual_old (parseDateKey8 (getQualStartDate startDay now)) (getQualFN c startDay now k)"
    if "c \<noteq> CHR ''_''" for c k
    using that date_key_of_file [of _ c] by (simp add: qual_old_def getQualFN_def getQualStartDate_def date_key_of_str)
  then have "\<forall>k. \<not> qual_old (parseDateKey8 (getQualStartDate startDay now)) (getQualFN (CHR ''l'') startDay now k) \<and>
      \<not> qual_old (parseDateKey8 (getQualStartDate startDay now)) (getQualFN (CHR ''w'') startDay now k)" by simp
  then show ?thesis unfolding Let_def trimQualLogs_def using trimQual_loop_safe by blast
qed

theorem quality_trim_is_safe_witness:
  "let f = (getQualFN (CHR ''w'') 0 1700000000 0, [7 :: u8])
    in f \<in> set (trimQualLogs demo_ret_env 0 1700000000 20230801 [f, (''pq_ql_20230101_m0.d'', [1])])"
  using quality_trim_is_safe [of demo_ret_env 0 1700000000 20230801
      "[(getQualFN (CHR ''w'') 0 1700000000 0, [7 :: u8]), (''pq_ql_20230101_m0.d'', [1])]"]
  unfolding Let_def by (metis fst_conv list.set_intros(1))
end
