(* ===== verification/Trend.thy ===== *)
theory Trend
  imports Retention
begin

text \<open>
  Trend recording (\<open>alarm.c\<close>): every minute \<open>trendTick\<close> takes a row of measured values for each
  active group whose interval has come round, switches off groups that were left at a fast
  interval, and appends the rows to the month files; \<open>checkTrendHeader\<close> puts a file aside whose
  header names other channels than the settings. The measured values are the bit patterns of
  their floats; \<open>None\<close> stands for a channel without a source.
\<close>

record trend_def =
  td_active :: u16
  td_interval :: u16
  td_version :: u16
  td_chan :: "u16 list"

record trend_row =
  tr_ts :: u32
  tr_type :: u16
  tr_valid :: u16
  tr_pen :: "u32 list"

record trend_info =
  ti_ts :: u32
  ti_type :: u16
  ti_version :: u16
  ti_channel :: "u16 list"
  ti_rest :: "u16 list"

record trend_ctx =
  tc_src :: "nat \<Rightarrow> nat \<Rightarrow> u32 option"
  tc_env :: ret_env
  tc_rename :: "string \<Rightarrow> dir \<Rightarrow> bool"

record trend_state =
  ts_def :: "nat \<Rightarrow> nat \<Rightarrow> trend_def"
  ts_onMin :: "nat \<Rightarrow> nat \<Rightarrow> u16"
  ts_row :: "nat \<Rightarrow> nat \<Rightarrow> trend_row"
  ts_inf :: "nat \<Rightarrow> nat \<Rightarrow> trend_info"
  ts_lastmin :: int
  ts_dir :: dir

abbreviation (input) MAX_ALARM_CH :: nat where "MAX_ALARM_CH \<equiv> 124"
abbreviation (input) TREND_FAST_ITV_MIN :: nat where "TREND_FAST_ITV_MIN \<equiv> 10"
abbreviation (input) TREND_AUTO_OFF_MIN :: nat where "TREND_AUTO_OFF_MIN \<equiv> 60"

definition trdTime :: "nat list" where
  "trdTime = [1, 2, 3, 5, 10, 15, 20, 30, 60]"

subsection \<open>Rows\<close>

definition getTrendData :: "trend_ctx \<Rightarrow> u32 \<Rightarrow> nat \<Rightarrow> u16 list \<Rightarrow> trend_row \<Rightarrow> trend_row" where
  "getTrendData cx sysTick1s mid chan r =
     r\<lparr>tr_ts := sysTick1s, tr_valid := 1,
       tr_pen := map (\<lambda>i. if chan ! i = 0 then 0
                          else if unat (chan ! i) < MAX_ALARM_CH
                          then (case tc_src cx mid (unat (chan ! i)) of None \<Rightarrow> tr_pen r ! i | Some v \<Rightarrow> v)
                          else tr_pen r ! i) [0..<16]\<rparr>"

definition trend_itv :: "trend_def \<Rightarrow> nat" where
  "trend_itv t = (if unat (td_interval t) \<ge> length trdTime then 60 else trdTime ! unat (td_interval t))"

text \<open>One group in one minute: its setting, its minute counter and its row.\<close>

definition trend_group ::
  "trend_ctx \<Rightarrow> u32 \<Rightarrow> nat \<Rightarrow> nat \<Rightarrow> trend_def \<times> u16 \<times> trend_row \<Rightarrow> trend_def \<times> u16 \<times> trend_row" where
  "trend_group cx sysTick1s mn mid s =
     (case s of (t, cnt, r) \<Rightarrow>
       if td_active t = 0 then (t, 0, r)
       else let itv = trend_itv t; fast = itv < TREND_FAST_ITV_MIN; cnt1 = (if fast then cnt + 1 else 0)
            in if fast \<and> unat cnt1 > TREND_AUTO_OFF_MIN then (t\<lparr>td_active := 0\<rparr>, 0, r)
               else (t, cnt1, if mn mod itv = 0 then getTrendData cx sysTick1s mid (td_chan t) r else r))"

definition group_update :: "trend_ctx \<Rightarrow> u32 \<Rightarrow> nat \<Rightarrow> nat \<times> nat \<Rightarrow> trend_state \<Rightarrow> trend_state" where
  "group_update cx sysTick1s mn mg s =
     (case mg of (mid, g) \<Rightarrow>
       let (t, cnt, r) = trend_group cx sysTick1s mn mid (ts_def s mid g, ts_onMin s mid g, ts_row s mid g)
       in s\<lparr>ts_def := (ts_def s)(mid := (ts_def s mid)(g := t)),
            ts_onMin := (ts_onMin s)(mid := (ts_onMin s mid)(g := cnt)),
            ts_row := (ts_row s)(mid := (ts_row s mid)(g := r))\<rparr>)"

subsection \<open>Files\<close>

definition trend_row_bytes :: "trend_row \<Rightarrow> bytes" where
  "trend_row_bytes r = le_bytes 4 (tr_ts r) @ le_bytes 2 (tr_type r) @ le_bytes 2 (tr_valid r) @ le_array 4 (tr_pen r)"

definition trend_info_bytes :: "trend_info \<Rightarrow> bytes" where
  "trend_info_bytes t =
     le_bytes 4 (ti_ts t) @ le_bytes 2 (ti_type t) @ le_bytes 2 (ti_version t) @ le_array 2 (ti_channel t) @ le_array 2 (ti_rest t)"

definition trend_info_parse :: "bytes \<Rightarrow> trend_info" where
  "trend_info_parse bs =
     \<lparr>ti_ts = le_word (take 4 bs), ti_type = le_word (take 2 (drop 4 bs)), ti_version = le_word (take 2 (drop 6 bs)),
      ti_channel = le_words 2 16 (drop 8 bs), ti_rest = le_words 2 16 (drop 40 bs)\<rparr>"

definition appendTrendRcrd :: "trend_ctx \<Rightarrow> u32 \<Rightarrow> tm \<Rightarrow> nat \<Rightarrow> nat \<Rightarrow> trend_state \<Rightarrow> trend_state" where
  "appendTrendRcrd cx sysTick1s tod mid g s =
     (let fn = getTrendFile tod mid g; d = ts_dir s; env = tc_env cx; row = trend_row_bytes (ts_row s mid g)
      in if fn \<notin> fst ` set d
         then if \<not> re_open env fn d then s
              else let inf = (ts_inf s mid g)\<lparr>ti_ts := sysTick1s, ti_type := 1, ti_version := td_version (ts_def s mid g),
                             ti_channel := td_chan (ts_def s mid g)\<rparr>
                   in s\<lparr>ts_inf := (ts_inf s)(mid := (ts_inf s mid)(g := inf)),
                        ts_dir := trimTrendLogBudget env tod (fwrite_all fn (trend_info_bytes inf @ row) d)\<rparr>
         else if \<not> re_open env fn d then s
              else s\<lparr>ts_dir := trimTrendLogBudget env tod (fappend fn row d)\<rparr>)"

definition row_store :: "trend_ctx \<Rightarrow> u32 \<Rightarrow> tm \<Rightarrow> nat \<times> nat \<Rightarrow> trend_state \<Rightarrow> trend_state" where
  "row_store cx sysTick1s tod mg s =
     (case mg of (mid, g) \<Rightarrow>
       if tr_valid (ts_row s mid g) \<noteq> 0
       then let s1 = appendTrendRcrd cx sysTick1s tod mid g s
            in s1\<lparr>ts_row := (ts_row s1)(mid := (ts_row s1 mid)(g := (ts_row s1 mid g)\<lparr>tr_valid := 0\<rparr>))\<rparr>
       else s)"

definition all_groups :: "(nat \<times> nat) list" where
  "all_groups = List.product [0..<3] [0..<4]"

definition trendTick :: "trend_ctx \<Rightarrow> u32 \<Rightarrow> tm \<Rightarrow> trend_state \<Rightarrow> trend_state" where
  "trendTick cx sysTick1s tod s =
     (if ts_lastmin s = int (tm_min tod) then s
      else fold (row_store cx sysTick1s tod) all_groups
             (fold (group_update cx sysTick1s (tm_min tod)) all_groups (s\<lparr>ts_lastmin := int (tm_min tod)\<rparr>)))"

text \<open>\<open>frename\<close> gives a file a new name, when it succeeds.\<close>

definition frename :: "string \<Rightarrow> string \<Rightarrow> dir \<Rightarrow> dir" where
  "frename old new d = map (\<lambda>f. if fst f = old then (new, snd f) else f) d"

definition check_header :: "trend_ctx \<Rightarrow> tm \<Rightarrow> nat \<times> nat \<Rightarrow> trend_state \<Rightarrow> trend_state" where
  "check_header cx tod mg s =
     (case mg of (mid, g) \<Rightarrow>
       if td_active (ts_def s mid g) = 0 then s
       else let fn = getTrendFile tod mid g
            in if fn \<notin> fst ` set (ts_dir s) then s
               else let bs = take 72 (fcontent fn (ts_dir s)); old = trend_info_bytes (ts_inf s mid g);
                        inf = trend_info_parse (bs @ drop (length bs) old);
                        fnew = getTrendBackupFile tod mid g
                    in s\<lparr>ts_inf := (ts_inf s)(mid := (ts_inf s mid)(g := inf)),
                         ts_dir := (if ti_channel inf \<noteq> td_chan (ts_def s mid g) \<and> tc_rename cx fnew (ts_dir s)
                                    then frename fn fnew (ts_dir s) else ts_dir s)\<rparr>)"

definition checkTrendHeader :: "trend_ctx \<Rightarrow> tm \<Rightarrow> trend_state \<Rightarrow> trend_state" where
  "checkTrendHeader cx tod s =
     fold (check_header cx tod) all_groups (s\<lparr>ts_dir := trimTrendLogBudget (tc_env cx) tod (ts_dir s)\<rparr>)"

subsection \<open>Groups do not disturb each other\<close>

lemma distinct_groups: "distinct all_groups"
  by (simp add: all_groups_def distinct_product)

definition group_of :: "nat \<Rightarrow> nat \<Rightarrow> trend_state \<Rightarrow> trend_def \<times> u16 \<times> trend_row" where
  "group_of mid g s = (ts_def s mid g, ts_onMin s mid g, ts_row s mid g)"

lemma group_update_of:
  "group_of mid g (group_update cx t mn (m, k) s) =
    (if m = mid \<and> k = g then trend_group cx t mn mid (group_of mid g s) else group_of mid g s)"
  by (auto simp: group_update_def group_of_def Let_def split: prod.splits)

lemma fold_group_update:
  "distinct mgs \<Longrightarrow> group_of mid g (fold (group_update cx t mn) mgs s) =
    (if (mid, g) \<in> set mgs then trend_group cx t mn mid (group_of mid g s) else group_of mid g s)"
  by (induction mgs arbitrary: s) (auto simp: group_update_of split: if_splits)

lemma append_keeps: "ts_def (appendTrendRcrd cx t tod m k s) = ts_def s \<and> ts_onMin (appendTrendRcrd cx t tod m k s) = ts_onMin s \<and>
    ts_row (appendTrendRcrd cx t tod m k s) = ts_row s \<and> ts_lastmin (appendTrendRcrd cx t tod m k s) = ts_lastmin s"
  by (simp add: appendTrendRcrd_def Let_def)

lemma row_store_keeps:
  "ts_def (row_store cx t tod mg s) = ts_def s \<and> ts_onMin (row_store cx t tod mg s) = ts_onMin s \<and>
    ts_lastmin (row_store cx t tod mg s) = ts_lastmin s"
  using append_keeps [of cx t tod _ _ s] by (auto simp: row_store_def Let_def split: prod.split)

lemma fold_row_store_keeps:
  "ts_def (fold (row_store cx t tod) mgs s) = ts_def s \<and> ts_onMin (fold (row_store cx t tod) mgs s) = ts_onMin s \<and>
    ts_lastmin (fold (row_store cx t tod) mgs s) = ts_lastmin s"
  by (induction mgs arbitrary: s) (simp_all add: row_store_keeps)

lemma fold_group_update_keeps: "ts_lastmin (fold (group_update cx t mn) mgs s) = ts_lastmin s \<and> ts_dir (fold (group_update cx t mn) mgs s) = ts_dir s"
  by (induction mgs arbitrary: s) (simp_all add: group_update_def Let_def split: prod.split)

subsection \<open>A fast trend stops by itself\<close>

definition trend_ticks :: "trend_ctx \<Rightarrow> (u32 \<times> tm) list \<Rightarrow> trend_state \<Rightarrow> trend_state" where
  "trend_ticks cx ts s = fold (\<lambda>(now, tod). trendTick cx now tod) ts s"

text \<open>The setting and the counter of a group, after one minute.\<close>

definition minute :: "trend_def \<times> u16 \<Rightarrow> trend_def \<times> u16" where
  "minute tc =
     (case tc of (t, cnt) \<Rightarrow>
       if td_active t = 0 then (t, 0)
       else if trend_itv t < 10 then (if unat (cnt + 1) > 60 then (t\<lparr>td_active := 0\<rparr>, 0) else (t, cnt + 1))
       else (t, 0))"

lemma minute_pair:
  "minute (t, cnt) =
    (if td_active t = 0 then (t, 0)
     else if trend_itv t < 10 then (if unat (cnt + 1) > 60 then (t\<lparr>td_active := 0\<rparr>, 0) else (t, cnt + 1))
     else (t, 0))"
  by (simp add: minute_def)

lemma trend_group_minute: "trend_group cx now mn mid (t, c, r) = (t', c', r') \<Longrightarrow> minute (t, c) = (t', c')"
  by (auto simp: trend_group_def minute_def Let_def split: if_splits)

lemma in_all_groups: "mid < 3 \<Longrightarrow> g < 4 \<Longrightarrow> (mid, g) \<in> set all_groups"
  by (simp add: all_groups_def)

lemma trendTick_minute:
  assumes "mid < 3" "g < 4" "ts_lastmin s \<noteq> int (tm_min tod)"
  shows "(ts_def (trendTick cx now tod s) mid g, ts_onMin (trendTick cx now tod s) mid g) = minute (ts_def s mid g, ts_onMin s mid g)"
    and "ts_lastmin (trendTick cx now tod s) = int (tm_min tod)"
proof -
  let ?s0 = "s\<lparr>ts_lastmin := int (tm_min tod)\<rparr>"
  let ?s1 = "fold (group_update cx now (tm_min tod)) all_groups ?s0"
  have t: "trendTick cx now tod s = fold (row_store cx now tod) all_groups ?s1"
    using assms(3) by (simp add: trendTick_def)
  have "group_of mid g ?s1 = trend_group cx now (tm_min tod) mid (group_of mid g ?s0)"
    using fold_group_update [OF distinct_groups] in_all_groups [OF assms(1,2)] by simp
  then have "minute (ts_def s mid g, ts_onMin s mid g) = (ts_def ?s1 mid g, ts_onMin ?s1 mid g)"
    by (intro trend_group_minute [where r = "ts_row s mid g" and r' = "ts_row ?s1 mid g"]) (simp add: group_of_def)
  then show "(ts_def (trendTick cx now tod s) mid g, ts_onMin (trendTick cx now tod s) mid g) =
      minute (ts_def s mid g, ts_onMin s mid g)"
    unfolding t using fold_row_store_keeps [of cx now tod all_groups ?s1] by simp
  show "ts_lastmin (trendTick cx now tod s) = int (tm_min tod)"
    unfolding t using fold_row_store_keeps [of cx now tod all_groups ?s1] fold_group_update_keeps [of cx now "tm_min tod" all_groups ?s0]
    by simp
qed

lemma trend_ticks_minutes:
  assumes "mid < 3" "g < 4" "distinct_adj (ts_lastmin s # map (\<lambda>x. int (tm_min (snd x))) ts)"
  shows "(ts_def (trend_ticks cx ts s) mid g, ts_onMin (trend_ticks cx ts s) mid g) =
    (minute ^^ length ts) (ts_def s mid g, ts_onMin s mid g)"
  using assms(3)
proof (induction ts arbitrary: s)
  case (Cons x ts)
  obtain now tod where x: "x = (now, tod)" by (cases x)
  have n: "ts_lastmin s \<noteq> int (tm_min tod)" using Cons.prems by (simp add: x)
  note t = trendTick_minute [OF assms(1,2) n, of cx now]
  have "distinct_adj (ts_lastmin (trendTick cx now tod s) # map (\<lambda>x. int (tm_min (snd x))) ts)"
    using Cons.prems by (simp add: x t(2) distinct_adj_Cons)
  from Cons.IH [OF this] show ?case
    by (simp add: x trend_ticks_def t(1) funpow_Suc_right del: funpow.simps)
qed (simp add: trend_ticks_def)

lemma minute_slow: "10 \<le> trend_itv t \<Longrightarrow> fst ((minute ^^ n) (t, c)) = t"
proof (induction n)
  case (Suc n)
  then show ?case by (cases "(minute ^^ n) (t, c)") (auto simp: minute_pair)
qed simp

lemma minute_fast: "trend_itv t < 10 \<Longrightarrow> td_active t \<noteq> 0 \<Longrightarrow> n \<le> 60 \<Longrightarrow> (minute ^^ n) (t, 0) = (t, of_nat n)"
proof (induction n)
  case (Suc n)
  have "unat (of_nat n + 1 :: u16) = Suc n" using unat_add_of_nat [of "1 :: u16" n] Suc.prems(3) by (simp add: add.commute)
  then show ?case using Suc by (simp add: minute_pair)
qed simp

lemma minute_off: "td_active t = 0 \<Longrightarrow> fst ((minute ^^ n) (t, c)) = t"
proof (induction n)
  case (Suc n)
  then show ?case by (cases "(minute ^^ n) (t, c)") (auto simp: minute_pair)
qed simp

lemma minute_61:
  assumes "trend_itv t < 10" "td_active t \<noteq> 0" "60 < n"
  shows "fst ((minute ^^ n) (t, 0)) = t\<lparr>td_active := 0\<rparr>"
proof -
  obtain k where k: "n = k + 61" using assms(3) less_imp_add_positive [of 60 n] by (metis add.commute add.assoc Suc_eq_plus1 add_Suc_right gr0_implies_Suc numeral_plus_one semiring_norm(5,8))
  have "minute (t, 60) = (t\<lparr>td_active := 0\<rparr>, 0)" using assms by (simp add: minute_pair)
  then have "(minute ^^ 61) (t, 0) = (t\<lparr>td_active := 0\<rparr>, 0)"
    using minute_fast [OF assms(1,2), of 60] funpow.simps(2) [of 60 minute] by simp
  then show ?thesis using minute_off [of "t\<lparr>td_active := 0\<rparr>" k 0] by (simp add: k funpow_add)
qed

text \<open>C38. A fast trend cannot fill the flash: a group that is recorded more often than every ten
  minutes runs for sixty minutes from when it was switched on and is then switched off for good,
  while a group with a longer interval is never switched off, whatever the other groups do.\<close>

theorem fast_trend_stops_itself:
  assumes "mid < 3" "g < 4" "distinct_adj (ts_lastmin s # map (\<lambda>x. int (tm_min (snd x))) ts)"
    and "td_active (ts_def s mid g) \<noteq> 0" "ts_onMin s mid g = 0"
  shows "ts_def (trend_ticks cx ts s) mid g =
    (if trend_itv (ts_def s mid g) < TREND_FAST_ITV_MIN \<and> length ts > TREND_AUTO_OFF_MIN
     then (ts_def s mid g)\<lparr>td_active := 0\<rparr> else ts_def s mid g)"
proof -
  have "ts_def (trend_ticks cx ts s) mid g = fst ((minute ^^ length ts) (ts_def s mid g, 0))"
    using trend_ticks_minutes [OF assms(1-3), of cx] assms(5) by (metis fst_conv)
  then show ?thesis
    using minute_61 [OF _ assms(4), of "length ts"] minute_fast [OF _ assms(4), of "length ts"]
      minute_slow [of "ts_def s mid g" "length ts" 0]
    by (cases "trend_itv (ts_def s mid g) < 10"; cases "60 < length ts") simp_all
qed

definition demo_trend_ctx :: trend_ctx where
  "demo_trend_ctx = \<lparr>tc_src = (\<lambda>_ _. Some 7), tc_env = demo_ret_env, tc_rename = (\<lambda>_ _. True)\<rparr>"

definition demo_trend :: trend_state where
  "demo_trend = \<lparr>ts_def = (\<lambda>_ _. \<lparr>td_active = 1, td_interval = 0, td_version = 1, td_chan = replicate 16 3\<rparr>),
     ts_onMin = (\<lambda>_ _. 0), ts_row = (\<lambda>_ _. \<lparr>tr_ts = 0, tr_type = 0, tr_valid = 0, tr_pen = replicate 16 0\<rparr>),
     ts_inf = (\<lambda>_ _. \<lparr>ti_ts = 0, ti_type = 0, ti_version = 0, ti_channel = replicate 16 0, ti_rest = replicate 16 0\<rparr>),
     ts_lastmin = -1, ts_dir = []\<rparr>"

definition demo_minutes :: "(u32 \<times> tm) list" where
  "demo_minutes = map (\<lambda>k. (1700000000 + 60 * of_nat k, (uLocalTime 1700000000)\<lparr>tm_min := k mod 60\<rparr>)) [0..<70]"

theorem fast_trend_stops_itself_witness:
  "td_active (ts_def (trend_ticks demo_trend_ctx demo_minutes demo_trend) 2 3) = 0"
proof -
  have "distinct_adj (ts_lastmin demo_trend # map (\<lambda>x. int (tm_min (snd x))) demo_minutes)"
    by (simp add: demo_trend_def demo_minutes_def upt_conv_Cons)
  from fast_trend_stops_itself [OF _ _ this, of 2 3 demo_trend_ctx] show ?thesis
    by (simp add: demo_trend_def trend_itv_def trdTime_def demo_minutes_def)
qed

subsection \<open>Rows reach the file of their month\<close>

lemma trend_file_inj:
  assumes "m < 3" "k < 4" "mid < 3" "g < 4" "getTrendFile tod m k = getTrendFile tod mid g"
  shows "m = mid \<and> k = g"
proof -
  have d: "dec n = [char_of (48 + n)]" if "n < 10" for n using that by (simp add: dec.simps)
  have inj: "i = j" if "char_of (48 + i) = (char_of (48 + j) :: char)" "i < 10" "j < 10" for i j :: nat
    using digit_char [OF that(2)] digit_char [OF that(3)] that(1) by simp
  have "k = g" using assms inj [of k g] by (auto simp: getTrendFile_def d split: if_splits)
  moreover have "m = mid" using assms inj [of m mid] \<open>k = g\<close> by (auto simp: getTrendFile_def d split: if_splits)
  ultimately show ?thesis by simp
qed

lemma this_month_stays: "dated tod \<Longrightarrow> 1 \<le> tm_mon tod \<Longrightarrow> \<not> trend_old env tod (getTrendFile tod mid g)"
  using trend_key_of_file [of tod env mid g] by (auto simp: trend_old_def getTrendMonthKeys_def Let_def)

text \<open>What the storing of one group's row leaves alone of another group.\<close>

definition view :: "tm \<Rightarrow> nat \<Rightarrow> nat \<Rightarrow> trend_state \<Rightarrow> bytes \<times> bool \<times> trend_row \<times> trend_info \<times> trend_def" where
  "view tod mid g s =
     (let fn = getTrendFile tod mid g
      in (fcontent fn (ts_dir s), fn \<in> fst ` set (ts_dir s), ts_row s mid g, ts_inf s mid g, ts_def s mid g))"

lemma in_fwrite_all: "p \<in> fst ` set (fwrite_all nm bs d) \<longleftrightarrow> p = nm \<or> p \<in> fst ` set d"
  by (induction nm bs d rule: fwrite_all.induct) auto

lemma in_fappend: "p \<in> fst ` set (fappend nm bs d) \<longleftrightarrow> p = nm \<or> p \<in> fst ` set d"
  by (simp add: fappend_def in_fwrite_all)

lemma row_store_view:
  assumes "dated tod" "1 \<le> tm_mon tod" "m < 3" "k < 4" "mid < 3" "g < 4" "(m, k) \<noteq> (mid, g)"
  shows "view tod mid g (row_store cx now tod (m, k) s) = view tod mid g s"
proof -
  have "getTrendFile tod mid g \<noteq> getTrendFile tod m k" using trend_file_inj assms(3-7) by blast
  then show ?thesis using assms(7) this_month_stays [OF assms(1,2)]
    by (auto simp: view_def row_store_def appendTrendRcrd_def Let_def trd_trim.trim_content trd_trim.trim_names
        fcontent_fappend fcontent_fwrite_all in_fappend in_fwrite_all)
qed

lemma fold_row_store_view:
  assumes "dated tod" "1 \<le> tm_mon tod" "mid < 3" "g < 4"
  shows "set mgs \<subseteq> set all_groups \<Longrightarrow> (mid, g) \<notin> set mgs \<Longrightarrow> view tod mid g (fold (row_store cx now tod) mgs s) = view tod mid g s"
proof (induction mgs arbitrary: s)
  case (Cons mk mgs)
  obtain m k where mk: "mk = (m, k)" by (cases mk)
  have "m < 3" "k < 4" "(m, k) \<noteq> (mid, g)" using Cons.prems by (auto simp: mk all_groups_def)
  then show ?case using Cons row_store_view [OF assms(1,2) _ _ assms(3,4), of m k] by (simp add: mk)
qed simp

definition trend_header :: "u32 \<Rightarrow> trend_info \<Rightarrow> trend_def \<Rightarrow> bytes" where
  "trend_header now tinf t =
     trend_info_bytes (tinf\<lparr>ti_ts := now, ti_type := 1, ti_version := td_version t, ti_channel := td_chan t\<rparr>)"

lemma row_stored:
  assumes "dated tod" "1 \<le> tm_mon tod" "mid < 3" "g < 4" "\<forall>nm d. re_open (tc_env cx) nm d" "tr_valid (ts_row s mid g) \<noteq> 0"
  shows "fcontent (getTrendFile tod mid g) (ts_dir (fold (row_store cx now tod) all_groups s)) =
    (if getTrendFile tod mid g \<in> fst ` set (ts_dir s) then fcontent (getTrendFile tod mid g) (ts_dir s)
     else trend_header now (ts_inf s mid g) (ts_def s mid g)) @ trend_row_bytes (ts_row s mid g)"
proof -
  let ?fn = "getTrendFile tod mid g"
  obtain xs ys where split: "all_groups = xs @ (mid, g) # ys" using in_all_groups [OF assms(3,4)] split_list by metis
  have "(mid, g) \<notin> set xs" "(mid, g) \<notin> set ys" "set xs \<subseteq> set all_groups" "set ys \<subseteq> set all_groups"
    using distinct_groups by (auto simp: split)
  note v = fold_row_store_view [OF assms(1-4) this(3,1)] fold_row_store_view [OF assms(1-4) this(4,2)]
  define s1 where "s1 = fold (row_store cx now tod) xs s"
  have s1: "fcontent ?fn (ts_dir s1) = fcontent ?fn (ts_dir s)" "?fn \<in> fst ` set (ts_dir s1) \<longleftrightarrow> ?fn \<in> fst ` set (ts_dir s)"
    "ts_row s1 mid g = ts_row s mid g" "ts_inf s1 mid g = ts_inf s mid g" "ts_def s1 mid g = ts_def s mid g"
    using v(1) [of cx now s] by (simp_all add: s1_def view_def Let_def)
  have "fcontent ?fn (ts_dir (row_store cx now tod (mid, g) s1)) =
    (if ?fn \<in> fst ` set (ts_dir s1) then fcontent ?fn (ts_dir s1) else trend_header now (ts_inf s1 mid g) (ts_def s1 mid g)) @
    trend_row_bytes (ts_row s1 mid g)"
    using assms(5,6) this_month_stays [OF assms(1,2)] unfolding s1(3) [symmetric]
    by (simp add: row_store_def appendTrendRcrd_def Let_def trd_trim.trim_content fcontent_fappend fcontent_fwrite_all trend_header_def)
  moreover have "fcontent ?fn (ts_dir (fold (row_store cx now tod) all_groups s)) = fcontent ?fn (ts_dir (row_store cx now tod (mid, g) s1))"
    using v(2) [of cx now "row_store cx now tod (mid, g) s1"] by (simp add: split s1_def view_def Let_def)
  ultimately show ?thesis by (simp only: s1)
qed

text \<open>Every due row is stored: in the minute in which the interval of an active group comes round,
  the row of the values measured now is appended to the file of its group, meter and month, behind
  a header that names the channels when the file is new, however the other groups are set and
  whatever the clearing of old files removes.\<close>

theorem trend_row_is_appended:
  assumes "mid < 3" "g < 4" "ts_lastmin s \<noteq> int (tm_min tod)" "td_active (ts_def s mid g) \<noteq> 0"
    and "tm_min tod mod trend_itv (ts_def s mid g) = 0"
    and "trend_itv (ts_def s mid g) < TREND_FAST_ITV_MIN \<longrightarrow> unat (ts_onMin s mid g) < TREND_AUTO_OFF_MIN"
    and "\<forall>nm d. re_open (tc_env cx) nm d" "dated tod" "1 \<le> tm_mon tod"
  shows "let fn = getTrendFile tod mid g; t = ts_def s mid g
    in fcontent fn (ts_dir (trendTick cx now tod s)) =
      (if fn \<in> fst ` set (ts_dir s) then fcontent fn (ts_dir s) else trend_header now (ts_inf s mid g) t) @
      trend_row_bytes (getTrendData cx now mid (td_chan t) (ts_row s mid g))"
proof -
  let ?s1 = "fold (group_update cx now (tm_min tod)) all_groups (s\<lparr>ts_lastmin := int (tm_min tod)\<rparr>)"
  let ?row = "getTrendData cx now mid (td_chan (ts_def s mid g)) (ts_row s mid g)"
  have t: "trendTick cx now tod s = fold (row_store cx now tod) all_groups ?s1" using assms(3) by (simp add: trendTick_def)
  have "unat (ts_onMin s mid g + 1) \<le> 60" if "trend_itv (ts_def s mid g) < 10"
    using unat_add_of_nat [of "ts_onMin s mid g" 1] assms(6) that by simp
  then have "trend_group cx now (tm_min tod) mid (group_of mid g s) =
      (ts_def s mid g, if trend_itv (ts_def s mid g) < 10 then ts_onMin s mid g + 1 else 0, ?row)"
    using assms(4,5) by (auto simp: trend_group_def group_of_def Let_def)
  moreover have "group_of mid g ?s1 = trend_group cx now (tm_min tod) mid (group_of mid g s)"
    using fold_group_update [OF distinct_groups] in_all_groups [OF assms(1,2)] by (simp add: group_of_def)
  ultimately have s1: "ts_row ?s1 mid g = ?row" "ts_def ?s1 mid g = ts_def s mid g" by (simp_all add: group_of_def)
  have inf: "ts_inf (fold (group_update cx now mn) mgs st) = ts_inf st" for mn mgs st
    by (induction mgs arbitrary: st) (simp_all add: group_update_def Let_def split: prod.split)
  have "tr_valid ?row \<noteq> 0" by (simp add: getTrendData_def)
  then show ?thesis
    using row_stored [OF assms(8,9,1,2,7), of ?s1 now] fold_group_update_keeps [of cx now "tm_min tod" all_groups]
    by (simp add: t s1 inf Let_def)
qed

theorem trend_row_is_appended_witness:
  "fcontent (getTrendFile (uLocalTime 1700000000) 1 2) (ts_dir (trendTick demo_trend_ctx 1700000000 (uLocalTime 1700000000) demo_trend)) =
    trend_header 1700000000 (ts_inf demo_trend 1 2) (ts_def demo_trend 1 2) @
    trend_row_bytes (getTrendData demo_trend_ctx 1700000000 1 (replicate 16 3) (ts_row demo_trend 1 2))"
proof -
  have "1 \<le> tm_mon (uLocalTime 1700000000)" by (simp add: demo_civil)
  from trend_row_is_appended [of 1 2 demo_trend "uLocalTime 1700000000" demo_trend_ctx 1700000000, OF _ _ _ _ _ _ _ _ this]
  show ?thesis
    by (simp add: demo_trend_def demo_trend_ctx_def demo_ret_env_def trend_itv_def trdTime_def Let_def)
qed
end
