(* ===== verification/Quality.thy ===== *)
theory Quality
  imports Retention PqEvent
begin

text \<open>
  The voltage quality statistics (\<open>Quality.c\<close>): ten-minute averages of the measurements taken
  every second, the counts of values out of limits, the weekly report after EN 50160, and the
  job by which the statistics task hands its records to the file task, with the files that
  \<open>pqIoTick\<close> writes. Measured values are exact rationals; \<open>f32\<close> is the reading of 32 bits as a
  float, which matters where the code copies integers over floats.
\<close>

subsection \<open>Values out of limits\<close>

record qvar =
  qv_err :: nat
  qv_var :: rat

abbreviation (input) qvar0 :: qvar where "qvar0 \<equiv> \<lparr>qv_err = 0, qv_var = 0\<rparr>"

definition QualVarWeekUpdate :: "qvar \<Rightarrow> nat \<Rightarrow> nat \<Rightarrow> qvar" where
  "QualVarWeekUpdate v errcnt count = (let e = qv_err v + errcnt in \<lparr>qv_err = e, qv_var = of_nat e / of_nat count\<rparr>)"

definition QualVarUpdate :: "qvar \<Rightarrow> rat \<Rightarrow> rat \<Rightarrow> rat \<Rightarrow> nat \<Rightarrow> bool \<times> qvar" where
  "QualVarUpdate v val llimit hlimit count =
     (if val < llimit \<or> val > hlimit then (True, QualVarWeekUpdate v 1 count) else (False, v))"

definition getVarPercent :: "qvar \<Rightarrow> int" where
  "getVarPercent v = (let x = (1 - qv_var v) * 10000 in if 0 \<le> x then \<lfloor>x\<rfloor> else \<lceil>x\<rceil>)"

text \<open>A compliance word collects one bit per tested quantity; the position is threaded through.\<close>

definition QualVarCompliance1 :: "qvar \<Rightarrow> rat \<Rightarrow> nat \<times> u32 \<Rightarrow> nat \<times> u32" where
  "QualVarCompliance1 v limit mc =
     (case mc of (msk, c) \<Rightarrow> (msk + 1, if 1 - qv_var v < limit then c OR push_bit msk 1 else c))"

text \<open>The three tests of the code all read the first element of the array.\<close>

definition QualVarCompliance3 :: "qvar list \<Rightarrow> rat \<Rightarrow> nat \<times> u32 \<Rightarrow> nat \<times> u32" where
  "QualVarCompliance3 vs limit mc = (QualVarCompliance1 (vs ! 0) limit ^^ 3) mc"

subsection \<open>The weekly report\<close>

record qual_var =
  va_sag :: "nat list"
  va_swell :: "nat list"
  va_shortIntr :: "nat list"
  va_longIntr :: "nat list"
  va_rvc :: "nat list"
  va_Freq1 :: qvar
  va_Freq2 :: qvar
  va_Volt1 :: "qvar list"
  va_Volt2 :: "qvar list"
  va_Voltbal :: qvar
  va_VoltThd :: "qvar list"
  va_VoltHd :: "qvar list"
  va_Pst :: "qvar list"
  va_Plt :: "qvar list"
  va_Svolt :: "qvar list"

record qual_week =
  qw_startTs :: u32
  qw_endTs :: u32
  qw_complete :: bool
  qw_compliance :: u32
  qw_count10s :: nat
  qw_count10m :: nat
  qw_var :: qual_var
  qw_evtCount :: nat

definition qual_var0 :: qual_var where
  "qual_var0 = \<lparr>va_sag = replicate 4 0, va_swell = replicate 4 0, va_shortIntr = replicate 4 0,
     va_longIntr = replicate 4 0, va_rvc = replicate 4 0, va_Freq1 = qvar0, va_Freq2 = qvar0,
     va_Volt1 = replicate 3 qvar0, va_Volt2 = replicate 3 qvar0, va_Voltbal = qvar0,
     va_VoltThd = replicate 3 qvar0, va_VoltHd = replicate 3 qvar0, va_Pst = replicate 3 qvar0,
     va_Plt = replicate 3 qvar0, va_Svolt = replicate 3 qvar0\<rparr>"

definition qual_week0 :: qual_week where
  "qual_week0 = \<lparr>qw_startTs = 0, qw_endTs = 0, qw_complete = False, qw_compliance = 0, qw_count10s = 0,
     qw_count10m = 0, qw_var = qual_var0, qw_evtCount = 0\<rparr>"

definition add4 :: "nat list \<Rightarrow> nat list \<Rightarrow> nat list" where
  "add4 a b = map (\<lambda>i. a ! i + b ! i) [0..<4]"

definition week3 :: "qvar list \<Rightarrow> qvar list \<Rightarrow> nat \<Rightarrow> qvar list" where
  "week3 d s n = map (\<lambda>i. QualVarWeekUpdate (d ! i) (qv_err (s ! i)) n) [0..<3]"

definition week_var :: "qual_var \<Rightarrow> nat \<Rightarrow> nat \<Rightarrow> qual_var \<Rightarrow> qual_var" where
  "week_var s n10s n10m d =
     \<lparr>va_sag = add4 (va_sag d) (va_sag s), va_swell = add4 (va_swell d) (va_swell s),
      va_shortIntr = add4 (va_shortIntr d) (va_shortIntr s), va_longIntr = add4 (va_longIntr d) (va_longIntr s),
      va_rvc = add4 (va_rvc d) (va_rvc s),
      va_Freq1 = QualVarWeekUpdate (va_Freq1 d) (qv_err (va_Freq1 s)) n10s,
      va_Freq2 = QualVarWeekUpdate (va_Freq2 d) (qv_err (va_Freq2 s)) n10s,
      va_Volt1 = week3 (va_Volt1 d) (va_Volt1 s) n10m, va_Volt2 = week3 (va_Volt2 d) (va_Volt2 s) n10m,
      va_Voltbal = QualVarWeekUpdate (va_Voltbal d) (qv_err (va_Voltbal s)) n10m,
      va_VoltThd = week3 (va_VoltThd d) (va_VoltThd s) n10m, va_VoltHd = week3 (va_VoltHd d) (va_VoltHd s) n10m,
      va_Pst = week3 (va_Pst d) (va_Pst s) n10m, va_Plt = week3 (va_Plt d) (va_Plt s) n10m,
      va_Svolt = week3 (va_Svolt d) (va_Svolt s) n10m\<rparr>"

definition week_compliance :: "qual_var \<Rightarrow> u32" where
  "week_compliance v =
     snd (QualVarCompliance3 (va_Svolt v) (95 / 100) (QualVarCompliance3 (va_Plt v) (95 / 100)
         (QualVarCompliance3 (va_Pst v) (95 / 100) (QualVarCompliance3 (va_VoltHd v) (95 / 100)
         (QualVarCompliance3 (va_VoltThd v) (95 / 100) (QualVarCompliance1 (va_Voltbal v) 1
         (QualVarCompliance3 (va_Volt2 v) 1 (QualVarCompliance3 (va_Volt1 v) (95 / 100)
         (QualVarCompliance1 (va_Freq2 v) 1 (QualVarCompliance1 (va_Freq1 v) (995 / 1000) (0, 0)))))))))))"

definition updateQualWeek :: "u32 \<Rightarrow> nat \<Rightarrow> qual_var \<Rightarrow> qual_week \<Rightarrow> qual_week" where
  "updateQualWeek sysTick1s avg_count10s var w =
     (let n10m = qw_count10m w + 1; n10s = qw_count10s w + avg_count10s; v = week_var var n10s n10m (qw_var w);
          c = week_compliance v; full = n10m \<ge> 1008
      in w\<lparr>qw_startTs := (if qw_startTs w = 0 then sysTick1s else qw_startTs w), qw_count10m := n10m, qw_count10s := n10s,
           qw_complete := (qw_complete w \<or> full), qw_var := v, qw_compliance := (if full then c OR push_bit 31 1 else c)\<rparr>)"

text \<open>The report registers: percentages of the time within limits, of every array the first element.\<close>

record en50160 =
  en_sTime :: u32
  en_eTime :: u32
  en_compliance :: u32
  en_Fvar1 :: u16
  en_Fvar2 :: u16
  en_Volt1 :: "u16 list"
  en_Volt2 :: "u16 list"
  en_Voltbal :: u16
  en_VoltThd :: "u16 list"
  en_VoltHd :: "u16 list"
  en_Pst :: "u16 list"
  en_Plt :: "u16 list"
  en_Svolt :: "u16 list"
  en_events :: "u16 list"

definition updateQualReport :: "qual_week \<Rightarrow> en50160" where
  "updateQualReport w =
     (let v = qw_var w; p = (\<lambda>x. of_int (getVarPercent x) :: u16); p3 = (\<lambda>xs. replicate 3 (p (xs ! 0)));
          n = map (of_nat :: nat \<Rightarrow> u16)
      in \<lparr>en_sTime = qw_startTs w, en_eTime = qw_endTs w, en_compliance = qw_compliance w,
          en_Fvar1 = p (va_Freq1 v), en_Fvar2 = p (va_Freq2 v), en_Volt1 = p3 (va_Volt1 v), en_Volt2 = p3 (va_Volt2 v),
          en_Voltbal = p (va_Voltbal v), en_VoltThd = p3 (va_VoltThd v), en_VoltHd = p3 (va_VoltHd v),
          en_Pst = p3 (va_Pst v), en_Plt = p3 (va_Plt v), en_Svolt = p3 (va_Svolt v),
          en_events = n (va_sag v) @ n (va_swell v) @ n (va_shortIntr v) @ n (va_longIntr v) @ n (va_rvc v)\<rparr>)"

subsection \<open>Ten-minute averages\<close>

text \<open>What the scan task measured in this second, with the limits in force.\<close>

record qual_in =
  qi_Freq :: rat
  qi_U1012 :: "rat list"
  qi_I :: "rat list"
  qi_In :: rat
  qi_dPF :: rat
  qi_PF :: rat
  qi_Ubal :: "rat list"
  qi_Ibal :: "rat list"
  qi_Temp :: rat
  qi_P :: rat
  qi_Q :: rat
  qi_S :: rat
  qi_Uthd :: "rat list"
  qi_Uhd :: "u16 list"
  qi_Upphd :: "u16 list"
  qi_freqLo :: "rat list"
  qi_freqHi :: "rat list"
  qi_uLo :: "rat list"
  qi_uHi :: "rat list"
  qi_sysTick1s :: u32
  qi_sysTick10s :: u32
  qi_sysTick10m :: u32

record qual_sum =
  qs_freq :: rat
  qs_U :: "rat list"
  qs_I :: "rat list"
  qs_In :: rat
  qs_dPF :: rat
  qs_PF :: rat
  qs_Ubal :: "rat list"
  qs_Ibal :: "rat list"
  qs_temp0 :: rat
  qs_P :: "rat list"
  qs_Q :: "rat list"
  qs_S :: rat

record qual_avg =
  qa_startTs :: u32
  qa_endTs :: u32
  qa_count10s :: nat
  qa_ts10 :: "nat list"
  qa_Freq :: "rat list"
  qa_U :: "rat list"
  qa_Uthd :: "rat list"
  qa_Ubal :: "rat list"
  qa_Uhd :: "u32 list"

record qual_exp =
  qx_I :: "rat list"
  qx_In :: rat
  qx_PF :: rat
  qx_dPF :: rat
  qx_Ibal :: "rat list"
  qx_temp0 :: rat
  qx_P :: "rat list"
  qx_Q :: "rat list"
  qx_S :: rat

record q10m =
  q_ts10m :: u32
  q_ts10s :: u32
  q_count10m :: nat
  q_count10s :: nat
  q_avg :: qual_avg
  q_exp :: qual_exp
  q_var :: qual_var
  q_sum :: qual_sum
  q_tsChanged :: bool

definition qual_sum0 :: qual_sum where
  "qual_sum0 = \<lparr>qs_freq = 0, qs_U = replicate 3 0, qs_I = replicate 3 0, qs_In = 0, qs_dPF = 0, qs_PF = 0,
     qs_Ubal = replicate 2 0, qs_Ibal = replicate 2 0, qs_temp0 = 0, qs_P = replicate 2 0, qs_Q = replicate 2 0, qs_S = 0\<rparr>"

definition qual_avg0 :: qual_avg where
  "qual_avg0 = \<lparr>qa_startTs = 0, qa_endTs = 0, qa_count10s = 0, qa_ts10 = replicate 60 0, qa_Freq = replicate 60 0,
     qa_U = replicate 3 0, qa_Uthd = replicate 3 0, qa_Ubal = replicate 2 0, qa_Uhd = replicate 72 0\<rparr>"

text \<open>
  \<open>memcpy\<close> of 288 bytes from the 16-bit harmonics: each float takes the bits of two of them, the
  upper one in the high half, and the second half of the floats comes from the next array.
\<close>

definition copy_harmonics :: "u16 list \<Rightarrow> u16 list \<Rightarrow> u32 list" where
  "copy_harmonics uhd upphd =
     (let ws = uhd @ upphd in map (\<lambda>k. push_bit 16 (ucast (ws ! (2 * k + 1))) OR ucast (ws ! (2 * k))) [0..<72])"

text \<open>The value of a float, infinities and NaNs apart.\<close>

definition f32 :: "u32 \<Rightarrow> rat" where
  "f32 w =
     (let s = (if bit w 31 then -1 else 1); e = unat (drop_bit 23 w AND 0xFF); m = unat (w AND 0x7FFFFF)
      in if e = 0 then s * of_nat m / 2 ^ 149 else s * (1 + of_nat m / 2 ^ 23) * 2 ^ e / 2 ^ 127)"

definition harmLimit :: "rat list" where
  "harmLimit = [2, 5, 1, 6, 1/2, 5, 1/2, 3/2, 1/2, 7/2, 1/2, 3, 1/2, 1/2, 1/2, 2, 1/2, 3/2, 1/2, 1/2, 1/2, 3/2, 1/2, 3/2]"

definition add_lists :: "rat list \<Rightarrow> rat list \<Rightarrow> rat list" where
  "add_lists a b = map (\<lambda>i. a ! i + b ! i) [0..<length a]"

text \<open>The ten-second part: mean frequency, its limits, and the copies of the harmonic values.\<close>

definition ten_seconds :: "qual_in \<Rightarrow> q10m \<Rightarrow> q10m" where
  "ten_seconds x q =
     (if q_ts10s q \<noteq> qi_sysTick10s x \<or> q_tsChanged q
      then let freq = qs_freq (q_sum q) / of_nat (q_count10s q); a = q_avg q; j = qa_count10s a;
               a1 = (if j < 60 then a\<lparr>qa_count10s := j + 1, qa_ts10 := (qa_ts10 a)[j := j], qa_Freq := (qa_Freq a)[j := freq]\<rparr> else a);
               n = qa_count10s a1; v = q_var q;
               v1 = v\<lparr>va_Freq1 := snd (QualVarUpdate (va_Freq1 v) freq (qi_freqLo x ! 0) (qi_freqHi x ! 0) n),
                      va_Freq2 := snd (QualVarUpdate (va_Freq2 v) freq (qi_freqLo x ! 1) (qi_freqHi x ! 1) n)\<rparr>
           in q\<lparr>q_ts10s := qi_sysTick10s x, q_avg := a1\<lparr>qa_Uthd := qi_Uthd x, qa_Uhd := copy_harmonics (qi_Uhd x) (qi_Upphd x)\<rparr>,
                q_var := v1, q_sum := (q_sum q)\<lparr>qs_freq := 0\<rparr>, q_count10s := 0\<rparr>
      else q)"

definition sum_second :: "qual_in \<Rightarrow> qual_sum \<Rightarrow> qual_sum" where
  "sum_second x s =
     s\<lparr>qs_U := add_lists (qs_U s) (qi_U1012 x), qs_I := add_lists (qs_I s) (qi_I x), qs_In := qs_In s + qi_In x,
       qs_dPF := qs_dPF s + qi_dPF x, qs_PF := qs_PF s + qi_PF x, qs_Ubal := add_lists (qs_Ubal s) (qi_Ubal x),
       qs_Ibal := add_lists (qs_Ibal s) (qi_Ibal x), qs_temp0 := qs_temp0 s + qi_Temp x,
       qs_P := (if 0 \<le> qi_P x then (qs_P s)[0 := qs_P s ! 0 + qi_P x] else (qs_P s)[1 := qs_P s ! 1 - qi_P x]),
       qs_Q := (if 0 \<le> qi_Q x then (qs_Q s)[0 := qs_Q s ! 0 + qi_Q x] else (qs_Q s)[1 := qs_Q s ! 1 - qi_Q x]),
       qs_S := qs_S s + qi_S x\<rparr>"

definition running_average :: "q10m \<Rightarrow> q10m" where
  "running_average q =
     (let s = q_sum q; n = of_nat (q_count10m q); d = map (\<lambda>v. v / n)
      in q\<lparr>q_avg := (q_avg q)\<lparr>qa_U := d (qs_U s), qa_Ubal := d (qs_Ubal s)\<rparr>,
           q_exp := \<lparr>qx_I = d (qs_I s), qx_In = qs_In s / n, qx_PF = qs_PF s / n, qx_dPF = qs_dPF s / n,
                     qx_Ibal = d (qs_Ibal s), qx_temp0 = qs_temp0 s / n, qx_P = d (qs_P s), qx_Q = d (qs_Q s), qx_S = qs_S s / n\<rparr>\<rparr>)"

text \<open>The tests against the limits when ten minutes are over; each harmonic test ends at its first violation.\<close>

fun first_violation :: "rat list \<Rightarrow> rat list \<Rightarrow> nat \<Rightarrow> qvar \<Rightarrow> qvar" where
  "first_violation [] lims n v = v"
| "first_violation (x # xs) [] n v = v"
| "first_violation (x # xs) (l # ls) n v =
     (case QualVarUpdate v x 0 l n of (True, v1) \<Rightarrow> v1 | (False, v1) \<Rightarrow> first_violation xs ls n v1)"

definition ten_minute_tests :: "qual_in \<Rightarrow> qual_avg \<Rightarrow> nat \<Rightarrow> qual_var \<Rightarrow> qual_var" where
  "ten_minute_tests x a n v =
     (let t3 = (\<lambda>vs vals lo hi. map (\<lambda>i. snd (QualVarUpdate (vs ! i) (vals ! i) lo hi n)) [0..<3])
      in v\<lparr>va_Volt1 := t3 (va_Volt1 v) (qa_U a) (qi_uLo x ! 0) (qi_uHi x ! 0),
           va_Volt2 := t3 (va_Volt2 v) (qa_U a) (qi_uLo x ! 1) (qi_uHi x ! 1),
           va_Voltbal := snd (QualVarUpdate (va_Voltbal v) (qa_Ubal a ! 0) 0 2 n),
           va_VoltThd := t3 (va_VoltThd v) (qa_Uthd a) 0 8,
           va_VoltHd := map (\<lambda>i. first_violation (map f32 (take 24 (drop (24 * i) (qa_Uhd a)))) harmLimit n (va_VoltHd v ! i)) [0..<3]\<rparr>)"

text \<open>Deviation of the voltages from the nominal value, in percent.\<close>

definition vq_deviation :: "bool \<Rightarrow> rat \<Rightarrow> rat \<Rightarrow> rat \<times> rat \<times> rat \<times> rat" where
  "vq_deviation online vnorm u =
     (if online \<and> vnorm > 0
      then let dev = (u - vnorm) / vnorm * 100
           in (if dev < 0 then - dev else 0, if dev > 0 then dev else 0, if dev < 0 then u else 0, if dev > 0 then u else 0)
      else (0, 0, 0, 0))"

subsection \<open>The job for the file task\<close>

record pq_job =
  pj_pending :: bool
  pj_rollover :: bool
  pj_ev :: "event_log list"
  pj_qlfn :: string
  pj_qwfn :: string
  pj_newQwfn :: string
  pj_avg :: qual_avg
  pj_week :: qual_week
  pj_newQw :: qual_week

record qual_state =
  ql_q :: "nat \<Rightarrow> q10m"
  ql_rpt :: "nat \<Rightarrow> en50160 \<times> en50160"
  ql_week :: qual_week
  ql_qlfn :: string
  ql_qwfn :: string
  ql_qwfnLast :: string
  ql_eventQ :: event_q
  ql_job :: pq_job

definition getQualLastWeekFN :: "nat \<Rightarrow> u32 \<Rightarrow> nat \<Rightarrow> string" where
  "getQualLastWeekFN startDay sysTick1s k =
     ''pq_q'' @ [CHR ''w'', CHR ''_''] @
     date_str (uLocalTime (sysTick1s - of_nat (week_back startDay (uLocalTime sysTick1s) + 7) * 24 * 3600)) @
     ''_m'' @ dec k @ ''.d''"

definition getQualWeekEndTs :: "nat \<Rightarrow> tm \<Rightarrow> u32" where
  "getQualWeekEndTs startDay tod =
     mktime (tod\<lparr>tm_hour := 0, tm_min := 0, tm_sec := 0\<rparr>) + of_nat (7 - week_back startDay tod) * 86400"

text \<open>\<open>pqQueueJob\<close> with all it stores; \<open>None\<close> when the last job is not done yet.\<close>

definition queue_job :: "qual_avg \<Rightarrow> qual_state \<Rightarrow> qual_state option" where
  "queue_job avg s =
     (case pqQueueJob (pj_pending (ql_job s)) (ql_eventQ s) of
        None \<Rightarrow> None
      | Some (es, q) \<Rightarrow>
          (let w = (ql_week s)\<lparr>qw_evtCount := qw_evtCount (ql_week s) + length es\<rparr>
           in Some (s\<lparr>ql_eventQ := q, ql_week := w,
                      ql_job := (ql_job s)\<lparr>pj_ev := es, pj_avg := avg, pj_week := w, pj_rollover := False,
                                           pj_qlfn := ql_qlfn s, pj_qwfn := ql_qwfn s\<rparr>\<rparr>)))"

definition pqCommitJob :: "qual_state \<Rightarrow> qual_state" where
  "pqCommitJob s = s\<lparr>ql_job := (ql_job s)\<lparr>pj_pending := True\<rparr>\<rparr>"

text \<open>The report of the running week, and the change to a new one.\<close>

definition same_week :: "u32 \<Rightarrow> q10m \<Rightarrow> qual_state \<Rightarrow> qual_state" where
  "same_week now q s =
     (let s1 = s\<lparr>ql_week := updateQualWeek now (qa_count10s (q_avg q)) (q_var q) (ql_week s)\<rparr>;
          s2 = (case queue_job (q_avg q) s1 of None \<Rightarrow> s1 | Some s' \<Rightarrow> pqCommitJob s')
      in s2\<lparr>ql_rpt := (ql_rpt s2)(0 := (updateQualReport (ql_week s2), snd (ql_rpt s2 0)))\<rparr>)"

definition new_week :: "nat \<Rightarrow> u32 \<Rightarrow> tm \<Rightarrow> q10m \<Rightarrow> qual_state \<Rightarrow> qual_state" where
  "new_week startDay now tod q s =
     (let s1 = s\<lparr>ql_week := updateQualWeek now (qa_count10s (q_avg q)) (q_var q) (ql_week s)\<rparr>;
          s2 = s1\<lparr>ql_rpt := (ql_rpt s1)(0 := (fst (ql_rpt s1 0), updateQualReport (ql_week s1)))\<rparr>;
          job = queue_job (q_avg q) s2; s3 = (case job of None \<Rightarrow> s2 | Some s' \<Rightarrow> s');
          s4 = s3\<lparr>ql_qlfn := getQualFN (CHR ''l'') startDay now 0, ql_qwfn := getQualFN (CHR ''w'') startDay now 0,
                  ql_qwfnLast := getQualLastWeekFN startDay now 0,
                  ql_week := qual_week0\<lparr>qw_startTs := now, qw_endTs := getQualWeekEndTs startDay tod\<rparr>\<rparr>;
          s5 = (if job = None then s4
                else pqCommitJob (s4\<lparr>ql_job := (ql_job s4)\<lparr>pj_rollover := True, pj_newQwfn := ql_qwfn s4, pj_newQw := ql_week s4\<rparr>\<rparr>))
      in s5\<lparr>ql_rpt := (ql_rpt s5)(0 := (updateQualReport (ql_week s5), snd (ql_rpt s5 0)))\<rparr>)"

definition one_second :: "qual_in \<Rightarrow> q10m \<Rightarrow> q10m" where
  "one_second x q =
     (let q1 = q\<lparr>q_count10m := q_count10m q + 1, q_count10s := q_count10s q + 1,
                 q_sum := (q_sum q)\<lparr>qs_freq := qs_freq (q_sum q) + qi_Freq x\<rparr>\<rparr>;
          q2 = ten_seconds x q1
      in running_average (q2\<lparr>q_sum := sum_second x (q_sum q2)\<rparr>))"

definition ten_minutes_over :: "qual_in \<Rightarrow> q10m \<Rightarrow> bool" where
  "ten_minutes_over x q \<longleftrightarrow> q_ts10m q \<noteq> qi_sysTick10m x \<or> q_tsChanged q"

definition fresh_window :: "qual_in \<Rightarrow> q10m \<Rightarrow> q10m" where
  "fresh_window x q =
     q\<lparr>q_avg := qual_avg0\<lparr>qa_startTs := qi_sysTick1s x\<rparr>, q_var := qual_var0, q_count10m := 0, q_ts10m := qi_sysTick10m x,
       q_sum := qual_sum0\<rparr>"

definition updateQualData :: "bool \<Rightarrow> nat \<Rightarrow> tm \<Rightarrow> nat \<Rightarrow> qual_in \<Rightarrow> qual_state \<Rightarrow> qual_state" where
  "updateQualData active startDay tod k x s =
     (let q = one_second x (ql_q s k); now = qi_sysTick1s x
      in if \<not> ten_minutes_over x q then s\<lparr>ql_q := (ql_q s)(k := q)\<rparr>
         else let q1 = q\<lparr>q_tsChanged := False, q_avg := (q_avg q)\<lparr>qa_endTs := now\<rparr>\<rparr>;
                  q2 = q1\<lparr>q_var := ten_minute_tests x (q_avg q1) (q_count10m q1) (q_var q1)\<rparr>;
                  s1 = (if \<not> active then s
                        else if k \<noteq> 0 then s\<lparr>ql_rpt := (ql_rpt s)(k := ql_rpt s 0)\<rparr>
                        else if qw_startTs (ql_week s) \<le> now \<and> now < qw_endTs (ql_week s) then same_week now q2 s
                        else new_week startDay now tod q2 s)
              in s1\<lparr>ql_q := (ql_q s1)(k := fresh_window x q2)\<rparr>)"

subsection \<open>Files\<close>

definition qvar_bytes :: "(rat \<Rightarrow> u32) \<Rightarrow> qvar \<Rightarrow> bytes" where
  "qvar_bytes bits v = le_bytes 4 (of_nat (qv_err v) :: u32) @ le_bytes 4 (bits (qv_var v))"

definition nats_bytes :: "nat list \<Rightarrow> bytes" where
  "nats_bytes ns = le_array 4 (map (of_nat :: nat \<Rightarrow> u32) ns)"

definition qual_week_bytes :: "(rat \<Rightarrow> u32) \<Rightarrow> qual_week \<Rightarrow> bytes" where
  "qual_week_bytes bits w =
     (let v = qw_var w; qs = concat \<circ> map (qvar_bytes bits)
      in le_array 4 [qw_startTs w, qw_endTs w, if qw_complete w then 1 else 0, qw_compliance w] @
         nats_bytes [qw_count10s w, qw_count10m w] @
         nats_bytes (va_sag v @ va_swell v @ va_shortIntr v @ va_longIntr v @ va_rvc v) @
         qs ([va_Freq1 v, va_Freq2 v] @ va_Volt1 v @ va_Volt2 v @ [va_Voltbal v] @ va_VoltThd v @ va_VoltHd v @
             va_Pst v @ va_Plt v @ va_Svolt v) @
         nats_bytes [qw_evtCount w])"

definition qual_avg_bytes :: "(rat \<Rightarrow> u32) \<Rightarrow> qual_avg \<Rightarrow> bytes" where
  "qual_avg_bytes bits a =
     (let fs = le_array 4 \<circ> map bits
      in le_array 4 [qa_startTs a, qa_endTs a] @ nats_bytes [qa_count10s a] @
         le_array 2 (map (of_nat :: nat \<Rightarrow> u16) (qa_ts10 a)) @ fs (qa_Freq a) @ fs (qa_U a) @ fs (qa_Uthd a) @ fs (qa_Ubal a) @
         le_array 4 (qa_Uhd a) @ replicate 76 0)"

definition ensureLogPqDir :: "ret_env \<Rightarrow> dir \<Rightarrow> dir" where
  "ensureLogPqDir env d = (if re_open env ''pq_temp.$$$'' d then fappend ''pq_temp.$$$'' [] d else d)"

definition pqFopenLocked :: "ret_env \<Rightarrow> nat \<Rightarrow> string \<Rightarrow> dir \<Rightarrow> bool \<times> dir" where
  "pqFopenLocked env cur path d =
     (let d0 = ensureLogPqDir env d
      in if re_open env path d0 then (True, d0)
         else let d1 = trimQual_loop PQ_TRIM_MAX env cur 0 d0 in (re_open env path d1, d1))"

definition appendQualLog :: "ret_env \<Rightarrow> nat \<Rightarrow> string \<Rightarrow> bytes \<Rightarrow> dir \<Rightarrow> dir" where
  "appendQualLog env cur fn bs d =
     (let (ok, d1) = pqFopenLocked env cur fn d
      in if \<not> ok then d1 else if fn \<notin> fst ` set d then fwrite_all fn bs d1 else fappend fn bs d1)"

abbreviation (input) QW_TAIL_MAX :: nat where "QW_TAIL_MAX \<equiv> 4096"

text \<open>The events behind the 300 bytes of the weekly record; \<open>None\<close> when they exceed the buffer.\<close>

definition qualWeekReadTail :: "string \<Rightarrow> dir \<Rightarrow> bytes option" where
  "qualWeekReadTail path d =
     (let t = drop 300 (fcontent path d) in if length t > QW_TAIL_MAX then None else Some t)"

definition updateQualWeekData ::
  "ret_env \<Rightarrow> nat \<Rightarrow> string \<Rightarrow> bytes \<Rightarrow> bytes list \<Rightarrow> dir \<Rightarrow> bool \<times> dir" where
  "updateQualWeekData env cur path week evs d =
     (case qualWeekReadTail path d of
        None \<Rightarrow> (False, d)
      | Some tail \<Rightarrow>
          (case pqFopenLocked env cur path d of
             (False, d1) \<Rightarrow> (False, d1)
           | (True, d1) \<Rightarrow>
               let d2 = fwrite_all path (week @ tail) d1
               in if evs = [] then (True, d2)
                  else case pqFopenLocked env cur path d2 of
                         (False, d3) \<Rightarrow> (False, d3)
                       | (True, d3) \<Rightarrow> (True, fappend path (concat evs) d3)))"

definition createQualWeekData :: "ret_env \<Rightarrow> nat \<Rightarrow> string \<Rightarrow> bytes \<Rightarrow> dir \<Rightarrow> bool \<times> dir" where
  "createQualWeekData env cur path week d =
     (case pqFopenLocked env cur path d of (False, d1) \<Rightarrow> (False, d1) | (True, d1) \<Rightarrow> (True, fwrite_all path week d1))"

text \<open>One turn of \<open>pqIoTick\<close>: the waiting job, or once a day, some minutes after the hour, the clearing.\<close>

definition pq_write_job :: "ret_env \<Rightarrow> (rat \<Rightarrow> u32) \<Rightarrow> nat \<Rightarrow> pq_job \<Rightarrow> dir \<Rightarrow> dir" where
  "pq_write_job env bits cur j d =
     (let d1 = appendQualLog env cur (pj_qlfn j) (qual_avg_bytes bits (pj_avg j)) d;
          d2 = snd (updateQualWeekData env cur (pj_qwfn j) (qual_week_bytes bits (pj_week j)) (map event_log_bytes (pj_ev j)) d1)
      in if pj_rollover j then snd (createQualWeekData env cur (pj_newQwfn j) (qual_week_bytes bits (pj_newQw j)) d2) else d2)"

definition pqIoTick ::
  "ret_env \<Rightarrow> (rat \<Rightarrow> u32) \<Rightarrow> nat \<Rightarrow> u32 \<Rightarrow> nat \<Rightarrow> tm \<Rightarrow> pq_job \<times> u32 \<times> dir \<Rightarrow> pq_job \<times> u32 \<times> dir" where
  "pqIoTick env bits startDay sysTick1s uptime tod jtd =
     (case jtd of (j, trimDay, d) \<Rightarrow>
       let cur = parseDateKey8 (getQualStartDate startDay sysTick1s); day = sysTick1s div 86400
       in if pj_pending j then (j\<lparr>pj_pending := False\<rparr>, trimDay, pq_write_job env bits cur j d)
          else if sysTick1s = 0 \<or> uptime < 60000 then (j, trimDay, d)
          else if tm_min tod < 5 \<or> tm_min tod > 8 then (j, trimDay, d)
          else if day \<noteq> trimDay
          then (j, day, trimQualLogs env startDay sysTick1s (logCutoffKeyDays sysTick1s 90) d)
          else (j, trimDay, d))"

subsection \<open>Ten-minute averages are means\<close>

lemma ten_seconds_keeps:
  "q_count10m (ten_seconds x q) = q_count10m q \<and> q_ts10m (ten_seconds x q) = q_ts10m q \<and>
    q_tsChanged (ten_seconds x q) = q_tsChanged q \<and> qs_U (q_sum (ten_seconds x q)) = qs_U (q_sum q) \<and>
    qs_I (q_sum (ten_seconds x q)) = qs_I (q_sum q) \<and> qs_Ubal (q_sum (ten_seconds x q)) = qs_Ubal (q_sum q) \<and>
    qs_S (q_sum (ten_seconds x q)) = qs_S (q_sum q)"
  by (simp add: ten_seconds_def Let_def)

lemma one_second_sums:
  "q_count10m (one_second x q) = q_count10m q + 1 \<and> q_ts10m (one_second x q) = q_ts10m q \<and>
    q_tsChanged (one_second x q) = q_tsChanged q \<and>
    qs_U (q_sum (one_second x q)) = add_lists (qs_U (q_sum q)) (qi_U1012 x) \<and>
    qs_I (q_sum (one_second x q)) = add_lists (qs_I (q_sum q)) (qi_I x) \<and>
    qs_Ubal (q_sum (one_second x q)) = add_lists (qs_Ubal (q_sum q)) (qi_Ubal x) \<and>
    qs_S (q_sum (one_second x q)) = qs_S (q_sum q) + qi_S x"
  using ten_seconds_keeps [of x "q\<lparr>q_count10m := q_count10m q + 1, q_count10s := q_count10s q + 1,
                 q_sum := (q_sum q)\<lparr>qs_freq := qs_freq (q_sum q) + qi_Freq x\<rparr>\<rparr>"]
  by (simp add: one_second_def Let_def running_average_def sum_second_def)

lemma one_second_average:
  "qa_U (q_avg (one_second x q)) = map (\<lambda>v. v / of_nat (q_count10m q + 1)) (qs_U (q_sum (one_second x q))) \<and>
    qx_I (q_exp (one_second x q)) = map (\<lambda>v. v / of_nat (q_count10m q + 1)) (qs_I (q_sum (one_second x q))) \<and>
    qa_Ubal (q_avg (one_second x q)) = map (\<lambda>v. v / of_nat (q_count10m q + 1)) (qs_Ubal (q_sum (one_second x q))) \<and>
    qx_S (q_exp (one_second x q)) = qs_S (q_sum (one_second x q)) / of_nat (q_count10m q + 1)"
  using ten_seconds_keeps [of x "q\<lparr>q_count10m := q_count10m q + 1, q_count10s := q_count10s q + 1,
                 q_sum := (q_sum q)\<lparr>qs_freq := qs_freq (q_sum q) + qi_Freq x\<rparr>\<rparr>"]
  by (simp add: one_second_def Let_def running_average_def)

text \<open>The sum of one component over the seconds of a window.\<close>

definition total :: "(qual_in \<Rightarrow> rat list) \<Rightarrow> qual_in list \<Rightarrow> nat \<Rightarrow> rat" where
  "total f xs i = sum_list (map (\<lambda>x. f x ! i) xs)"

lemma add_lists_total: "add_lists (map (total f xs) [0..<n]) (f x) = map (total f (xs @ [x])) [0..<n]"
  by (simp add: add_lists_def total_def)

lemma window_sums:
  assumes "q_sum q = qual_sum0" "q_count10m q = 0"
  shows "let q' = fold one_second xs q
    in q_count10m q' = length xs \<and> q_ts10m q' = q_ts10m q \<and> q_tsChanged q' = q_tsChanged q \<and>
       qs_U (q_sum q') = map (total qi_U1012 xs) [0..<3] \<and> qs_I (q_sum q') = map (total qi_I xs) [0..<3] \<and>
       qs_Ubal (q_sum q') = map (total qi_Ubal xs) [0..<2] \<and> qs_S (q_sum q') = sum_list (map qi_S xs)"
proof (induction xs rule: rev_induct)
  case Nil
  then show ?case using assms by (simp add: qual_sum0_def total_def upt_rec numeral_3_eq_3 numeral_2_eq_2)
next
  case (snoc x xs)
  then show ?case
    using one_second_sums [of x "fold one_second xs q"] add_lists_total [of _ xs _ x] by (simp add: Let_def)
qed

definition tick_of :: "nat \<Rightarrow> bool \<Rightarrow> nat \<Rightarrow> tm \<times> qual_in \<Rightarrow> qual_state \<Rightarrow> qual_state" where
  "tick_of k active startDay tx s = updateQualData active startDay (fst tx) k (snd tx) s"

lemma quiet_seconds:
  assumes "\<not> q_tsChanged (ql_q s k)" "\<forall>tx \<in> set txs. qi_sysTick10m (snd tx) = q_ts10m (ql_q s k)"
  shows "fold (tick_of k active startDay) txs s = s\<lparr>ql_q := (ql_q s)(k := fold one_second (map snd txs) (ql_q s k))\<rparr>"
  using assms
proof (induction txs arbitrary: s)
  case (Cons tx txs)
  have q: "q_ts10m (one_second (snd tx) (ql_q s k)) = q_ts10m (ql_q s k)" "\<not> q_tsChanged (one_second (snd tx) (ql_q s k))"
    using one_second_sums [of "snd tx" "ql_q s k"] Cons.prems(1) by simp_all
  then have "\<not> ten_minutes_over (snd tx) (one_second (snd tx) (ql_q s k))" using Cons.prems by (simp add: ten_minutes_over_def)
  then have t: "tick_of k active startDay tx s = s\<lparr>ql_q := (ql_q s)(k := one_second (snd tx) (ql_q s k))\<rparr>"
    by (simp add: tick_of_def updateQualData_def Let_def)
  show ?case using Cons.IH [of "tick_of k active startDay tx s"] Cons.prems q by (simp add: t cong: if_cong)
qed simp

lemma queue_job_idle:
  "\<not> pj_pending (ql_job s) \<Longrightarrow> \<exists>s'. queue_job a s = Some s' \<and> pj_avg (ql_job s') = a \<and> eq_count (ql_eventQ s') = 0 \<and>
    pj_ev (ql_job s') = take (min (eq_count (ql_eventQ s)) 1024) (eq_eq (ql_eventQ s)) \<and>
    pj_qlfn (ql_job s') = ql_qlfn s \<and> pj_qwfn (ql_job s') = ql_qwfn s"
  by (simp add: queue_job_def pqQueueJob_def Let_def min_def)

lemma same_week_job:
  assumes "\<not> pj_pending (ql_job s)"
  shows "pj_pending (ql_job (same_week now q s)) \<and> pj_avg (ql_job (same_week now q s)) = q_avg q \<and>
    eq_count (ql_eventQ (same_week now q s)) = 0 \<and>
    pj_ev (ql_job (same_week now q s)) = take (min (eq_count (ql_eventQ s)) 1024) (eq_eq (ql_eventQ s)) \<and>
    pj_qlfn (ql_job (same_week now q s)) = ql_qlfn s \<and> pj_qwfn (ql_job (same_week now q s)) = ql_qwfn s"
  using queue_job_idle [of "s\<lparr>ql_week := updateQualWeek now (qa_count10s (q_avg q)) (q_var q) (ql_week s)\<rparr>" "q_avg q"] assms
  by (auto simp: same_week_def Let_def pqCommitJob_def)

lemma new_week_job:
  assumes "\<not> pj_pending (ql_job s)"
  shows "pj_pending (ql_job (new_week sd now tod q s)) \<and> pj_avg (ql_job (new_week sd now tod q s)) = q_avg q \<and>
    eq_count (ql_eventQ (new_week sd now tod q s)) = 0 \<and>
    pj_ev (ql_job (new_week sd now tod q s)) = take (min (eq_count (ql_eventQ s)) 1024) (eq_eq (ql_eventQ s)) \<and>
    pj_qlfn (ql_job (new_week sd now tod q s)) = ql_qlfn s \<and> pj_qwfn (ql_job (new_week sd now tod q s)) = ql_qwfn s"
proof -
  define s2 where "s2 = s\<lparr>ql_week := updateQualWeek now (qa_count10s (q_avg q)) (q_var q) (ql_week s),
    ql_rpt := (ql_rpt s)(0 := (fst (ql_rpt s 0), updateQualReport (updateQualWeek now (qa_count10s (q_avg q)) (q_var q) (ql_week s))))\<rparr>"
  obtain s' where "queue_job (q_avg q) s2 = Some s'" "pj_avg (ql_job s') = q_avg q" "eq_count (ql_eventQ s') = 0"
    "pj_ev (ql_job s') = take (min (eq_count (ql_eventQ s)) 1024) (eq_eq (ql_eventQ s))"
    "pj_qlfn (ql_job s') = ql_qlfn s" "pj_qwfn (ql_job s') = ql_qwfn s"
    using queue_job_idle [of s2 "q_avg q"] assms by (auto simp: s2_def)
  then show ?thesis by (simp add: new_week_def Let_def pqCommitJob_def s2_def [symmetric])
qed

text \<open>C35. The ten-minute record is the mean of its seconds, for the first meter, the only one that
  reports, with the power-quality report switched on: when the ten minutes of a window that
  started afresh are over, in which the clock was not set, and the file task has finished its
  previous job, the record handed to it holds for every phase the arithmetic mean of the voltages
  measured in each second of the window, and of the unbalance, together with all events that were
  waiting, the queue of which is empty then, and a new window begins. With the previous job still
  pending the record is not handed over.\<close>

theorem ten_minute_record_is_mean:
  assumes "q_sum (ql_q s 0) = qual_sum0" "q_count10m (ql_q s 0) = 0" "\<not> q_tsChanged (ql_q s 0)"
    and "\<forall>tx \<in> set txs. qi_sysTick10m (snd tx) = q_ts10m (ql_q s 0)" "qi_sysTick10m x \<noteq> q_ts10m (ql_q s 0)"
    and "\<not> pj_pending (ql_job s)"
  shows "let s' = fold (tick_of 0 True startDay) (txs @ [(tod, x)]) s; xs = map snd txs @ [x]; a = pj_avg (ql_job s')
    in pj_pending (ql_job s') \<and>
       qa_U a = map (\<lambda>i. total qi_U1012 xs i / of_nat (length xs)) [0..<3] \<and>
       qa_Ubal a = map (\<lambda>i. total qi_Ubal xs i / of_nat (length xs)) [0..<2] \<and>
       pj_ev (ql_job s') = take (min (eq_count (ql_eventQ s)) 1024) (eq_eq (ql_eventQ s)) \<and>
       eq_count (ql_eventQ s') = 0 \<and> q_count10m (ql_q s' 0) = 0 \<and> q_sum (ql_q s' 0) = qual_sum0"
proof -
  let ?xs = "map snd txs @ [x]"
  define q where "q = fold one_second (map snd txs) (ql_q s 0)"
  define s1 where "s1 = s\<lparr>ql_q := (ql_q s)(0 := q)\<rparr>"
  define q1 where "q1 = one_second x q"
  have f: "fold (tick_of 0 True startDay) txs s = s1" unfolding s1_def q_def using assms(3,4) by (rule quiet_seconds)
  have q1: "q1 = fold one_second ?xs (ql_q s 0)" by (simp add: q1_def q_def)
  note w = window_sums [OF assms(1,2), of ?xs, folded q1, unfolded Let_def]
  have n: "q_count10m q + 1 = length ?xs" using w one_second_sums [of x q] by (simp add: q1_def)
  have avg: "qa_U (q_avg q1) = map (\<lambda>i. total qi_U1012 ?xs i / of_nat (length ?xs)) [0..<3]"
    "qa_Ubal (q_avg q1) = map (\<lambda>i. total qi_Ubal ?xs i / of_nat (length ?xs)) [0..<2]"
    using one_second_average [of x q, folded q1_def] w unfolding n by (simp_all add: o_def)
  have over: "ten_minutes_over x q1" using w assms(5) by (simp add: ten_minutes_over_def)
  define q2 where "q2 = (q1\<lparr>q_tsChanged := False, q_avg := (q_avg q1)\<lparr>qa_endTs := qi_sysTick1s x\<rparr>\<rparr>)
      \<lparr>q_var := ten_minute_tests x ((q_avg q1)\<lparr>qa_endTs := qi_sysTick1s x\<rparr>) (q_count10m q1) (q_var q1)\<rparr>"
  have q2: "qa_U (q_avg q2) = qa_U (q_avg q1)" "qa_Ubal (q_avg q2) = qa_Ubal (q_avg q1)" by (simp_all add: q2_def)
  have s1: "ql_q s1 0 = q" "ql_job s1 = ql_job s" "ql_eventQ s1 = ql_eventQ s" "ql_week s1 = ql_week s" by (simp_all add: s1_def)
  define s3 where "s3 = (if qw_startTs (ql_week s1) \<le> qi_sysTick1s x \<and> qi_sysTick1s x < qw_endTs (ql_week s1)
                         then same_week (qi_sysTick1s x) q2 s1 else new_week startDay (qi_sysTick1s x) tod q2 s1)"
  have last: "tick_of 0 True startDay (tod, x) s1 = s3\<lparr>ql_q := (ql_q s3)(0 := fresh_window x q2)\<rparr>"
    using over unfolding tick_of_def updateQualData_def Let_def s3_def q2_def by (simp add: s1(1) q1_def)
  have "pj_pending (ql_job s3) \<and> pj_avg (ql_job s3) = q_avg q2 \<and> eq_count (ql_eventQ s3) = 0 \<and>
      pj_ev (ql_job s3) = take (min (eq_count (ql_eventQ s)) 1024) (eq_eq (ql_eventQ s))"
    using same_week_job [of s1 "qi_sysTick1s x" q2] new_week_job [of s1 startDay "qi_sysTick1s x" tod q2] assms(6)
    by (simp add: s3_def s1)
  then show ?thesis by (simp add: f last avg q2 Let_def fresh_window_def)
qed

definition qual_exp0 :: qual_exp where
  "qual_exp0 = \<lparr>qx_I = [0, 0, 0], qx_In = 0, qx_PF = 0, qx_dPF = 0, qx_Ibal = [0, 0], qx_temp0 = 0, qx_P = [0, 0],
     qx_Q = [0, 0], qx_S = 0\<rparr>"

definition demo_qual :: qual_state where
  "demo_qual = \<lparr>ql_q = (\<lambda>_. \<lparr>q_ts10m = 10, q_ts10s = 600, q_count10m = 0, q_count10s = 0, q_avg = qual_avg0, q_exp = qual_exp0,
       q_var = qual_var0, q_sum = qual_sum0, q_tsChanged = False\<rparr>),
     ql_rpt = (\<lambda>_. (updateQualReport qual_week0, updateQualReport qual_week0)),
     ql_week = qual_week0\<lparr>qw_startTs := 6000, qw_endTs := 600000\<rparr>, ql_qlfn = ''pq_ql_19700101_m0.d'',
     ql_qwfn = ''pq_qw_19700101_m0.d'', ql_qwfnLast = ''pq_qw_19691225_m0.d'',
     ql_eventQ = \<lparr>eq_count = 1, eq_eq = [event_log0]\<rparr>,
     ql_job = \<lparr>pj_pending = False, pj_rollover = False, pj_ev = [], pj_qlfn = [], pj_qwfn = [], pj_newQwfn = [],
       pj_avg = qual_avg0, pj_week = qual_week0, pj_newQw = qual_week0\<rparr>\<rparr>"

definition demo_sample :: "nat \<Rightarrow> rat \<Rightarrow> qual_in" where
  "demo_sample now u = \<lparr>qi_Freq = 60, qi_U1012 = [u, u, u + 1], qi_I = [1, 2, 3], qi_In = 0, qi_dPF = 1, qi_PF = 1, qi_Ubal = [1, 0],
     qi_Ibal = [0, 0], qi_Temp = 20, qi_P = 5, qi_Q = -1, qi_S = 6, qi_Uthd = [1, 1, 1], qi_Uhd = replicate 72 9,
     qi_Upphd = replicate 72 9, qi_freqLo = [594/10, 564/10], qi_freqHi = [606/10, 624/10], qi_uLo = [198, 187],
     qi_uHi = [242, 242], qi_sysTick1s = of_nat now, qi_sysTick10s = of_nat (now div 10), qi_sysTick10m = of_nat (now div 600)\<rparr>"

theorem ten_minute_record_is_mean_witness:
  "let s' = fold (tick_of 0 True 0) ([(uLocalTime 6598, demo_sample 6598 220), (uLocalTime 6599, demo_sample 6599 230)] @
         [(uLocalTime 6600, demo_sample 6600 240)]) demo_qual; a = pj_avg (ql_job s')
    in pj_pending (ql_job s') \<and> qa_U a = [230, 230, 231] \<and> pj_ev (ql_job s') = [event_log0]"
proof -
  let ?txs = "[(uLocalTime 6598, demo_sample 6598 220), (uLocalTime 6599, demo_sample 6599 230)]"
  have tick: "qi_sysTick10m (demo_sample n u) = of_nat (n div 600)" for n u by (simp add: demo_sample_def)
  have q: "q_sum (ql_q demo_qual 0) = qual_sum0" "q_count10m (ql_q demo_qual 0) = 0" "\<not> q_tsChanged (ql_q demo_qual 0)"
    "q_ts10m (ql_q demo_qual 0) = 10" "\<not> pj_pending (ql_job demo_qual)"
    "take (min (eq_count (ql_eventQ demo_qual)) 1024) (eq_eq (ql_eventQ demo_qual)) = [event_log0]"
    by (simp_all add: demo_qual_def)
  have avg: "map (\<lambda>i. total qi_U1012 (map snd ?txs @ [demo_sample 6600 240]) i / of_nat (length (map snd ?txs @ [demo_sample 6600 240]))) [0..<3] =
      [230, 230, 231]"
    by (simp add: total_def demo_sample_def upt_rec numeral_3_eq_3)
  have "\<forall>tx \<in> set ?txs. qi_sysTick10m (snd tx) = q_ts10m (ql_q demo_qual 0)" by (simp add: tick q(4))
  moreover have "qi_sysTick10m (demo_sample 6600 240) \<noteq> q_ts10m (ql_q demo_qual 0)" by (simp add: tick q(4))
  ultimately show ?thesis
    using ten_minute_record_is_mean [OF q(1-3) _ _ q(5), of ?txs "demo_sample 6600 240" 0 "uLocalTime 6600"]
    unfolding Let_def avg q(6) by blast
qed

subsection \<open>The weekly file\<close>

definition week_ok :: "qual_week \<Rightarrow> bool" where
  "week_ok w \<longleftrightarrow>
     (let v = qw_var w
      in list_all (\<lambda>xs. length xs = 4) [va_sag v, va_swell v, va_shortIntr v, va_longIntr v, va_rvc v] \<and>
         list_all (\<lambda>xs. length xs = 3) [va_Volt1 v, va_Volt2 v, va_VoltThd v, va_VoltHd v, va_Pst v, va_Plt v, va_Svolt v])"

lemma length_qvars: "length ((concat \<circ> map (qvar_bytes bits)) vs) = 8 * length vs"
  by (induction vs) (simp_all add: qvar_bytes_def)

lemma length_week: "week_ok w \<Longrightarrow> length (qual_week_bytes bits w) = 300"
  by (simp add: qual_week_bytes_def Let_def week_ok_def nats_bytes_def length_qvars del: o_apply)

lemma week_ok_0: "week_ok qual_week0"
  by (simp add: week_ok_def qual_week0_def qual_var0_def Let_def)

lemma week_ok_update: "week_ok w \<Longrightarrow> week_ok (updateQualWeek now n var w)"
  by (simp add: week_ok_def updateQualWeek_def Let_def week_var_def add4_def week3_def)

text \<open>When every file opens, opening one adds at most the empty marker file.\<close>

lemma pqFopenLocked_open: "\<forall>nm d. re_open env nm d \<Longrightarrow> pqFopenLocked env cur path d = (True, fappend ''pq_temp.$$$'' [] d)"
  by (simp add: pqFopenLocked_def ensureLogPqDir_def Let_def)

lemma fcontent_marker: "fcontent p (fappend ''pq_temp.$$$'' [] d) = fcontent p d"
  by (simp add: fcontent_fappend)

lemma updateQualWeekData_content:
  assumes "\<forall>nm d. re_open env nm d"
  shows "fcontent p (snd (updateQualWeekData env cur path week evs d)) =
    (if p = path \<and> length (drop 300 (fcontent path d)) \<le> QW_TAIL_MAX
     then week @ drop 300 (fcontent path d) @ concat evs else fcontent p d)"
  using assms
  by (auto simp: updateQualWeekData_def qualWeekReadTail_def Let_def pqFopenLocked_open fcontent_fwrite_all fcontent_fappend fcontent_marker)

lemma appendQualLog_content:
  assumes "\<forall>nm d. re_open env nm d"
  shows "fcontent p (appendQualLog env cur fn bs d) = (if p = fn then fcontent fn d @ bs else fcontent p d)"
proof -
  have "fcontent fn d = []" if "fn \<notin> fst ` set d" using that by (induction d) (auto simp: fcontent_def)
  then show ?thesis
    using assms by (auto simp: appendQualLog_def pqFopenLocked_open fcontent_fwrite_all fcontent_fappend fcontent_marker)
qed

definition job_events :: "pq_job \<Rightarrow> bytes" where
  "job_events j = concat (map event_log_bytes (pj_ev j))"

lemma pq_write_job_content:
  assumes "\<forall>nm d. re_open env nm d" "\<not> pj_rollover j" "pj_qlfn j \<noteq> p" "pj_qwfn j = p"
  shows "fcontent p (pq_write_job env bits cur j d) =
    (if length (drop 300 (fcontent p d)) \<le> QW_TAIL_MAX
     then qual_week_bytes bits (pj_week j) @ drop 300 (fcontent p d) @ job_events j else fcontent p d)"
  using assms
  by (simp add: pq_write_job_def Let_def updateQualWeekData_content appendQualLog_content job_events_def)

text \<open>The weekly file keeps every event: over any series of ten-minute jobs of one week, the file
  begins with the latest weekly record and goes on with all events of all jobs, each once and in
  the order in which they were reported, as long as the events already there fit the 4096 bytes of
  the buffer they pass through.\<close>

theorem weekly_file_keeps_events:
  assumes "\<forall>nm d. re_open env nm d" "length (fcontent p d) = 300" "js \<noteq> []"
    and "\<forall>j \<in> set js. \<not> pj_rollover j \<and> pj_qlfn j \<noteq> p \<and> pj_qwfn j = p \<and> week_ok (pj_week j)"
    and "length (concat (map job_events (butlast js))) \<le> QW_TAIL_MAX"
  shows "fcontent p (fold (pq_write_job env bits cur) js d) =
    qual_week_bytes bits (pj_week (last js)) @ concat (map job_events js)"
  using assms(3-5)
proof (induction js rule: rev_induct)
  case step: (snoc j js)
  have j: "\<not> pj_rollover j" "pj_qlfn j \<noteq> p" "pj_qwfn j = p" using step.prems(2) by auto
  have "drop 300 (fcontent p (fold (pq_write_job env bits cur) js d)) = concat (map job_events js)"
  proof (cases js rule: rev_cases)
    case Nil
    then show ?thesis using assms(2) by simp
  next
    case (snoc as a)
    have "length (concat (map job_events js)) \<le> QW_TAIL_MAX" using step.prems(3) by (simp only: butlast_snoc)
    then have "length (concat (map job_events (butlast js))) \<le> QW_TAIL_MAX" using snoc by simp
    then have "fcontent p (fold (pq_write_job env bits cur) js d) =
        qual_week_bytes bits (pj_week (last js)) @ concat (map job_events js)"
      using step.IH step.prems(2) snoc by simp
    moreover have "week_ok (pj_week (last js))" using step.prems(2) snoc by simp
    ultimately show ?thesis by (simp add: length_week)
  qed
  then show ?case
    using step.prems(3) pq_write_job_content [OF assms(1) j, of bits cur] by (simp del: length_drop)
qed simp

definition demo_pq_job :: pq_job where
  "demo_pq_job = \<lparr>pj_pending = True, pj_rollover = False, pj_ev = [event_log0], pj_qlfn = ''pq_ql_20231112_m0.d'',
     pj_qwfn = ''pq_qw_20231112_m0.d'', pj_newQwfn = [], pj_avg = qual_avg0, pj_week = qual_week0, pj_newQw = qual_week0\<rparr>"

theorem weekly_file_keeps_events_witness:
  "fcontent ''pq_qw_20231112_m0.d'' (fold (pq_write_job demo_ret_env (\<lambda>_. 0) 0) [demo_pq_job, demo_pq_job]
      [(''pq_qw_20231112_m0.d'', replicate 300 0)]) =
    qual_week_bytes (\<lambda>_. 0) (pj_week (last [demo_pq_job, demo_pq_job])) @ concat (map job_events [demo_pq_job, demo_pq_job])"
proof (rule weekly_file_keeps_events)
  show "\<forall>nm d. re_open demo_ret_env nm d" by (simp add: demo_ret_env_def)
  show "length (fcontent ''pq_qw_20231112_m0.d'' [(''pq_qw_20231112_m0.d'', replicate 300 0)]) = 300"
    by (simp add: fcontent_def)
  show "\<forall>j \<in> set [demo_pq_job, demo_pq_job]. \<not> pj_rollover j \<and> pj_qlfn j \<noteq> ''pq_qw_20231112_m0.d'' \<and>
      pj_qwfn j = ''pq_qw_20231112_m0.d'' \<and> week_ok (pj_week j)"
    by (simp add: demo_pq_job_def week_ok_0)
  have "length (job_events demo_pq_job) \<le> 100" by (simp add: job_events_def demo_pq_job_def event_log_bytes_def event_log0_def)
  then show "length (concat (map job_events (butlast [demo_pq_job, demo_pq_job]))) \<le> QW_TAIL_MAX" by simp
qed simp

text \<open>
  Past that buffer the weekly file is never written again: from 171 events on, neither the events
  nor the statistics of the rest of the week reach it.
\<close>

theorem full_weekly_file_is_frozen:
  assumes "\<forall>nm d. re_open env nm d" "length (fcontent p d) > 300 + QW_TAIL_MAX"
    and "\<forall>j \<in> set js. \<not> pj_rollover j \<and> pj_qlfn j \<noteq> p \<and> pj_qwfn j = p"
  shows "fcontent p (fold (pq_write_job env bits cur) js d) = fcontent p d"
  using assms(2,3)
proof (induction js arbitrary: d)
  case (Cons j js)
  have 1: "fcontent p (pq_write_job env bits cur j d) = fcontent p d"
  proof -
    have j: "\<not> pj_rollover j" "pj_qlfn j \<noteq> p" "pj_qwfn j = p" using Cons.prems(2) by simp_all
    have "\<not> length (drop 300 (fcontent p d)) \<le> QW_TAIL_MAX" using Cons.prems(1) by simp
    then show ?thesis by (simp only: pq_write_job_content [OF assms(1) j] if_False)
  qed
  have "fcontent p (fold (pq_write_job env bits cur) js (pq_write_job env bits cur j d)) = fcontent p (pq_write_job env bits cur j d)"
    by (rule Cons.IH) (simp only: 1 Cons.prems(1), use Cons.prems(2) in simp)
  then show ?case by (simp only: fold_simps 1)
qed simp

subsection \<open>Weeks follow each other without gap\<close>

text \<open>The first day of the week of a day, counted in days since 1970.\<close>

definition week_start :: "nat \<Rightarrow> nat \<Rightarrow> nat" where
  "week_start startDay day = day - (day + 11 - (if 6 < startDay then 0 else startDay)) mod 7"

lemma week_back_day: "t \<noteq> 0 \<Longrightarrow> week_back sd (uLocalTime t) = (unat t div 86400 + 11 - (if 6 < sd then 0 else sd)) mod 7"
proof -
  assume t: "t \<noteq> 0"
  let ?D = "unat t div 86400" and ?s = "if 6 < sd then 0 else sd :: nat"
  have "tm_wday (uLocalTime t) = (?D + 4) mod 7" using t by (simp add: uLocalTime_def Let_def split: prod.split)
  then have "week_back sd (uLocalTime t) = ((?D + 4) mod 7 + 7 - ?s) mod 7" by (simp add: week_back_def)
  also have "\<dots> = ((?D + 4) mod 7 + (7 - ?s)) mod 7" by simp
  also have "\<dots> = (?D + 4 + (7 - ?s)) mod 7" by (rule mod_add_left_eq)
  also have "?D + 4 + (7 - ?s) = ?D + 11 - ?s" by simp
  finally show ?thesis .
qed

text \<open>Every day of a week has the same first day, seven days before that of the next.\<close>

lemma week_start_cases:
  assumes "7 \<le> day"
  shows "week_start sd day \<le> day \<and> day < week_start sd day + 7 \<and>
    (week_start sd day + 11 - (if 6 < sd then 0 else sd)) mod 7 = 0"
proof -
  let ?s = "if 6 < sd then 0 else sd :: nat"
  let ?x = "day + 11 - ?s"
  have "?x mod 7 < 7" by simp
  then have b: "?x mod 7 \<le> day" using assms by linarith
  define m where "m = ?x mod 7"
  have m: "m < 7" "m \<le> day" using b by (simp_all add: m_def)
  have ws: "week_start sd day = day - m" by (simp add: week_start_def m_def)
  have "?s \<le> 6" by simp
  then have "day - m + 11 - ?s = ?x - m" using m by linarith
  moreover have "(?x - m) mod 7 = 0" by (simp add: m_def minus_mod_eq_mult_div)
  ultimately have "(day - m + 11 - ?s) mod 7 = 0" by simp
  then show ?thesis unfolding ws using m by simp
qed

lemma week_start_same:
  assumes "7 \<le> day" "week_start sd day \<le> d2" "d2 < week_start sd day + 7"
  shows "week_start sd d2 = week_start sd day"
proof -
  let ?s = "if 6 < sd then 0 else sd :: nat" and ?w = "week_start sd day"
  have "d2 + 11 - ?s = (?w + 11 - ?s) + (d2 - ?w)" using assms by simp
  then have "(d2 + 11 - ?s) mod 7 = (0 + (d2 - ?w)) mod 7"
    using week_start_cases [OF assms(1), of sd] by (metis mod_add_left_eq)
  also have "\<dots> = d2 - ?w" using assms by simp
  finally show ?thesis using assms(2) by (simp add: week_start_def [of sd d2])
qed

lemma u32_days_back:
  assumes "n * 86400 \<le> unat t" "n < 10"
  shows "unat (t - of_nat n * 24 * 3600 :: u32) div 86400 = unat t div 86400 - n"
proof -
  have n: "of_nat n * 24 * 3600 = (of_nat (n * 86400) :: u32)" by simp
  have "unat (of_nat (n * 86400) :: u32) = n * 86400" using assms(2) by (simp only: unat_of_nat) simp
  then have "unat (t - of_nat (n * 86400)) = unat t - n * 86400"
    using assms(1) by (subst unat_sub) (simp_all only: word_le_nat_alt)
  then show ?thesis unfolding n by (simp add: div_mult_self4 [symmetric] diff_mult_distrib2)
qed

lemma date_str_day:
  assumes "t \<noteq> 0" "u \<noteq> 0" "unat t div 86400 = unat u div 86400"
  shows "date_str (uLocalTime t) = date_str (uLocalTime u)"
  using assms by (simp add: date_str_def uLocalTime_def Let_def split: prod.split)

lemma getQualStartDate_day:
  assumes "8 \<le> unat t div 86400" "u \<noteq> 0" "unat u div 86400 = week_start sd (unat t div 86400)"
  shows "getQualStartDate sd t = date_str (uLocalTime u)"
proof -
  let ?D = "unat t div 86400" and ?b = "week_back sd (uLocalTime t)"
  let ?t = "t - of_nat ?b * 24 * 3600"
  have t0: "t \<noteq> 0" using assms(1) by auto
  have b: "?b < 7" by (simp add: week_back_def)
  have "week_start sd ?D = ?D - ?b" by (simp add: week_start_def week_back_day [OF t0])
  moreover have "?b * 86400 \<le> unat t"
    using b assms(1) div_mult_mod_eq [of "unat t" 86400] by linarith
  then have "unat ?t div 86400 = ?D - ?b" using b by (intro u32_days_back) simp_all
  moreover have "?t \<noteq> 0"
  proof
    assume "?t = 0"
    then have "unat ?t div 86400 = 0" by simp
    then show False using \<open>unat ?t div 86400 = ?D - ?b\<close> b assms(1) by linarith
  qed
  ultimately show ?thesis unfolding getQualStartDate_def using assms(2,3) by (intro date_str_day) simp_all
qed

lemma unat_day: "d * 86400 < 2 ^ 32 \<Longrightarrow> unat (of_nat (d * 86400) :: u32) = d * 86400"
  by (simp only: unat_of_nat) simp

lemma getQualWeekEndTs_day:
  assumes "8 \<le> unat t div 86400" "(week_start sd (unat t div 86400) + 7) * 86400 < 2 ^ 32"
  shows "getQualWeekEndTs sd (uLocalTime t) = of_nat ((week_start sd (unat t div 86400) + 7) * 86400)"
proof -
  let ?D = "unat t div 86400" and ?b = "week_back sd (uLocalTime t)"
  have t0: "t \<noteq> 0" using assms(1) by auto
  have b: "?b < 7" by (simp add: week_back_def)
  have ws: "week_start sd ?D = ?D - ?b" by (simp add: week_start_def week_back_day [OF t0])
  have "?D * 86400 \<le> unat t" by simp
  moreover have "unat t < 2 ^ LENGTH(32)" by (rule unsigned_less)
  ultimately have u: "unat (of_nat (?D * 86400) :: u32) = ?D * 86400" by (intro unat_day) simp
  define m where "m = (of_nat (?D * 86400) :: u32)"
  have m: "unat m = ?D * 86400" "m \<noteq> 0" using u assms(1) by (auto simp: m_def)
  have "uLocalTime m = (uLocalTime t)\<lparr>tm_hour := 0, tm_min := 0, tm_sec := 0\<rparr>"
    using m t0 by (simp add: uLocalTime_def Let_def split: prod.split)
  then have "mktime ((uLocalTime t)\<lparr>tm_hour := 0, tm_min := 0, tm_sec := 0\<rparr>) = m"
    using mktime_uLocalTime [OF m(2)] by simp
  then have "getQualWeekEndTs sd (uLocalTime t) = of_nat (?D * 86400) + of_nat ((7 - ?b) * 86400)"
    by (simp add: getQualWeekEndTs_def m_def)
  also have "\<dots> = of_nat ((?D + (7 - ?b)) * 86400)" by (simp only: of_nat_add [symmetric] add_mult_distrib)
  also have "?D + (7 - ?b) = week_start sd ?D + 7" using b assms(1) by (simp add: ws)
  finally show ?thesis .
qed

text \<open>Weeks of the quality report follow each other without gap or overlap: at any time the end
  of the running week lies ahead, at most seven days off; until then every file name stays that
  of this week and the computed end stays the same; and at the end the name changes.\<close>

theorem quality_weeks_follow:
  assumes "700000 \<le> unat t" "unat t < 4294000000"
  shows "let e = getQualWeekEndTs sd (uLocalTime t)
    in unat t < unat e \<and> unat e \<le> unat t + 604800 \<and>
       (\<forall>u. t \<le> u \<and> u < e \<longrightarrow> getQualStartDate sd u = getQualStartDate sd t \<and> getQualWeekEndTs sd (uLocalTime u) = e) \<and>
       getQualStartDate sd e \<noteq> getQualStartDate sd t"
proof -
  let ?D = "unat t div 86400"
  define w where "w = week_start sd ?D"
  have D: "8 \<le> ?D" "?D < 49700" using assms by (simp_all add: div_le_mono [of 700000 _ 86400, simplified] less_mult_imp_div_less)
  have w: "w \<le> ?D" "?D < w + 7" "1 \<le> w" using week_start_cases [of ?D sd] D by (auto simp: w_def)
  have fit: "(w + 7) * 86400 < 2 ^ 32" using w D by simp
  define e where "e = getQualWeekEndTs sd (uLocalTime t)"
  have e: "e = of_nat ((w + 7) * 86400)" "unat e = (w + 7) * 86400"
    using getQualWeekEndTs_day [of t sd] D fit unat_day [OF fit] by (simp_all add: e_def w_def)
  define s where "s = (of_nat (w * 86400) :: u32)"
  have s: "unat s = w * 86400" using unat_day [of w] fit by (simp add: s_def)
  then have s0: "s \<noteq> 0" using w(3) by auto
  have start: "getQualStartDate sd t = date_str (uLocalTime s)"
    by (rule getQualStartDate_day [OF D(1) s0]) (simp add: s w_def)
  have t: "unat t < unat e" "unat e \<le> unat t + 604800"
  proof -
    have r: "unat t mod 86400 < 86400" by simp
    have "n < (v + 7) * 86400 \<and> (v + 7) * 86400 \<le> n + 604800" if "v \<le> q" "q < v + 7" "i < 86400" "q * 86400 + i = n"
      for v q i n :: nat using that by simp
    from this [OF w(1,2) r div_mult_mod_eq] show "unat t < unat e" "unat e \<le> unat t + 604800"
      unfolding e(2) by simp_all
  qed
  have same: "getQualStartDate sd u = getQualStartDate sd t \<and> getQualWeekEndTs sd (uLocalTime u) = e" if u: "t \<le> u" "u < e" for u
  proof -
    have "?D \<le> unat u div 86400" using u(1) by (simp add: word_le_nat_alt div_le_mono)
    moreover have "unat u div 86400 < w + 7" using u(2) by (simp add: word_less_nat_alt e(2) less_mult_imp_div_less)
    ultimately have u8: "8 \<le> unat u div 86400" and wu: "week_start sd (unat u div 86400) = w"
      using week_start_same [of ?D sd "unat u div 86400"] D w by (simp_all add: w_def)
    have "getQualStartDate sd u = date_str (uLocalTime s)" by (rule getQualStartDate_day [OF u8 s0]) (simp add: s wu)
    then show ?thesis using getQualWeekEndTs_day [OF u8, of sd] fit by (simp add: wu start e(1))
  qed
  have e0: "e \<noteq> 0" using t by auto
  have De: "unat e div 86400 = w + 7" by (simp add: e(2))
  have "week_start sd (w + 7) = w + 7"
  proof -
    have "(w + 11 - (if 6 < sd then 0 else sd)) mod 7 = 0" using week_start_cases [of ?D sd] D by (simp add: w_def)
    moreover have "w + 7 + 11 - (if 6 < sd then 0 else sd) = (w + 11 - (if 6 < sd then 0 else sd)) + 7" by simp
    ultimately show ?thesis by (simp add: week_start_def mod_add_self2 del: add_diff_assoc2)
  qed
  then have "getQualStartDate sd e = date_str (uLocalTime e)"
    using w(3) by (intro getQualStartDate_day e0) (simp_all add: De)
  moreover have "parseDateKey8 (date_str (uLocalTime e)) \<noteq> parseDateKey8 (date_str (uLocalTime s))"
    using e0 s0 by (simp add: date_key_of_str date_key_day day_key_inj De s)
  ultimately have "getQualStartDate sd e \<noteq> getQualStartDate sd t" by (auto simp: start)
  then show ?thesis using t same by (simp add: e_def [symmetric] Let_def)
qed

theorem quality_weeks_follow_witness:
  "unat (1700000000 :: u32) < unat (getQualWeekEndTs 1 (uLocalTime 1700000000)) \<and>
    getQualStartDate 1 (getQualWeekEndTs 1 (uLocalTime 1700000000)) \<noteq> getQualStartDate 1 1700000000"
  using quality_weeks_follow [of 1700000000 1] by (simp add: Let_def)

subsection \<open>What the report does not see\<close>

text \<open>
  The float that \<open>memcpy\<close> makes of two harmonic values is far below every limit as long as the
  upper one is below 161 percent (in units of a hundredth of a percent).
\<close>

lemma f32_small:
  assumes "unat w < 0x3F000000"
  shows "0 \<le> f32 w" "f32 w \<le> 1 / 2"
proof -
  have "bit w 31 \<longleftrightarrow> bit (unat w) 31" by (simp add: bit_unsigned_iff)
  moreover have "unat w div 2 ^ 31 = 0" using assms by simp
  ultimately have b31: "\<not> bit w 31" by (simp only: bit_iff_odd) simp
  define e where "e = unat (drop_bit 23 w AND 0xFF)"
  define m where "m = unat (w AND 0x7FFFFF)"
  have "drop_bit 23 w AND 0xFF = take_bit 8 (drop_bit 23 w)" "w AND 0x7FFFFF = take_bit 23 w"
    by (simp_all only: take_bit_eq_mask mask_eq_exp_minus_1) simp_all
  then have em: "e = take_bit 8 (unat w div 2 ^ 23)" "m = take_bit 23 (unat w)"
    by (simp_all only: e_def m_def unsigned_take_bit_eq unat_drop_bit_eq) (simp_all add: drop_bit_eq_div)
  have "unat w div 2 ^ 23 < 126" using assms by (simp add: less_mult_imp_div_less)
  then have e: "e \<le> 125" unfolding em(1) using take_bit_nat_less_eq_self [of 8 "unat w div 2 ^ 23"] by linarith
  have "m < 2 ^ 23" unfolding em(2) by (rule take_bit_nat_less_exp)
  then have m: "(of_nat m :: rat) < 2 ^ 23" by (metis of_nat_less_iff of_nat_numeral of_nat_power)
  have f: "f32 w = (if e = 0 then of_nat m / 2 ^ 149 else (1 + of_nat m / 2 ^ 23) * 2 ^ e / 2 ^ 127)"
    using b31 by (simp add: f32_def Let_def e_def m_def)
  show "0 \<le> f32 w" unfolding f by simp
  have "(1 + of_nat m / 2 ^ 23) * (2 :: rat) ^ e \<le> 2 * 2 ^ 125"
    using m e by (intro mult_mono power_increasing) simp_all
  moreover have "(of_nat m :: rat) \<le> 2 ^ 148" using m by (rule less_imp_le [OF less_le_trans]) simp
  ultimately show "f32 w \<le> 1 / 2" unfolding f by (simp add: mult.commute)
qed

lemma copied_harmonic:
  assumes "unat (hi :: u16) < 0x3F00"
  shows "unat (push_bit 16 (ucast hi) OR ucast (lo :: u16) :: u32) < 0x3F000000"
proof -
  have "push_bit 16 (ucast hi :: u32) AND ucast lo = 0"
    by (rule bit_word_eqI) (auto simp: bit_simps dest: bit_imp_le_length)
  then have "push_bit 16 (ucast hi :: u32) OR ucast lo = push_bit 16 (ucast hi) + ucast lo" by (simp add: disjunctive_add_eq_or)
  also have "\<dots> = of_nat (unat hi * 65536 + unat lo)" by (simp add: push_bit_eq_mult)
  finally have eq: "(push_bit 16 (ucast hi) OR ucast lo :: u32) = of_nat (unat hi * 65536 + unat lo)" .
  have b: "unat hi * 65536 + unat lo < 0x3F000000" using assms u16_less_65536 [of lo] by linarith
  then have "unat (of_nat (unat hi * 65536 + unat lo) :: u32) = unat hi * 65536 + unat lo"
    by (simp only: unat_of_nat) simp
  then show ?thesis unfolding eq using b by simp
qed

lemma first_violation_none:
  "list_all (\<lambda>x. 0 \<le> x \<and> x \<le> 1 / 2) xs \<Longrightarrow> list_all (\<lambda>l. 1 / 2 \<le> l) ls \<Longrightarrow> first_violation xs ls n v = v"
  by (induction xs ls n v rule: first_violation.induct) (auto simp: QualVarUpdate_def)

text \<open>
  The test of the single harmonics can never fail: it sees floats that \<open>memcpy\<close> put together from
  pairs of 16-bit percentages, which stay below the lowest limit as long as no harmonic reaches
  161 percent.
\<close>

theorem harmonics_never_violate:
  assumes "length uhd = 72" "length upphd = 72" "\<forall>w \<in> set (uhd @ upphd). unat w < 0x3F00" "length (va_VoltHd v) = 3"
    and "qa_Uhd a = copy_harmonics uhd upphd"
  shows "va_VoltHd (ten_minute_tests x a n v) = va_VoltHd v"
proof -
  have "unat (copy_harmonics uhd upphd ! k) < 0x3F000000" if "k < 72" for k
  proof -
    have "(uhd @ upphd) ! (2 * k + 1) \<in> set (uhd @ upphd)" using that assms(1,2) by (intro nth_mem) simp
    then show ?thesis using that copied_harmonic assms(3) by (simp add: copy_harmonics_def Let_def)
  qed
  then have "\<forall>w \<in> set (copy_harmonics uhd upphd). 0 \<le> f32 w \<and> f32 w \<le> 1 / 2"
    using f32_small by (auto simp: in_set_conv_nth copy_harmonics_def Let_def)
  then have "list_all (\<lambda>x. 0 \<le> x \<and> x \<le> 1 / 2) (map f32 (take 24 (drop i (qa_Uhd a))))" for i
    unfolding assms(5) list_all_iff by (auto dest!: in_set_takeD in_set_dropD)
  moreover have "list_all (\<lambda>l. 1 / 2 \<le> l) harmLimit" by (simp add: harmLimit_def)
  ultimately have "first_violation (map f32 (take 24 (drop (24 * i) (qa_Uhd a)))) harmLimit n w = w" for i w
    by (intro first_violation_none)
  moreover have "map (\<lambda>i. va_VoltHd v ! i) [0..<3] = va_VoltHd v" using map_nth [of "va_VoltHd v"] assms(4) by simp
  ultimately show ?thesis by (simp add: ten_minute_tests_def Let_def)
qed

subsection \<open>Compliance\<close>

text \<open>What the compliance word says: bit by bit, whether the share of values outside their limits was too high.\<close>

definition judged :: "nat \<Rightarrow> (nat \<Rightarrow> bool) \<Rightarrow> nat \<times> u32 \<Rightarrow> bool" where
  "judged p B mc \<longleftrightarrow> fst mc = p \<and> (\<forall>k. bit (snd mc) k \<longleftrightarrow> B k)"

lemma judged1: "judged p B mc \<Longrightarrow> p < 32 \<Longrightarrow> judged (p + 1) (\<lambda>k. B k \<or> k = p \<and> 1 - qv_var v < l) (QualVarCompliance1 v l mc)"
  by (cases mc) (auto simp: judged_def QualVarCompliance1_def bit_simps)

lemma judged3:
  assumes "judged p B mc" "p < 30"
  shows "judged (p + 3) (\<lambda>k. B k \<or> p \<le> k \<and> k < p + 3 \<and> 1 - qv_var (vs ! 0) < l) (QualVarCompliance3 vs l mc)"
proof -
  let ?c = "QualVarCompliance1 (vs ! 0) l"
  have "judged (p + 1 + 1 + 1) (\<lambda>k. ((B k \<or> k = p \<and> 1 - qv_var (vs ! 0) < l) \<or> k = p + 1 \<and> 1 - qv_var (vs ! 0) < l) \<or>
      k = p + 1 + 1 \<and> 1 - qv_var (vs ! 0) < l) (?c (?c (?c mc)))"
    using assms(2) by (intro judged1 assms(1)) simp_all
  moreover have "QualVarCompliance3 vs l mc = ?c (?c (?c mc))" by (simp add: QualVarCompliance3_def numeral_3_eq_3)
  moreover have "((B k \<or> k = p \<and> L) \<or> k = p + 1 \<and> L) \<or> k = p + 1 + 1 \<and> L \<longleftrightarrow> B k \<or> p \<le> k \<and> k < p + 3 \<and> L" for k L
    by (cases L) auto
  ultimately show ?thesis by (simp only: judged_def) simp
qed

text \<open>The compliance word of a week means what it should for frequency and unbalance, and for the
  quantities of three phases it repeats the verdict on the first phase three times: phases two and
  three are never judged.\<close>

theorem compliance_judges_first_phase:
  "bit (week_compliance v) k \<longleftrightarrow>
    (let late = (\<lambda>q l. 1 - qv_var q < l)
     in if k = 0 then late (va_Freq1 v) (995 / 1000) else if k = 1 then late (va_Freq2 v) 1
        else if k < 5 then late (va_Volt1 v ! 0) (95 / 100) else if k < 8 then late (va_Volt2 v ! 0) 1
        else if k = 8 then late (va_Voltbal v) 1 else if k < 12 then late (va_VoltThd v ! 0) (95 / 100)
        else if k < 15 then late (va_VoltHd v ! 0) (95 / 100) else if k < 18 then late (va_Pst v ! 0) (95 / 100)
        else if k < 21 then late (va_Plt v ! 0) (95 / 100) else if k < 24 then late (va_Svolt v ! 0) (95 / 100) else False)"
proof -
  let ?late = "\<lambda>q l. 1 - qv_var q < l"
  have "judged 0 (\<lambda>k. False) (0, 0)" by (simp add: judged_def)
  note r = this [THEN judged1 [where v = "va_Freq1 v" and l = "995 / 1000"], THEN judged1 [where v = "va_Freq2 v" and l = 1],
      THEN judged3 [where vs = "va_Volt1 v" and l = "95 / 100"], THEN judged3 [where vs = "va_Volt2 v" and l = 1],
      THEN judged1 [where v = "va_Voltbal v" and l = 1], THEN judged3 [where vs = "va_VoltThd v" and l = "95 / 100"],
      THEN judged3 [where vs = "va_VoltHd v" and l = "95 / 100"], THEN judged3 [where vs = "va_Pst v" and l = "95 / 100"],
      THEN judged3 [where vs = "va_Plt v" and l = "95 / 100"], THEN judged3 [where vs = "va_Svolt v" and l = "95 / 100"]]
  have j: "bit (week_compliance v) k \<longleftrightarrow> k = 0 \<and> ?late (va_Freq1 v) (995 / 1000) \<or> k = 1 \<and> ?late (va_Freq2 v) 1 \<or>
      2 \<le> k \<and> k < 5 \<and> ?late (va_Volt1 v ! 0) (95 / 100) \<or> 5 \<le> k \<and> k < 8 \<and> ?late (va_Volt2 v ! 0) 1 \<or>
      k = 8 \<and> ?late (va_Voltbal v) 1 \<or> 9 \<le> k \<and> k < 12 \<and> ?late (va_VoltThd v ! 0) (95 / 100) \<or>
      12 \<le> k \<and> k < 15 \<and> ?late (va_VoltHd v ! 0) (95 / 100) \<or> 15 \<le> k \<and> k < 18 \<and> ?late (va_Pst v ! 0) (95 / 100) \<or>
      18 \<le> k \<and> k < 21 \<and> ?late (va_Plt v ! 0) (95 / 100) \<or> 21 \<le> k \<and> k < 24 \<and> ?late (va_Svolt v ! 0) (95 / 100)"
    using r by (simp add: judged_def week_compliance_def numeral_2_eq_2)
  show ?thesis
  proof (cases "k < 24")
    case True
    then have "k \<in> set [0..<24]" by simp
    then show ?thesis unfolding j Let_def by auto
  qed (simp add: j Let_def)
qed

subsection \<open>Shapes\<close>

text \<open>Every array has the size of its declaration and the number of ten-second values fits theirs.\<close>

definition var_ok :: "qual_var \<Rightarrow> bool" where
  "var_ok v \<longleftrightarrow>
     list_all (\<lambda>xs. length xs = 4) [va_sag v, va_swell v, va_shortIntr v, va_longIntr v, va_rvc v] \<and>
     list_all (\<lambda>xs. length xs = 3) [va_Volt1 v, va_Volt2 v, va_VoltThd v, va_VoltHd v, va_Pst v, va_Plt v, va_Svolt v]"

definition sum_ok :: "qual_sum \<Rightarrow> bool" where
  "sum_ok s \<longleftrightarrow> length (qs_U s) = 3 \<and> length (qs_I s) = 3 \<and> length (qs_Ubal s) = 2 \<and> length (qs_Ibal s) = 2 \<and>
     length (qs_P s) = 2 \<and> length (qs_Q s) = 2"

definition avg_ok :: "qual_avg \<Rightarrow> bool" where
  "avg_ok a \<longleftrightarrow> length (qa_ts10 a) = 60 \<and> length (qa_Freq a) = 60 \<and> length (qa_U a) = 3 \<and> length (qa_Uthd a) = 3 \<and>
     length (qa_Ubal a) = 2 \<and> length (qa_Uhd a) = 72 \<and> qa_count10s a \<le> 60"

definition q10m_ok :: "q10m \<Rightarrow> bool" where
  "q10m_ok q \<longleftrightarrow> sum_ok (q_sum q) \<and> avg_ok (q_avg q) \<and> var_ok (q_var q)"

definition job_ok :: "pq_job \<Rightarrow> bool" where
  "job_ok j \<longleftrightarrow> avg_ok (pj_avg j) \<and> week_ok (pj_week j) \<and> week_ok (pj_newQw j) \<and> length (pj_ev j) \<le> 1024"

definition qual_ok :: "qual_state \<Rightarrow> bool" where
  "qual_ok s \<longleftrightarrow> (\<forall>k. q10m_ok (ql_q s k)) \<and> week_ok (ql_week s) \<and> job_ok (ql_job s)"

lemma week_ok_var: "week_ok w \<longleftrightarrow> var_ok (qw_var w)"
  by (simp add: week_ok_def var_ok_def Let_def)

lemma sum_second_ok: "sum_ok s \<Longrightarrow> sum_ok (sum_second x s)"
  by (simp add: sum_ok_def sum_second_def add_lists_def)

lemma ten_seconds_ok: "q10m_ok q \<Longrightarrow> length (qi_Uthd x) = 3 \<Longrightarrow> q10m_ok (ten_seconds x q)"
  by (auto simp: q10m_ok_def ten_seconds_def Let_def sum_ok_def avg_ok_def var_ok_def copy_harmonics_def)

lemma one_second_ok:
  assumes "q10m_ok q" "length (qi_Uthd x) = 3"
  shows "q10m_ok (one_second x q)"
proof -
  let ?q = "q\<lparr>q_count10m := q_count10m q + 1, q_count10s := q_count10s q + 1,
                 q_sum := (q_sum q)\<lparr>qs_freq := qs_freq (q_sum q) + qi_Freq x\<rparr>\<rparr>"
  have "q10m_ok ?q" using assms(1) by (simp add: q10m_ok_def sum_ok_def)
  then have t: "q10m_ok (ten_seconds x ?q)" using assms(2) by (rule ten_seconds_ok)
  then have "sum_ok (sum_second x (q_sum (ten_seconds x ?q)))" by (simp add: q10m_ok_def sum_second_ok)
  then show ?thesis using t
    by (simp add: one_second_def Let_def running_average_def q10m_ok_def avg_ok_def sum_ok_def)
qed

lemma ten_minute_tests_ok: "var_ok v \<Longrightarrow> var_ok (ten_minute_tests x a n v)"
  by (simp add: var_ok_def ten_minute_tests_def Let_def)

lemma fresh_window_ok: "q10m_ok (fresh_window x q)"
  by (simp add: q10m_ok_def fresh_window_def qual_sum0_def sum_ok_def qual_avg0_def avg_ok_def qual_var0_def var_ok_def)

lemma queue_job_ok:
  assumes "queue_job a s = Some s'" "week_ok (ql_week s)" "job_ok (ql_job s)" "avg_ok a"
  shows "week_ok (ql_week s') \<and> job_ok (ql_job s') \<and> ql_q s' = ql_q s"
  using assms
  by (auto simp: queue_job_def pqQueueJob_def Let_def week_ok_var job_ok_def split: if_splits option.splits)

lemma same_week_ok:
  assumes "week_ok (ql_week s)" "job_ok (ql_job s)" "avg_ok (q_avg q)"
  shows "week_ok (ql_week (same_week now q s)) \<and> job_ok (ql_job (same_week now q s)) \<and> ql_q (same_week now q s) = ql_q s"
proof -
  define s1 where "s1 = s\<lparr>ql_week := updateQualWeek now (qa_count10s (q_avg q)) (q_var q) (ql_week s)\<rparr>"
  have s1: "week_ok (ql_week s1)" "job_ok (ql_job s1)" "ql_q s1 = ql_q s" using assms week_ok_update by (simp_all add: s1_def)
  show ?thesis
  proof (cases "queue_job (q_avg q) s1")
    case None
    then show ?thesis using s1 by (simp add: same_week_def Let_def s1_def [symmetric])
  next
    case (Some s')
    then show ?thesis using queue_job_ok [OF Some s1(1,2) assms(3)] s1(3)
      by (simp add: same_week_def Let_def s1_def [symmetric] pqCommitJob_def job_ok_def)
  qed
qed

lemma new_week_ok:
  assumes "week_ok (ql_week s)" "job_ok (ql_job s)" "avg_ok (q_avg q)"
  shows "week_ok (ql_week (new_week sd now tod q s)) \<and> job_ok (ql_job (new_week sd now tod q s)) \<and>
    ql_q (new_week sd now tod q s) = ql_q s"
proof -
  define w where "w = updateQualWeek now (qa_count10s (q_avg q)) (q_var q) (ql_week s)"
  define s2 where "s2 = s\<lparr>ql_week := w, ql_rpt := (ql_rpt s)(0 := (fst (ql_rpt s 0), updateQualReport w))\<rparr>"
  have s2: "week_ok (ql_week s2)" "job_ok (ql_job s2)" "ql_q s2 = ql_q s"
    using assms week_ok_update by (simp_all add: s2_def w_def)
  have w0: "week_ok (qual_week0\<lparr>qw_startTs := a, qw_endTs := b\<rparr>)" for a b using week_ok_0 by (simp add: week_ok_var)
  show ?thesis
  proof (cases "queue_job (q_avg q) s2")
    case None
    then show ?thesis using s2 w0 by (simp add: new_week_def Let_def w_def [symmetric] s2_def [symmetric])
  next
    case (Some s')
    then show ?thesis using queue_job_ok [OF Some s2(1,2) assms(3)] s2(3) w0
      by (simp add: new_week_def Let_def w_def [symmetric] s2_def [symmetric] pqCommitJob_def job_ok_def)
  qed
qed

text \<open>The statistics never leave their arrays: whatever is measured and however the clock jumps,
  after any number of seconds on any meters every array has its declared size, at most sixty
  ten-second values are kept, and the record, the report and the events of the job have the sizes
  that the files expect.\<close>

theorem quality_state_well_formed:
  assumes "qual_ok s" "\<forall>(k, active, sd, tx) \<in> set ts. length (qi_Uthd (snd tx)) = 3"
  shows "qual_ok (fold (\<lambda>(k, active, sd, tx). tick_of k active sd tx) ts s)"
proof -
  have step: "qual_ok (updateQualData active sd tod k x s)" if s: "qual_ok s" and x: "length (qi_Uthd x) = 3" for active sd tod k x s
  proof -
    define q where "q = one_second x (ql_q s k)"
    have q: "q10m_ok q" unfolding q_def using s x by (intro one_second_ok) (simp_all add: qual_ok_def)
    define q1 where "q1 = (q\<lparr>q_tsChanged := False, q_avg := (q_avg q)\<lparr>qa_endTs := qi_sysTick1s x\<rparr>\<rparr>)"
    define q2 where "q2 = q1\<lparr>q_var := ten_minute_tests x (q_avg q1) (q_count10m q1) (q_var q1)\<rparr>"
    have a: "avg_ok (q_avg q2)" using q by (simp add: q2_def q1_def q10m_ok_def avg_ok_def)
    define s1 where "s1 = (if \<not> active then s else if k \<noteq> 0 then s\<lparr>ql_rpt := (ql_rpt s)(k := ql_rpt s 0)\<rparr>
        else if qw_startTs (ql_week s) \<le> qi_sysTick1s x \<and> qi_sysTick1s x < qw_endTs (ql_week s)
             then same_week (qi_sysTick1s x) q2 s else new_week sd (qi_sysTick1s x) tod q2 s)"
    have s1: "week_ok (ql_week s1) \<and> job_ok (ql_job s1) \<and> ql_q s1 = ql_q s"
      using same_week_ok [OF _ _ a, of s] new_week_ok [OF _ _ a, of s] s by (simp add: s1_def qual_ok_def)
    have "updateQualData active sd tod k x s =
        (if \<not> ten_minutes_over x q then s\<lparr>ql_q := (ql_q s)(k := q)\<rparr> else s1\<lparr>ql_q := (ql_q s1)(k := fresh_window x q2)\<rparr>)"
      unfolding updateQualData_def Let_def s1_def q2_def q1_def q_def ..
    then show ?thesis using s q s1 fresh_window_ok by (simp add: qual_ok_def)
  qed
  show ?thesis using assms
    by (induction ts arbitrary: s) (auto simp: tick_of_def step)
qed

theorem quality_state_well_formed_witness:
  "qual_ok (fold (\<lambda>(k, active, sd, tx). tick_of k active sd tx)
     [(0, True, 1, uLocalTime 6599, demo_sample 6599 220), (1, False, 1, uLocalTime 6600, demo_sample 6600 221)] demo_qual)"
proof (rule quality_state_well_formed)
  show "qual_ok demo_qual"
    by (simp add: qual_ok_def demo_qual_def q10m_ok_def sum_ok_def qual_sum0_def avg_ok_def qual_avg0_def var_ok_def qual_var0_def
        week_ok_def qual_week0_def job_ok_def Let_def)
qed (simp add: demo_sample_def)
end
