(* ===== verification/Settings.thy ===== *)
theory Settings
  imports Retention
begin

text \<open>
  The settings of the device (\<open>meter.c\<close>): the structure \<open>SETTINGS\<close> with its communication block,
  the transformer and current-transformer definitions of the nine feeders, the display and the
  inputs; its defaults, its normalisation, its file, and what the meter channels derive from it.
  The sections of the communication block, which the source marks by comments, are records of
  their own. The settings of events, transients, recorder and trends of each channel, which are
  kept in a second file, follow in the same way.
\<close>

section \<open>Images in memory\<close>

text \<open>
  A structure of the target is the concatenation of the images of its members, which have fixed
  sizes; \<open>split_at\<close> cuts an image at those sizes.
\<close>

fun split_at :: "nat list \<Rightarrow> bytes \<Rightarrow> bytes list" where
  "split_at [] bs = []"
| "split_at (n # ns) bs = take n bs # split_at ns (drop n bs)"

lemma split_at_concat: "map length cs = ns \<Longrightarrow> split_at ns (concat cs @ bs) = cs"
  by (induction cs arbitrary: ns) auto

lemma split_at_chunks: "map length cs = ns \<Longrightarrow> split_at ns (concat cs) = cs"
  using split_at_concat [of cs ns "[]"] by simp

lemma concat_split_at: "length bs = sum_list ns \<Longrightarrow> concat (split_at ns bs) = bs"
  by (induction ns bs rule: split_at.induct) auto

lemma length_split_at: "sum_list ns \<le> length bs \<Longrightarrow> map length (split_at ns bs) = ns"
  by (induction ns bs rule: split_at.induct) auto

lemma le_words_exact [simp]:
  "LENGTH('a) = 8 * n \<Longrightarrow> length ws = k \<Longrightarrow> le_words n k (le_array n (ws :: 'a::len word list)) = ws"
  using le_words_array [of n ws k "[]"] by simp

lemma length_le_words [simp]: "length (le_words n k bs) = k"
  by (induction k arbitrary: bs) simp_all

section \<open>The structures\<close>

subsection \<open>Communication\<close>

record eth_cfg =
  et_dhcpEn :: u16
  et_ip :: "u16 list"
  et_host :: bytes
  et_r :: "u16 list"

abbreviation ETH_CFG_LAYOUT :: "nat list" where
  "ETH_CFG_LAYOUT \<equiv> [2, 32, 32, 14]"

definition eth_cfg_chunks :: "eth_cfg \<Rightarrow> bytes list" where
  "eth_cfg_chunks e =
    [le_bytes 2 (et_dhcpEn e), le_array 2 (et_ip e), et_host e, le_array 2 (et_r e)]"

definition eth_cfg_parse :: "bytes \<Rightarrow> eth_cfg" where
  "eth_cfg_parse bs = (let f = split_at ETH_CFG_LAYOUT bs in
    \<lparr>et_dhcpEn = le_word (f ! 0), et_ip = le_words 2 16 (f ! 1), et_host = f ! 2,
     et_r = le_words 2 7 (f ! 3)\<rparr>)"

definition eth_cfg_shape :: "eth_cfg \<Rightarrow> bool" where
  "eth_cfg_shape e \<longleftrightarrow>
     length (et_ip e) = 16 \<and> length (et_host e) = 32 \<and> length (et_r e) = 7"

record mbus_cfg =
  bu_mbTcpEn :: u16
  bu_tcpPort :: u16
  bu_devId :: u16
  bu_r :: "u16 list"
  bu_layoutVer :: u16

abbreviation MBUS_CFG_LAYOUT :: "nat list" where
  "MBUS_CFG_LAYOUT \<equiv> [2, 2, 2, 12, 2]"

definition mbus_cfg_chunks :: "mbus_cfg \<Rightarrow> bytes list" where
  "mbus_cfg_chunks b =
    [le_bytes 2 (bu_mbTcpEn b), le_bytes 2 (bu_tcpPort b), le_bytes 2 (bu_devId b),
     le_array 2 (bu_r b), le_bytes 2 (bu_layoutVer b)]"

definition mbus_cfg_parse :: "bytes \<Rightarrow> mbus_cfg" where
  "mbus_cfg_parse bs = (let f = split_at MBUS_CFG_LAYOUT bs in
    \<lparr>bu_mbTcpEn = le_word (f ! 0), bu_tcpPort = le_word (f ! 1), bu_devId = le_word (f ! 2),
     bu_r = le_words 2 6 (f ! 3), bu_layoutVer = le_word (f ! 4)\<rparr>)"

definition mbus_cfg_shape :: "mbus_cfg \<Rightarrow> bool" where
  "mbus_cfg_shape b \<longleftrightarrow>
     length (bu_r b) = 6"

record mqtt_cfg =
  mq_En :: u16
  mq_Port :: u16
  mq_Interval :: u16
  mq_Qos :: u16
  mq_Retain :: u16
  mq_KeepAlive :: u16
  mq_Tls :: u16
  mq_Format :: u16
  mq_Host :: bytes
  mq_ClientId :: bytes
  mq_User :: bytes
  mq_Pass :: bytes
  mq_Topic :: bytes
  mq_r :: "u16 list"

abbreviation MQTT_CFG_LAYOUT :: "nat list" where
  "MQTT_CFG_LAYOUT \<equiv> [2, 2, 2, 2, 2, 2, 2, 2, 64, 32, 32, 32, 64, 20]"

definition mqtt_cfg_chunks :: "mqtt_cfg \<Rightarrow> bytes list" where
  "mqtt_cfg_chunks q =
    [le_bytes 2 (mq_En q), le_bytes 2 (mq_Port q), le_bytes 2 (mq_Interval q),
     le_bytes 2 (mq_Qos q), le_bytes 2 (mq_Retain q), le_bytes 2 (mq_KeepAlive q),
     le_bytes 2 (mq_Tls q), le_bytes 2 (mq_Format q), mq_Host q, mq_ClientId q, mq_User q,
     mq_Pass q, mq_Topic q, le_array 2 (mq_r q)]"

definition mqtt_cfg_parse :: "bytes \<Rightarrow> mqtt_cfg" where
  "mqtt_cfg_parse bs = (let f = split_at MQTT_CFG_LAYOUT bs in
    \<lparr>mq_En = le_word (f ! 0), mq_Port = le_word (f ! 1), mq_Interval = le_word (f ! 2),
     mq_Qos = le_word (f ! 3), mq_Retain = le_word (f ! 4), mq_KeepAlive = le_word (f ! 5),
     mq_Tls = le_word (f ! 6), mq_Format = le_word (f ! 7), mq_Host = f ! 8, mq_ClientId = f ! 9,
     mq_User = f ! 10, mq_Pass = f ! 11, mq_Topic = f ! 12, mq_r = le_words 2 10 (f ! 13)\<rparr>)"

definition mqtt_cfg_shape :: "mqtt_cfg \<Rightarrow> bool" where
  "mqtt_cfg_shape q \<longleftrightarrow>
     length (mq_Host q) = 64 \<and> length (mq_ClientId q) = 32 \<and>
     length (mq_User q) = 32 \<and> length (mq_Pass q) = 32 \<and> length (mq_Topic q) = 64 \<and>
     length (mq_r q) = 10"

record snmp_cfg =
  sn_En :: u16
  sn_Ver :: u16
  sn_trapEn :: u16
  sn_trap_ip :: "u16 list"
  sn_r0 :: "u16 list"
  sn_Community :: bytes
  sn_Contact :: bytes
  sn_Location :: bytes
  sn_V3User :: bytes
  sn_V3AuthPass :: bytes
  sn_V3PrivPass :: bytes
  sn_r1 :: "u16 list"

abbreviation SNMP_CFG_LAYOUT :: "nat list" where
  "SNMP_CFG_LAYOUT \<equiv> [2, 2, 2, 8, 6, 32, 32, 32, 32, 32, 32, 8]"

definition snmp_cfg_chunks :: "snmp_cfg \<Rightarrow> bytes list" where
  "snmp_cfg_chunks n =
    [le_bytes 2 (sn_En n), le_bytes 2 (sn_Ver n), le_bytes 2 (sn_trapEn n),
     le_array 2 (sn_trap_ip n), le_array 2 (sn_r0 n), sn_Community n, sn_Contact n, sn_Location n,
     sn_V3User n, sn_V3AuthPass n, sn_V3PrivPass n, le_array 2 (sn_r1 n)]"

definition snmp_cfg_parse :: "bytes \<Rightarrow> snmp_cfg" where
  "snmp_cfg_parse bs = (let f = split_at SNMP_CFG_LAYOUT bs in
    \<lparr>sn_En = le_word (f ! 0), sn_Ver = le_word (f ! 1), sn_trapEn = le_word (f ! 2),
     sn_trap_ip = le_words 2 4 (f ! 3), sn_r0 = le_words 2 3 (f ! 4), sn_Community = f ! 5,
     sn_Contact = f ! 6, sn_Location = f ! 7, sn_V3User = f ! 8, sn_V3AuthPass = f ! 9,
     sn_V3PrivPass = f ! 10, sn_r1 = le_words 2 4 (f ! 11)\<rparr>)"

definition snmp_cfg_shape :: "snmp_cfg \<Rightarrow> bool" where
  "snmp_cfg_shape n \<longleftrightarrow>
     length (sn_trap_ip n) = 4 \<and> length (sn_r0 n) = 3 \<and>
     length (sn_Community n) = 32 \<and> length (sn_Contact n) = 32 \<and>
     length (sn_Location n) = 32 \<and> length (sn_V3User n) = 32 \<and>
     length (sn_V3AuthPass n) = 32 \<and> length (sn_V3PrivPass n) = 32 \<and> length (sn_r1 n) = 4"

record sntp_cfg =
  sp_useSntp :: u16
  sp_Interval :: u16
  sp_timezone :: u16
  sp_Server :: bytes
  sp_r :: u16

abbreviation SNTP_CFG_LAYOUT :: "nat list" where
  "SNTP_CFG_LAYOUT \<equiv> [2, 2, 2, 32, 2]"

definition sntp_cfg_chunks :: "sntp_cfg \<Rightarrow> bytes list" where
  "sntp_cfg_chunks t =
    [le_bytes 2 (sp_useSntp t), le_bytes 2 (sp_Interval t), le_bytes 2 (sp_timezone t),
     sp_Server t, le_bytes 2 (sp_r t)]"

definition sntp_cfg_parse :: "bytes \<Rightarrow> sntp_cfg" where
  "sntp_cfg_parse bs = (let f = split_at SNTP_CFG_LAYOUT bs in
    \<lparr>sp_useSntp = le_word (f ! 0), sp_Interval = le_word (f ! 1), sp_timezone = le_word (f ! 2),
     sp_Server = f ! 3, sp_r = le_word (f ! 4)\<rparr>)"

definition sntp_cfg_shape :: "sntp_cfg \<Rightarrow> bool" where
  "sntp_cfg_shape t \<longleftrightarrow>
     length (sp_Server t) = 32"

record comm_cfg =
  co_eth :: eth_cfg
  co_mb :: mbus_cfg
  co_mqtt :: mqtt_cfg
  co_snmp :: snmp_cfg
  co_sntp :: sntp_cfg
  co_rsv :: "u16 list"

abbreviation COMM_LAYOUT :: "nat list" where
  "COMM_LAYOUT \<equiv> [80, 20, 260, 220, 40, 200]"

definition comm_chunks :: "comm_cfg \<Rightarrow> bytes list" where
  "comm_chunks c =
    [concat (eth_cfg_chunks (co_eth c)), concat (mbus_cfg_chunks (co_mb c)),
     concat (mqtt_cfg_chunks (co_mqtt c)), concat (snmp_cfg_chunks (co_snmp c)),
     concat (sntp_cfg_chunks (co_sntp c)), le_array 2 (co_rsv c)]"

definition comm_parse :: "bytes \<Rightarrow> comm_cfg" where
  "comm_parse bs = (let f = split_at COMM_LAYOUT bs in
    \<lparr>co_eth = eth_cfg_parse (f ! 0), co_mb = mbus_cfg_parse (f ! 1), co_mqtt = mqtt_cfg_parse (f ! 2),
     co_snmp = snmp_cfg_parse (f ! 3), co_sntp = sntp_cfg_parse (f ! 4),
     co_rsv = le_words 2 100 (f ! 5)\<rparr>)"

definition comm_shape :: "comm_cfg \<Rightarrow> bool" where
  "comm_shape c \<longleftrightarrow> eth_cfg_shape (co_eth c) \<and> mbus_cfg_shape (co_mb c) \<and> mqtt_cfg_shape (co_mqtt c) \<and>
     snmp_cfg_shape (co_snmp c) \<and> sntp_cfg_shape (co_sntp c) \<and> length (co_rsv c) = 100"

subsection \<open>Feeders, display, inputs\<close>

record pt_def =
  pt_wiring :: u16
  pt_r0 :: u16
  pt_vnorm :: u32
  pt_PT1 :: u32
  pt_PT2 :: u16
  pt_r1 :: u16

abbreviation PT_DEF_LAYOUT :: "nat list" where
  "PT_DEF_LAYOUT \<equiv> [2, 2, 4, 4, 2, 2]"

definition pt_def_chunks :: "pt_def \<Rightarrow> bytes list" where
  "pt_def_chunks p =
    [le_bytes 2 (pt_wiring p), le_bytes 2 (pt_r0 p), le_bytes 4 (pt_vnorm p),
     le_bytes 4 (pt_PT1 p), le_bytes 2 (pt_PT2 p), le_bytes 2 (pt_r1 p)]"

definition pt_def_parse :: "bytes \<Rightarrow> pt_def" where
  "pt_def_parse bs = (let f = split_at PT_DEF_LAYOUT bs in
    \<lparr>pt_wiring = le_word (f ! 0), pt_r0 = le_word (f ! 1), pt_vnorm = le_word (f ! 2),
     pt_PT1 = le_word (f ! 3), pt_PT2 = le_word (f ! 4), pt_r1 = le_word (f ! 5)\<rparr>)"

definition pt_def_shape :: "pt_def \<Rightarrow> bool" where
  "pt_def_shape p \<longleftrightarrow>
     True"

record ct_def =
  ct_inorm :: u16
  ct_CT1 :: u16
  ct_CT2 :: u16
  ct_nTurns :: u16
  ct_I_start :: u16
  ct_dir :: "u16 list"
  ct_rogowskiParam :: u16
  ct_phaseOfs :: "u16 list"
  ct_zctType :: u16
  ct_zctScale :: u16
  ct_r2 :: "u16 list"

abbreviation CT_DEF_LAYOUT :: "nat list" where
  "CT_DEF_LAYOUT \<equiv> [2, 2, 2, 2, 2, 6, 2, 6, 2, 2, 4]"

definition ct_def_chunks :: "ct_def \<Rightarrow> bytes list" where
  "ct_def_chunks c =
    [le_bytes 2 (ct_inorm c), le_bytes 2 (ct_CT1 c), le_bytes 2 (ct_CT2 c),
     le_bytes 2 (ct_nTurns c), le_bytes 2 (ct_I_start c), le_array 2 (ct_dir c),
     le_bytes 2 (ct_rogowskiParam c), le_array 2 (ct_phaseOfs c), le_bytes 2 (ct_zctType c),
     le_bytes 2 (ct_zctScale c), le_array 2 (ct_r2 c)]"

definition ct_def_parse :: "bytes \<Rightarrow> ct_def" where
  "ct_def_parse bs = (let f = split_at CT_DEF_LAYOUT bs in
    \<lparr>ct_inorm = le_word (f ! 0), ct_CT1 = le_word (f ! 1), ct_CT2 = le_word (f ! 2),
     ct_nTurns = le_word (f ! 3), ct_I_start = le_word (f ! 4), ct_dir = le_words 2 3 (f ! 5),
     ct_rogowskiParam = le_word (f ! 6), ct_phaseOfs = le_words 2 3 (f ! 7),
     ct_zctType = le_word (f ! 8), ct_zctScale = le_word (f ! 9), ct_r2 = le_words 2 2 (f ! 10)\<rparr>)"

definition ct_def_shape :: "ct_def \<Rightarrow> bool" where
  "ct_def_shape c \<longleftrightarrow>
     length (ct_dir c) = 3 \<and> length (ct_phaseOfs c) = 3 \<and> length (ct_r2 c) = 2"

record etc_def =
  ec_VA_type :: u16
  ec_PF_sign :: u16
  ec_interval :: u16
  ec_Iload :: u16
  ec_P_target :: "u32 list"
  ec_backlightTime :: u16
  ec_brightness :: u16
  ec_autorotation :: u16
  ec_rTz :: u16
  ec_maxminItv :: u16
  ec_testMode :: u16
  ec_testMode_Period :: u16
  ec_r :: "u16 list"

abbreviation ETC_DEF_LAYOUT :: "nat list" where
  "ETC_DEF_LAYOUT \<equiv> [2, 2, 2, 2, 12, 2, 2, 2, 2, 2, 2, 2, 10]"

definition etc_def_chunks :: "etc_def \<Rightarrow> bytes list" where
  "etc_def_chunks e =
    [le_bytes 2 (ec_VA_type e), le_bytes 2 (ec_PF_sign e), le_bytes 2 (ec_interval e),
     le_bytes 2 (ec_Iload e), le_array 4 (ec_P_target e), le_bytes 2 (ec_backlightTime e),
     le_bytes 2 (ec_brightness e), le_bytes 2 (ec_autorotation e), le_bytes 2 (ec_rTz e),
     le_bytes 2 (ec_maxminItv e), le_bytes 2 (ec_testMode e), le_bytes 2 (ec_testMode_Period e),
     le_array 2 (ec_r e)]"

definition etc_def_parse :: "bytes \<Rightarrow> etc_def" where
  "etc_def_parse bs = (let f = split_at ETC_DEF_LAYOUT bs in
    \<lparr>ec_VA_type = le_word (f ! 0), ec_PF_sign = le_word (f ! 1), ec_interval = le_word (f ! 2),
     ec_Iload = le_word (f ! 3), ec_P_target = le_words 4 3 (f ! 4),
     ec_backlightTime = le_word (f ! 5), ec_brightness = le_word (f ! 6),
     ec_autorotation = le_word (f ! 7), ec_rTz = le_word (f ! 8), ec_maxminItv = le_word (f ! 9),
     ec_testMode = le_word (f ! 10), ec_testMode_Period = le_word (f ! 11),
     ec_r = le_words 2 5 (f ! 12)\<rparr>)"

definition etc_def_shape :: "etc_def \<Rightarrow> bool" where
  "etc_def_shape e \<longleftrightarrow>
     length (ec_P_target e) = 3 \<and> length (ec_r e) = 5"

record io_cfg =
  ic_modType :: u16
  ic_r0 :: u16
  ic_diType :: "u16 list"
  ic_debounce :: "u16 list"
  ic_piConst :: "u16 list"
  ic_r :: "u16 list"

abbreviation IO_CFG_LAYOUT :: "nat list" where
  "IO_CFG_LAYOUT \<equiv> [2, 2, 8, 8, 8, 28]"

definition io_cfg_chunks :: "io_cfg \<Rightarrow> bytes list" where
  "io_cfg_chunks i =
    [le_bytes 2 (ic_modType i), le_bytes 2 (ic_r0 i), le_array 2 (ic_diType i),
     le_array 2 (ic_debounce i), le_array 2 (ic_piConst i), le_array 2 (ic_r i)]"

definition io_cfg_parse :: "bytes \<Rightarrow> io_cfg" where
  "io_cfg_parse bs = (let f = split_at IO_CFG_LAYOUT bs in
    \<lparr>ic_modType = le_word (f ! 0), ic_r0 = le_word (f ! 1), ic_diType = le_words 2 4 (f ! 2),
     ic_debounce = le_words 2 4 (f ! 3), ic_piConst = le_words 2 4 (f ! 4),
     ic_r = le_words 2 14 (f ! 5)\<rparr>)"

definition io_cfg_shape :: "io_cfg \<Rightarrow> bool" where
  "io_cfg_shape i \<longleftrightarrow>
     length (ic_diType i) = 4 \<and> length (ic_debounce i) = 4 \<and>
     length (ic_piConst i) = 4 \<and> length (ic_r i) = 14"

record settings =
  se_comm :: comm_cfg
  se_freq :: u16
  se_feeder_cnt :: u16
  se_pt :: "pt_def list"
  se_ct :: "ct_def list"
  se_etc :: etc_def
  se_iom :: io_cfg

abbreviation SETTINGS_LAYOUT :: "nat list" where
  "SETTINGS_LAYOUT \<equiv> [820, 2, 2, 144, 288, 44, 56]"

definition settings_chunks :: "settings \<Rightarrow> bytes list" where
  "settings_chunks s =
    [concat (comm_chunks (se_comm s)), le_bytes 2 (se_freq s), le_bytes 2 (se_feeder_cnt s),
     concat (map (concat \<circ> pt_def_chunks) (se_pt s)), concat (map (concat \<circ> ct_def_chunks) (se_ct s)),
     concat (etc_def_chunks (se_etc s)), concat (io_cfg_chunks (se_iom s))]"

definition settings_bytes :: "settings \<Rightarrow> bytes" where
  "settings_bytes s = concat (settings_chunks s)"

definition settings_parse :: "bytes \<Rightarrow> settings" where
  "settings_parse bs = (let f = split_at SETTINGS_LAYOUT bs in
    \<lparr>se_comm = comm_parse (f ! 0), se_freq = le_word (f ! 1), se_feeder_cnt = le_word (f ! 2),
     se_pt = map pt_def_parse (split_at (replicate 9 16) (f ! 3)),
     se_ct = map ct_def_parse (split_at (replicate 9 32) (f ! 4)),
     se_etc = etc_def_parse (f ! 5), se_iom = io_cfg_parse (f ! 6)\<rparr>)"

definition settings_shape :: "settings \<Rightarrow> bool" where
  "settings_shape s \<longleftrightarrow> comm_shape (se_comm s) \<and> length (se_pt s) = 9 \<and> list_all pt_def_shape (se_pt s) \<and>
     length (se_ct s) = 9 \<and> list_all ct_def_shape (se_ct s) \<and> etc_def_shape (se_etc s) \<and>
     io_cfg_shape (se_iom s)"

abbreviation SETTINGS_SIZE :: nat where "SETTINGS_SIZE \<equiv> 1356"

lemma eth_cfg_lengths: "eth_cfg_shape e \<Longrightarrow> map length (eth_cfg_chunks e) = ETH_CFG_LAYOUT"
  by (simp add: eth_cfg_chunks_def eth_cfg_shape_def)

lemma eth_cfg_parse_bytes: "eth_cfg_shape e \<Longrightarrow> eth_cfg_parse (concat (eth_cfg_chunks e)) = e"
  by (simp only: eth_cfg_parse_def Let_def split_at_chunks [OF eth_cfg_lengths])
    (simp add: eth_cfg_chunks_def eth_cfg_shape_def)

lemma mbus_cfg_lengths: "mbus_cfg_shape b \<Longrightarrow> map length (mbus_cfg_chunks b) = MBUS_CFG_LAYOUT"
  by (simp add: mbus_cfg_chunks_def mbus_cfg_shape_def)

lemma mbus_cfg_parse_bytes: "mbus_cfg_shape b \<Longrightarrow> mbus_cfg_parse (concat (mbus_cfg_chunks b)) = b"
  by (simp only: mbus_cfg_parse_def Let_def split_at_chunks [OF mbus_cfg_lengths])
    (simp add: mbus_cfg_chunks_def mbus_cfg_shape_def)

lemma mqtt_cfg_lengths: "mqtt_cfg_shape q \<Longrightarrow> map length (mqtt_cfg_chunks q) = MQTT_CFG_LAYOUT"
  by (simp add: mqtt_cfg_chunks_def mqtt_cfg_shape_def)

lemma mqtt_cfg_parse_bytes: "mqtt_cfg_shape q \<Longrightarrow> mqtt_cfg_parse (concat (mqtt_cfg_chunks q)) = q"
  by (simp only: mqtt_cfg_parse_def Let_def split_at_chunks [OF mqtt_cfg_lengths])
    (simp add: mqtt_cfg_chunks_def mqtt_cfg_shape_def)

lemma snmp_cfg_lengths: "snmp_cfg_shape n \<Longrightarrow> map length (snmp_cfg_chunks n) = SNMP_CFG_LAYOUT"
  by (simp add: snmp_cfg_chunks_def snmp_cfg_shape_def)

lemma snmp_cfg_parse_bytes: "snmp_cfg_shape n \<Longrightarrow> snmp_cfg_parse (concat (snmp_cfg_chunks n)) = n"
  by (simp only: snmp_cfg_parse_def Let_def split_at_chunks [OF snmp_cfg_lengths])
    (simp add: snmp_cfg_chunks_def snmp_cfg_shape_def)

lemma sntp_cfg_lengths: "sntp_cfg_shape t \<Longrightarrow> map length (sntp_cfg_chunks t) = SNTP_CFG_LAYOUT"
  by (simp add: sntp_cfg_chunks_def sntp_cfg_shape_def)

lemma sntp_cfg_parse_bytes: "sntp_cfg_shape t \<Longrightarrow> sntp_cfg_parse (concat (sntp_cfg_chunks t)) = t"
  by (simp only: sntp_cfg_parse_def Let_def split_at_chunks [OF sntp_cfg_lengths])
    (simp add: sntp_cfg_chunks_def sntp_cfg_shape_def)

lemma pt_def_lengths: "pt_def_shape p \<Longrightarrow> map length (pt_def_chunks p) = PT_DEF_LAYOUT"
  by (simp add: pt_def_chunks_def pt_def_shape_def)

lemma pt_def_parse_bytes: "pt_def_shape p \<Longrightarrow> pt_def_parse (concat (pt_def_chunks p)) = p"
  by (simp only: pt_def_parse_def Let_def split_at_chunks [OF pt_def_lengths])
    (simp add: pt_def_chunks_def pt_def_shape_def)

lemma ct_def_lengths: "ct_def_shape c \<Longrightarrow> map length (ct_def_chunks c) = CT_DEF_LAYOUT"
  by (simp add: ct_def_chunks_def ct_def_shape_def)

lemma ct_def_parse_bytes: "ct_def_shape c \<Longrightarrow> ct_def_parse (concat (ct_def_chunks c)) = c"
  by (simp only: ct_def_parse_def Let_def split_at_chunks [OF ct_def_lengths])
    (simp add: ct_def_chunks_def ct_def_shape_def)

lemma etc_def_lengths: "etc_def_shape e \<Longrightarrow> map length (etc_def_chunks e) = ETC_DEF_LAYOUT"
  by (simp add: etc_def_chunks_def etc_def_shape_def)

lemma etc_def_parse_bytes: "etc_def_shape e \<Longrightarrow> etc_def_parse (concat (etc_def_chunks e)) = e"
  by (simp only: etc_def_parse_def Let_def split_at_chunks [OF etc_def_lengths])
    (simp add: etc_def_chunks_def etc_def_shape_def)

lemma io_cfg_lengths: "io_cfg_shape i \<Longrightarrow> map length (io_cfg_chunks i) = IO_CFG_LAYOUT"
  by (simp add: io_cfg_chunks_def io_cfg_shape_def)

lemma io_cfg_parse_bytes: "io_cfg_shape i \<Longrightarrow> io_cfg_parse (concat (io_cfg_chunks i)) = i"
  by (simp only: io_cfg_parse_def Let_def split_at_chunks [OF io_cfg_lengths])
    (simp add: io_cfg_chunks_def io_cfg_shape_def)

lemma pt_def_shapes: "pt_def_shape p"
  by (simp add: pt_def_shape_def)

lemma comm_lengths: "comm_shape c \<Longrightarrow> map length (comm_chunks c) = COMM_LAYOUT"
  using eth_cfg_lengths [of "co_eth c"] mbus_cfg_lengths [of "co_mb c"] mqtt_cfg_lengths [of "co_mqtt c"]
    snmp_cfg_lengths [of "co_snmp c"] sntp_cfg_lengths [of "co_sntp c"]
  by (simp add: comm_chunks_def comm_shape_def length_concat)

lemma comm_parse_bytes: "comm_shape c \<Longrightarrow> comm_parse (concat (comm_chunks c)) = c"
  by (simp only: comm_parse_def Let_def split_at_chunks [OF comm_lengths])
    (simp add: comm_chunks_def comm_shape_def eth_cfg_parse_bytes mbus_cfg_parse_bytes
      mqtt_cfg_parse_bytes snmp_cfg_parse_bytes sntp_cfg_parse_bytes)

lemma array_lengths:
  assumes "list_all P xs" "\<And>x. P x \<Longrightarrow> length (f x) = n" "length xs = k"
  shows "map length (map f xs) = replicate k n" "length (concat (map f xs)) = k * n"
  using assms by (induction xs arbitrary: k) (auto simp: length_concat)

lemma array_parse:
  assumes "list_all P xs" "\<And>x. P x \<Longrightarrow> length (f x) = n \<and> g (f x) = x" "length xs = k"
  shows "map g (split_at (replicate k n) (concat (map f xs))) = xs"
proof -
  have "split_at (replicate k n) (concat (map f xs)) = map f xs"
    using split_at_chunks [OF array_lengths(1) [of P xs f n k]] assms by blast
  moreover have "map g (map f xs) = xs"
    using assms(1,2) by (induction xs) auto
  ultimately show ?thesis by simp
qed

lemma pt_def_image: "length ((concat \<circ> pt_def_chunks) p) = 16 \<and> pt_def_parse ((concat \<circ> pt_def_chunks) p) = p"
  using pt_def_lengths [OF pt_def_shapes [of p]] pt_def_parse_bytes [OF pt_def_shapes [of p]]
  by (simp add: length_concat)

lemma ct_def_image:
  "ct_def_shape c \<Longrightarrow> length ((concat \<circ> ct_def_chunks) c) = 32 \<and> ct_def_parse ((concat \<circ> ct_def_chunks) c) = c"
  using ct_def_lengths [of c] ct_def_parse_bytes [of c] by (simp add: length_concat)

lemma settings_lengths:
  assumes "settings_shape s" shows "map length (settings_chunks s) = SETTINGS_LAYOUT"
proof -
  note sh = assms [unfolded settings_shape_def]
  have "length (concat (map (concat \<circ> pt_def_chunks) (se_pt s))) = 9 * 16"
    using array_lengths(2) [of pt_def_shape "se_pt s" "concat \<circ> pt_def_chunks" 16 9] sh pt_def_image by blast
  moreover have "length (concat (map (concat \<circ> ct_def_chunks) (se_ct s))) = 9 * 32"
    using array_lengths(2) [of ct_def_shape "se_ct s" "concat \<circ> ct_def_chunks" 32 9] sh ct_def_image by blast
  ultimately show ?thesis
    using sh comm_lengths [of "se_comm s"] etc_def_lengths [of "se_etc s"] io_cfg_lengths [of "se_iom s"]
    by (simp add: settings_chunks_def length_concat)
qed

lemma settings_parse_bytes:
  assumes "settings_shape s" shows "settings_parse (settings_bytes s) = s"
proof -
  note sh = assms [unfolded settings_shape_def]
  have "map pt_def_parse (split_at (replicate 9 16) (concat (map (concat \<circ> pt_def_chunks) (se_pt s)))) = se_pt s"
    using array_parse [of pt_def_shape "se_pt s" "concat \<circ> pt_def_chunks" 16 pt_def_parse 9] sh pt_def_image by blast
  moreover have "map ct_def_parse (split_at (replicate 9 32) (concat (map (concat \<circ> ct_def_chunks) (se_ct s)))) = se_ct s"
    using array_parse [of ct_def_shape "se_ct s" "concat \<circ> ct_def_chunks" 32 ct_def_parse 9] sh ct_def_image by blast
  ultimately show ?thesis
    unfolding settings_parse_def settings_bytes_def Let_def split_at_chunks [OF settings_lengths [OF assms]]
    using sh by (simp add: settings_chunks_def comm_parse_bytes etc_def_parse_bytes io_cfg_parse_bytes)
qed

lemma length_settings_bytes: "settings_shape s \<Longrightarrow> length (settings_bytes s) = SETTINGS_SIZE"
  using settings_lengths [of s] by (simp add: settings_bytes_def length_concat)

text \<open>An image of the right size is an image of some settings.\<close>

lemma split_at_nth:
  assumes "sum_list ns = length bs" "k < length ns"
  shows "length (split_at ns bs ! k) = ns ! k"
proof -
  have m: "map length (split_at ns bs) = ns" using length_split_at assms(1) by simp
  then have "length (split_at ns bs) = length ns" by (metis length_map)
  then have "length (split_at ns bs ! k) = map length (split_at ns bs) ! k" using assms(2) by simp
  then show ?thesis by (simp add: m)
qed

lemma section_parse_shapes:
  "length bs = 80 \<Longrightarrow> eth_cfg_shape (eth_cfg_parse bs)"
  "length bs = 20 \<Longrightarrow> mbus_cfg_shape (mbus_cfg_parse bs)"
  "length bs = 260 \<Longrightarrow> mqtt_cfg_shape (mqtt_cfg_parse bs)"
  "length bs = 220 \<Longrightarrow> snmp_cfg_shape (snmp_cfg_parse bs)"
  "length bs = 40 \<Longrightarrow> sntp_cfg_shape (sntp_cfg_parse bs)"
  "ct_def_shape (ct_def_parse cs)" "etc_def_shape (etc_def_parse cs)" "io_cfg_shape (io_cfg_parse cs)"
  by (simp_all add: eth_cfg_shape_def eth_cfg_parse_def mbus_cfg_shape_def mbus_cfg_parse_def
      mqtt_cfg_shape_def mqtt_cfg_parse_def snmp_cfg_shape_def snmp_cfg_parse_def sntp_cfg_shape_def
      sntp_cfg_parse_def ct_def_shape_def ct_def_parse_def etc_def_shape_def etc_def_parse_def
      io_cfg_shape_def io_cfg_parse_def Let_def)

lemma length_splits [simp]: "length (split_at ns bs) = length ns"
  by (induction ns bs rule: split_at.induct) simp_all

lemma settings_parse_shape:
  assumes "length bs = SETTINGS_SIZE" shows "settings_shape (settings_parse bs)"
proof -
  let ?c = "split_at SETTINGS_LAYOUT bs ! 0"
  have c: "length ?c = 820" using split_at_nth [of SETTINGS_LAYOUT bs 0] assms by simp
  have n: "length (split_at COMM_LAYOUT ?c ! k) = COMM_LAYOUT ! k" if "k < 6" for k
    using split_at_nth [of COMM_LAYOUT ?c k] c that by simp
  have "comm_shape (comm_parse ?c)"
    unfolding comm_shape_def comm_parse_def Let_def comm_cfg.select_convs
    by (intro conjI section_parse_shapes n [THEN trans] length_le_words) simp_all
  moreover have "list_all pt_def_shape (map pt_def_parse xs)" "list_all ct_def_shape (map ct_def_parse xs)" for xs
    by (simp_all add: list_all_iff pt_def_shapes section_parse_shapes)
  ultimately show ?thesis
    unfolding settings_shape_def settings_parse_def Let_def settings.select_convs
    by (intro conjI section_parse_shapes) (simp_all only: length_map length_splits length_replicate)
qed

section \<open>Normalisation of the communication settings\<close>

definition char_bytes :: "string \<Rightarrow> bytes" where
  "char_bytes s = map of_char s"

definition strcpy :: "bytes \<Rightarrow> string \<Rightarrow> bytes" where
  "strcpy buf s = char_bytes s @ [0] @ drop (length s + 1) buf"

definition commStrTerm :: "bytes \<Rightarrow> bytes" where
  "commStrTerm s = s[length s - 1 := 0]"

text \<open>\<open>commCfgNormalize\<close>, section by section.\<close>

definition norm_eth :: "eth_cfg \<Rightarrow> eth_cfg" where
  "norm_eth e =
     (let h = commStrTerm (et_host e)
      in e\<lparr>et_host := (if h ! 0 = 0 then strcpy h ''SV300'' else h),
           et_dhcpEn := (if et_dhcpEn e > 1 then 1 else et_dhcpEn e)\<rparr>)"

definition norm_mb :: "mbus_cfg \<Rightarrow> mbus_cfg" where
  "norm_mb b =
     b\<lparr>bu_mbTcpEn := (if bu_mbTcpEn b > 1 then 1 else bu_mbTcpEn b),
       bu_tcpPort := (if bu_tcpPort b = 0 then 502 else bu_tcpPort b),
       bu_devId := (if bu_devId b = 0 then 1 else bu_devId b)\<rparr>"

definition norm_mqtt :: "mqtt_cfg \<Rightarrow> mqtt_cfg" where
  "norm_mqtt q =
     q\<lparr>mq_Host := commStrTerm (mq_Host q), mq_ClientId := commStrTerm (mq_ClientId q),
       mq_User := commStrTerm (mq_User q), mq_Pass := commStrTerm (mq_Pass q),
       mq_Topic := commStrTerm (mq_Topic q),
       mq_En := (if mq_En q > 1 then 0 else mq_En q),
       mq_Port := (if mq_Port q = 0 then 1883 else mq_Port q),
       mq_Interval := (if mq_Interval q = 0 then 30 else if mq_Interval q < 10 then 10
                       else if mq_Interval q > 300 then 300 else mq_Interval q),
       mq_Qos := (if mq_Qos q > 1 then 0 else mq_Qos q),
       mq_Retain := (if mq_Retain q > 1 then 0 else mq_Retain q),
       mq_KeepAlive := (if mq_KeepAlive q = 0 then 60 else mq_KeepAlive q),
       mq_Tls := 0, mq_Format := 0\<rparr>"

definition norm_snmp :: "snmp_cfg \<Rightarrow> snmp_cfg" where
  "norm_snmp n =
     (let m = (if sn_En n > 1 \<or> sn_trapEn n > 1
               then n\<lparr>sn_En := 0, sn_trapEn := 0, sn_trap_ip := replicate 4 0\<rparr> else n);
          co = commStrTerm (sn_Community n)
      in m\<lparr>sn_Ver := (if sn_Ver n > 2 then 0 else sn_Ver n),
           sn_Community := (if co ! 0 = 0 then strcpy co ''public'' else co),
           sn_Contact := commStrTerm (sn_Contact n), sn_Location := commStrTerm (sn_Location n),
           sn_V3User := commStrTerm (sn_V3User n), sn_V3AuthPass := commStrTerm (sn_V3AuthPass n),
           sn_V3PrivPass := commStrTerm (sn_V3PrivPass n)\<rparr>)"

definition norm_sntp :: "sntp_cfg \<Rightarrow> sntp_cfg" where
  "norm_sntp t =
     t\<lparr>sp_Server := commStrTerm (sp_Server t),
       sp_useSntp := (if sp_useSntp t > 1 then 0 else sp_useSntp t),
       sp_timezone := (if sint (sp_timezone t) < - 720 \<or> sint (sp_timezone t) > 840 then 540
                       else sp_timezone t)\<rparr>"

definition commCfgNormalize :: "comm_cfg \<Rightarrow> comm_cfg" where
  "commCfgNormalize c =
     c\<lparr>co_eth := norm_eth (co_eth c), co_mb := norm_mb (co_mb c), co_mqtt := norm_mqtt (co_mqtt c),
       co_snmp := norm_snmp (co_snmp c), co_sntp := norm_sntp (co_sntp c)\<rparr>"

text \<open>
  What a normalised block promises to its readers: terminated strings of the declared sizes,
  switches that are 0 or 1, ports that can be opened, a publishing interval of 10 to 300
  seconds and a time zone that exists.
\<close>

definition cstr_ok :: "nat \<Rightarrow> bytes \<Rightarrow> bool" where
  "cstr_ok n s \<longleftrightarrow> length s = n \<and> s ! (n - 1) = 0"

definition eth_ok :: "eth_cfg \<Rightarrow> bool" where
  "eth_ok e \<longleftrightarrow> eth_cfg_shape e \<and> cstr_ok 32 (et_host e) \<and> et_host e ! 0 \<noteq> 0 \<and> et_dhcpEn e \<le> 1"

definition mbus_ok :: "mbus_cfg \<Rightarrow> bool" where
  "mbus_ok b \<longleftrightarrow> mbus_cfg_shape b \<and> bu_mbTcpEn b \<le> 1 \<and> bu_tcpPort b \<noteq> 0 \<and> bu_devId b \<noteq> 0"

definition mqtt_ok :: "mqtt_cfg \<Rightarrow> bool" where
  "mqtt_ok q \<longleftrightarrow> mqtt_cfg_shape q \<and> cstr_ok 64 (mq_Host q) \<and> cstr_ok 32 (mq_ClientId q) \<and>
     cstr_ok 32 (mq_User q) \<and> cstr_ok 32 (mq_Pass q) \<and> cstr_ok 64 (mq_Topic q) \<and> mq_En q \<le> 1 \<and>
     mq_Port q \<noteq> 0 \<and> 10 \<le> mq_Interval q \<and> mq_Interval q \<le> 300 \<and> mq_Qos q \<le> 1 \<and> mq_Retain q \<le> 1 \<and>
     mq_KeepAlive q \<noteq> 0 \<and> mq_Tls q = 0 \<and> mq_Format q = 0"

definition snmp_ok :: "snmp_cfg \<Rightarrow> bool" where
  "snmp_ok n \<longleftrightarrow> snmp_cfg_shape n \<and> cstr_ok 32 (sn_Community n) \<and> sn_Community n ! 0 \<noteq> 0 \<and>
     cstr_ok 32 (sn_Contact n) \<and> cstr_ok 32 (sn_Location n) \<and> cstr_ok 32 (sn_V3User n) \<and>
     cstr_ok 32 (sn_V3AuthPass n) \<and> cstr_ok 32 (sn_V3PrivPass n) \<and> sn_En n \<le> 1 \<and> sn_trapEn n \<le> 1 \<and>
     sn_Ver n \<le> 2"

definition sntp_ok :: "sntp_cfg \<Rightarrow> bool" where
  "sntp_ok t \<longleftrightarrow> sntp_cfg_shape t \<and> cstr_ok 32 (sp_Server t) \<and> sp_useSntp t \<le> 1 \<and>
     - 720 \<le> sint (sp_timezone t) \<and> sint (sp_timezone t) \<le> 840"

definition comm_ok :: "comm_cfg \<Rightarrow> bool" where
  "comm_ok c \<longleftrightarrow> comm_shape c \<and> eth_ok (co_eth c) \<and> mbus_ok (co_mb c) \<and> mqtt_ok (co_mqtt c) \<and>
     snmp_ok (co_snmp c) \<and> sntp_ok (co_sntp c)"

lemma commStrTerm_ok: "length s = n \<Longrightarrow> 0 < n \<Longrightarrow> cstr_ok n (commStrTerm s)"
  by (simp add: cstr_ok_def commStrTerm_def)

lemma commStrTerm_same: "cstr_ok n s \<Longrightarrow> commStrTerm s = s"
  by (metis cstr_ok_def commStrTerm_def list_update_id)

lemma cstr_ok_length: "cstr_ok n s \<Longrightarrow> length s = n"
  by (simp add: cstr_ok_def)

lemma length_commStrTerm [simp]: "length (commStrTerm s) = length s"
  by (simp add: commStrTerm_def)

lemma strcpy_ok:
  assumes "cstr_ok n buf" "length s + 1 < n"
  shows "cstr_ok n (strcpy buf s)"
proof -
  have "Suc (length buf - 2) = length buf - Suc 0" using assms by (simp add: cstr_ok_def)
  then show ?thesis using assms by (auto simp: cstr_ok_def strcpy_def char_bytes_def nth_append)
qed

lemma strcpy_literals: "strcpy b ''SV300'' ! 0 \<noteq> 0" "strcpy b ''public'' ! 0 \<noteq> 0"
  by (simp_all add: strcpy_def char_bytes_def)

lemma norm_eth_ok: "eth_cfg_shape e \<Longrightarrow> eth_ok (norm_eth e)"
  using strcpy_ok [OF commStrTerm_ok [of "et_host e" 32], of "''SV300''"] commStrTerm_ok [of "et_host e" 32]
  by (auto simp: eth_ok_def norm_eth_def eth_cfg_shape_def Let_def strcpy_literals dest: cstr_ok_length)

lemma norm_mb_ok: "mbus_cfg_shape b \<Longrightarrow> mbus_ok (norm_mb b)"
  by (auto simp: mbus_ok_def norm_mb_def mbus_cfg_shape_def)

lemma norm_mqtt_ok: "mqtt_cfg_shape q \<Longrightarrow> mqtt_ok (norm_mqtt q)"
  by (simp add: mqtt_ok_def norm_mqtt_def mqtt_cfg_shape_def commStrTerm_ok not_less)

lemma norm_snmp_ok: "snmp_cfg_shape n \<Longrightarrow> snmp_ok (norm_snmp n)"
  using strcpy_ok [OF commStrTerm_ok [of "sn_Community n" 32], of "''public''"] commStrTerm_ok [of "sn_Community n" 32]
  by (auto simp: snmp_ok_def norm_snmp_def snmp_cfg_shape_def Let_def strcpy_literals commStrTerm_ok
      dest: cstr_ok_length)

lemma norm_sntp_ok: "sntp_cfg_shape t \<Longrightarrow> sntp_ok (norm_sntp t)"
  by (auto simp: sntp_ok_def norm_sntp_def sntp_cfg_shape_def commStrTerm_ok)

lemma norm_same:
  "eth_ok e \<Longrightarrow> norm_eth e = e" "mbus_ok b \<Longrightarrow> norm_mb b = b" "mqtt_ok q \<Longrightarrow> norm_mqtt q = q"
  "snmp_ok n \<Longrightarrow> norm_snmp n = n" "sntp_ok t \<Longrightarrow> norm_sntp t = t"
proof -
  show "eth_ok e \<Longrightarrow> norm_eth e = e"
    by (cases e) (auto simp: eth_ok_def norm_eth_def Let_def commStrTerm_same)
  show "mbus_ok b \<Longrightarrow> norm_mb b = b"
    by (cases b) (auto simp: mbus_ok_def norm_mb_def)
  show "mqtt_ok q \<Longrightarrow> norm_mqtt q = q"
    by (cases q) (auto simp: mqtt_ok_def norm_mqtt_def commStrTerm_same)
  show "snmp_ok n \<Longrightarrow> norm_snmp n = n"
    by (cases n) (auto simp: snmp_ok_def norm_snmp_def Let_def commStrTerm_same)
  show "sntp_ok t \<Longrightarrow> norm_sntp t = t"
    by (cases t) (auto simp: sntp_ok_def norm_sntp_def commStrTerm_same)
qed

lemma commCfgNormalize_ok: "comm_shape c \<Longrightarrow> comm_ok (commCfgNormalize c)"
  by (simp add: comm_ok_def commCfgNormalize_def comm_shape_def norm_eth_ok norm_mb_ok norm_mqtt_ok norm_snmp_ok
      norm_sntp_ok eth_ok_def [THEN iffD1] norm_eth_ok [unfolded eth_ok_def] norm_mb_ok [unfolded mbus_ok_def]
      norm_mqtt_ok [unfolded mqtt_ok_def] norm_snmp_ok [unfolded snmp_ok_def] norm_sntp_ok [unfolded sntp_ok_def])

lemma commCfgNormalize_same: "comm_ok c \<Longrightarrow> commCfgNormalize c = c"
  by (simp add: comm_ok_def commCfgNormalize_def norm_same)

section \<open>Defaults\<close>

definition put_pt :: "nat \<Rightarrow> (pt_def \<Rightarrow> pt_def) \<Rightarrow> settings \<Rightarrow> settings" where
  "put_pt k f s = s\<lparr>se_pt := (se_pt s)[k := f (se_pt s ! k)]\<rparr>"

definition put_ct :: "nat \<Rightarrow> (ct_def \<Rightarrow> ct_def) \<Rightarrow> settings \<Rightarrow> settings" where
  "put_ct k f s = s\<lparr>se_ct := (se_ct s)[k := f (se_ct s ! k)]\<rparr>"

abbreviation SETTINGS_LAYOUT_VER :: u16 where "SETTINGS_LAYOUT_VER \<equiv> 0x2610"

text \<open>\<open>memset(&db, 0, sizeof(db))\<close> and the defaults of the communication block.\<close>

definition settings0 :: settings where
  "settings0 = settings_parse (replicate SETTINGS_SIZE 0)"

definition init_comm :: "comm_cfg \<Rightarrow> comm_cfg" where
  "init_comm c =
     c\<lparr>co_eth := (co_eth c)\<lparr>et_dhcpEn := 1,
         et_ip := [192, 168, 9, 124, 255, 255, 0, 0, 192, 168, 1, 1, 168, 126, 63, 1],
         et_host := strcpy (et_host (co_eth c)) ''SV300''\<rparr>,
       co_mb := (co_mb c)\<lparr>bu_layoutVer := SETTINGS_LAYOUT_VER, bu_devId := 1, bu_tcpPort := 502, bu_mbTcpEn := 1\<rparr>,
       co_mqtt := (co_mqtt c)\<lparr>mq_Port := 1883, mq_Interval := 30, mq_KeepAlive := 60\<rparr>,
       co_snmp := (co_snmp c)\<lparr>sn_Community := strcpy (sn_Community (co_snmp c)) ''public''\<rparr>,
       co_sntp := (co_sntp c)\<lparr>sp_timezone := 540\<rparr>\<rparr>"

definition init_common :: settings where
  "init_common = settings0\<lparr>se_comm := init_comm (se_comm settings0),
     se_etc := (se_etc settings0)\<lparr>ec_backlightTime := 1, ec_brightness := 2, ec_interval := 2, ec_Iload := 50,
       ec_autorotation := 2, ec_maxminItv := 2\<rparr>,
     se_freq := 0, se_feeder_cnt := 3\<rparr>"

abbreviation WM_3LN3CT :: u16 where "WM_3LN3CT \<equiv> 1"

text \<open>
  The settings of events, transients, recorder, trends and quality report of a channel, from
  \<open>pqevt\<close> to just before \<open>almSet\<close>, are an array of 154 registers, which is also how masters and
  the file see them.
\<close>

type_synonym pqe_block = "u16 list"

abbreviation (input) pqevt_level :: "nat \<Rightarrow> nat" where "pqevt_level k \<equiv> 6 * k"
abbreviation (input) pqevt_nCyc :: "nat \<Rightarrow> nat" where "pqevt_nCyc k \<equiv> 6 * k + 1"
abbreviation (input) pqevt_action :: "nat \<Rightarrow> nat" where "pqevt_action k \<equiv> 6 * k + 2"
abbreviation (input) pqevt_holdOffCyc :: "nat \<Rightarrow> nat" where "pqevt_holdOffCyc k \<equiv> 6 * k + 3"
abbreviation (input) trans_holdOff :: "nat \<Rightarrow> nat" where "trans_holdOff k \<equiv> 4 * k + 24"
abbreviation (input) trans_level :: "nat \<Rightarrow> nat" where "trans_level k \<equiv> 4 * k + 25"
abbreviation (input) trans_fastChange :: "nat \<Rightarrow> nat" where "trans_fastChange k \<equiv> 4 * k + 26"
abbreviation (input) trans_action :: "nat \<Rightarrow> nat" where "trans_action k \<equiv> 4 * k + 27"
abbreviation (input) trend_active :: "nat \<Rightarrow> nat" where "trend_active k \<equiv> 19 * k + 64"
abbreviation (input) trend_chan :: "nat \<Rightarrow> nat \<Rightarrow> nat" where "trend_chan k j \<equiv> 19 * k + 67 + j"
abbreviation (input) pqRpt_active :: nat where "pqRpt_active \<equiv> 144"

abbreviation (input) PQE_OC :: nat where "PQE_OC \<equiv> 0"
abbreviation (input) PQE_SAG :: nat where "PQE_SAG \<equiv> 1"
abbreviation (input) PQE_SWELL :: nat where "PQE_SWELL \<equiv> 2"
abbreviation (input) PQE_INTR :: nat where "PQE_INTR \<equiv> 3"

definition set_words :: "(nat \<times> u16) list \<Rightarrow> u16 list \<Rightarrow> u16 list" where
  "set_words kvs ws = foldl (\<lambda>ws kv. ws[fst kv := snd kv]) ws kvs"

definition initMeterPqeSettings :: "pqe_block \<Rightarrow> pqe_block" where
  "initMeterPqeSettings =
     set_words
       [(trans_level 0, 200), (trans_fastChange 0, 4), (trans_holdOff 0, 500), (trans_action 0, 0),
        (trans_level 1, 150), (trans_fastChange 1, 4), (trans_holdOff 1, 500), (trans_action 1, 0),
        (pqevt_level PQE_OC, 200), (pqevt_nCyc PQE_OC, 1), (pqevt_action PQE_OC, 0), (pqevt_holdOffCyc PQE_OC, 500),
        (pqevt_level PQE_SAG, 80), (pqevt_nCyc PQE_SAG, 1), (pqevt_action PQE_SAG, 0), (pqevt_holdOffCyc PQE_SAG, 500),
        (pqevt_level PQE_SWELL, 120), (pqevt_nCyc PQE_SWELL, 1), (pqevt_action PQE_SWELL, 0), (pqevt_holdOffCyc PQE_SWELL, 500),
        (pqevt_level PQE_INTR, 5), (pqevt_nCyc PQE_INTR, 1), (pqevt_action PQE_INTR, 0), (pqevt_holdOffCyc PQE_INTR, 500),
        (pqRpt_active, 1), (trend_chan 0 0, 1), (trend_chan 0 1, 2)]"

text \<open>\<open>initExtSettings\<close> clears the action of transient channel 0 only, four times over.\<close>

definition initExtSettings :: "pqe_block \<Rightarrow> pqe_block" where
  "initExtSettings =
     set_words
       [(trend_active 0, 0), (trend_active 1, 0), (trend_active 2, 0), (trend_active 3, 0),
        (trans_action 0, 0), (trans_action 0, 0), (trans_action 0, 0), (trans_action 0, 0),
        (pqevt_action 0, 0), (pqevt_action 1, 0), (pqevt_action 2, 0), (pqevt_action 3, 0)]"

record set_state =
  sy_db :: settings
  sy_setting :: settings
  sy_pqe :: "pqe_block list"
  sy_saveSetting :: int
  sy_alarm :: "alarm_meter list"

definition initSettings :: "int \<Rightarrow> set_state \<Rightarrow> int \<times> set_state" where
  "initSettings ch st =
     (if ch < 0 \<or> ch \<ge> 3 then (-1, st)
      else let k = nat ch; s = (if ch = 0 then init_common else sy_db st);
               s1 = put_pt k (\<lambda>p. p\<lparr>pt_wiring := WM_3LN3CT, pt_vnorm := 220, pt_PT1 := 220, pt_PT2 := 220\<rparr>) s;
               s2 = put_ct k (\<lambda>c. c\<lparr>ct_inorm := 50, ct_CT1 := (if ch = 0 then 250 else 100), ct_CT2 := 1,
                                     ct_zctScale := 1000, ct_zctType := 1\<rparr>) s1
           in (0, st\<lparr>sy_db := s2, sy_pqe := (sy_pqe st)[k := initMeterPqeSettings (sy_pqe st ! k)]\<rparr>))"

definition set_cal_channel_pt_ct :: "u16 \<Rightarrow> u16 \<Rightarrow> u16 \<Rightarrow> u16 \<Rightarrow> nat \<Rightarrow> settings \<Rightarrow> settings" where
  "set_cal_channel_pt_ct wiring inorm ct1 zctScale k s =
     put_ct k (\<lambda>c. c\<lparr>ct_inorm := inorm, ct_CT1 := ct1, ct_CT2 := 1, ct_zctScale := zctScale, ct_zctType := 1\<rparr>)
      (put_pt k (\<lambda>p. p\<lparr>pt_wiring := wiring, pt_vnorm := 220, pt_PT1 := 220, pt_PT2 := 220\<rparr>) s)"

definition commit_db_settings :: "set_state \<Rightarrow> set_state" where
  "commit_db_settings st = st\<lparr>sy_setting := sy_db st, sy_saveSetting := 0x1234\<rparr>"

definition apply_cal_preset_all_ch :: "u16 \<Rightarrow> u16 \<Rightarrow> u16 \<Rightarrow> u16 \<Rightarrow> settings \<Rightarrow> settings" where
  "apply_cal_preset_all_ch wiring inorm ct1 zctScale s =
     fold (set_cal_channel_pt_ct wiring inorm ct1 zctScale) [0, 1, 2] (s\<lparr>se_feeder_cnt := 3, se_freq := 0\<rparr>)"

definition build_cal_db :: "nat \<Rightarrow> set_state \<Rightarrow> set_state" where
  "build_cal_db n st =
     commit_db_settings (st\<lparr>sy_db :=
       (if n = 1 then apply_cal_preset_all_ch 0 100 100 1000 (sy_db st)
        else if n = 2 then apply_cal_preset_all_ch 1 100 100 1000 (sy_db st)
        else apply_cal_preset_all_ch 0 100 250 1250 (sy_db st))\<rparr>)"

definition build_set_db :: "set_state \<Rightarrow> set_state" where
  "build_set_db st =
     (let s = (sy_db st)\<lparr>se_feeder_cnt := 3, se_freq := 0\<rparr>;
          s1 = fold (set_cal_channel_pt_ct 1 50 100 1000) [0, 1, 2] s;
          c = se_comm s1
      in commit_db_settings (st\<lparr>sy_db := s1\<lparr>se_comm := c\<lparr>co_mb := (co_mb c)\<lparr>bu_devId := 1\<rparr>\<rparr>\<rparr>\<rparr>))"

section \<open>Building the channels from the settings\<close>

text \<open>
  The defaults that \<open>buildSettings\<close> writes back to the settings of channel \<open>k\<close>, and its result.
\<close>

definition nz :: "'a::zero \<Rightarrow> 'a \<Rightarrow> 'a" where
  "nz v x = (if x = 0 then v else x)"

definition pt_defaults :: "pt_def \<Rightarrow> pt_def" where
  "pt_defaults p = p\<lparr>pt_vnorm := nz 220 (pt_vnorm p), pt_PT1 := nz 220 (pt_PT1 p), pt_PT2 := nz 220 (pt_PT2 p)\<rparr>"

definition ct_defaults :: "ct_def \<Rightarrow> ct_def" where
  "ct_defaults c = c\<lparr>ct_I_start := nz 1 (ct_I_start c), ct_nTurns := nz 1 (ct_nTurns c), ct_inorm := nz 50 (ct_inorm c),
     ct_CT1 := nz 100 (ct_CT1 c), ct_zctScale := nz 1000 (ct_zctScale c)\<rparr>"

definition build_db :: "nat \<Rightarrow> settings \<Rightarrow> settings" where
  "build_db k s =
     (let s1 = s\<lparr>se_freq := (if se_freq s = 50 \<or> se_freq s = 1 then 1 else 0)\<rparr>;
          s2 = put_pt k pt_defaults (put_ct k ct_defaults s1);
          s3 = (if k = 0 then s2\<lparr>se_comm := commCfgNormalize (se_comm s2)\<rparr> else s2)
      in if ec_interval (se_etc s3) > 4 then s3\<lparr>se_etc := (se_etc s3)\<lparr>ec_interval := 0\<rparr>\<rparr> else s3)"

definition build_result :: "nat \<Rightarrow> settings \<Rightarrow> int" where
  "build_result k s =
     (if (k = 0 \<and> bu_devId (co_mb (se_comm s)) > 250) \<or> pt_wiring (se_pt s ! k) > 8 then -1 else 0)"

text \<open>The limits of the event levels and of the transient detection.\<close>

definition clamp_pqe :: "pqe_block \<Rightarrow> pqe_block" where
  "clamp_pqe w =
     (let sag = w ! pqevt_level PQE_SAG; intr = w ! pqevt_level PQE_INTR; swell = w ! pqevt_level PQE_SWELL;
          oc = w ! pqevt_level PQE_OC; t0 = w ! trans_level 0; t1 = w ! trans_level 1;
          f0 = w ! trans_fastChange 0; f1 = w ! trans_fastChange 1
      in set_words
       [(pqevt_level PQE_SAG, if sag > 90 \<or> sag < 10 then 90 else sag),
        (pqevt_level PQE_INTR, if intr < 5 then 5 else intr),
        (pqevt_level PQE_SWELL, if swell < 110 \<or> swell > 180 then 110 else swell),
        (pqevt_level PQE_OC, if oc > 200 then 200 else oc),
        (trans_level 0, if t0 < 120 \<or> t0 > 300 then 200 else t0),
        (trans_level 1, if t1 < 120 \<or> t1 > 300 then 200 else t1),
        (trans_fastChange 0, if f0 > 10 then 4 else f0),
        (trans_fastChange 1, if f1 > 10 then 4 else f1)] w)"

definition buildSettings :: "nat \<Rightarrow> set_state \<Rightarrow> int \<times> set_state" where
  "buildSettings k st =
     (let s = build_db k (sy_db st)
      in (build_result k s, st\<lparr>sy_db := s, sy_pqe := (sy_pqe st)[k := clamp_pqe (sy_pqe st ! k)]\<rparr>))"

text \<open>\<open>buildAlarmSettings\<close> hands the alarm definitions to the supervision.\<close>

definition alarm_from_set :: "alarm_set \<Rightarrow> alarm_data \<Rightarrow> alarm_data" where
  "alarm_from_set a d =
     (if 0 < as_chan a \<and> as_chan a \<le> 124
      then d\<lparr>ad_chan := as_chan a, ad_cond := as_cond a, ad_level := as_level a\<rparr> else d)"

definition buildAlarmSettings :: "nat \<Rightarrow> set_state \<Rightarrow> set_state" where
  "buildAlarmSettings k st =
     (let m = sy_alarm st ! k
      in st\<lparr>sy_alarm := (sy_alarm st)[k := m\<lparr>am_delay := 1, am_st := map2 alarm_from_set (am_set m) (am_st m)\<rparr>]\<rparr>)"

section \<open>The files of the settings\<close>

text \<open>
  Whether a file can be opened for reading or writing, and what a short \<open>fread\<close> leaves in its
  target, are up to the file system.
\<close>

record file_env =
  fo_read :: "string \<Rightarrow> bool"
  fo_write :: "string \<Rightarrow> bool"
  fo_partial :: "bytes \<Rightarrow> pqe_block \<Rightarrow> pqe_block"

abbreviation SETTING_FILE :: string where "SETTING_FILE \<equiv> ''sys_settings.d''"
abbreviation PQE_DEF_FILE :: string where "PQE_DEF_FILE \<equiv> ''sys_pqedef.d''"
abbreviation PQE_DEF_MAGIC :: u32 where "PQE_DEF_MAGIC \<equiv> 0x50514544"

definition fopen_rb :: "file_env \<Rightarrow> string \<Rightarrow> dir \<Rightarrow> bytes option" where
  "fopen_rb env nm d = (if fo_read env nm then map_of d nm else None)"

definition fwrite_wb :: "file_env \<Rightarrow> string \<Rightarrow> bytes \<Rightarrow> dir \<Rightarrow> int \<times> dir" where
  "fwrite_wb env nm bs d = (if fo_write env nm then (0, fwrite_all nm bs d) else (-1, d))"

definition saveSettings :: "file_env \<Rightarrow> settings \<Rightarrow> dir \<Rightarrow> int \<times> dir" where
  "saveSettings env s d = fwrite_wb env SETTING_FILE (settings_bytes s) d"

definition init_channel :: "nat \<Rightarrow> set_state \<Rightarrow> set_state" where
  "init_channel k st =
     (let st1 = snd (initSettings (int k) st)
      in st1\<lparr>sy_pqe := (sy_pqe st1)[k := initExtSettings (sy_pqe st1 ! k)]\<rparr>)"

definition recreate_settings_dat :: "file_env \<Rightarrow> set_state \<Rightarrow> dir \<Rightarrow> set_state \<times> dir" where
  "recreate_settings_dat env st d =
     (let st1 = build_set_db (fold init_channel [0, 1, 2] st)
      in (st1, snd (fwrite_wb env SETTING_FILE (settings_bytes (sy_db st1)) d)))"

definition put_layout :: "u16 \<Rightarrow> settings \<Rightarrow> settings" where
  "put_layout v s = s\<lparr>se_comm := (se_comm s)\<lparr>co_mb := (co_mb (se_comm s))\<lparr>bu_layoutVer := v\<rparr>\<rparr>\<rparr>"

definition layout_of :: "settings \<Rightarrow> u16" where
  "layout_of s = bu_layoutVer (co_mb (se_comm s))"

text \<open>Reading the file, and the defaults when it is missing, has another size or another layout.\<close>

definition read_settings :: "file_env \<Rightarrow> set_state \<Rightarrow> dir \<Rightarrow> int \<times> set_state \<times> dir" where
  "read_settings env st d =
     (case fopen_rb env SETTING_FILE d of
        None \<Rightarrow> (-1, recreate_settings_dat env st d)
      | Some bs \<Rightarrow>
          (if length bs \<noteq> SETTINGS_SIZE then (-1, recreate_settings_dat env st d)
           else let st1 = st\<lparr>sy_db := settings_parse bs\<rparr>
                in if layout_of (sy_db st1) \<noteq> SETTINGS_LAYOUT_VER then (-1, recreate_settings_dat env st1 d)
                   else (0, st1, d)))"

definition init_pqe_if_unset :: "nat \<Rightarrow> set_state \<Rightarrow> set_state" where
  "init_pqe_if_unset k st =
     (if sy_pqe st ! k ! pqevt_nCyc PQE_SAG = 0
      then st\<lparr>sy_pqe := (sy_pqe st)[k := initMeterPqeSettings (sy_pqe st ! k)]\<rparr> else st)"

definition build_channels :: "set_state \<Rightarrow> set_state" where
  "build_channels st =
     (let st1 = st\<lparr>sy_db := (sy_db st)\<lparr>se_comm := commCfgNormalize (se_comm (sy_db st))\<rparr>\<rparr>;
          st2 = fold init_pqe_if_unset [0, 1, 2] (st1\<lparr>sy_setting := sy_db st1\<rparr>);
          st3 = fold (\<lambda>k st. snd (buildSettings k st)) [0, 1, 2] st2
      in fold buildAlarmSettings [0, 1, 2] (st3\<lparr>sy_setting := sy_db st3\<rparr>))"

definition loadSettings :: "file_env \<Rightarrow> set_state \<Rightarrow> dir \<Rightarrow> int \<times> set_state \<times> dir" where
  "loadSettings env st d =
     (case read_settings env st d of (ret, st1, d1) \<Rightarrow> (ret, build_channels st1, d1))"

subsection \<open>The settings of events and trends\<close>

definition storePqeDef :: "file_env \<Rightarrow> pqe_block list \<Rightarrow> dir \<Rightarrow> int \<times> dir" where
  "storePqeDef env pq d =
     fwrite_wb env PQE_DEF_FILE (le_bytes 4 PQE_DEF_MAGIC @ concat (map (le_array 2) pq)) d"

fun read_blocks :: "file_env \<Rightarrow> nat list \<Rightarrow> bytes \<Rightarrow> pqe_block list \<Rightarrow> int \<times> pqe_block list" where
  "read_blocks env [] bs pq = (0, pq)"
| "read_blocks env (k # ks) bs pq =
     (if length bs < 308 then (-1, pq[k := fo_partial env bs (pq ! k)])
      else read_blocks env ks (drop 308 bs) (pq[k := le_words 2 154 (take 308 bs)]))"

definition loadPqeDef :: "file_env \<Rightarrow> pqe_block list \<Rightarrow> dir \<Rightarrow> int \<times> pqe_block list" where
  "loadPqeDef env pq d =
     (case fopen_rb env PQE_DEF_FILE d of
        None \<Rightarrow> (-1, pq)
      | Some bs \<Rightarrow>
          (if length bs < 4 \<or> le_word (take 4 bs) \<noteq> PQE_DEF_MAGIC then (-1, pq)
           else read_blocks env [0, 1, 2] (drop 4 bs) pq))"

subsection \<open>Saving, factory reset and start\<close>

text \<open>
  The two branches of the file task's idle turn that write settings, and the part of the start
  (\<open>db_init\<close>) that reads them back. The state at the start is the memory after a reset.
\<close>

definition save_branch :: "file_env \<Rightarrow> set_state \<Rightarrow> dir \<Rightarrow> set_state \<times> dir" where
  "save_branch env st d =
     (let st1 = st\<lparr>sy_db := put_layout SETTINGS_LAYOUT_VER (sy_setting st)\<rparr>;
          d1 = snd (saveSettings env (sy_db st1) d);
          d2 = snd (storePqeDef env (sy_pqe st1) d1)
      in (st1\<lparr>sy_saveSetting := 0\<rparr>, d2))"

definition reset_branch :: "file_env \<Rightarrow> set_state \<Rightarrow> dir \<Rightarrow> set_state \<times> dir" where
  "reset_branch env st d =
     (let st1 = build_set_db (fold init_channel [0, 1, 2] st);
          st2 = st1\<lparr>sy_db := sy_setting st1\<rparr>
      in (st2\<lparr>sy_saveSetting := 0\<rparr>, fdelete ''sys_snmp.d'' (snd (saveSettings env (sy_db st2) d))))"

definition start_settings :: "file_env \<Rightarrow> set_state \<Rightarrow> dir \<Rightarrow> int \<times> set_state \<times> dir" where
  "start_settings env st d =
     (case loadSettings env st d of (ret, st1, d1) \<Rightarrow>
        (ret, st1\<lparr>sy_pqe := snd (loadPqeDef env (sy_pqe st1) d1)\<rparr>, d1))"

section \<open>What a start leaves behind\<close>

definition pt_ok :: "pt_def \<Rightarrow> bool" where
  "pt_ok p \<longleftrightarrow> pt_vnorm p \<noteq> 0 \<and> pt_PT1 p \<noteq> 0 \<and> pt_PT2 p \<noteq> 0"

definition ct_ok :: "ct_def \<Rightarrow> bool" where
  "ct_ok c \<longleftrightarrow> ct_I_start c \<noteq> 0 \<and> ct_nTurns c \<noteq> 0 \<and> ct_inorm c \<noteq> 0 \<and> ct_CT1 c \<noteq> 0 \<and> ct_zctScale c \<noteq> 0"

definition settings_ok :: "settings \<Rightarrow> bool" where
  "settings_ok s \<longleftrightarrow> settings_shape s \<and> comm_ok (se_comm s) \<and> layout_of s = SETTINGS_LAYOUT_VER \<and> se_freq s \<le> 1 \<and>
     ec_interval (se_etc s) \<le> 4 \<and> list_all pt_ok (take 3 (se_pt s)) \<and> list_all ct_ok (take 3 (se_ct s))"

definition pqe_ok :: "pqe_block \<Rightarrow> bool" where
  "pqe_ok w \<longleftrightarrow> length w = 154 \<and>
     10 \<le> w ! pqevt_level PQE_SAG \<and> w ! pqevt_level PQE_SAG \<le> 90 \<and> 5 \<le> w ! pqevt_level PQE_INTR \<and>
     110 \<le> w ! pqevt_level PQE_SWELL \<and> w ! pqevt_level PQE_SWELL \<le> 180 \<and> w ! pqevt_level PQE_OC \<le> 200 \<and>
     (\<forall>k \<in> {0, 1}. 120 \<le> w ! trans_level k \<and> w ! trans_level k \<le> 300 \<and> w ! trans_fastChange k \<le> 10)"

definition set_shape :: "set_state \<Rightarrow> bool" where
  "set_shape st \<longleftrightarrow> settings_shape (sy_db st) \<and> length (sy_pqe st) = 3 \<and> (\<forall>w \<in> set (sy_pqe st). length w = 154) \<and>
     length (sy_alarm st) = 3"

lemma length_set_words [simp]: "length (set_words kvs ws) = length ws"
  by (induction kvs arbitrary: ws) (simp_all add: set_words_def)

lemma length_pqe_ops [simp]:
  "length (initMeterPqeSettings w) = length w" "length (initExtSettings w) = length w" "length (clamp_pqe w) = length w"
  by (simp_all add: initMeterPqeSettings_def initExtSettings_def clamp_pqe_def Let_def)

lemma settings_shape_upd [simp]:
  "settings_shape (s\<lparr>se_freq := f\<rparr>) = settings_shape s" "settings_shape (s\<lparr>se_feeder_cnt := n\<rparr>) = settings_shape s"
  "settings_shape (put_pt k g s) = settings_shape s"
  "ec_r (h (se_etc s)) = ec_r (se_etc s) \<Longrightarrow> ec_P_target (h (se_etc s)) = ec_P_target (se_etc s) \<Longrightarrow>
     settings_shape (s\<lparr>se_etc := h (se_etc s)\<rparr>) = settings_shape s"
  by (auto simp: settings_shape_def put_pt_def etc_def_shape_def list_all_iff pt_def_shapes)

lemma settings_shape_put_ct:
  assumes "\<And>c. ct_def_shape (f c) = ct_def_shape c" "settings_shape s"
  shows "settings_shape (put_ct k f s)"
proof (cases "k < 9")
  case True
  then show ?thesis using assms
    by (auto simp: settings_shape_def put_ct_def list_all_length nth_list_update)
next
  case False
  then show ?thesis using assms(2)
    by (simp add: settings_shape_def put_ct_def list_update_beyond)
qed

lemma settings_shape_comm:
  "settings_shape s \<Longrightarrow> comm_shape c \<Longrightarrow> settings_shape (s\<lparr>se_comm := c\<rparr>)"
  by (simp add: settings_shape_def)

lemma init_comm_shape: "comm_shape c \<Longrightarrow> comm_shape (init_comm c)"
  by (simp add: comm_shape_def init_comm_def eth_cfg_shape_def mbus_cfg_shape_def mqtt_cfg_shape_def
      snmp_cfg_shape_def sntp_cfg_shape_def strcpy_def char_bytes_def)

lemma settings0_shape: "settings_shape settings0"
  unfolding settings0_def by (rule settings_parse_shape) simp

lemma init_common_shape: "settings_shape init_common"
proof -
  have "comm_shape (init_comm (se_comm settings0))"
    using settings0_shape init_comm_shape by (simp add: settings_shape_def)
  then show ?thesis using settings0_shape
    by (simp add: init_common_def settings_shape_def etc_def_shape_def)
qed

lemma put_components [simp]:
  "se_comm (put_pt k f s) = se_comm s" "se_comm (put_ct k g s) = se_comm s" "se_etc (put_pt k f s) = se_etc s"
  "se_etc (put_ct k g s) = se_etc s" "se_freq (put_pt k f s) = se_freq s" "se_freq (put_ct k g s) = se_freq s"
  "se_ct (put_pt k f s) = se_ct s" "se_pt (put_ct k g s) = se_pt s" "layout_of (put_pt k f s) = layout_of s"
  "layout_of (put_ct k g s) = layout_of s"
  by (simp_all add: put_pt_def put_ct_def layout_of_def)

lemma init_common_layout: "layout_of init_common = SETTINGS_LAYOUT_VER"
  by (simp add: layout_of_def init_common_def init_comm_def)

text \<open>Every route to the defaults leaves a block of the firmware's layout.\<close>

definition fresh :: "set_state \<Rightarrow> bool" where
  "fresh st \<longleftrightarrow> set_shape st \<and> layout_of (sy_db st) = SETTINGS_LAYOUT_VER"

lemma set_shape_pqe: "set_shape st \<Longrightarrow> i < 3 \<Longrightarrow> length (sy_pqe st ! i) = 154"
  by (simp add: set_shape_def)

lemma init_channel_fresh:
  assumes "set_shape st" "k = 0 \<or> layout_of (sy_db st) = SETTINGS_LAYOUT_VER" "k < 3"
  shows "fresh (init_channel k st)"
proof -
  let ?p = "\<lambda>p. p\<lparr>pt_wiring := WM_3LN3CT, pt_vnorm := 220, pt_PT1 := 220, pt_PT2 := 220\<rparr>"
  let ?c = "\<lambda>c. c\<lparr>ct_inorm := 50, ct_CT1 := (if int k = 0 then 250 else 100), ct_CT2 := 1, ct_zctScale := 1000, ct_zctType := 1\<rparr>"
  let ?s = "if int k = 0 then init_common else sy_db st"
  have "settings_shape ?s" using assms(1) init_common_shape by (simp add: set_shape_def)
  then have "settings_shape (put_ct k ?c (put_pt k ?p ?s))"
    by (intro settings_shape_put_ct) (simp_all add: ct_def_shape_def)
  moreover have "layout_of ?s = SETTINGS_LAYOUT_VER" using assms(2) init_common_layout by auto
  moreover have "sy_db (init_channel k st) = put_ct k ?c (put_pt k ?p ?s)"
    using assms(3) by (simp add: init_channel_def initSettings_def Let_def)
  moreover have "length (sy_pqe (init_channel k st)) = 3 \<and> (\<forall>w \<in> set (sy_pqe (init_channel k st)). length w = 154) \<and>
      length (sy_alarm (init_channel k st)) = 3"
    using assms(1,3) set_shape_pqe [OF assms(1)]
    by (auto simp: init_channel_def initSettings_def Let_def set_shape_def in_set_conv_nth nth_list_update)
  ultimately show ?thesis by (simp add: fresh_def set_shape_def)
qed

lemma preset_shape: "settings_shape s \<Longrightarrow> settings_shape (set_cal_channel_pt_ct w n c z k s)"
  unfolding set_cal_channel_pt_ct_def
  by (intro settings_shape_put_ct) (simp_all add: ct_def_shape_def)

lemma preset_comm [simp]: "se_comm (set_cal_channel_pt_ct w n c z k s) = se_comm s"
  by (simp add: set_cal_channel_pt_ct_def)

lemma build_set_db_fresh: "fresh st \<Longrightarrow> fresh (build_set_db st)"
  by (simp add: fresh_def set_shape_def build_set_db_def commit_db_settings_def Let_def layout_of_def preset_shape
      settings_shape_def comm_shape_def mbus_cfg_shape_def)
    (use preset_shape in \<open>auto simp: settings_shape_def comm_shape_def mbus_cfg_shape_def\<close>)

lemma recreate_fresh: "set_shape st \<Longrightarrow> fresh (fst (recreate_settings_dat env st d))"
proof -
  assume "set_shape st"
  then have a: "fresh (init_channel 0 st)" by (intro init_channel_fresh) simp_all
  then have b: "fresh (init_channel 1 (init_channel 0 st))"
    by (intro init_channel_fresh) (simp_all add: fresh_def)
  then have "fresh (init_channel 2 (init_channel 1 (init_channel 0 st)))"
    by (intro init_channel_fresh) (simp_all add: fresh_def)
  then show ?thesis by (simp add: recreate_settings_dat_def Let_def build_set_db_fresh)
qed

subsection \<open>Building the channels\<close>

definition build_all :: "settings \<Rightarrow> settings" where
  "build_all s = build_db 2 (build_db 1 (build_db 0 (s\<lparr>se_comm := commCfgNormalize (se_comm s)\<rparr>)))"

lemma defaults_ok: "pt_ok (pt_defaults p)" "ct_ok (ct_defaults c)" "ct_def_shape (ct_defaults c) = ct_def_shape c"
  by (simp_all add: pt_ok_def pt_defaults_def ct_ok_def ct_defaults_def nz_def ct_def_shape_def)

lemma defaults_same: "pt_ok p \<Longrightarrow> pt_defaults p = p" "ct_ok c \<Longrightarrow> ct_defaults c = c"
  by (simp_all add: pt_ok_def pt_defaults_def ct_ok_def ct_defaults_def nz_def)

text \<open>The channels built so far are in order.\<close>

definition built :: "nat \<Rightarrow> settings \<Rightarrow> bool" where
  "built n s \<longleftrightarrow> settings_shape s \<and> comm_ok (se_comm s) \<and> (n > 0 \<longrightarrow> se_freq s \<le> 1 \<and> ec_interval (se_etc s) \<le> 4) \<and>
     (\<forall>k < n. pt_ok (se_pt s ! k) \<and> ct_ok (se_ct s ! k))"

lemma comm_ok_shape: "comm_ok c \<Longrightarrow> comm_shape c"
  by (simp add: comm_ok_def)

lemma build_db_comm: "comm_ok (se_comm s) \<Longrightarrow> se_comm (build_db k s) = se_comm s"
  by (simp add: build_db_def Let_def commCfgNormalize_same)

lemma build_db_arrays:
  "se_pt (build_db k s) = (se_pt s)[k := pt_defaults (se_pt s ! k)]"
  "se_ct (build_db k s) = (se_ct s)[k := ct_defaults (se_ct s ! k)]"
  by (simp_all add: build_db_def Let_def put_pt_def put_ct_def)

lemma build_db_rest:
  "se_freq (build_db k s) = (if se_freq s = 50 \<or> se_freq s = 1 then 1 else 0)"
  "ec_interval (se_etc (build_db k s)) = (if ec_interval (se_etc s) > 4 then 0 else ec_interval (se_etc s))"
  "se_iom (build_db k s) = se_iom s" "etc_def_shape (se_etc (build_db k s)) = etc_def_shape (se_etc s)"
  by (simp_all add: build_db_def Let_def put_pt_def put_ct_def etc_def_shape_def)

lemma list_all_update: "list_all P xs \<Longrightarrow> P x \<Longrightarrow> list_all P (xs[k := x])"
  using set_update_subset_insert [of xs k x] by (auto simp: list_all_iff)

lemma build_db_built:
  assumes "built k s" "k < 3"
  shows "built (Suc k) (build_db k s)"
proof -
  have n: "length (se_pt s) = 9" "length (se_ct s) = 9" using assms(1) by (simp_all add: built_def settings_shape_def)
  have ct: "list_all ct_def_shape (se_ct s)" using assms(1) by (simp add: built_def settings_shape_def)
  then have "ct_def_shape (se_ct s ! k)" using n(2) assms(2) by (simp add: list_all_length)
  then have "list_all ct_def_shape ((se_ct s)[k := ct_defaults (se_ct s ! k)])"
    using list_all_update [OF ct] defaults_ok(3) by blast
  moreover have "list_all pt_def_shape ps" for ps by (simp add: list_all_iff pt_def_shapes)
  ultimately have "settings_shape (build_db k s)"
    using assms(1) n by (simp add: built_def settings_shape_def build_db_comm build_db_arrays build_db_rest)
  moreover have "pt_ok (se_pt (build_db k s) ! j) \<and> ct_ok (se_ct (build_db k s) ! j)" if "j < Suc k" for j
    using assms n that by (cases "j = k") (auto simp: built_def build_db_arrays defaults_ok)
  ultimately show ?thesis using assms by (auto simp: built_def build_db_comm build_db_rest)
qed

lemma build_all_built: "settings_shape s \<Longrightarrow> built 3 (build_all s)"
proof -
  assume s: "settings_shape s"
  have "comm_ok (commCfgNormalize (se_comm s))" using s commCfgNormalize_ok by (simp add: settings_shape_def)
  then have "built 0 (s\<lparr>se_comm := commCfgNormalize (se_comm s)\<rparr>)"
    using settings_shape_comm [OF s comm_ok_shape] by (simp add: built_def)
  then show ?thesis unfolding build_all_def
    using build_db_built [of 0] build_db_built [of 1] build_db_built [of 2] by (simp add: numeral_2_eq_2 numeral_3_eq_3)
qed

lemma norm_layout: "layout_of (s\<lparr>se_comm := commCfgNormalize (se_comm s)\<rparr>) = layout_of s"
  by (simp add: layout_of_def commCfgNormalize_def norm_mb_def)

lemma build_db_layout: "layout_of (build_db k s) = layout_of s"
  by (simp add: build_db_def Let_def layout_of_def commCfgNormalize_def norm_mb_def put_pt_def put_ct_def)

lemma take_3_all:
  assumes "length xs = 9" "\<forall>k < 3. P (xs ! k)" shows "list_all P (take 3 xs)"
  using assms by (simp add: list_all_length)

lemma built_ok: "built 3 s \<Longrightarrow> layout_of s = SETTINGS_LAYOUT_VER \<Longrightarrow> settings_ok s"
  by (simp add: built_def settings_ok_def take_3_all settings_shape_def)

lemma build_all_ok: "settings_shape s \<Longrightarrow> layout_of s = SETTINGS_LAYOUT_VER \<Longrightarrow> settings_ok (build_all s)"
  using built_ok [OF build_all_built] by (simp add: build_all_def build_db_layout norm_layout)

lemma list_update_nth_same: "xs ! k = x \<Longrightarrow> xs[k := x] = xs"
  by auto

lemma build_db_same:
  assumes "settings_ok s" "k < 3" shows "build_db k s = s"
proof -
  have k: "pt_ok (se_pt s ! k)" "ct_ok (se_ct s ! k)"
    using assms by (auto simp: settings_ok_def list_all_length settings_shape_def)
  have f: "(if se_freq s = 50 \<or> se_freq s = 1 then 1 else 0) = se_freq s"
  proof -
    have "unat (se_freq s) = 0 \<or> unat (se_freq s) = 1"
      using assms(1) by (auto simp: settings_ok_def word_le_nat_alt)
    then show ?thesis by (auto simp: word_unat_eq_iff)
  qed
  have e: "\<not> ec_interval (se_etc s) > 4" "comm_ok (se_comm s)"
    using assms(1) by (auto simp: settings_ok_def not_less)
  have u: "put_ct k ct_defaults s = s" "put_pt k pt_defaults s = s" "s\<lparr>se_freq := se_freq s\<rparr> = s"
    "s\<lparr>se_comm := se_comm s\<rparr> = s"
    using k by (simp_all add: put_ct_def put_pt_def defaults_same list_update_nth_same)
  show ?thesis
  proof (cases "k = 0")
    case True
    then show ?thesis
      using e u(1,2) [unfolded True] by (simp add: build_db_def Let_def f u(3,4) commCfgNormalize_same)
  next
    case False
    then show ?thesis using e by (simp add: build_db_def Let_def f u)
  qed
qed

lemma build_all_same: "settings_ok s \<Longrightarrow> build_all s = s"
  by (simp add: build_all_def build_db_same commCfgNormalize_same settings_ok_def)

lemma clamp_pqe_ok: "length w = 154 \<Longrightarrow> pqe_ok (clamp_pqe w)"
  by (simp add: pqe_ok_def clamp_pqe_def Let_def set_words_def not_less)

lemma fold_pqe:
  "sy_db (init_pqe_if_unset k st) = sy_db st" "sy_setting (init_pqe_if_unset k st) = sy_setting st"
  by (simp_all add: init_pqe_if_unset_def)

lemma init_pqe_shape: "set_shape st \<Longrightarrow> k < 3 \<Longrightarrow> set_shape (init_pqe_if_unset k st)"
  using set_shape_pqe [of st]
  by (auto simp: init_pqe_if_unset_def set_shape_def in_set_conv_nth nth_list_update)

lemma fold_alarm:
  "sy_db (buildAlarmSettings k st) = sy_db st" "sy_setting (buildAlarmSettings k st) = sy_setting st"
  "sy_pqe (buildAlarmSettings k st) = sy_pqe st"
  by (simp_all add: buildAlarmSettings_def Let_def)

lemma build_step:
  "sy_db (snd (buildSettings k st)) = build_db k (sy_db st)"
  "sy_pqe (snd (buildSettings k st)) = (sy_pqe st)[k := clamp_pqe (sy_pqe st ! k)]"
  by (simp_all add: buildSettings_def Let_def)

lemma build_channels_db: "sy_db (build_channels st) = build_all (sy_db st)" "sy_setting (build_channels st) = build_all (sy_db st)"
  by (simp_all add: build_channels_def Let_def fold_alarm build_step fold_pqe build_all_def)

lemma build_channels_pqe:
  assumes "set_shape st" "w \<in> set (sy_pqe (build_channels st))"
  shows "pqe_ok w"
proof -
  let ?s = "sy_db st\<lparr>se_comm := commCfgNormalize (se_comm (sy_db st))\<rparr>"
  let ?st = "st\<lparr>sy_db := ?s, sy_setting := ?s\<rparr>"
  let ?r = "fold init_pqe_if_unset [0, 1, 2] ?st"
  have "settings_shape ?s"
    using assms(1) commCfgNormalize_ok settings_shape_comm comm_ok_shape by (auto simp: set_shape_def settings_shape_def)
  then have "set_shape ?st" using assms(1) by (simp add: set_shape_def)
  then have r: "set_shape ?r" by (simp add: init_pqe_shape)
  have p: "sy_pqe (build_channels st) = fold (\<lambda>k q. q[k := clamp_pqe (q ! k)]) [0, 1, 2] (sy_pqe ?r)"
    by (simp add: build_channels_def Let_def fold_alarm build_step)
  have p3: "length (sy_pqe ?r) = 3" using r unfolding set_shape_def by blast
  have p154: "length (sy_pqe ?r ! i) = 154" if "i < 3" for i using set_shape_pqe [OF r that] .
  obtain a b c where abc: "sy_pqe ?r = [a, b, c]"
    using p3 by (auto simp: numeral_3_eq_3 length_Suc_conv)
  then have "length a = 154" "length b = 154" "length c = 154" using p154 [of 0] p154 [of 1] p154 [of 2] by (simp_all only: abc) simp_all
  then show ?thesis
    using assms(2) clamp_pqe_ok p abc by auto
qed

lemma build_channels_length:
  assumes "set_shape st" shows "length (sy_pqe (build_channels st)) = 3"
proof -
  have "length (sy_pqe (init_pqe_if_unset k s)) = length (sy_pqe s)" for k s
    by (simp add: init_pqe_if_unset_def)
  then show ?thesis using assms by (simp add: build_channels_def Let_def fold_alarm build_step set_shape_def)
qed

subsection \<open>Properties of the start\<close>

lemma read_settings_fresh:
  assumes "set_shape st" "read_settings env st d = (r, st1, d1)" shows "fresh st1"
proof (cases "fopen_rb env SETTING_FILE d")
  case None
  then show ?thesis using assms recreate_fresh [OF assms(1), of env d] by (simp add: read_settings_def)
next
  case (Some bs)
  show ?thesis
  proof (cases "length bs = SETTINGS_SIZE")
    case False
    then show ?thesis using Some assms recreate_fresh [OF assms(1), of env d] by (simp add: read_settings_def)
  next
    case True
    have sh: "set_shape (st\<lparr>sy_db := settings_parse bs\<rparr>)"
      using assms(1) settings_parse_shape [OF True] by (simp add: set_shape_def)
    then show ?thesis
      using Some assms(2) True recreate_fresh [OF sh, of env d] by (auto simp: read_settings_def fresh_def Let_def split: if_splits)
  qed
qed

text \<open>What \<open>loadSettings\<close> alone leaves, before the file of the event levels is read.\<close>

lemma load_leaves_usable:
  assumes "set_shape st" and "loadSettings env st d = (r, st', d')"
  shows "settings_ok (sy_db st') \<and> sy_setting st' = sy_db st' \<and> (\<forall>w \<in> set (sy_pqe st'). pqe_ok w) \<and>
    length (sy_pqe st') = 3"
proof -
  obtain st1 where r: "read_settings env st d = (r, st1, d')" "st' = build_channels st1"
    using assms(2) by (auto simp: loadSettings_def split: prod.splits)
  have f: "fresh st1" by (rule read_settings_fresh [OF assms(1) r(1)])
  then have "settings_ok (build_all (sy_db st1))" by (simp add: fresh_def set_shape_def build_all_ok)
  then show ?thesis
    using f build_channels_pqe [of st1] build_channels_length [of st1] by (auto simp: r(2) build_channels_db fresh_def)
qed

text \<open>Which of the blocks a short file replaces.\<close>

lemma read_blocks_at:
  "sorted ks \<Longrightarrow> distinct ks \<Longrightarrow> i < length ks \<Longrightarrow> ks ! i < length pq \<Longrightarrow>
   (308 * (i + 1) \<le> length bs \<longrightarrow> snd (read_blocks env ks bs pq) ! (ks ! i) = le_words 2 154 (take 308 (drop (308 * i) bs))) \<and>
   (length bs < 308 * i \<longrightarrow> snd (read_blocks env ks bs pq) ! (ks ! i) = pq ! (ks ! i))"
proof (induction ks arbitrary: i bs pq)
  case (Cons k ks)
  have other: "k \<notin> set ks" using Cons.prems(2) by simp
  have keep: "snd (read_blocks env js cs qs) ! k = qs ! k" if "k \<notin> set js" for js cs qs
    using that by (induction js arbitrary: cs qs) simp_all
  show ?case
  proof (cases i)
    case 0
    then show ?thesis using other Cons.prems(4) by (simp add: keep)
  next
    case (Suc j)
    have j: "j < length ks" "ks ! j < length pq" "ks ! j \<noteq> k" using Cons.prems Suc other nth_mem [of j ks] by auto
    have IH: "(308 * (j + 1) \<le> length cs \<longrightarrow> snd (read_blocks env ks cs qs) ! (ks ! j) = le_words 2 154 (take 308 (drop (308 * j) cs))) \<and>
        (length cs < 308 * j \<longrightarrow> snd (read_blocks env ks cs qs) ! (ks ! j) = qs ! (ks ! j))" if "length qs = length pq" for cs qs
      using Cons.IH [of j qs cs] Cons.prems(1,2) j that by simp
    have d: "drop (308 * i) bs = drop (308 * j) (drop 308 bs)" using Suc by (simp add: add.commute)
    show ?thesis using IH [of "pq[k := le_words 2 154 (take 308 bs)]" "drop 308 bs"] Suc j d by (auto simp: not_less)
  qed
qed simp

text \<open>C14. Whatever the flash holds (no settings file, one of another size or another layout, or a
  file of the right size with arbitrary bytes), the start ends with settings every part of the
  program can use: terminated host name, broker, community and passwords, ports and unit number
  other than 0, switches that are 0 or 1, a publishing interval of 10 to 300 seconds, a time zone
  that exists, transformer and current-transformer values of all three channels other than 0,
  and the same block in the registers the masters see. The event levels of a channel are inside
  their limits when the file of the event levels cannot be opened, is shorter than its mark, has
  another mark or ends before the channel's block; a block that is in that file with all its bytes
  is taken over as it stands, inside the limits or not.\<close>

theorem loaded_settings_are_usable:
  assumes "set_shape st" and "start_settings env st d = (r, st', d')"
    and "blocks = (case fopen_rb env PQE_DEF_FILE d' of None \<Rightarrow> None
           | Some bs \<Rightarrow> if length bs \<ge> 4 \<and> le_word (take 4 bs) = PQE_DEF_MAGIC then Some (drop 4 bs) else None)"
  shows "settings_ok (sy_db st') \<and> sy_setting st' = sy_db st' \<and> length (sy_pqe st') = 3 \<and>
    (case blocks of
       None \<Rightarrow> \<forall>w \<in> set (sy_pqe st'). pqe_ok w
     | Some bs \<Rightarrow> \<forall>k < 3.
         (length bs < 308 * k \<longrightarrow> pqe_ok (sy_pqe st' ! k)) \<and>
         (308 * (k + 1) \<le> length bs \<longrightarrow> sy_pqe st' ! k = le_words 2 154 (take 308 (drop (308 * k) bs))))"
proof -
  obtain st1 where l: "loadSettings env st d = (r, st1, d')"
    and st': "st' = st1\<lparr>sy_pqe := snd (loadPqeDef env (sy_pqe st1) d')\<rparr>"
    using assms(2) by (auto simp: start_settings_def split: prod.splits)
  note ok = load_leaves_usable [OF assms(1) l]
  have pq: "snd (loadPqeDef env (sy_pqe st1) d') = (case blocks of None \<Rightarrow> sy_pqe st1
      | Some bs \<Rightarrow> snd (read_blocks env [0, 1, 2] bs (sy_pqe st1)))"
    by (auto simp: loadPqeDef_def assms(3) split: option.split)
  have len: "length (snd (read_blocks env ks bs pq)) = length pq" for ks bs pq
    by (induction ks arbitrary: bs pq) simp_all
  show ?thesis
  proof (cases blocks)
    case None
    then show ?thesis using ok by (simp add: st' pq)
  next
    case (Some bs)
    have "(308 * (k + 1) \<le> length bs \<longrightarrow> sy_pqe st' ! k = le_words 2 154 (take 308 (drop (308 * k) bs))) \<and>
        (length bs < 308 * k \<longrightarrow> pqe_ok (sy_pqe st' ! k))" if "k < 3" for k
    proof -
      have "[0, 1, 2 :: nat] ! k = k" using that by (auto simp: less_Suc_eq numeral_3_eq_3 numeral_2_eq_2)
      then show ?thesis
        using read_blocks_at [of "[0, 1, 2]" k "sy_pqe st1" bs env] that ok nth_mem [of k "sy_pqe st1"] Some by (simp add: st' pq)
    qed
    then show ?thesis using ok Some len by (simp add: st' pq)
  qed
qed

text \<open>C13. Settings survive a restart: whatever values the masters have written into the settings
  registers (the firmware's layout number, register 7159, included), once they are saved the next
  start reads the file as valid, leaves it alone, and comes up with exactly those values, brought
  into range; settings that were in range come back unchanged.\<close>

theorem settings_survive_restart:
  assumes "settings_shape (sy_setting st)" "fo_write env SETTING_FILE" "fo_read env SETTING_FILE"
    and "save_branch env st d = (st1, d1)" and "set_shape st0"
  shows "\<exists>st2. loadSettings env st0 d1 = (0, st2, d1) \<and>
    sy_db st2 = build_all (put_layout SETTINGS_LAYOUT_VER (sy_setting st)) \<and>
    (settings_ok (sy_setting st) \<longrightarrow> sy_db st2 = sy_setting st)"
proof -
  let ?s = "put_layout SETTINGS_LAYOUT_VER (sy_setting st)"
  have sh: "settings_shape ?s"
    using assms(1) by (simp add: put_layout_def settings_shape_def comm_shape_def mbus_cfg_shape_def)
  have "map_of d1 SETTING_FILE = Some (settings_bytes ?s)"
    using assms(2,4)
    by (auto simp: save_branch_def Let_def saveSettings_def storePqeDef_def fwrite_wb_def map_of_fwrite_all)
  then have f: "fopen_rb env SETTING_FILE d1 = Some (settings_bytes ?s)"
    using assms(3) by (simp add: fopen_rb_def)
  have "read_settings env st0 d1 = (0, st0\<lparr>sy_db := ?s\<rparr>, d1)"
    by (simp add: read_settings_def f length_settings_bytes [OF sh] settings_parse_bytes [OF sh])
      (simp add: layout_of_def put_layout_def)
  then have l: "loadSettings env st0 d1 = (0, build_channels (st0\<lparr>sy_db := ?s\<rparr>), d1)"
    by (simp add: loadSettings_def)
  have "settings_ok (sy_setting st) \<Longrightarrow> ?s = sy_setting st"
    by (simp add: settings_ok_def layout_of_def put_layout_def)
  then show ?thesis using l build_all_same [of ?s] by (auto simp: build_channels_db)
qed

definition all_files :: file_env where
  "all_files = \<lparr>fo_read = (\<lambda>_. True), fo_write = (\<lambda>_. True), fo_partial = (\<lambda>_ w. w)\<rparr>"

definition reset_memory :: set_state where
  "reset_memory = \<lparr>sy_db = settings0, sy_setting = settings0, sy_pqe = replicate 3 (replicate 154 0),
     sy_saveSetting = 0, sy_alarm = replicate 3 demo_alarm_meter\<rparr>"

lemma reset_memory_shape: "set_shape reset_memory"
  by (simp add: set_shape_def reset_memory_def settings0_shape)

text \<open>A settings file of arbitrary bytes, and no file of the event levels that can be read.\<close>

definition no_levels :: file_env where
  "no_levels = all_files\<lparr>fo_read := (\<lambda>nm. nm \<noteq> PQE_DEF_FILE)\<rparr>"

theorem loaded_settings_are_usable_witness:
  "\<exists>r st' d'. start_settings no_levels reset_memory [(SETTING_FILE, replicate SETTINGS_SIZE 255)] = (r, st', d') \<and>
    settings_ok (sy_db st') \<and> sy_setting st' = sy_db st' \<and> (\<forall>w \<in> set (sy_pqe st'). pqe_ok w)"
proof -
  obtain r st' d' where l: "start_settings no_levels reset_memory [(SETTING_FILE, replicate SETTINGS_SIZE 255)] = (r, st', d')"
    by (cases "start_settings no_levels reset_memory [(SETTING_FILE, replicate SETTINGS_SIZE 255)]") blast
  have "fopen_rb no_levels PQE_DEF_FILE d' = None" by (simp add: fopen_rb_def no_levels_def)
  then show ?thesis using loaded_settings_are_usable [OF reset_memory_shape l refl] l by simp
qed

theorem settings_survive_restart_witness:
  "\<exists>st1 d1 st2. save_branch all_files reset_memory [] = (st1, d1) \<and> loadSettings all_files reset_memory d1 = (0, st2, d1) \<and>
    sy_db st2 = build_all (put_layout SETTINGS_LAYOUT_VER (sy_setting reset_memory))"
proof -
  obtain st1 d1 where s: "save_branch all_files reset_memory [] = (st1, d1)"
    by (cases "save_branch all_files reset_memory []") blast
  have e: "settings_shape (sy_setting reset_memory)" "fo_write all_files SETTING_FILE" "fo_read all_files SETTING_FILE"
    by (simp_all add: reset_memory_def settings0_shape all_files_def)
  show ?thesis using settings_survive_restart [OF e s reset_memory_shape] s by blast
qed

lemma fdelete_map_of: "map_of (fdelete nm d) = (map_of d)(nm := None)"
  by (induction d) (auto simp: fdelete_def fun_eq_iff)

lemma read_blocks_stored:
  assumes "length a = 154" "length b = 154" "length c = 154" "length pq = 3"
  shows "read_blocks env [0, 1, 2] (le_array 2 a @ le_array 2 b @ le_array 2 c) pq = (0, [a, b, c])"
proof -
  obtain x y z where "pq = [x, y, z]" using assms(4) by (auto simp: numeral_3_eq_3 length_Suc_conv)
  then show ?thesis using assms(1-3) by simp
qed

lemma loadPqeDef_stored:
  assumes "length pq = 3" "\<forall>w \<in> set pq. length w = 154" "length old = 3" "fo_read env PQE_DEF_FILE"
    and "map_of d PQE_DEF_FILE = Some (le_bytes 4 PQE_DEF_MAGIC @ concat (map (le_array 2) pq))"
  shows "loadPqeDef env old d = (0, pq)"
proof -
  obtain a b c where pq: "pq = [a, b, c]" using assms(1) by (auto simp: numeral_3_eq_3 length_Suc_conv)
  have "fopen_rb env PQE_DEF_FILE d = Some (le_bytes 4 PQE_DEF_MAGIC @ (le_array 2 a @ le_array 2 b @ le_array 2 c))"
    using assms(4,5) by (simp add: fopen_rb_def pq)
  then show ?thesis
    using assms(2) read_blocks_stored [of a b c old env] assms(3) by (simp add: loadPqeDef_def pq)
qed

text \<open>A factory reset does not reset the settings of events, transients and trends: after the
  reset and the restart the settings block is the default one, but the event settings are those
  last saved to their own file, which the reset neither deletes nor rewrites and which the start
  reads after \<open>buildSettings\<close> has applied its limits; so they come back as saved even when they are
  out of range.\<close>

theorem factory_reset_keeps_event_settings:
  assumes "set_shape st" "set_shape st0" "\<forall>nm. fo_read env nm \<and> fo_write env nm"
    and "length pq = 3" "\<forall>w \<in> set pq. length w = 154"
    and "storePqeDef env pq d = (0, d0)" and "reset_branch env st d0 = (st1, d1)"
  shows "\<exists>st2. start_settings env st0 d1 = (0, st2, d1) \<and> sy_pqe st2 = pq \<and>
    sy_db st2 = build_all (sy_db (build_set_db (fold init_channel [0, 1, 2] st)))"
proof -
  let ?s = "sy_db (build_set_db (fold init_channel [0, 1, 2] st))"
  have "fresh (build_set_db (fold init_channel [0, 1, 2] st))"
    using recreate_fresh [OF assms(1), of env d] by (simp add: recreate_settings_dat_def Let_def)
  then have s: "settings_shape ?s" "layout_of ?s = SETTINGS_LAYOUT_VER" by (simp_all add: fresh_def set_shape_def)
  have set: "sy_setting (build_set_db st') = sy_db (build_set_db st')" for st'
    by (simp add: build_set_db_def commit_db_settings_def Let_def)
  have "d1 = fdelete ''sys_snmp.d'' (fwrite_all SETTING_FILE (settings_bytes ?s) d0)"
    using assms(3,7) by (simp add: reset_branch_def Let_def saveSettings_def fwrite_wb_def set)
  then have d1: "map_of d1 = (map_of d0)(SETTING_FILE \<mapsto> settings_bytes ?s, ''sys_snmp.d'' := None)"
    by (simp add: fdelete_map_of map_of_fwrite_all)
  have d0: "map_of d0 PQE_DEF_FILE = Some (le_bytes 4 PQE_DEF_MAGIC @ concat (map (le_array 2) pq))"
    using assms(3,6) by (auto simp: storePqeDef_def fwrite_wb_def map_of_fwrite_all)
  have "fopen_rb env SETTING_FILE d1 = Some (settings_bytes ?s)"
    using assms(3) d1 by (simp add: fopen_rb_def)
  then have "read_settings env st0 d1 = (0, st0\<lparr>sy_db := ?s\<rparr>, d1)"
    using s by (simp add: read_settings_def length_settings_bytes settings_parse_bytes)
  then have l: "loadSettings env st0 d1 = (0, build_channels (st0\<lparr>sy_db := ?s\<rparr>), d1)"
    by (simp add: loadSettings_def)
  have b: "set_shape (st0\<lparr>sy_db := ?s\<rparr>)" using assms(2) s by (simp add: set_shape_def)
  have "length (sy_pqe (build_channels (st0\<lparr>sy_db := ?s\<rparr>))) = 3" by (rule build_channels_length [OF b])
  then have "loadPqeDef env (sy_pqe (build_channels (st0\<lparr>sy_db := ?s\<rparr>))) d1 = (0, pq)"
    using loadPqeDef_stored [OF assms(4,5)] assms(3) d0 d1 by simp
  then show ?thesis using l by (simp add: start_settings_def build_channels_db)
qed

text \<open>Event settings out of every range: all registers 999.\<close>

theorem factory_reset_keeps_event_settings_witness:
  "\<exists>d0 st1 d1 st2. storePqeDef all_files (replicate 3 (replicate 154 999)) [] = (0, d0) \<and>
    reset_branch all_files reset_memory d0 = (st1, d1) \<and>
    start_settings all_files reset_memory d1 = (0, st2, d1) \<and> sy_pqe st2 = replicate 3 (replicate 154 999)"
proof -
  have e: "\<forall>nm. fo_read all_files nm \<and> fo_write all_files nm" "length (replicate 3 (replicate 154 (999 :: u16))) = 3"
    "\<forall>w \<in> set (replicate 3 (replicate 154 (999 :: u16))). length w = 154"
    by (simp_all add: all_files_def)
  obtain d0 where d: "storePqeDef all_files (replicate 3 (replicate 154 999)) [] = (0, d0)"
    by (simp add: storePqeDef_def fwrite_wb_def all_files_def)
  obtain st1 d1 where r: "reset_branch all_files reset_memory d0 = (st1, d1)"
    by (cases "reset_branch all_files reset_memory d0") blast
  show ?thesis
    using factory_reset_keeps_event_settings [OF reset_memory_shape reset_memory_shape e d r] d r by blast
qed

end
