(* ===== verification/Feeder.thy ===== *)
theory Feeder
  imports Settings
begin

text \<open>
  The feeders (\<open>meter.c\<close>, \<open>ade9000.c\<close>, \<open>modbus.c\<close>): up to nine logical feeders share the three
  chips. \<open>buildFeederMap\<close> allots each feeder a chip, or one current input of a chip if it is
  single-phase; the voltage redirection of the chips, the choice of the calibration and the
  simple register map of the feeders all follow that allotment.
\<close>

section \<open>The allotment\<close>

record feeder =
  fd_meter :: nat
  fd_slot :: nat
  fd_vphase :: int
  fd_is3ph :: bool
  fd_valid :: bool

definition no_feeder :: feeder where
  "no_feeder = \<lparr>fd_meter = 0, fd_slot = 0, fd_vphase = 0, fd_is3ph = False, fd_valid = False\<rparr>"

abbreviation (input) NOT_USED :: u16 where "NOT_USED \<equiv> 0"

definition IS_WM_1LN1CT :: "u16 \<Rightarrow> bool" where
  "IS_WM_1LN1CT w \<longleftrightarrow> 4 \<le> w \<and> w \<le> 6"

definition countFeeders :: "pt_def list \<Rightarrow> nat" where
  "countFeeders pt = length (filter (\<lambda>p. pt_wiring p \<noteq> NOT_USED) pt)"

text \<open>
  The loop state is the number of chips opened so far, the next free input of the chip in hand
  and whether that chip is split into single-phase feeders; \<open>meterIdx\<close> of the code is the number
  of opened chips less one.
\<close>

fun allot :: "nat \<Rightarrow> nat \<Rightarrow> bool \<Rightarrow> u16 list \<Rightarrow> feeder list" where
  "allot n slot single [] = []"
| "allot n slot single (wm # wms) =
     (if IS_WM_1LN1CT wm
      then let (n', slot') = (if \<not> single \<or> slot \<ge> 3 then (n + 1, 0) else (n, slot))
           in \<lparr>fd_meter = n' - 1, fd_slot = slot', fd_vphase = int (unat wm) - 4, fd_is3ph = False,
                fd_valid = n' - 1 < 3\<rparr> # allot n' (slot' + 1) True wms
      else \<lparr>fd_meter = n, fd_slot = 0, fd_vphase = - 1, fd_is3ph = True, fd_valid = n < 3\<rparr> #
             allot (n + 1) 3 False wms)"

definition buildFeederMap :: "settings \<Rightarrow> nat \<times> feeder list" where
  "buildFeederMap s =
     (let nfeeder = min (unat (se_feeder_cnt s)) 9;
          m = allot 0 3 False (map pt_wiring (take nfeeder (se_pt s)))
      in (length (filter fd_valid m), m @ replicate (9 - nfeeder) no_feeder))"

section \<open>Users of the allotment\<close>

subsection \<open>Voltage redirection and calibration\<close>

definition ADC_RDR_DEFAULT :: u32 where "ADC_RDR_DEFAULT = 0x001FFFFF"

definition vcode :: "int \<Rightarrow> u32" where
  "vcode p = (if p = 0 then 4 else if p = 1 then 5 else 6)"

definition rdr_field :: "nat \<Rightarrow> u32 \<Rightarrow> u32 \<Rightarrow> u32" where
  "rdr_field slot code v = (v AND NOT (push_bit (12 + 3 * slot) 7)) OR push_bit (12 + 3 * slot) code"

definition rdr_step :: "nat \<Rightarrow> feeder \<Rightarrow> u32 \<Rightarrow> u32" where
  "rdr_step chip f v =
     (if \<not> fd_valid f \<or> fd_is3ph f \<or> fd_meter f \<noteq> chip then v
      else rdr_field (fd_slot f) (vcode (fd_vphase f)) v)"

definition adcRedirectWord :: "settings \<Rightarrow> nat \<Rightarrow> u32" where
  "adcRedirectWord s chip = fold (rdr_step chip) (snd (buildFeederMap s)) ADC_RDR_DEFAULT"

text \<open>
  \<open>uGainSel\<close> looks up the feeder on input \<open>j\<close> of a chip: the result tells whether the line voltages
  count, the phase \<open>z\<close> that the input reads and the range of its transformer.
\<close>

definition on_slot :: "nat \<Rightarrow> nat \<Rightarrow> feeder \<Rightarrow> bool" where
  "on_slot chip j f \<longleftrightarrow> fd_valid f \<and> fd_meter f = chip \<and> (fd_is3ph f \<or> fd_slot f = j)"

definition uGainSel :: "settings \<Rightarrow> nat \<Rightarrow> nat \<Rightarrow> bool \<times> int \<times> nat" where
  "uGainSel s chip j =
     (case find (\<lambda>f. on_slot chip j (snd f)) (enumerate 0 (snd (buildFeederMap s))) of
        None \<Rightarrow> (False, int j, 0)
      | Some (k, f) \<Rightarrow>
          (fd_is3ph f \<and> (pt_wiring (se_pt s ! k) = 3 \<or> pt_wiring (se_pt s ! k) = 2),
           if fd_is3ph f then int j else fd_vphase f,
           if pt_PT2 (se_pt s ! k) < 150 then 1 else 0))"

subsection \<open>The simple register map\<close>

record metering =
  mt_utc :: u32
  mt_Temp :: rat
  mt_Freq :: rat
  mt_U :: "rat list"
  mt_Upp :: "rat list"
  mt_Ubal :: "rat list"
  mt_Uangle :: "rat list"
  mt_I :: "rat list"
  mt_In :: rat
  mt_Ibal :: "rat list"
  mt_Iangle :: "rat list"
  mt_P :: "rat list"
  mt_Q :: "rat list"
  mt_S :: "rat list"
  mt_PF :: "rat list"
  mt_THD_U :: "rat list"
  mt_THD_I :: "rat list"
  mt_TDD_I :: "rat list"

record meter_info =
  mi_HeartBit :: u16
  mi_hwVer :: u16
  mi_fw :: "u16 list"
  mi_sn :: "u16 list"
  mi_feeder_cnt :: u16

record smp_common =
  sq_utc :: u32
  sq_heartBit :: u16
  sq_hwModel :: u16
  sq_hwVer :: u16
  sq_fw :: "u16 list"
  sq_serialNum :: u16
  sq_temp :: rat

record smp_channel =
  sh_cbType :: u16
  sh_cbStatus :: u16
  sh_Freq :: rat
  sh_U :: "rat list"
  sh_Upp :: "rat list"
  sh_Uangle :: "rat list"
  sh_I :: "rat list"
  sh_In :: rat
  sh_Iangle :: "rat list"
  sh_P :: "rat list"
  sh_tot :: "rat list"
  sh_egy :: "u32 list"
  sh_Uunb :: rat
  sh_Iunb :: rat
  sh_THD_U :: "rat list"
  sh_THD_I :: "rat list"
  sh_TDD_I :: "rat list"

record smp_harm =
  hm_U :: "u16 list list"
  hm_I :: "u16 list list"

record smp_map =
  sm_common :: smp_common
  sm_ch :: "smp_channel list"
  sm_harm :: "smp_harm list"

record smp_src =
  ss_meter :: "nat \<Rightarrow> metering"
  ss_egy :: "nat \<Rightarrow> egy_meter"
  ss_hdU :: "nat \<Rightarrow> u16 list list"
  ss_hdI :: "nat \<Rightarrow> u16 list list"
  ss_I_start :: "nat \<Rightarrow> rat"

record smp_state =
  sw_db :: settings
  sw_info :: meter_info
  sw_buf :: "bool \<Rightarrow> smp_map"
  sw_cur :: bool

text \<open>\<open>memset\<close> of a channel and of its harmonics.\<close>

definition smp_channel0 :: smp_channel where
  "smp_channel0 = \<lparr>sh_cbType = 0, sh_cbStatus = 0, sh_Freq = 0, sh_U = replicate 4 0, sh_Upp = replicate 4 0,
     sh_Uangle = replicate 3 0, sh_I = replicate 4 0, sh_In = 0, sh_Iangle = replicate 3 0, sh_P = replicate 3 0,
     sh_tot = replicate 4 0, sh_egy = replicate 5 0, sh_Uunb = 0, sh_Iunb = 0, sh_THD_U = replicate 3 0,
     sh_THD_I = replicate 3 0, sh_TDD_I = replicate 3 0\<rparr>"

definition smp_harm0 :: smp_harm where
  "smp_harm0 = \<lparr>hm_U = replicate 3 (replicate 41 0), hm_I = replicate 3 (replicate 41 0)\<rparr>"

definition smpFillCommon :: "smp_src \<Rightarrow> meter_info \<Rightarrow> smp_common" where
  "smpFillCommon src pinf =
     \<lparr>sq_utc = mt_utc (ss_meter src 0), sq_heartBit = mi_HeartBit pinf, sq_hwModel = 0, sq_hwVer = mi_hwVer pinf,
       sq_fw = mi_fw pinf, sq_serialNum = mi_sn pinf ! 0, sq_temp = mt_Temp (ss_meter src 0)\<rparr>"

text \<open>
  The five energies of a feeder, from group \<open>grp\<close> of the registers: 0 for the sum of the chip, 1
  to 3 for its phases.
\<close>

definition smp_energy :: "egy_meter \<Rightarrow> nat \<Rightarrow> u32 list" where
  "smp_energy e grp =
     [em_total32 e ! egy_val 0 0 grp, em_this32 e ! egy_val 0 0 grp, em_last32 e ! egy_val 0 0 grp,
      em_total32 e ! egy_val 1 0 grp, em_total32 e ! egy_val 2 0 grp]"

definition smpFill3ph :: "smp_src \<Rightarrow> nat \<Rightarrow> smp_channel \<times> smp_harm" where
  "smpFill3ph src m =
     (let pm = ss_meter src m
      in (\<lparr>sh_cbType = 0, sh_cbStatus = 0, sh_Freq = mt_Freq pm, sh_U = take 4 (mt_U pm), sh_Upp = take 4 (mt_Upp pm),
           sh_Uangle = take 3 (mt_Uangle pm), sh_I = take 4 (mt_I pm), sh_In = mt_In pm,
           sh_Iangle = take 3 (mt_Iangle pm), sh_P = take 3 (mt_P pm),
           sh_tot = [mt_P pm ! 3, mt_Q pm ! 3, mt_S pm ! 3, mt_PF pm ! 3],
           sh_egy = smp_energy (ss_egy src m) 0, sh_Uunb = mt_Ubal pm ! 0, sh_Iunb = mt_Ibal pm ! 0,
           sh_THD_U = take 3 (mt_THD_U pm), sh_THD_I = take 3 (mt_THD_I pm), sh_TDD_I = take 3 (mt_TDD_I pm)\<rparr>,
          \<lparr>hm_U = map (take 41) (take 3 (ss_hdU src m)), hm_I = map (take 41) (take 3 (ss_hdI src m))\<rparr>))"

definition smpFill1ph :: "smp_src \<Rightarrow> nat \<Rightarrow> nat \<Rightarrow> nat \<Rightarrow> smp_channel \<times> smp_harm" where
  "smpFill1ph src m slot p =
     (let pm = ss_meter src m; at3 = (\<lambda>xs. (replicate 3 0)[p := xs ! slot]); d = smp_channel0
      in (d\<lparr>sh_Freq := mt_Freq pm, sh_U := (replicate 4 0)[p := mt_U pm ! slot, 3 := mt_U pm ! slot],
            sh_Uangle := at3 (mt_Uangle pm), sh_I := (replicate 4 0)[p := mt_I pm ! slot, 3 := mt_I pm ! slot],
            sh_Iangle := at3 (mt_Iangle pm), sh_P := at3 (mt_P pm),
            sh_tot := [mt_P pm ! slot, mt_Q pm ! slot, mt_S pm ! slot, mt_PF pm ! slot],
            sh_egy := smp_energy (ss_egy src m) (1 + slot),
            sh_THD_U := at3 (mt_THD_U pm), sh_THD_I := at3 (mt_THD_I pm), sh_TDD_I := at3 (mt_TDD_I pm)\<rparr>,
          smp_harm0\<lparr>hm_U := (hm_U smp_harm0)[p := take 41 (ss_hdU src m ! slot)],
                    hm_I := (hm_I smp_harm0)[p := take 41 (ss_hdI src m ! slot)]\<rparr>))"

definition smp_feeder :: "smp_src \<Rightarrow> settings \<Rightarrow> nat \<Rightarrow> feeder \<Rightarrow> smp_channel \<times> smp_harm" where
  "smp_feeder src s k f =
     (if \<not> fd_valid f then (smp_channel0, smp_harm0)
      else let (d, h) = (if fd_is3ph f then smpFill3ph src (fd_meter f)
                         else smpFill1ph src (fd_meter f) (fd_slot f) (nat (fd_vphase f)))
           in (d\<lparr>sh_cbType := pt_wiring (se_pt s ! k),
                 sh_cbStatus := (if sh_I d ! 3 \<ge> ss_I_start src (fd_meter f) then 1 else 0)\<rparr>, h))"

definition copySimpleMap :: "smp_src \<Rightarrow> smp_state \<Rightarrow> smp_state" where
  "copySimpleMap src st =
     (let dst = (\<not> sw_cur st);
          n = of_nat (countFeeders (se_pt (sw_db st)));
          s = (sw_db st)\<lparr>se_feeder_cnt := n\<rparr>; inf1 = (sw_info st)\<lparr>mi_feeder_cnt := n\<rparr>;
          rows = map (\<lambda>(k, f). smp_feeder src s k f) (enumerate 0 (snd (buildFeederMap s)));
          m = \<lparr>sm_common = smpFillCommon src inf1, sm_ch = map fst rows, sm_harm = map snd rows\<rparr>
      in st\<lparr>sw_db := s, sw_info := inf1, sw_buf := (sw_buf st)(dst := m), sw_cur := dst\<rparr>)"

section \<open>No two feeders share an input\<close>

text \<open>One feeder comes before another on the chips.\<close>

definition before :: "feeder \<Rightarrow> feeder \<Rightarrow> bool" where
  "before f g \<longleftrightarrow> fd_meter f < fd_meter g \<or>
     (fd_meter f = fd_meter g \<and> \<not> fd_is3ph f \<and> \<not> fd_is3ph g \<and> fd_slot f < fd_slot g)"

definition from_here :: "nat \<Rightarrow> nat \<Rightarrow> bool \<Rightarrow> feeder \<Rightarrow> bool" where
  "from_here n slot single f \<longleftrightarrow> n \<le> fd_meter f \<or>
     (single \<and> 0 < n \<and> fd_meter f = n - 1 \<and> \<not> fd_is3ph f \<and> slot \<le> fd_slot f)"

definition feeder_ok :: "feeder \<Rightarrow> bool" where
  "feeder_ok f \<longleftrightarrow> fd_slot f < 3 \<and> fd_valid f = (fd_meter f < 3) \<and>
     (if fd_is3ph f then fd_slot f = 0 \<and> fd_vphase f = - 1 else 0 \<le> fd_vphase f \<and> fd_vphase f \<le> 2)"

lemma phase_range: "IS_WM_1LN1CT w \<Longrightarrow> 0 \<le> int (unat w) - 4 \<and> int (unat w) - 4 \<le> 2"
  by (auto simp: IS_WM_1LN1CT_def word_le_def)

lemma allot_shape:
  assumes "single \<Longrightarrow> 0 < n"
  shows "(\<forall>f \<in> set (allot n slot single wms). from_here n slot single f \<and> feeder_ok f) \<and>
    sorted_wrt before (allot n slot single wms)"
  using assms
proof (induction n slot single wms rule: allot.induct)
  case (2 n slot single wm wms)
  show ?case
  proof (cases "IS_WM_1LN1CT wm")
    case True
    let ?n = "if \<not> single \<or> slot \<ge> 3 then n + 1 else n" and ?slot = "if \<not> single \<or> slot \<ge> 3 then 0 else slot"
    have ih: "(\<forall>f \<in> set (allot ?n (?slot + 1) True wms). from_here ?n (?slot + 1) True f \<and> feeder_ok f) \<and>
        sorted_wrt before (allot ?n (?slot + 1) True wms)"
      using 2(1) [OF True, of "(?n, ?slot)" ?n ?slot] 2(3) by (auto split: if_splits)
    have eq: "allot n slot single (wm # wms) =
        \<lparr>fd_meter = ?n - 1, fd_slot = ?slot, fd_vphase = int (unat wm) - 4, fd_is3ph = False, fd_valid = ?n - 1 < 3\<rparr> #
        allot ?n (?slot + 1) True wms"
      using True by simp
    have h: "from_here n slot single f" if "from_here ?n (?slot + 1) True f" for f
      using that 2(3) by (auto simp: from_here_def split: if_splits)
    let ?f = "\<lparr>fd_meter = ?n - 1, fd_slot = ?slot, fd_vphase = int (unat wm) - 4, fd_is3ph = False, fd_valid = ?n - 1 < 3\<rparr>"
    have "0 < ?n" using 2(3) by auto
    then have b: "before ?f f" if "from_here ?n (?slot + 1) True f" for f
      using that unfolding from_here_def before_def by fastforce
    have "from_here n slot single ?f \<and> feeder_ok ?f"
      using phase_range [OF True] 2(3) by (simp add: from_here_def feeder_ok_def)
    then show ?thesis unfolding eq using ih h b by simp
  next
    case False
    then have ih: "(\<forall>f \<in> set (allot (n + 1) 3 False wms). from_here (n + 1) 3 False f \<and> feeder_ok f) \<and>
        sorted_wrt before (allot (n + 1) 3 False wms)"
      using 2(2) by simp
    moreover have "before \<lparr>fd_meter = n, fd_slot = 0, fd_vphase = - 1, fd_is3ph = True, fd_valid = n < 3\<rparr> f \<and>
        from_here n slot single f" if "from_here (n + 1) 3 False f" for f
      using that by (auto simp: from_here_def before_def)
    ultimately show ?thesis using False by (auto simp: from_here_def feeder_ok_def)
  qed
qed simp

lemma length_allot: "length (allot n slot single wms) = length wms"
  by (induction n slot single wms rule: allot.induct) auto

definition feeder_map :: "settings \<Rightarrow> feeder list" where
  "feeder_map s = snd (buildFeederMap s)"

lemma feeder_map_split:
  obtains m where "feeder_map s = m @ replicate (9 - min (unat (se_feeder_cnt s)) 9) no_feeder"
    "sorted_wrt before m" "\<forall>f \<in> set m. feeder_ok f"
    "length m = min (min (unat (se_feeder_cnt s)) 9) (length (se_pt s))"
proof -
  let ?m = "allot 0 3 False (map pt_wiring (take (min (unat (se_feeder_cnt s)) 9) (se_pt s)))"
  show ?thesis
    using that [of ?m] allot_shape [of False 0 3 "map pt_wiring (take (min (unat (se_feeder_cnt s)) 9) (se_pt s))"]
    by (simp add: feeder_map_def buildFeederMap_def Let_def length_allot)
qed

lemma valid_feeders:
  assumes "i < j" "j < length (feeder_map s)" "fd_valid (feeder_map s ! i)" "fd_valid (feeder_map s ! j)"
  shows "before (feeder_map s ! i) (feeder_map s ! j)" "feeder_ok (feeder_map s ! i)" "feeder_ok (feeder_map s ! j)"
proof -
  obtain m k where m: "feeder_map s = m @ replicate k no_feeder" "sorted_wrt before m" "\<forall>f \<in> set m. feeder_ok f"
    by (rule feeder_map_split [of s]) blast
  have "j < length m"
  proof (rule ccontr)
    assume "\<not> j < length m"
    then have "feeder_map s ! j = no_feeder" using assms(2) by (simp add: m(1) nth_append)
    then show False using assms(4) by (simp add: no_feeder_def)
  qed
  then have n: "feeder_map s ! i = m ! i" "feeder_map s ! j = m ! j" "i < length m" "j < length m"
    using assms(1) by (simp_all add: m(1) nth_append)
  show "before (feeder_map s ! i) (feeder_map s ! j)"
    unfolding n(1,2) by (rule sorted_wrt_nth_less [OF m(2) assms(1) n(4)])
  show "feeder_ok (feeder_map s ! i)" "feeder_ok (feeder_map s ! j)"
    using m(3) n nth_mem by auto
qed

lemma length_feeder_map: "length (se_pt s) = 9 \<Longrightarrow> length (feeder_map s) = 9"
  by (rule feeder_map_split [of s]) (auto simp: min_def split: if_splits)

lemma valid_feeder_ok: "f \<in> set (feeder_map s) \<Longrightarrow> fd_valid f \<Longrightarrow> feeder_ok f"
  by (rule feeder_map_split [of s]) (auto simp: no_feeder_def)

text \<open>C16. The allotment is sound for every setting of the wirings and of the feeder count: two feeders
  that are both allotted never read the same current input, for they are on different chips, or
  they are single-phase feeders on different inputs of one chip (so a three-phase feeder has its
  chip to itself); inputs and chips exist, and the result counts the allotted feeders.\<close>

theorem feeders_share_no_input:
  assumes "length (se_pt s) = 9" "i < j" "j < 9" "buildFeederMap s = (n, m)" "fd_valid (m ! i)" "fd_valid (m ! j)"
  shows "fd_meter (m ! i) < 3 \<and> fd_meter (m ! j) < 3 \<and> fd_slot (m ! i) < 3 \<and> fd_slot (m ! j) < 3 \<and>
    (fd_meter (m ! i) \<noteq> fd_meter (m ! j) \<or>
     \<not> fd_is3ph (m ! i) \<and> \<not> fd_is3ph (m ! j) \<and> fd_slot (m ! i) \<noteq> fd_slot (m ! j)) \<and>
    n = length (filter fd_valid m)"
proof -
  have m: "m = feeder_map s" using assms(4) by (simp add: feeder_map_def)
  have "before (m ! i) (m ! j)" "feeder_ok (m ! i)" "feeder_ok (m ! j)"
    using valid_feeders [of i j s] assms(2,3,5,6) length_feeder_map [OF assms(1)] by (simp_all add: m)
  moreover have "n = length (filter fd_valid m)"
    using assms(4) by (auto simp: buildFeederMap_def Let_def no_feeder_def)
  ultimately show ?thesis using assms(5,6) by (auto simp: before_def feeder_ok_def)
qed

definition wired :: "u16 \<Rightarrow> u16 list \<Rightarrow> settings" where
  "wired n ws = settings0\<lparr>se_feeder_cnt := n,
     se_pt := map (\<lambda>w. \<lparr>pt_wiring = w, pt_r0 = 0, pt_vnorm = 220, pt_PT1 = 220, pt_PT2 = 220, pt_r1 = 0\<rparr>) ws\<rparr>"

text \<open>Two single-phase feeders on the first chip, a three-phase feeder on the second.\<close>

theorem feeders_share_no_input_witness:
  "\<exists>n m. buildFeederMap (wired 3 [4, 5, 1, 0, 0, 0, 0, 0, 0]) = (n, m) \<and> fd_valid (m ! 0) \<and> fd_valid (m ! 1) \<and>
    fd_meter (m ! 0) < 3 \<and> fd_meter (m ! 1) < 3 \<and> fd_slot (m ! 0) < 3 \<and> fd_slot (m ! 1) < 3 \<and>
    (fd_meter (m ! 0) \<noteq> fd_meter (m ! 1) \<or>
     \<not> fd_is3ph (m ! 0) \<and> \<not> fd_is3ph (m ! 1) \<and> fd_slot (m ! 0) \<noteq> fd_slot (m ! 1)) \<and>
    n = length (filter fd_valid m)"
proof -
  let ?s = "wired 3 [4, 5, 1, 0, 0, 0, 0, 0, 0]"
  obtain n m where b: "buildFeederMap ?s = (n, m)" by (cases "buildFeederMap ?s")
  have v: "fd_valid (m ! 0)" "fd_valid (m ! 1)" "length (se_pt ?s) = 9"
    using b by (auto simp: buildFeederMap_def wired_def Let_def IS_WM_1LN1CT_def)
  show ?thesis using feeders_share_no_input [of ?s 0 1 n m] b v by auto
qed

section \<open>Calibration follows the redirection\<close>

definition rdr_get :: "nat \<Rightarrow> u32 \<Rightarrow> u32" where
  "rdr_get slot v = take_bit 3 (drop_bit (12 + 3 * slot) v)"

lemma seven_mask: "(7 :: u32) = mask 3"
  by (simp add: mask_eq_exp_minus_1)

lemma bit_code: "bit (vcode p) k \<Longrightarrow> k < 3"
proof -
  assume b: "bit (vcode p) k"
  have "vcode p AND mask 3 = vcode p" by (simp add: vcode_def mask_eq_exp_minus_1)
  then have "bit (vcode p AND mask 3) k" using b by simp
  then show "k < 3" by (simp add: bit_simps)
qed

lemma rdr_get_field:
  assumes "j < 3" "slot < 3"
  shows "rdr_get j (rdr_field slot (vcode p) v) = (if slot = j then vcode p else rdr_get j v)"
proof (rule bit_word_eqI)
  fix k assume "k < LENGTH(32)"
  then have k: "k < 32" by simp
  show "bit (rdr_get j (rdr_field slot (vcode p) v)) k = bit (if slot = j then vcode p else rdr_get j v) k"
  proof (cases "k < 3")
    case False
    then show ?thesis using bit_code [of p k] by (auto simp: rdr_get_def bit_take_bit_iff)
  next
    case True
    have r: "12 + 3 * j + k < 32" using assms(1) True by simp
    have lo: "12 + 3 * j + k - (12 + 3 * slot) < 3 \<longleftrightarrow> j = slot" if "12 + 3 * slot \<le> 12 + 3 * j + k"
      using that True by presburger
    have c: "bit (vcode p) q \<Longrightarrow> q < 3" for q by (rule bit_code)
    show ?thesis
      unfolding rdr_get_def rdr_field_def seven_mask using True r lo c by (auto simp: bit_simps)
  qed
qed

definition hits :: "nat \<Rightarrow> nat \<Rightarrow> feeder \<Rightarrow> bool" where
  "hits chip j f \<longleftrightarrow> fd_valid f \<and> \<not> fd_is3ph f \<and> fd_meter f = chip \<and> fd_slot f = j"

lemma fold_rdr:
  assumes "j < 3" "\<forall>f \<in> set fs. fd_valid f \<longrightarrow> fd_slot f < 3" "\<forall>f \<in> set fs. hits chip j f \<longrightarrow> fd_vphase f = p"
  shows "rdr_get j (fold (rdr_step chip) fs v) = (if \<exists>f \<in> set fs. hits chip j f then vcode p else rdr_get j v)"
  using assms(2,3)
proof (induction fs arbitrary: v)
  case (Cons f fs)
  show ?case
  proof (cases "fd_valid f \<and> \<not> fd_is3ph f \<and> fd_meter f = chip")
    case True
    then have "rdr_get j (rdr_step chip f v) = (if fd_slot f = j then vcode (fd_vphase f) else rdr_get j v)"
      using Cons.prems rdr_get_field [OF assms(1)] by (simp add: rdr_step_def)
    then show ?thesis using True Cons by (auto simp: hits_def)
  next
    case False
    then have "rdr_step chip f v = v" by (auto simp: rdr_step_def)
    moreover have "\<not> hits chip j f" using False by (auto simp: hits_def)
    ultimately show ?thesis using Cons by auto
  qed
qed simp

lemma on_slot_unique:
  assumes "i < length (feeder_map s)" "k < length (feeder_map s)" "hits chip j (feeder_map s ! i)"
    "on_slot chip j (feeder_map s ! k)"
  shows "k = i"
proof (rule ccontr)
  assume "k \<noteq> i"
  then consider "i < k" | "k < i" by linarith
  then show False
    using valid_feeders [of i k s] valid_feeders [of k i s] assms
    by cases (auto simp: hits_def on_slot_def before_def)
qed

text \<open>C17. The calibration follows the redirection: the voltage correction that \<open>uGainSel\<close> chooses for an
  input of a chip is the one of the phase that the redirection word really connects to that
  input. An input with a single-phase feeder carries the code of the phase \<open>z\<close> of the correction,
  every other input keeps its own converter (code 7) and gets the correction of its own phase
  or, on a chip with a three-phase feeder, likewise of its own phase.\<close>

theorem gain_follows_redirection:
  assumes "j < 3" "uGainSel s chip j = (ll, z, pt)"
  shows "rdr_get j (adcRedirectWord s chip) = (if \<exists>f \<in> set (feeder_map s). hits chip j f then vcode z else 7) \<and>
    (\<not> (\<exists>f \<in> set (feeder_map s). hits chip j f) \<longrightarrow> z = int j)"
proof (cases "\<exists>f \<in> set (feeder_map s). hits chip j f")
  case True
  then obtain i where i: "i < length (feeder_map s)" "hits chip j (feeder_map s ! i)"
    by (auto simp: in_set_conv_nth)
  have hit: "on_slot chip j (feeder_map s ! i)" using i(2) by (auto simp: hits_def on_slot_def)
  let ?e = "enumerate 0 (feeder_map s)"
  have "(i, feeder_map s ! i) \<in> set ?e" using i(1) by (auto simp: in_set_enumerate_eq)
  then obtain k g where kg: "find (\<lambda>f. on_slot chip j (snd f)) ?e = Some (k, g)"
    using hit find_None_iff [of "\<lambda>f. on_slot chip j (snd f)" ?e]
    by (cases "find (\<lambda>f. on_slot chip j (snd f)) ?e") fastforce+
  then have "k < length (feeder_map s)" "g = feeder_map s ! k" "on_slot chip j g"
    by (auto simp: find_Some_iff nth_enumerate_eq)
  then have g: "g = feeder_map s ! i" using on_slot_unique [OF i(1) _ i(2)] by blast
  have single: "\<not> fd_is3ph g" using i(2) g by (simp add: hits_def)
  have "fst (snd (uGainSel s chip j)) = fd_vphase g"
    unfolding uGainSel_def feeder_map_def [symmetric] kg using single by simp
  then have z: "z = fd_vphase (feeder_map s ! i)" using assms(2) g by simp
  have "fd_vphase f = z" if mem: "f \<in> set (feeder_map s)" and hitf: "hits chip j f" for f
  proof -
    obtain l where l: "l < length (feeder_map s)" "f = feeder_map s ! l"
      using mem by (auto simp: in_set_conv_nth)
    have "on_slot chip j (feeder_map s ! l)" using hitf l(2) by (auto simp: hits_def on_slot_def)
    then have "l = i" by (rule on_slot_unique [OF i(1) l(1) i(2)])
    then show ?thesis using l z by simp
  qed
  then have "rdr_get j (adcRedirectWord s chip) = vcode z"
    using fold_rdr [OF assms(1), of "feeder_map s" chip z ADC_RDR_DEFAULT] valid_feeder_ok [of _ s] True
    by (auto simp: adcRedirectWord_def feeder_map_def feeder_ok_def)
  then show ?thesis using True by simp
next
  case False
  have d: "rdr_get j ADC_RDR_DEFAULT = 7"
  proof -
    have "j = 0 \<or> j = 1 \<or> j = 2" using assms(1) by linarith
    then show ?thesis by (auto simp: rdr_get_def ADC_RDR_DEFAULT_def)
  qed
  have "rdr_get j (adcRedirectWord s chip) = 7"
    using fold_rdr [OF assms(1), of "feeder_map s" chip z ADC_RDR_DEFAULT] valid_feeder_ok [of _ s] False d
    by (auto simp: adcRedirectWord_def feeder_map_def feeder_ok_def)
  moreover have "z = int j"
  proof (cases "find (\<lambda>f. on_slot chip j (snd f)) (enumerate 0 (feeder_map s))")
    case None
    then have "fst (snd (uGainSel s chip j)) = int j"
      unfolding uGainSel_def feeder_map_def [symmetric] by simp
    then show ?thesis using assms(2) by simp
  next
    case (Some kg)
    then have "snd kg \<in> set (feeder_map s)" "on_slot chip j (snd kg)"
      by (auto simp: find_Some_iff nth_enumerate_eq)
    then have "fd_is3ph (snd kg)" using False by (auto simp: on_slot_def hits_def)
    then have "fst (snd (uGainSel s chip j)) = int j"
      unfolding uGainSel_def feeder_map_def [symmetric] Some by (cases kg) simp
    then show ?thesis using assms(2) by simp
  qed
  ultimately show ?thesis using False by simp
qed

text \<open>The second phase on the first input of the first chip.\<close>

theorem gain_follows_redirection_witness:
  "\<exists>ll z pt. uGainSel (wired 1 [5, 0, 0, 0, 0, 0, 0, 0, 0]) 0 0 = (ll, z, pt) \<and> z = 1 \<and>
    rdr_get 0 (adcRedirectWord (wired 1 [5, 0, 0, 0, 0, 0, 0, 0, 0]) 0) = vcode z"
proof -
  let ?s = "wired 1 [5, 0, 0, 0, 0, 0, 0, 0, 0]"
  obtain ll z pt where u: "uGainSel ?s 0 0 = (ll, z, pt)" by (cases "uGainSel ?s 0 0") blast
  have m: "feeder_map ?s = \<lparr>fd_meter = 0, fd_slot = 0, fd_vphase = 1, fd_is3ph = False, fd_valid = True\<rparr> #
      replicate 8 no_feeder"
    by (simp add: feeder_map_def buildFeederMap_def wired_def Let_def IS_WM_1LN1CT_def)
  then have h: "\<exists>f \<in> set (feeder_map ?s). hits 0 0 f" by (simp add: hits_def)
  have z: "z = 1" using u m by (simp add: uGainSel_def feeder_map_def on_slot_def)
  show ?thesis using gain_follows_redirection [OF _ u] h u z by auto
qed

section \<open>A gap in the wirings\<close>

text \<open>
  The allotment looks at as many entries as there are feeders in use, from the first on, and takes
  an unused entry among them for a three-phase feeder.
\<close>

definition used :: "settings \<Rightarrow> nat \<Rightarrow> bool" where
  "used s k \<longleftrightarrow> pt_wiring (se_pt s ! k) \<noteq> NOT_USED"

lemma countFeeders_card: "countFeeders pt = card {k. k < length pt \<and> pt_wiring (pt ! k) \<noteq> NOT_USED}"
  by (simp add: countFeeders_def length_filter_conv_card)

text \<open>A gap in the wirings loses a feeder: when some entry before a used feeder is not in use, then,
  with the count that \<open>copySimpleMap\<close> has put into the settings, at least one used feeder is not
  allotted at all; and an unused entry inside the count, while chips are left, takes a whole chip.\<close>

theorem gap_loses_a_feeder:
  assumes "length (se_pt s) = 9" "g < f" "f < 9" "\<not> used s g" "used s f"
    and "se_feeder_cnt s = of_nat (countFeeders (se_pt s))"
  shows "\<exists>k < 9. used s k \<and> \<not> fd_valid (snd (buildFeederMap s) ! k)"
proof -
  let ?U = "{k. k < length (se_pt s) \<and> pt_wiring (se_pt s ! k) \<noteq> NOT_USED}"
  let ?n = "countFeeders (se_pt s)"
  have n: "?n = card ?U" by (rule countFeeders_card)
  have "?n \<le> 9" using assms(1) by (simp add: countFeeders_def le_trans [OF length_filter_le])
  then have cnt: "min (unat (se_feeder_cnt s)) 9 = ?n"
    by (simp add: assms(6) unat_of_nat)
  have "\<exists>k \<in> ?U. ?n \<le> k"
  proof (rule ccontr)
    assume "\<not> (\<exists>k \<in> ?U. ?n \<le> k)"
    then have sub: "?U \<subseteq> {..<?n}" by auto
    have "f \<in> ?U" using assms(1,3,5) by (simp add: used_def)
    then have "g < ?n" using sub assms(2) by auto
    moreover have "g \<notin> ?U" using assms(4) by (simp add: used_def)
    ultimately have "?U \<subseteq> {..<?n} - {g}" using sub by auto
    then have "card ?U \<le> card ({..<?n} - {g})" by (rule card_mono [rotated]) simp
    then show False using n \<open>g < ?n\<close> by simp
  qed
  then obtain k where k: "k < 9" "used s k" "?n \<le> k" using assms(1) by (auto simp: used_def)
  have "snd (buildFeederMap s) ! k = no_feeder"
    using k cnt assms(1) by (simp add: buildFeederMap_def Let_def nth_append length_allot)
  then have "\<not> fd_valid (snd (buildFeederMap s) ! k)" by (simp add: no_feeder_def)
  then show ?thesis using k by blast
qed

theorem gap_loses_a_feeder_witness:
  "(\<exists>k < 9. used (wired 2 [1, 0, 1, 0, 0, 0, 0, 0, 0]) k \<and>
      \<not> fd_valid (snd (buildFeederMap (wired 2 [1, 0, 1, 0, 0, 0, 0, 0, 0])) ! k)) \<and>
    fd_valid (snd (buildFeederMap (wired 2 [1, 0, 1, 0, 0, 0, 0, 0, 0])) ! 1)"
proof
  have h: "length (se_pt (wired 2 [1, 0, 1, 0, 0, 0, 0, 0, 0])) = 9" "(1 :: nat) < 2" "(2 :: nat) < 9"
    "\<not> used (wired 2 [1, 0, 1, 0, 0, 0, 0, 0, 0]) 1" "used (wired 2 [1, 0, 1, 0, 0, 0, 0, 0, 0]) 2"
    "se_feeder_cnt (wired 2 [1, 0, 1, 0, 0, 0, 0, 0, 0]) = of_nat (countFeeders (se_pt (wired 2 [1, 0, 1, 0, 0, 0, 0, 0, 0])))"
    by (simp_all add: wired_def used_def countFeeders_def)
  show "\<exists>k < 9. used (wired 2 [1, 0, 1, 0, 0, 0, 0, 0, 0]) k \<and>
      \<not> fd_valid (snd (buildFeederMap (wired 2 [1, 0, 1, 0, 0, 0, 0, 0, 0])) ! k)"
    by (rule gap_loses_a_feeder [OF h])
  show "fd_valid (snd (buildFeederMap (wired 2 [1, 0, 1, 0, 0, 0, 0, 0, 0])) ! 1)"
    by (simp add: buildFeederMap_def wired_def Let_def IS_WM_1LN1CT_def)
qed

section \<open>The published map\<close>

lemma smp_row:
  assumes "length (se_pt (sw_db st)) = 9" "k < 9"
    and "s = (sw_db st)\<lparr>se_feeder_cnt := of_nat (countFeeders (se_pt (sw_db st)))\<rparr>"
  shows "sm_ch (sw_buf (copySimpleMap src st) (\<not> sw_cur st)) ! k = fst (smp_feeder src s k (feeder_map s ! k)) \<and>
    sm_harm (sw_buf (copySimpleMap src st) (\<not> sw_cur st)) ! k = snd (smp_feeder src s k (feeder_map s ! k))"
proof -
  have "k < length (enumerate 0 (feeder_map s))" using assms by (simp add: length_feeder_map)
  then show ?thesis
    by (simp add: copySimpleMap_def Let_def assms(3) [symmetric] feeder_map_def [symmetric] nth_enumerate_eq)
qed

text \<open>C18. A pass of \<open>copySimpleMap\<close> publishes one complete map: the buffer that readers were using keeps
  its contents, and in the published one a single-phase feeder shows the voltage, current, power
  and energies of its own input of its own chip, at the place of its phase, and nothing at the
  places of the two other phases, while an entry without an allotment is all zero.\<close>

theorem simple_map_shows_feeders:
  assumes "length (se_pt (sw_db st)) = 9" "k < 9" "st' = copySimpleMap src st"
    and "f = feeder_map (sw_db st') ! k" "d = sm_ch (sw_buf st' (sw_cur st')) ! k"
  shows "sw_cur st' = (\<not> sw_cur st) \<and> sw_buf st' (sw_cur st) = sw_buf st (sw_cur st) \<and>
    (\<not> fd_valid f \<longrightarrow> d = smp_channel0) \<and>
    (fd_valid f \<and> \<not> fd_is3ph f \<longrightarrow>
      (let m = ss_meter src (fd_meter f); j = fd_slot f; p = nat (fd_vphase f)
       in sh_U d ! p = mt_U m ! j \<and> sh_I d ! p = mt_I m ! j \<and> sh_P d ! p = mt_P m ! j \<and> sh_I d ! 3 = mt_I m ! j \<and>
          sh_egy d = smp_energy (ss_egy src (fd_meter f)) (1 + j) \<and>
          (\<forall>q < 3. q \<noteq> p \<longrightarrow> sh_U d ! q = 0 \<and> sh_I d ! q = 0 \<and> sh_P d ! q = 0)))"
proof -
  define s where "s = (sw_db st)\<lparr>se_feeder_cnt := of_nat (countFeeders (se_pt (sw_db st)))\<rparr>"
  have st': "sw_cur st' = (\<not> sw_cur st)" "sw_db st' = s" "sw_buf st' (sw_cur st) = sw_buf st (sw_cur st)"
    by (simp_all add: assms(3) copySimpleMap_def Let_def s_def)
  have d: "d = fst (smp_feeder src s k f)"
    using smp_row [OF assms(1,2) s_def, of src] st' by (simp add: assms(3-5))
  have "length (feeder_map s) = 9" using assms(1) by (simp add: length_feeder_map s_def)
  then have "f \<in> set (feeder_map s)" using assms(2,4) st' by simp
  then have ok: "fd_valid f \<and> \<not> fd_is3ph f \<longrightarrow> nat (fd_vphase f) < 3"
    using valid_feeder_ok [of f s] by (auto simp: feeder_ok_def)
  show ?thesis
    using st' ok by (auto simp: d smp_feeder_def smpFill1ph_def Let_def smp_channel0_def nth_list_update)
qed

definition demo_metering :: metering where
  "demo_metering = \<lparr>mt_utc = 0, mt_Temp = 25, mt_Freq = 60, mt_U = [220, 221, 222, 221], mt_Upp = [380, 381, 382, 381],
     mt_Ubal = [0, 0], mt_Uangle = [0, 240, 120], mt_I = [5, 6, 7, 6], mt_In = 0, mt_Ibal = [0, 0],
     mt_Iangle = [0, 240, 120], mt_P = [1100, 1326, 1554, 3980], mt_Q = [0, 0, 0, 0], mt_S = [1100, 1326, 1554, 3980],
     mt_PF = [1, 1, 1, 1], mt_THD_U = [0, 0, 0], mt_THD_I = [0, 0, 0], mt_TDD_I = [0, 0, 0]\<rparr>"

definition demo_smp_src :: smp_src where
  "demo_smp_src = \<lparr>ss_meter = (\<lambda>_. demo_metering),
     ss_egy = (\<lambda>_. \<lparr>em_total32 = replicate 24 1, em_this32 = replicate 24 1, em_last32 = replicate 24 0,
                  em_ereg64 = replicate 24 0, em_accum = []\<rparr>),
     ss_hdU = (\<lambda>_. replicate 3 (replicate 64 0)), ss_hdI = (\<lambda>_. replicate 3 (replicate 64 0)), ss_I_start = (\<lambda>_. 1)\<rparr>"

definition demo_smp_state :: smp_state where
  "demo_smp_state = \<lparr>sw_db = wired 2 [4, 5, 0, 0, 0, 0, 0, 0, 0],
     sw_info = \<lparr>mi_HeartBit = 0, mi_hwVer = 0, mi_fw = [], mi_sn = [1, 2, 3, 4, 5, 6], mi_feeder_cnt = 0\<rparr>,
     sw_buf = (\<lambda>_. \<lparr>sm_common = smpFillCommon demo_smp_src \<lparr>mi_HeartBit = 0, mi_hwVer = 0, mi_fw = [], mi_sn = [1],
                                    mi_feeder_cnt = 0\<rparr>, sm_ch = [], sm_harm = []\<rparr>), sw_cur = False\<rparr>"

text \<open>The second feeder sits on the second input of the first chip and shows its 221 V.\<close>

theorem simple_map_shows_feeders_witness:
  "\<exists>st' d. st' = copySimpleMap demo_smp_src demo_smp_state \<and> d = sm_ch (sw_buf st' (sw_cur st')) ! 1 \<and>
    sw_cur st' \<and> sh_U d ! 1 = 221 \<and> sh_I d ! 1 = 6 \<and> sh_U d ! 0 = 0"
proof -
  have l: "length (se_pt (sw_db demo_smp_state)) = 9" "(1 :: nat) < 9" by (simp_all add: demo_smp_state_def wired_def)
  define f where "f = feeder_map (sw_db (copySimpleMap demo_smp_src demo_smp_state)) ! 1"
  have f: "f = \<lparr>fd_meter = 0, fd_slot = 1, fd_vphase = 1, fd_is3ph = False, fd_valid = True\<rparr>"
    unfolding f_def feeder_map_def
    by (simp add: copySimpleMap_def Let_def demo_smp_state_def wired_def buildFeederMap_def countFeeders_def IS_WM_1LN1CT_def)
  show ?thesis
    using simple_map_shows_feeders [OF l refl f_def refl]
    by (auto simp: f Let_def demo_smp_src_def demo_metering_def demo_smp_state_def)
qed

end
