(* ===== verification/Wave.thy ===== *)
theory Wave
  imports PqEvent Feeder
begin

text \<open>
  Wave forms (\<open>meter.c\<close>, \<open>Wave_Task\<close> and its functions, and \<open>readWFB_Data\<close> of \<open>ade9000.c\<close>): pages of
  raw samples come from the chip into a ring and are sorted into windows of 200 ms, six of which form a ring; from the ring the events of the capture queue get
  a file with the samples before and after them, and masters get 160 points to draw. Samples
  are integers, the scale factors rational numbers; the square root of two is an argument.
\<close>

section \<open>From pages to windows\<close>

abbreviation (input) PG_BUF_CNT :: nat where "PG_BUF_CNT \<equiv> 200"
abbreviation (input) L_LFWVWIN :: nat where "L_LFWVWIN \<equiv> 1600"
abbreviation (input) N_WAVE_WIN :: nat where "N_WAVE_WIN \<equiv> 6"
abbreviation (input) N_LFCAP :: nat where "N_LFCAP \<equiv> 4800"

type_synonym phases = "int list list"

record wave_win =
  wn_ts :: u64
  wn_vrms :: "rat list"
  wn_irms :: "rat list"
  wn_hI :: phases
  wn_hU :: phases
  wn_lI :: phases
  wn_lU :: phases

record wave_pgbuf =
  pg_fr :: nat
  pg_re :: nat
  pg_count :: nat
  pg_lastolc :: u16
  pg_olc :: u16
  pg_ts :: u64
  pg_hs :: bool
  pg_halfFull :: bool
  pg_wb :: "int list list"

text \<open>
  \<open>copyToWaveWindow\<close> reads 100 pages from \<open>re\<close> on, around the ring of 200, and stores the six
  interleaved channels of each page at consecutive places of the phases; the rest of the window
  keeps its contents.
\<close>

definition page_at :: "wave_pgbuf \<Rightarrow> nat \<Rightarrow> int list" where
  "page_at q i = pg_wb q ! ((pg_re q + i) mod PG_BUF_CNT)"

definition deinterleave :: "wave_pgbuf \<Rightarrow> nat \<Rightarrow> int list" where
  "deinterleave q c = concat (map (\<lambda>i. map (\<lambda>j. page_at q i ! (6 * j + c)) [0..<16]) [0..<100])"

definition overwrite :: "int list \<Rightarrow> int list \<Rightarrow> int list" where
  "overwrite xs old = xs @ drop (length xs) old"

text \<open>
  \<open>readWFB_Data\<close> (\<open>ade9000.c\<close>) fills the ring: at each page-full interrupt it takes the half of the
  chip's sample buffer that is not being written, eight pages of 96 words (the last 32 words of a
  page keep what they hold), and after every hundred pages marks the hundred just stored as a
  window to copy. One read has the trigger register, the chip's memory, the time at each page
  and the online flag of the meter; spike removal is compiled out (\<open>WV_NO_DESPIKE\<close>).
\<close>

record wfb_read =
  wr_trig :: u16
  wr_mem :: "nat \<Rightarrow> int"
  wr_now :: "nat \<Rightarrow> u64"
  wr_online :: bool

definition getWave32kBuf :: "wave_pgbuf \<Rightarrow> nat \<times> wave_pgbuf" where
  "getWave32kBuf q =
     (pg_fr q, q\<lparr>pg_fr := (if pg_fr q + 1 \<ge> PG_BUF_CNT then 0 else pg_fr q + 1), pg_count := pg_count q + 1\<rparr>)"

definition wfb_base :: "wfb_read \<Rightarrow> nat" where
  "wfb_base r = (let page = unat (drop_bit 12 (wr_trig r)) in if (page + 1) mod 16 < 8 then 0x80 * 8 else 0)"

definition wfb_page :: "wfb_read \<Rightarrow> nat \<Rightarrow> wave_pgbuf \<Rightarrow> wave_pgbuf" where
  "wfb_page r i q =
     (let (b, q1) = getWave32kBuf q;
          words = map (\<lambda>k. wr_mem r (0x801 + (wfb_base r + 0x80 * i) + k)) [0..<96];
          q2 = q1\<lparr>pg_wb := (pg_wb q1)[b := overwrite words (pg_wb q1 ! b)],
                  pg_olc := (if wr_online r then pg_olc q1 + 1 else pg_olc q1)\<rparr>
      in if pg_count q2 \<ge> PG_BUF_CNT div 2
         then q2\<lparr>pg_lastolc := pg_olc q2, pg_count := 0, pg_olc := 0, pg_ts := wr_now r i - 200,
                 pg_halfFull := True, pg_re := (pg_fr q2 + PG_BUF_CNT div 2) mod PG_BUF_CNT\<rparr>
         else q2)"

definition readWFB_Data :: "wfb_read \<Rightarrow> wave_pgbuf \<Rightarrow> wave_pgbuf" where
  "readWFB_Data r q = fold (wfb_page r) [0..<8] q"

definition copyToWaveWindow :: "rat list \<Rightarrow> rat list \<Rightarrow> wave_pgbuf \<Rightarrow> wave_win \<Rightarrow> wave_pgbuf \<times> wave_win" where
  "copyToWaveWindow U I q w =
     (q\<lparr>pg_halfFull := False\<rparr>,
      w\<lparr>wn_hI := map (\<lambda>p. overwrite (deinterleave q (2 * p)) (wn_hI w ! p)) [0, 1, 2],
        wn_hU := map (\<lambda>p. overwrite (deinterleave q (2 * p + 1)) (wn_hU w ! p)) [0, 1, 2],
        wn_ts := pg_ts q, wn_vrms := take 3 U, wn_irms := take 3 I\<rparr>)"

definition downSampling :: "bool \<Rightarrow> wave_win \<Rightarrow> wave_win" where
  "downSampling hs w =
     (let inc = (if hs then 4 else 1); pick = (\<lambda>xs. map (\<lambda>i. xs ! (inc * i)) [0..<L_LFWVWIN])
      in w\<lparr>wn_lI := map pick (wn_hI w), wn_lU := map pick (wn_hU w)\<rparr>)"

text \<open>The hand-over to the frequency analysis: a new window only when the last one has been used.\<close>

record fft_buf =
  ff_fr :: u16
  ff_re :: u16
  ff_vrms :: "rat list"
  ff_irms :: "rat list"
  ff_I :: phases
  ff_U :: phases

definition copyFftData :: "wave_win \<Rightarrow> fft_buf \<Rightarrow> bool \<times> fft_buf" where
  "copyFftData w b =
     (if ff_fr b = ff_re b
      then (True, b\<lparr>ff_vrms := wn_vrms w, ff_irms := wn_irms w, ff_I := wn_lI w, ff_U := wn_lU w, ff_fr := ff_fr b + 1\<rparr>)
      else (False, b))"

section \<open>Capturing an event\<close>

record lf_cap =
  wc_ts :: u64
  wc_scale :: rat
  wc_pos :: u16
  wc_mask :: u16
  wc_srate :: u16
  wc_ver :: u16
  wc_iscale :: rat
  wc_count :: u16
  wc_dat :: "int list"

record wave_ctx =
  wk_pre :: u16
  wk_post :: u16
  wk_freq :: u16
  wk_vscale :: rat
  wk_iscale :: rat
  wk_mask :: u16
  wk_cap :: nat
  wk_mem :: "nat \<Rightarrow> u8"
  wk_sleep :: "nat \<Rightarrow> fs_q \<Rightarrow> fs_q"

definition FREQ_HZ :: "u16 \<Rightarrow> nat" where
  "FREQ_HZ f = (if f = 0 then 60 else 50)"

text \<open>The cycles before and after the event, with the defaults and the limit of 30 together.\<close>

definition cap_cycles :: "u16 \<Rightarrow> u16 \<Rightarrow> nat \<times> nat" where
  "cap_cycles pre post =
     (let a = (if pre = 0 \<and> post = 0 then 6 else unat pre); b = (if pre = 0 \<and> post = 0 then 18 else unat post)
      in if a + b > 30 then (if 30 < a then (30, 0) else (a, 30 - a)) else (a, b))"

text \<open>The remainder of C, which takes the sign of the dividend.\<close>

definition c_rem :: "int \<Rightarrow> int \<Rightarrow> int" where
  "c_rem a b = sgn a * (\<bar>a\<bar> mod \<bar>b\<bar>)"

definition win_off :: "int \<Rightarrow> int" where
  "win_off g = (if g \<ge> 0 then g div 1600 else - ((- g + 1599) div 1600))"

definition ring_ix :: "int \<Rightarrow> int \<Rightarrow> int" where
  "ring_ix ev_rix off = c_rem (c_rem (ev_rix + off) 6 + 6) 6"

text \<open>The two stores of one sample of phase \<open>j\<close>: the voltages come before all currents.\<close>

definition cap_writes :: "wave_win list \<Rightarrow> nat \<Rightarrow> int \<Rightarrow> nat \<Rightarrow> nat \<Rightarrow> (nat \<times> int) list" where
  "cap_writes ww ev_rix g count k =
     (let off = win_off g; gi = nat (g - off * 1600); w = ww ! nat (ring_ix (int ev_rix) off)
      in concat (map (\<lambda>j. [(j * count + k, wn_lU w ! j ! gi), (3 * count + j * count + k, wn_lI w ! j ! gi)]) [0, 1, 2]))"

definition put_all :: "(nat \<times> int) list \<Rightarrow> int list \<Rightarrow> int list" where
  "put_all ws d = fold (\<lambda>w d. d[fst w := snd w]) ws d"

definition getTrgFileName :: "string \<Rightarrow> u64 \<Rightarrow> string" where
  "getTrgFileName title ts =
     (let ltm = uLocalTime (of_nat (unat ts div 1000))
      in title @ pad0 4 (tm_year ltm) @ pad0 2 (tm_mon ltm) @ pad0 2 (tm_mday ltm) @ ''T'' @ pad0 2 (tm_hour ltm) @
         pad0 2 (tm_min ltm) @ pad0 2 (tm_sec ltm) @ ''_'' @ pad0 3 (unat ts mod 1000) @ ''.d'')"

definition cap_title :: "u16 \<Rightarrow> string option" where
  "cap_title e =
     (if e = E_SAG then Some ''tpq_WSAG_'' else if e = E_SWELL then Some ''tpq_WSWL_''
      else if e = E_OC then Some ''tpq_WOC_'' else if e = E_sINTR \<or> e = E_lINTR then Some ''tpq_WINT_'' else None)"

definition find_window :: "u64 \<Rightarrow> wave_win list \<Rightarrow> nat option" where
  "find_window ts ww = find (\<lambda>k. ts \<ge> wn_ts (ww ! k) \<and> ts < wn_ts (ww ! k) + 200) [0..<N_WAVE_WIN]"

definition cap_pos :: "u64 \<Rightarrow> u64 \<Rightarrow> nat" where
  "cap_pos ts wts = (let p = (unat ts - unat wts) * 8 in if p \<ge> L_LFWVWIN then L_LFWVWIN - 1 else p)"

definition cap_image ::
  "wave_ctx \<Rightarrow> wave_win list \<Rightarrow> u64 \<Rightarrow> nat \<Rightarrow> nat \<Rightarrow> nat \<Rightarrow> lf_cap \<Rightarrow> lf_cap" where
  "cap_image cx ww ts ev_rix pre count cap =
     (let pos = cap_pos ts (wn_ts (ww ! ev_rix))
      in cap\<lparr>wc_ts := ts, wc_pos := of_nat pre, wc_mask := wk_mask cx, wc_scale := wk_vscale cx, wc_iscale := wk_iscale cx,
             wc_srate := 8000, wc_ver := 2, wc_count := of_nat count,
             wc_dat := put_all (concat (map (\<lambda>k. cap_writes ww ev_rix (int pos - int pre + int k) count k) [0..<count])) (wc_dat cap)\<rparr>)"

definition cap_msg :: "wave_ctx \<Rightarrow> string \<Rightarrow> u64 \<Rightarrow> nat \<Rightarrow> fs_msg" where
  "cap_msg cx title ts count =
     fs_msg0\<lparr>fm_fname := getTrgFileName title ts, fm_mode := ''wb'', fm_pbuf := Some (wk_cap cx), fm_size := 28 + 24 * int count\<rparr>"

definition wavePreCaptureLF ::
  "wave_ctx \<Rightarrow> wave_win list \<Rightarrow> u64 \<times> u16 \<Rightarrow> lf_cap \<times> fs_q \<Rightarrow> int \<times> lf_cap \<times> fs_q" where
  "wavePreCaptureLF cx ww ev st =
     (let (a, b) = cap_cycles (wk_pre cx) (wk_post cx); spc = 8000 div FREQ_HZ (wk_freq cx); pre = a * spc;
          count = min (pre + b * spc) N_LFCAP
      in if count = 0 then (-1, st)
         else case find_window (fst ev) ww of
           None \<Rightarrow> (-1, st)
         | Some ev_rix \<Rightarrow>
             (let cap = cap_image cx ww (fst ev) ev_rix pre count (fst st)
              in case cap_title (snd ev) of
                   None \<Rightarrow> (0, cap, snd st)
                 | Some title \<Rightarrow> (0, cap, putFsQ (wk_mem cx) (wk_sleep cx) (Some (cap_msg cx title (fst ev) count)) (snd st))))"

section \<open>The wave task\<close>

text \<open>The times the task waits for, taken from the registers without the limits of the capture.\<close>

definition post_ms :: "wave_ctx \<Rightarrow> nat" where
  "post_ms cx = (if wk_post cx > 0 then unat (wk_post cx) else 18) * 1000 div FREQ_HZ (wk_freq cx)"

definition pre_ms :: "wave_ctx \<Rightarrow> nat" where
  "pre_ms cx = (if wk_pre cx > 0 then unat (wk_pre cx) else 6) * 1000 div FREQ_HZ (wk_freq cx)"

record wave_chan =
  wv_ix :: nat
  wv_ww :: "wave_win list"
  wv_pg :: wave_pgbuf
  wv_fft :: fft_buf
  wv_evq :: cap_q
  wv_cap :: lf_cap

definition wave_window :: "rat list \<Rightarrow> rat list \<Rightarrow> wave_chan \<Rightarrow> wave_win" where
  "wave_window U I c = downSampling (pg_hs (wv_pg c)) (snd (copyToWaveWindow U I (wv_pg c) (wv_ww c ! wv_ix c)))"

definition wave_pass ::
  "wave_ctx \<Rightarrow> nat \<Rightarrow> rat list \<Rightarrow> rat list \<Rightarrow> wave_chan \<times> fs_q \<Rightarrow> (wave_chan \<times> fs_q) option" where
  "wave_pass cx sagSt U I st =
     (let c = fst st
      in if \<not> pg_halfFull (wv_pg c) then Some st
         else let w = wave_window U I c; ww = (wv_ww c)[wv_ix c := w];
                  newestEnd = wn_ts w + 200; oldestTs = wn_ts (ww ! ((wv_ix c + 1) mod N_WAVE_WIN))
              in case wave_caps sagSt newestEnd oldestTs (of_nat (pre_ms cx)) (of_nat (post_ms cx)) [] (wv_evq c) of
                   None \<Rightarrow> None
                 | Some (evs, q) \<Rightarrow>
                     (let (cap, fq) = fold (\<lambda>e s. snd (wavePreCaptureLF cx ww e s)) evs (wv_cap c, snd st)
                      in Some (c\<lparr>wv_ww := ww, wv_pg := fst (copyToWaveWindow U I (wv_pg c) (wv_ww c ! wv_ix c)),
                                 wv_fft := snd (copyFftData w (wv_fft c)), wv_evq := q, wv_cap := cap,
                                 wv_ix := (if wv_ix c + 1 \<ge> N_WAVE_WIN then 0 else wv_ix c + 1)\<rparr>, fq)))"

section \<open>The points a master draws\<close>

definition waveDispIndex :: "nat \<Rightarrow> nat \<Rightarrow> nat \<Rightarrow> nat \<Rightarrow> nat" where
  "waveDispIndex ix i nPts nWin =
     (if nPts \<le> 1 then (if ix < nWin then ix else nWin - 1)
      else if ix \<ge> nWin - 1 then nWin - 1
      else ix + i * (nWin - 1 - ix) div (nPts - 1))"

text \<open>The first rising zero crossing of phase one, or 0.\<close>

fun cycle_start :: "nat \<Rightarrow> int \<Rightarrow> int list \<Rightarrow> nat" where
  "cycle_start i prev [] = 0"
| "cycle_start i prev (x # xs) = (if prev < 0 \<and> x \<ge> 0 then i else cycle_start (i + 1) x xs)"

definition c_trunc :: "rat \<Rightarrow> int" where
  "c_trunc r = (if r < 0 then - \<lfloor>- r\<rfloor> else \<lfloor>r\<rfloor>)"

record wave_l16 =
  wl_U :: phases
  wl_Upp :: phases
  wl_I :: phases

text \<open>\<open>vscl\<close> and \<open>iscl\<close> are the scales of the three inputs, calibration included.\<close>

definition wave_scale :: "(nat \<Rightarrow> int) \<Rightarrow> rat \<Rightarrow> rat \<Rightarrow> nat \<Rightarrow> rat" where
  "wave_scale gain wscale sqrt2 j = (1 + of_int (gain j) / 134217728) * wscale * sqrt2"

definition disp_points :: "int list \<Rightarrow> nat list" where
  "disp_points u0 =
     (let ix = cycle_start 1 (u0 ! 0) (tl u0); nwin = min (ix + 320) L_LFWVWIN
      in map (\<lambda>i. waveDispIndex ix i 160 nwin) [0..<160])"

definition copyModbusWaveData :: "u16 \<Rightarrow> (nat \<Rightarrow> rat) \<Rightarrow> (nat \<Rightarrow> rat) \<Rightarrow> wave_chan \<Rightarrow> wave_l16" where
  "copyModbusWaveData wiring vscl iscl c =
     (let w = wv_ww c ! (if wv_ix c + 5 \<ge> N_WAVE_WIN then wv_ix c + 5 - N_WAVE_WIN else wv_ix c + 5);
          dxs = disp_points (wn_lU w ! 0);
          u = (\<lambda>sg j. map (\<lambda>dx. c_trunc (of_int (sg * wn_lU w ! j ! dx) * vscl j)) dxs);
          uu = (if wiring = 3 \<or> wiring = 2 then [u 1 0, u (- 1) 2, u 1 1] else [u 1 0, u 1 1, u 1 2]);
          ii = map (\<lambda>j. map (\<lambda>dx. c_trunc (of_int (wn_lI w ! j ! dx) * iscl j)) dxs) [0, 1, 2];
          upp = (if wiring = 1 then map (\<lambda>j. map2 (-) (uu ! ((j + 1) mod 3)) (uu ! j)) [0, 1, 2] else uu)
      in \<lparr>wl_U = uu, wl_Upp = upp, wl_I = ii\<rparr>)"

section \<open>Properties\<close>

subsection \<open>The windows\<close>

lemma nth_concat_blocks:
  assumes "\<forall>xs \<in> set xss. length xs = n" "i < length xss" "j < n"
  shows "concat xss ! (n * i + j) = xss ! i ! j"
  using assms
proof (induction xss arbitrary: i)
  case (Cons xs xss)
  then show ?case by (cases i) (auto simp: nth_append)
qed simp

lemma deinterleave_nth:
  assumes "i < 100" "j < 16" shows "deinterleave q c ! (16 * i + j) = page_at q i ! (6 * j + c)"
  unfolding deinterleave_def
  using assms by (subst nth_concat_blocks) auto

lemma length_deinterleave [simp]: "length (deinterleave q c) = 1600"
  by (simp add: deinterleave_def length_concat sum_list_triv comp_def)

lemma window_samples:
  assumes "p < 3" "i < 100" "j < 16" "w = downSampling False (snd (copyToWaveWindow U I q w0))"
  shows "wn_lI w ! p ! (16 * i + j) = page_at q i ! (6 * j + 2 * p) \<and>
    wn_lU w ! p ! (16 * i + j) = page_at q i ! (6 * j + (2 * p + 1)) \<and>
    length (wn_lI w ! p) = 1600 \<and> length (wn_lU w ! p) = 1600"
proof -
  have lt: "16 * i + j < 1600" using assms(2,3) by linarith
  have p: "p = 0 \<or> p = 1 \<or> p = 2" using assms(1) by linarith
  have "overwrite (deinterleave q c) old ! (16 * i + j) = page_at q i ! (6 * j + c)" for c old
    using deinterleave_nth [OF assms(2,3)] lt by (simp add: overwrite_def nth_append)
  note at = this
  have p3: "[0, 1, 2 :: nat] ! p = p" using p by auto
  note p3' = p3 [unfolded One_nat_def]
  have w: "wn_lI w = map (\<lambda>xs. map (\<lambda>i. xs ! i) [0..<1600]) (map (\<lambda>p. overwrite (deinterleave q (2 * p)) (wn_hI w0 ! p)) [0, 1, 2])"
    "wn_lU w = map (\<lambda>xs. map (\<lambda>i. xs ! i) [0..<1600]) (map (\<lambda>p. overwrite (deinterleave q (2 * p + 1)) (wn_hU w0 ! p)) [0, 1, 2])"
    by (simp_all add: assms(4) downSampling_def copyToWaveWindow_def Let_def)
  have "wn_lI w ! p = map (\<lambda>i. overwrite (deinterleave q (2 * p)) (wn_hI w0 ! p) ! i) [0..<1600]"
    "wn_lU w ! p = map (\<lambda>i. overwrite (deinterleave q (2 * p + 1)) (wn_hU w0 ! p) ! i) [0..<1600]"
    using assms(1) unfolding w by (simp_all add: p3' del: list.map)
  then show ?thesis using lt by (simp add: at del: upt_Suc)
qed

text \<open>The ring after a stream of pages: each of the last two hundred lies at its place, and the
  read index marks the last full hundred.\<close>

definition page_words :: "wfb_read \<times> nat \<Rightarrow> int list" where
  "page_words x = map (\<lambda>k. wr_mem (fst x) (0x801 + (wfb_base (fst x) + 0x80 * snd x) + k)) [0..<96]"

definition pages_hold :: "nat \<Rightarrow> (wfb_read \<times> nat) list \<Rightarrow> wave_pgbuf \<Rightarrow> bool" where
  "pages_hold fr0 xs q \<longleftrightarrow> length (pg_wb q) = 200 \<and> pg_fr q = (fr0 + length xs) mod 200 \<and>
     pg_count q = length xs mod 100 \<and>
     (\<forall>g < length xs. length xs \<le> g + 200 \<longrightarrow> take 96 (pg_wb q ! ((fr0 + g) mod 200)) = page_words (xs ! g)) \<and>
     (100 \<le> length xs \<longrightarrow> pg_re q = (fr0 + 100 * (length xs div 100 - 1)) mod 200 \<and> pg_halfFull q \<and>
        pg_ts q = wr_now (fst (xs ! (100 * (length xs div 100) - 1))) (snd (xs ! (100 * (length xs div 100) - 1))) - 200)"

lemma length_page_words [simp]: "length (page_words x) = 96" by (simp add: page_words_def)

lemma take_overwrite: "take (length xs) (overwrite xs old) = xs" by (simp add: overwrite_def)

lemma wfb_page_fields:
  assumes "length (pg_wb q) = 200" "pg_fr q < 200"
  shows "pg_wb (wfb_page r i q) = (pg_wb q)[pg_fr q := overwrite (page_words (r, i)) (pg_wb q ! pg_fr q)]"
    "pg_fr (wfb_page r i q) = (pg_fr q + 1) mod 200"
    "pg_count (wfb_page r i q) = (if pg_count q + 1 \<ge> 100 then 0 else pg_count q + 1)"
    "pg_re (wfb_page r i q) = (if pg_count q + 1 \<ge> 100 then (pg_fr q + 101) mod 200 else pg_re q)"
    "pg_halfFull (wfb_page r i q) = (pg_count q + 1 \<ge> 100 \<or> pg_halfFull q)"
    "pg_ts (wfb_page r i q) = (if pg_count q + 1 \<ge> 100 then wr_now r i - 200 else pg_ts q)"
proof -
  have fr: "(if pg_fr q + 1 \<ge> PG_BUF_CNT then 0 else pg_fr q + 1) = (pg_fr q + 1) mod 200"
    using assms(2) by (simp add: mod_if)
  have re: "(Suc x mod 200 + 100) mod 200 = (x + 101) mod 200" for x :: nat by presburger
  show "pg_wb (wfb_page r i q) = (pg_wb q)[pg_fr q := overwrite (page_words (r, i)) (pg_wb q ! pg_fr q)]"
    "pg_fr (wfb_page r i q) = (pg_fr q + 1) mod 200"
    "pg_count (wfb_page r i q) = (if pg_count q + 1 \<ge> 100 then 0 else pg_count q + 1)"
    "pg_re (wfb_page r i q) = (if pg_count q + 1 \<ge> 100 then (pg_fr q + 101) mod 200 else pg_re q)"
    "pg_halfFull (wfb_page r i q) = (pg_count q + 1 \<ge> 100 \<or> pg_halfFull q)"
    "pg_ts (wfb_page r i q) = (if pg_count q + 1 \<ge> 100 then wr_now r i - 200 else pg_ts q)"
    unfolding wfb_page_def getWave32kBuf_def fr Let_def by (simp_all add: page_words_def re del: upt_Suc)
qed

lemma pages_hold_page:
  assumes "pages_hold fr0 xs q" shows "pages_hold fr0 (xs @ [(r, i)]) (wfb_page r i q)"
proof -
  let ?n = "length xs"
  have len: "length (pg_wb q) = 200" and fr: "pg_fr q = (fr0 + ?n) mod 200" "pg_fr q < 200"
    and cnt: "pg_count q = ?n mod 100" using assms by (simp_all add: pages_hold_def)
  note f = wfb_page_fields [OF len fr(2), of r i]
  have full: "pg_count q + 1 \<ge> 100 \<longleftrightarrow> (?n + 1) mod 100 = 0"
    using mod_less_divisor [of 100 ?n] unfolding cnt by (auto simp: mod_Suc)
  have count: "pg_count (wfb_page r i q) = (?n + 1) mod 100"
    using mod_less_divisor [of 100 ?n] unfolding f cnt by (auto simp: mod_Suc)
  have held: "take 96 (pg_wb (wfb_page r i q) ! ((fr0 + g) mod 200)) = page_words ((xs @ [(r, i)]) ! g)"
    if g: "g < ?n + 1" "?n + 1 \<le> g + 200" for g
  proof (cases "g = ?n")
    case True
    have "take 96 (overwrite (page_words (r, i)) old) = page_words (r, i)" for old
      using take_overwrite [of "page_words (r, i)"] by simp
    then show ?thesis using True len fr by (simp add: f)
  next
    case False
    have "(fr0 + g) mod 200 \<noteq> (fr0 + ?n) mod 200"
      using mod_eq_dvd_iff_nat [of "fr0 + g" "fr0 + ?n" 200] dvd_imp_le [of 200 "?n - g"] g False by auto
    then show ?thesis using False g assms by (simp add: f fr nth_append pages_hold_def)
  qed
  have mark: "pg_re (wfb_page r i q) = (fr0 + 100 * ((?n + 1) div 100 - 1)) mod 200 \<and> pg_halfFull (wfb_page r i q) \<and>
      pg_ts (wfb_page r i q) = (let x = (xs @ [(r, i)]) ! (100 * ((?n + 1) div 100) - 1) in wr_now (fst x) (snd x) - 200)"
    if n: "100 \<le> ?n + 1"
  proof (cases "(?n + 1) mod 100 = 0")
    case True
    then have e: "100 * ((?n + 1) div 100) = ?n + 1" by (metis add.right_neutral mult_div_mod_eq)
    have "pg_re (wfb_page r i q) = ((fr0 + ?n) mod 200 + 101) mod 200" using True by (simp only: f(4) full fr(1) if_True simp_thms)
    also have "\<dots> = (fr0 + (?n + 1 - 100) + 200) mod 200" using n by (simp add: mod_simps add.commute)
    also have "\<dots> = (fr0 + 100 * ((?n + 1) div 100 - 1)) mod 200"
      unfolding right_diff_distrib' e by (simp only: mod_add_self2 mult_1_right)
    finally have re: "pg_re (wfb_page r i q) = (fr0 + 100 * ((?n + 1) div 100 - 1)) mod 200" .
    have "100 * ((?n + 1) div 100) - 1 = ?n" using e by simp
    then show ?thesis using True full re by (simp only: f(5,6)) simp
  next
    case False
    then have "?n \<noteq> 99" by auto
    then have e: "(?n + 1) div 100 = ?n div 100" "100 \<le> ?n" using n False by (simp_all add: div_Suc mod_Suc)
    have "100 * (?n div 100) - 1 < ?n" using e(2) by (metis diff_less dual_order.strict_trans2 leI le_trans less_one
        mult_div_mod_eq not_one_le_zero not_numeral_le_zero diff_le_self le_add1 order_less_le_trans nat_less_le zero_less_one)
    then show ?thesis using False e(2) full assms unfolding e by (simp add: f nth_append pages_hold_def Let_def)
  qed
  show ?thesis using len held mark count by (simp add: pages_hold_def f fr mod_simps Let_def add.commute add.left_commute)
qed

lemma pages_hold_fold:
  "pages_hold fr0 xs q \<Longrightarrow> pages_hold fr0 (xs @ ys) (fold (\<lambda>x. wfb_page (fst x) (snd x)) ys q)"
proof (induction ys arbitrary: xs q)
  case (Cons y ys)
  then show ?case using Cons.IH [OF pages_hold_page [OF Cons.prems, of "fst y" "snd y"]] by simp
qed simp

definition read_pages :: "wfb_read list \<Rightarrow> (wfb_read \<times> nat) list" where
  "read_pages rs = concat (map (\<lambda>r. map (Pair r) [0..<8]) rs)"

lemma reads_are_pages: "fold readWFB_Data rs q = fold (\<lambda>x. wfb_page (fst x) (snd x)) (read_pages rs) q"
proof (induction rs arbitrary: q)
  case (Cons r rs)
  have "fold (\<lambda>x. wfb_page (fst x) (snd x)) (map (Pair r) [0..<8]) q = readWFB_Data r q"
    by (simp add: fold_map readWFB_Data_def comp_def del: upt_Suc)
  then show ?case using Cons by (simp add: read_pages_def del: upt_Suc)
qed (simp add: read_pages_def)

lemma read_pages_nth: "g < 8 * length rs \<Longrightarrow> read_pages rs ! g = (rs ! (g div 8), g mod 8)"
  using nth_concat_blocks [of "map (\<lambda>r. map (Pair r) [0..<8]) rs" 8 "g div 8" "g mod 8"]
  by (auto simp: read_pages_def simp del: upt_Suc)

lemma length_read_pages [simp]: "length (read_pages rs) = 8 * length rs"
  by (induction rs) (simp_all add: read_pages_def)

text \<open>C25. A window shows the last full hundred pages of the chip in order: after any number of
  half-buffer reads, thirteen or more, from a ring of 200 pages with its write index anywhere and
  its page counter zero, without a reset of the ring in between, copying the ring and down-sampling in the 8 kHz
  mode gives in each phase, at sample 16 i + j, the chip's word of current and of voltage in
  place j of page i of those hundred pages: the page g counted over all reads comes from read
  g div 8, from the half of the chip's buffer that is not being written. The window has
  the time of the page that completed the hundred, less 200 ms.\<close>

theorem window_is_page_stream:
  assumes "pg_fr q0 < 200" "pg_count q0 = 0" "length (pg_wb q0) = 200"
    and "13 \<le> length rs" "q = fold readWFB_Data rs q0"
    and "p < 3" "i < 100" "j < 16" "w = downSampling False (snd (copyToWaveWindow U I q w0))"
    and "first = 100 * (8 * length rs div 100 - 1)" "r = rs ! ((first + i) div 8)"
    and "a = 0x801 + (if (unat (wr_trig r) div 4096 + 1) mod 16 < 8 then 0x400 else 0) + 0x80 * ((first + i) mod 8) + 6 * j"
  shows "wn_lI w ! p ! (16 * i + j) = wr_mem r (a + 2 * p) \<and>
    wn_lU w ! p ! (16 * i + j) = wr_mem r (a + 2 * p + 1) \<and>
    length (wn_lI w ! p) = 1600 \<and> length (wn_lU w ! p) = 1600 \<and> pg_halfFull q \<and>
    wn_ts w = wr_now (rs ! ((first + 99) div 8)) ((first + 99) mod 8) - 200"
proof -
  define n where "n = length rs"
  have "pages_hold (pg_fr q0) [] q0" using assms(1-3) by (simp add: pages_hold_def)
  then have h: "pages_hold (pg_fr q0) (read_pages rs) q"
    using pages_hold_fold [of "pg_fr q0" "[]"] by (simp add: assms(5) reads_are_pages)
  have n: "100 \<le> 8 * n" using assms(4) by (simp add: n_def)
  have f: "first + 100 = 100 * (8 * n div 100)" "first + 99 = 100 * (8 * n div 100) - 1"
    using n div_le_mono [OF n, of 100] by (simp_all add: assms(10) n_def diff_mult_distrib2)
  have le: "first + 100 \<le> 8 * n" "8 * n < first + 200" using f(1) by linarith+
  have re: "pg_re q = (pg_fr q0 + first) mod 200" "pg_halfFull q"
      "pg_ts q = wr_now (rs ! ((first + 99) div 8)) ((first + 99) mod 8) - 200"
    using h n le f(2) read_pages_nth [of "first + 99" rs] by (simp_all add: pages_hold_def n_def [symmetric] assms(10))
  have "page_at q i = pg_wb q ! ((pg_fr q0 + (first + i)) mod 200)" by (simp add: page_at_def re mod_simps add.assoc)
  moreover have "take 96 (pg_wb q ! ((pg_fr q0 + (first + i)) mod 200)) = page_words (read_pages rs ! (first + i))"
    using h le assms(7) by (simp add: pages_hold_def n_def [symmetric])
  ultimately have pg: "take 96 (page_at q i) = page_words (r, (first + i) mod 8)"
    using read_pages_nth [of "first + i" rs] le assms(7,11) by (simp add: n_def)
  have "page_at q i ! k = wr_mem r (0x801 + (wfb_base r + 0x80 * ((first + i) mod 8)) + k)" if "k < 96" for k
    using nth_take [of k 96 "page_at q i"] that unfolding pg by (simp add: page_words_def del: upt_Suc)
  note words = this
  have a: "0x801 + (wfb_base r + 0x80 * ((first + i) mod 8)) + (6 * j + c) = a + c" for c
    by (simp add: assms(12) wfb_base_def Let_def drop_bit_eq_div unat_div)
  have at: "page_at q i ! (6 * j + c) = wr_mem r (a + c)" if "c < 6" for c
    unfolding a [symmetric] using that assms(8) by (intro words) linarith
  have "wn_ts w = pg_ts q" by (simp add: assms(9) downSampling_def copyToWaveWindow_def Let_def)
  then show ?thesis
    using window_samples [OF assms(6-9)] at [of "2 * p"] at [of "2 * p + 1"] assms(6) re by (simp add: add.assoc)
qed

definition demo_pages :: wave_pgbuf where
  "demo_pages = \<lparr>pg_fr = 150, pg_re = 150, pg_count = 0, pg_lastolc = 0, pg_olc = 0, pg_ts = 0, pg_hs = False, pg_halfFull = True,
     pg_wb = map (\<lambda>i. map (\<lambda>s. int (96 * i + s)) [0..<128]) [0..<200]\<rparr>"

definition demo_window :: wave_win where
  "demo_window = \<lparr>wn_ts = 0, wn_vrms = [], wn_irms = [], wn_hI = replicate 3 (replicate 6400 0),
     wn_hU = replicate 3 (replicate 6400 0), wn_lI = replicate 3 (replicate 1600 0), wn_lU = replicate 3 (replicate 1600 0)\<rparr>"

definition demo_read :: "nat \<Rightarrow> wfb_read" where
  "demo_read m = \<lparr>wr_trig = (if even m then 0x7000 else 0xF000), wr_mem = (\<lambda>a. int (10000 * m + a)),
     wr_now = (\<lambda>i. of_nat (16 * m + 2 * i)), wr_online = True\<rparr>"

text \<open>Of 26 reads the second hundred pages are shown; page 60 of them is page 0 of read 20, which
  reads the lower half.\<close>

theorem window_is_page_stream_witness:
  "wn_lU (downSampling False (snd (copyToWaveWindow [] [] (fold readWFB_Data (map demo_read [0..<26]) demo_pages) demo_window)))
      ! 1 ! (16 * 60 + 2) = 200000 + 0x801 + 6 * 2 + 3"
proof -
  have q: "pg_fr demo_pages < 200" "pg_count demo_pages = 0" "length (pg_wb demo_pages) = 200" by (simp_all add: demo_pages_def)
  have r: "map demo_read [0..<26] ! ((100 + 60) div 8) = demo_read 20" by (simp del: upt_Suc)
  from window_is_page_stream [OF q, of "map demo_read [0..<26]" _ 1 60 2, OF _ refl _ _ _ refl refl refl refl, of "[]" "[]" demo_window]
  show ?thesis by (simp add: r [simplified] demo_read_def del: upt_Suc list.map)
qed

subsection \<open>The ring\<close>

text \<open>The ring after \<open>n\<close> windows of a stream \<open>W\<close>.\<close>

definition ring_holds :: "(nat \<Rightarrow> wave_win) \<Rightarrow> nat \<Rightarrow> wave_win list \<Rightarrow> bool" where
  "ring_holds W n ww \<longleftrightarrow> length ww = 6 \<and> (\<forall>i < n. n \<le> i + 6 \<longrightarrow> ww ! (i mod 6) = W i)"

lemma ring_holds_put:
  assumes "ring_holds W n ww" shows "ring_holds W (n + 1) (ww[n mod 6 := W n])"
proof -
  have ne: "i mod 6 \<noteq> n mod 6" if "i < n" "n + 1 \<le> i + 6" for i
  proof
    assume "i mod 6 = n mod 6"
    then have "6 dvd n - i" using that(1) mod_eq_dvd_iff_nat [of i n 6] by (simp add: less_imp_le)
    then show False using that dvd_imp_le [of 6 "n - i"] by linarith
  qed
  have len: "length ww = 6" and old: "\<And>i. i < n \<Longrightarrow> n \<le> i + 6 \<Longrightarrow> ww ! (i mod 6) = W i"
    using assms by (simp_all add: ring_holds_def)
  have "ww[n mod 6 := W n] ! (i mod 6) = W i" if "i < n + 1" "n + 1 \<le> i + 6" for i
  proof (cases "i = n")
    case True
    then show ?thesis using len by simp
  next
    case False
    then show ?thesis using that ne [of i] old [of i] by simp
  qed
  then show ?thesis using len by (simp add: ring_holds_def)
qed

lemma wave_pass_some:
  assumes "pg_halfFull (wv_pg c)" "wave_pass cx sagSt U I (c, fq) = Some (c', fq')"
    and "ww = (wv_ww c)[wv_ix c := wave_window U I c]"
  obtains evs q cap where
    "wave_caps sagSt (wn_ts (wave_window U I c) + 200) (wn_ts (ww ! ((wv_ix c + 1) mod N_WAVE_WIN)))
       (of_nat (pre_ms cx)) (of_nat (post_ms cx)) [] (wv_evq c) = Some (evs, q)"
    "fold (\<lambda>e s. snd (wavePreCaptureLF cx ww e s)) evs (wv_cap c, fq) = (cap, fq')"
    "c' = c\<lparr>wv_ww := ww, wv_pg := fst (copyToWaveWindow U I (wv_pg c) (wv_ww c ! wv_ix c)),
       wv_fft := snd (copyFftData (wave_window U I c) (wv_fft c)), wv_evq := q, wv_cap := cap,
       wv_ix := (if wv_ix c + 1 \<ge> N_WAVE_WIN then 0 else wv_ix c + 1)\<rparr>"
proof -
  let ?wc = "wave_caps sagSt (wn_ts (wave_window U I c) + 200) (wn_ts (ww ! ((wv_ix c + 1) mod N_WAVE_WIN)))
       (of_nat (pre_ms cx)) (of_nat (post_ms cx)) [] (wv_evq c)"
  have body: "(case ?wc of None \<Rightarrow> None
    | Some (evs, q) \<Rightarrow> (case fold (\<lambda>e s. snd (wavePreCaptureLF cx ww e s)) evs (wv_cap c, fq) of (cap, fq) \<Rightarrow>
        Some (c\<lparr>wv_ww := ww, wv_pg := fst (copyToWaveWindow U I (wv_pg c) (wv_ww c ! wv_ix c)),
       wv_fft := snd (copyFftData (wave_window U I c) (wv_fft c)), wv_evq := q, wv_cap := cap,
       wv_ix := (if wv_ix c + 1 \<ge> N_WAVE_WIN then 0 else wv_ix c + 1)\<rparr>, fq))) = Some (c', fq')"
    using assms(2) unfolding wave_pass_def Let_def fst_conv snd_conv assms(3) by (simp only: assms(1) not_True_eq_False if_False)
  show thesis
  proof (cases ?wc)
    case None
    then show ?thesis using body by simp
  next
    case (Some r)
    obtain evs q where r: "r = (evs, q)" by (cases r)
    obtain cap fq2 where f: "fold (\<lambda>e s. snd (wavePreCaptureLF cx ww e s)) evs (wv_cap c, fq) = (cap, fq2)"
      by (cases "fold (\<lambda>e s. snd (wavePreCaptureLF cx ww e s)) evs (wv_cap c, fq)")
    note body2 = body [unfolded Some r option.case prod.case f option.inject prod.inject]
    show ?thesis
      using f unfolding conjunct2 [OF body2] by (rule that [OF Some [unfolded r]]) (rule conjunct1 [OF body2, symmetric])
  qed
qed

lemma wrap_6: "(if n mod 6 + 1 \<ge> 6 then 0 else n mod 6 + 1) = (n + 1) mod (6 :: nat)"
proof -
  have wrap: "(if r + 1 \<ge> 6 then 0 else r + 1) = (if Suc r = 6 then 0 else Suc r)" if "r < 6" for r :: nat
    using that by auto
  have "n mod 6 < 6" by simp
  then show ?thesis
    unfolding wrap [OF \<open>n mod 6 < 6\<close>] by (simp only: Suc_eq_plus1 [symmetric] mod_Suc)
qed

lemma wave_pass_ring:
  assumes "ring_holds W n (wv_ww c)" "wv_ix c = n mod 6" "pg_halfFull (wv_pg c)" "wave_window U I c = W n"
    and "wave_pass cx sagSt U I (c, fq) = Some (c', fq')"
  shows "ring_holds W (n + 1) (wv_ww c') \<and> wv_ix c' = (n + 1) mod 6 \<and> \<not> pg_halfFull (wv_pg c')"
proof -
  obtain evs q cap where c': "c' = c\<lparr>wv_ww := (wv_ww c)[wv_ix c := wave_window U I c],
       wv_pg := fst (copyToWaveWindow U I (wv_pg c) (wv_ww c ! wv_ix c)),
       wv_fft := snd (copyFftData (wave_window U I c) (wv_fft c)), wv_evq := q, wv_cap := cap,
       wv_ix := (if wv_ix c + 1 \<ge> N_WAVE_WIN then 0 else wv_ix c + 1)\<rparr>"
    by (rule wave_pass_some [OF assms(3,5) refl])
  have "wv_ww c' = (wv_ww c)[n mod 6 := W n]" "wv_ix c' = (n + 1) mod 6"
    "wv_pg c' = fst (copyToWaveWindow U I (wv_pg c) (wv_ww c ! wv_ix c))"
    unfolding c' assms(2,4) wrap_6 by simp_all
  then show ?thesis
    using ring_holds_put [OF assms(1)] by (simp add: copyToWaveWindow_def)
qed

subsection \<open>The capture\<close>

lemma win_off_floor: "win_off g = g div 1600"
proof (cases "g \<ge> 0")
  case False
  let ?q = "(- g + 1599) div 1600"
  have "g div 1600 = - ?q"
  proof (rule int_div_pos_eq [of _ _ _ "g + 1600 * ?q"])
    show "0 \<le> g + 1600 * ?q" using mod_pos_pos_trivial pos_mod_bound [of 1600 "- g + 1599"]
        mult_div_mod_eq [of 1600 "- g + 1599"] by linarith
    show "g + 1600 * ?q < 1600" using pos_mod_sign [of 1600 "- g + 1599"]
        mult_div_mod_eq [of 1600 "- g + 1599"] by linarith
  qed simp
  then show ?thesis using False by (simp add: win_off_def)
qed (simp add: win_off_def)

lemma c_rem_6: "- 6 < c_rem x 6 \<and> c_rem x 6 mod 6 = x mod 6"
proof (cases "x < 0")
  case True
  then have "c_rem x 6 = - ((- x) mod 6)" by (simp add: c_rem_def)
  then show ?thesis by presburger
next
  case False
  then have "c_rem x 6 = x mod 6" by (cases "x = 0") (simp_all add: c_rem_def)
  then show ?thesis by presburger
qed

lemma c_rem_pos: "0 < x \<Longrightarrow> c_rem x 6 = x mod 6"
  by (simp add: c_rem_def)

lemma ring_ix_mod: "ring_ix e off = (e + off) mod 6"
proof -
  have "ring_ix e off = (c_rem (e + off) 6 + 6) mod 6"
    unfolding ring_ix_def using c_rem_6 [of "e + off"] by (intro c_rem_pos) simp
  then show ?thesis using c_rem_6 [of "e + off"] by simp
qed

lemma put_all_nth:
  assumes "\<forall>w \<in> set ws. fst w = a \<longrightarrow> snd w = v" "a < length d"
  shows "put_all ws d ! a = (if \<exists>w \<in> set ws. fst w = a then v else d ! a)"
  using assms
proof (induction ws arbitrary: d)
  case (Cons w ws)
  have "put_all (w # ws) d = put_all ws (d[fst w := snd w])" by (simp add: put_all_def)
  then show ?case using Cons by (cases "fst w = a") auto
qed (simp add: put_all_def)

lemma length_put_all [simp]: "length (put_all ws d) = length d"
  by (induction ws arbitrary: d) (simp_all add: put_all_def)

lemma place_unique:
  assumes "m * n + k = m' * n + k'" "k < n" "k' < (n :: nat)" shows "m = m' \<and> k = k'"
proof -
  have "(m * n + k) div n = m" "(m * n + k) mod n = k" "(m' * n + k') div n = m'" "(m' * n + k') mod n = k'"
    using assms(2,3) by simp_all
  then show ?thesis using assms(1) by metis
qed

lemma UN_image_pairs: "(\<Union>k \<in> B. (\<lambda>m. f m k) ` A) = (\<lambda>(m, k). f m k) ` (A \<times> B)"
proof (rule set_eqI)
  fix x
  have "(\<exists>k \<in> B. \<exists>m \<in> A. x = f m k) \<longleftrightarrow> (\<exists>m \<in> A. \<exists>k \<in> B. x = f m k)" by blast
  then show "x \<in> (\<Union>k \<in> B. (\<lambda>m. f m k) ` A) \<longleftrightarrow> x \<in> (\<lambda>(m, k). f m k) ` (A \<times> B)"
    by (simp add: image_iff)
qed

text \<open>The stores of a capture, when the ring shows the signals \<open>SU\<close> and \<open>SI\<close> at the places it reads.\<close>

definition shows_at :: "wave_win list \<Rightarrow> nat \<Rightarrow> (nat \<Rightarrow> int \<Rightarrow> int) \<Rightarrow> (nat \<Rightarrow> int \<Rightarrow> int) \<Rightarrow> int \<Rightarrow> bool" where
  "shows_at ww e SU SI g \<longleftrightarrow>
     (\<forall>j < 3. wn_lU (ww ! nat ((int e + g div 1600) mod 6)) ! j ! nat (g mod 1600) = SU j g \<and>
              wn_lI (ww ! nat ((int e + g div 1600) mod 6)) ! j ! nat (g mod 1600) = SI j g)"

lemma six_stores:
  assumes "\<And>j. j < 3 \<Longrightarrow> wn_lU w ! j ! gi = SU j g" "\<And>j. j < 3 \<Longrightarrow> wn_lI w ! j ! gi = SI j g"
  shows "set (concat (map (\<lambda>j. [(j * count + k, wn_lU w ! j ! gi), (3 * count + j * count + k, wn_lI w ! j ! gi)]) [0, 1, 2])) =
    (\<lambda>m. (m * count + k, if m < 3 then SU m g else SI (m - 3) g)) ` {..<6}"
proof -
  have s: "{..<6 :: nat} = {0, 1, 2, 3, 4, 5}" by auto
  have e: "3 * count + 0 * count + k = 3 * count + k" "3 * count + 1 * count + k = 4 * count + k"
    "3 * count + 2 * count + k = 5 * count + k" by simp_all
  have at: "wn_lU w ! 0 ! gi = SU 0 g" "wn_lU w ! 1 ! gi = SU 1 g" "wn_lU w ! 2 ! gi = SU 2 g"
    "wn_lI w ! 0 ! gi = SI 0 g" "wn_lI w ! 1 ! gi = SI 1 g" "wn_lI w ! 2 ! gi = SI 2 g"
    using assms by simp_all
  show ?thesis
    unfolding s by (simp only: list.map concat.simps append.simps at e) (simp add: insert_commute)
qed

lemma cap_writes_shown:
  assumes "shows_at ww e SU SI g"
  shows "set (cap_writes ww e g count k) =
    (\<lambda>m. (m * count + k, if m < 3 then SU m g else SI (m - 3) g)) ` {..<6}"
proof -
  have m: "g - g div 1600 * 1600 = g mod 1600" by (simp add: minus_div_mult_eq_mod)
  show ?thesis
    unfolding cap_writes_def Let_def win_off_floor ring_ix_mod m
    by (rule six_stores) (use assms in \<open>simp_all only: shows_at_def\<close>)
qed

lemma capture_shown:
  assumes "\<forall>k < count. shows_at ww e SU SI (g0 + int k)" "m < 6" "k < count" "6 * count \<le> length d"
  shows "put_all (concat (map (\<lambda>k. cap_writes ww e (g0 + int k) count k) [0..<count])) d ! (m * count + k) =
    (if m < 3 then SU m (g0 + int k) else SI (m - 3) (g0 + int k))"
proof -
  let ?ws = "concat (map (\<lambda>k. cap_writes ww e (g0 + int k) count k) [0..<count])"
  let ?V = "\<lambda>m k. if m < 3 then SU m (g0 + int k) else SI (m - 3) (g0 + int k)"
  have ws: "set ?ws = (\<lambda>(m, k). (m * count + k, ?V m k)) ` ({..<6} \<times> {..<count})"
  proof -
    have "set (cap_writes ww e (g0 + int k) count k) = (\<lambda>m. (m * count + k, ?V m k)) ` {..<6}" if "k < count" for k
      using cap_writes_shown [of ww e SU SI "g0 + int k" count k] assms(1) that by simp
    note each = this
    have "set ?ws = (\<Union>k \<in> {..<count}. set (cap_writes ww e (g0 + int k) count k))"
      by (simp add: atLeast0LessThan)
    also have "\<dots> = (\<Union>k \<in> {..<count}. (\<lambda>m. (m * count + k, ?V m k)) ` {..<6})"
      using each by (intro SUP_cong) simp_all
    also have "\<dots> = (\<lambda>(m, k). (m * count + k, ?V m k)) ` ({..<6} \<times> {..<count})"
      by (rule UN_image_pairs)
    finally show ?thesis .
  qed
  have lt: "m * count + k < length d"
  proof -
    have "m * count \<le> 5 * count" using assms(2) by simp
    then show ?thesis using assms(3,4) by linarith
  qed
  have "\<forall>w \<in> set ?ws. fst w = m * count + k \<longrightarrow> snd w = ?V m k"
  proof
    fix w assume "w \<in> set ?ws"
    then obtain m' k' where w: "w = (m' * count + k', ?V m' k')" "k' < count"
      unfolding ws by (elim imageE) (auto split: prod.splits)
    show "fst w = m * count + k \<longrightarrow> snd w = ?V m k"
    proof
      assume "fst w = m * count + k"
      then have "m' = m \<and> k' = k" using w place_unique [OF _ w(2) assms(3), of m' m] by simp
      then show "snd w = ?V m k" using w(1) by simp
    qed
  qed
  moreover have "(m * count + k, ?V m k) \<in> set ?ws"
    unfolding ws using assms(2,3) by (intro image_eqI [of _ _ "(m, k)"]) simp_all
  then have "\<exists>w \<in> set ?ws. fst w = m * count + k" by (rule bexI [rotated]) simp
  ultimately show ?thesis using put_all_nth [OF _ lt] by simp
qed

text \<open>A ring of consecutive windows of 200 ms holds the last six of the two signals.\<close>

definition ring_shows :: "(nat \<Rightarrow> wave_win) \<Rightarrow> nat \<Rightarrow> nat \<Rightarrow> (nat \<Rightarrow> nat \<Rightarrow> int) \<Rightarrow> (nat \<Rightarrow> nat \<Rightarrow> int) \<Rightarrow> bool" where
  "ring_shows W n t0 SU SI \<longleftrightarrow> 6 \<le> n \<and> t0 + 200 * n < 2 ^ 64 \<and>
     (\<forall>i < n. n \<le> i + 6 \<longrightarrow> unat (wn_ts (W i)) = t0 + 200 * i \<and>
       (\<forall>j < 3. \<forall>k < 1600. wn_lU (W i) ! j ! k = SU j (1600 * i + k) \<and> wn_lI (W i) ! j ! k = SI j (1600 * i + k)))"

lemma window_covers:
  assumes "unat w = s" "s + 200 < 2 ^ 64" shows "(ts :: u64) \<ge> w \<and> ts < w + 200 \<longleftrightarrow> s \<le> unat ts \<and> unat ts < s + 200"
proof -
  have "unat (w + 200) = s + 200"
    using assms unat_add_lem [of w 200] by simp
  then show ?thesis using assms(1) by (simp add: word_le_nat_alt word_less_nat_alt)
qed

lemma residue_of_last_six:
  assumes "6 \<le> n" "k < 6" obtains i where "i < n" "n \<le> i + 6" "i mod 6 = (k :: nat)"
proof -
  let ?q = "(n - 1 - k) div 6"
  have "6 * ?q \<le> n - 1 - k" "n - 1 - k < 6 * ?q + 6" using div_mult_mod_eq [of "n - 1 - k" 6] mod_less_divisor [of 6 "n - 1 - k"] by linarith+
  then show thesis using assms by (intro that [of "6 * ?q + k"]) simp_all
qed

lemma find_window_in_ring:
  assumes "ring_holds W n ww" "ring_shows W n t0 SU SI" "i0 < n" "n \<le> i0 + 6"
    and "t0 + 200 * i0 \<le> unat ts" "unat ts < t0 + 200 * i0 + 200"
  shows "find_window ts ww = Some (i0 mod 6)"
proof -
  have n6: "6 \<le> n" using assms(2) by (simp add: ring_shows_def)
  have cov: "ts \<ge> wn_ts (ww ! k) \<and> ts < wn_ts (ww ! k) + 200 \<longleftrightarrow> k = i0 mod 6" if k: "k < 6" for k
  proof -
    obtain i where i: "i < n" "n \<le> i + 6" "i mod 6 = k"
      by (rule residue_of_last_six [OF n6 k])
    have w: "ww ! k = W i" using assms(1) i by (auto simp: ring_holds_def)
    have t: "unat (wn_ts (W i)) = t0 + 200 * i" "t0 + 200 * i + 200 < 2 ^ 64 \<or> i = n - 1"
      using assms(2) i by (auto simp: ring_shows_def)
    have fit: "t0 + 200 * i + 200 < 2 ^ 64" using assms(2) i by (auto simp: ring_shows_def)
    have "ts \<ge> wn_ts (ww ! k) \<and> ts < wn_ts (ww ! k) + 200 \<longleftrightarrow> i = i0"
      unfolding w window_covers [OF t(1) fit] using assms(5,6) by linarith
    also have "\<dots> \<longleftrightarrow> k = i0 mod 6"
    proof
      assume ke: "k = i0 mod 6"
      show "i = i0"
      proof (rule ccontr)
        assume "i \<noteq> i0"
        then have "6 dvd i - i0 \<and> i0 < i \<or> 6 dvd i0 - i \<and> i < i0"
          using i(3) ke mod_eq_dvd_iff_nat [of i i0 6] mod_eq_dvd_iff_nat [of i0 i 6] by (cases "i < i0") auto
        then show False using i assms(3,4) dvd_imp_le [of 6 "i - i0"] dvd_imp_le [of 6 "i0 - i"] by linarith
      qed
    qed (use i in simp)
    finally show ?thesis .
  qed
  have "find (\<lambda>k. ts \<ge> wn_ts (ww ! k) \<and> ts < wn_ts (ww ! k) + 200) [0..<6] = find (\<lambda>k. k = i0 mod 6) [0..<6]"
    using cov by (intro find_cong) auto
  also have "\<dots> = Some (i0 mod 6)"
  proof -
    have "i0 mod 6 \<in> {0, 1, 2, 3, 4, 5}" using mod_less_divisor [of 6 i0] by (auto simp del: mod_less_divisor)
    then show ?thesis by (auto simp: upt_conv_Cons)
  qed
  finally show ?thesis unfolding find_window_def .
qed

lemma block_bounds:
  assumes "0 \<le> r" "r < (1600 :: int)"
    and "1600 * (n - 6) \<le> 1600 * i + (1600 * q + r)" "1600 * i + (1600 * q + r) < 1600 * n"
  shows "n - 6 \<le> i + q" "i + q < n"
  using assms by auto

lemma ring_shows_at:
  assumes "ring_holds W n ww" "ring_shows W n t0 SU SI" "i0 < n" "n \<le> i0 + 6"
    and "1600 * (int n - 6) \<le> 1600 * int i0 + g" "1600 * int i0 + g < 1600 * int n"
  shows "shows_at ww (i0 mod 6) (\<lambda>j g. SU j (nat (1600 * int i0 + g))) (\<lambda>j g. SI j (nat (1600 * int i0 + g))) g"
proof -
  let ?q = "g div 1600" and ?r = "g mod 1600"
  have qr: "g = 1600 * ?q + ?r" "0 \<le> ?r" "?r < 1600" by simp_all
  let ?i = "nat (int i0 + ?q)"
  have n6: "6 \<le> n" using assms(2) by (simp add: ring_shows_def)
  have q: "int n - 6 \<le> int i0 + ?q" "int i0 + ?q < int n" by (rule block_bounds [OF qr(2,3)]; use assms(5,6) in simp)+
  then have i: "?i < n" "n \<le> ?i + 6" and ii: "int ?i = int i0 + ?q" using n6 by linarith+
  have "(int (i0 mod 6) + ?q) mod 6 = int ?i mod 6" unfolding ii by (simp add: zmod_int mod_add_left_eq)
  then have ix: "nat ((int (i0 mod 6) + ?q) mod 6) = ?i mod 6" by (simp add: nat_mod_distrib ii)
  have k: "nat ?r < 1600" "1600 * ?i + nat ?r = nat (1600 * int i0 + g)" using qr ii by linarith+
  have "ww ! (?i mod 6) = W ?i" using assms(1) i unfolding ring_holds_def by blast
  moreover have "\<forall>j < 3. wn_lU (W ?i) ! j ! nat ?r = SU j (1600 * ?i + nat ?r) \<and> wn_lI (W ?i) ! j ! nat ?r = SI j (1600 * ?i + nat ?r)"
    using assms(2) i k(1) unfolding ring_shows_def by blast
  ultimately show ?thesis unfolding shows_at_def ix k(2) by simp
qed

lemma cap_cycles_limit: "cap_cycles pre post = (a, b) \<Longrightarrow> a + b \<le> 30"
  by (auto simp: cap_cycles_def Let_def split: if_splits)

lemma cap_count_fits:
  assumes "cap_cycles p q = (a, b)" "spc = 8000 div FREQ_HZ f"
  shows "a * spc + b * spc \<le> 4800" "min (a * spc + b * spc) N_LFCAP = a * spc + b * spc"
proof -
  have "spc \<le> 160" using assms(2) by (simp add: FREQ_HZ_def)
  then have "(a + b) * spc \<le> 30 * 160" using cap_cycles_limit [OF assms(1)] by (rule mult_le_mono [rotated])
  then show "a * spc + b * spc \<le> 4800" by (simp add: algebra_simps)
  then show "min (a * spc + b * spc) N_LFCAP = a * spc + b * spc" by simp
qed

lemma cap_image_shows:
  assumes ring: "ring_holds W n ww" "ring_shows W n t0 SU SI" "i0 < n" "n \<le> i0 + 6"
    and ts: "unat ts = t0 + 200 * i0 + d" "d < 200"
    and pre: "1600 * (n - 6) + pre \<le> 1600 * i0 + 8 * d" and post: "1600 * i0 + 8 * d + count \<le> 1600 * n + pre"
    and len: "6 * count \<le> length (wc_dat c)" "k < count" "m < 6"
  shows "wc_dat (cap_image cx ww ts (i0 mod 6) pre count c) ! (m * count + k) =
    (if m < 3 then SU m (1600 * i0 + 8 * d + k - pre) else SI (m - 3) (1600 * i0 + 8 * d + k - pre))"
proof -
  have n6: "6 \<le> n" using ring(2) by (simp add: ring_shows_def)
  have "ww ! (i0 mod 6) = W i0" "unat (wn_ts (W i0)) = t0 + 200 * i0"
    using ring unfolding ring_holds_def ring_shows_def by blast+
  then have pos: "cap_pos ts (wn_ts (ww ! (i0 mod 6))) = 8 * d"
    using ts by (simp add: cap_pos_def Let_def)
  have pre': "1600 * (int n - 6) \<le> 1600 * int i0 + 8 * int d - int pre"
  proof -
    have "int (1600 * (n - 6) + pre) \<le> int (1600 * i0 + 8 * d)" using pre by (simp only: of_nat_le_iff)
    then show ?thesis unfolding of_nat_add of_nat_mult of_nat_diff [OF n6] by simp
  qed
  have post': "1600 * int i0 + 8 * int d + int count \<le> 1600 * int n + int pre" using post by linarith
  have shown: "\<forall>k < count. shows_at ww (i0 mod 6) (\<lambda>j g. SU j (nat (1600 * int i0 + g))) (\<lambda>j g. SI j (nat (1600 * int i0 + g)))
      (int (8 * d) - int pre + int k)"
  proof (intro allI impI)
    fix k assume k: "k < count"
    show "shows_at ww (i0 mod 6) (\<lambda>j g. SU j (nat (1600 * int i0 + g))) (\<lambda>j g. SI j (nat (1600 * int i0 + g)))
      (int (8 * d) - int pre + int k)"
      by (rule ring_shows_at [OF ring]) (use pre' post' k in simp_all)
  qed
  have at: "nat (1600 * int i0 + (int (8 * d) - int pre + int k)) = 1600 * i0 + 8 * d + k - pre" by linarith
  have "wc_dat (cap_image cx ww ts (i0 mod 6) pre count c) =
      put_all (concat (map (\<lambda>k. cap_writes ww (i0 mod 6) (int (8 * d) - int pre + int k) count k) [0..<count])) (wc_dat c)"
    unfolding cap_image_def Let_def pos by simp
  then show ?thesis
    using capture_shown [OF shown len(3,2,1)] by (simp only: at)
qed

text \<open>C15. A capture is an excerpt of the signals around the event: whatever windows of the ring the
  samples lie in, before or after the wrap, sample k of each phase is the sample of the signal
  \<open>pre\<close> samples before the event plus k, the voltages of the three phases first and their currents
  behind them; the trigger is at the place the header says, the count fits the buffer, and one
  file is queued for an event that has a title.\<close>

theorem capture_is_excerpt_of_signal:
  assumes "ring_holds W n ww" "ring_shows W n t0 SU SI"
    and "t0 + 200 * (n - 6) \<le> unat ts" "unat ts < t0 + 200 * n" "T = 8 * (unat ts - t0)"
    and "cap_cycles (wk_pre cx) (wk_post cx) = (a, b)" "spc = 8000 div FREQ_HZ (wk_freq cx)"
    and "pre = a * spc" "count = pre + b * spc" "0 < count"
    and "1600 * (n - 6) + pre \<le> T" "T + count \<le> 1600 * n + pre" "6 * count \<le> length (wc_dat c)"
    and "wavePreCaptureLF cx ww (ts, e) (c, fq) = (r, c', fq')"
  shows "r = 0 \<and> wc_ts c' = ts \<and> unat (wc_pos c') = pre \<and> unat (wc_count c') = count \<and> count \<le> 4800 \<and>
    (\<forall>j < 3. \<forall>k < count. wc_dat c' ! (j * count + k) = SU j (T + k - pre) \<and>
                         wc_dat c' ! ((j + 3) * count + k) = SI j (T + k - pre)) \<and>
    fq' = (case cap_title e of None \<Rightarrow> fq
           | Some title \<Rightarrow> putFsQ (wk_mem cx) (wk_sleep cx) (Some (cap_msg cx title ts count)) fq)"
proof -
  let ?i = "(unat ts - t0) div 200" and ?d = "(unat ts - t0) mod 200"
  have n6: "6 \<le> n" using assms(2) by (simp add: ring_shows_def)
  have qd: "unat ts - t0 = 200 * ?i + ?d" by simp
  have i: "?i < n" "n \<le> ?i + 6"
    using assms(3,4) n6 div_le_mono [of "200 * (n - 6)" "unat ts - t0" 200] by (simp_all add: less_mult_imp_div_less)
  have ts: "unat ts = t0 + 200 * ?i + ?d" "?d < 200" using assms(3) qd by simp_all
  have T: "T = 1600 * ?i + 8 * ?d" using assms(5) qd by linarith
  have count: "count \<le> 4800" "min count N_LFCAP = count"
    using cap_count_fits [OF assms(6,7)] assms(8,9) by simp_all
  have fw: "find_window ts ww = Some (?i mod 6)"
    by (rule find_window_in_ring [OF assms(1,2) i]) (use ts in linarith)+
  let ?c = "cap_image cx ww ts (?i mod 6) pre count c"
  have res: "(r, c', fq') = (0, ?c, case cap_title e of None \<Rightarrow> fq
           | Some title \<Rightarrow> putFsQ (wk_mem cx) (wk_sleep cx) (Some (cap_msg cx title ts count)) fq)"
    unfolding assms(14) [symmetric] wavePreCaptureLF_def
    using assms(6) assms(10) count(2) fw assms(7,8,9) by (simp add: Let_def split: option.split)
  have dat: "wc_dat ?c ! (m * count + k) = (if m < 3 then SU m (T + k - pre) else SI (m - 3) (T + k - pre))"
    if "m < 6" "k < count" for m k
    unfolding T by (rule cap_image_shows [OF assms(1,2) i ts]) (use assms(11,12,13) that T in simp_all)
  have hd: "wc_ts ?c = ts" "wc_pos ?c = of_nat pre" "wc_count ?c = of_nat count"
    by (simp_all add: cap_image_def Let_def)
  have "pre \<le> count" using assms(9) by simp
  then have "unat (of_nat pre :: u16) = pre" "unat (of_nat count :: u16) = count"
    using count(1) by (simp_all add: unat_of_nat)
  then show ?thesis
    using res count(1) dat [of "_ :: nat"] dat [of "_ + 3"] by (simp add: hd)
qed

text \<open>Six windows whose samples count up: phase j of the voltage shows 10000 j + g at sample g.\<close>

definition demo_W :: "nat \<Rightarrow> wave_win" where
  "demo_W i = demo_window\<lparr>wn_ts := of_nat (1000 + 200 * i),
     wn_lU := map (\<lambda>j. map (\<lambda>k. int (10000 * j + (1600 * i + k))) [0..<1600]) [0..<3],
     wn_lI := map (\<lambda>j. map (\<lambda>k. - int (10000 * j + (1600 * i + k))) [0..<1600]) [0..<3]\<rparr>"

definition demo_wctx :: wave_ctx where
  "demo_wctx = \<lparr>wk_pre = 2, wk_post = 3, wk_freq = 1, wk_vscale = 1, wk_iscale = 1, wk_mask = 1, wk_cap = 0,
     wk_mem = (\<lambda>_. 0), wk_sleep = (\<lambda>_ q. q)\<rparr>"

definition demo_cap :: lf_cap where
  "demo_cap = \<lparr>wc_ts = 0, wc_scale = 0, wc_pos = 0, wc_mask = 0, wc_srate = 0, wc_ver = 0, wc_iscale = 0, wc_count = 0,
     wc_dat = replicate 28800 0\<rparr>"

lemma demo_ring: "ring_holds demo_W 6 (map demo_W [0..<6])"
  by (auto simp: ring_holds_def)

lemma demo_ring_shows:
  "ring_shows demo_W 6 1000 (\<lambda>j g. int (10000 * j + g)) (\<lambda>j g. - int (10000 * j + g))"
proof -
  have "unat (of_nat (1000 + 200 * i) :: u64) = 1000 + 200 * i" if "i < 6" for i
    using that by (subst unat_of_nat) (simp del: of_nat_add)
  then show ?thesis by (simp add: ring_shows_def demo_W_def del: upt_Suc of_nat_add)
qed

text \<open>An over-current 190 ms into the second window: the excerpt starts in the second window, at the
  event's sample 3120 less two cycles, and ends in the third.\<close>

theorem capture_is_excerpt_of_signal_witness:
  "\<exists>c' fq'. wavePreCaptureLF demo_wctx (map demo_W [0..<6]) (1390, E_OC) (demo_cap, fs_q_empty) = (0, c', fq') \<and>
     wc_dat c' ! (1 * 800 + 0) = 12800 \<and> wc_dat c' ! ((2 + 3) * 800 + 799) = - 23599"
proof -
  obtain r c' fq' where w: "wavePreCaptureLF demo_wctx (map demo_W [0..<6]) (1390, E_OC) (demo_cap, fs_q_empty) = (r, c', fq')"
    by (rule prod_cases3)
  have c: "cap_cycles (wk_pre demo_wctx) (wk_post demo_wctx) = (2, 3)" by (simp add: demo_wctx_def cap_cycles_def)
  have f: "(160 :: nat) = 8000 div FREQ_HZ (wk_freq demo_wctx)" by (simp add: demo_wctx_def FREQ_HZ_def)
  have t: "(3120 :: nat) = 8 * (unat (1390 :: u64) - 1000)" "1000 + 200 * (6 - 6) \<le> unat (1390 :: u64)" "unat (1390 :: u64) < 1000 + 200 * 6"
    by simp_all
  have l: "6 * 800 \<le> length (wc_dat demo_cap)" by (simp add: demo_cap_def)
  have p: "(320 :: nat) = 2 * 160" "(800 :: nat) = 320 + 3 * 160" "0 < (800 :: nat)"
    "1600 * (6 - 6) + 320 \<le> (3120 :: nat)" "3120 + 800 \<le> 1600 * 6 + (320 :: nat)" by simp_all
  note r = capture_is_excerpt_of_signal [OF demo_ring demo_ring_shows t(2,3,1) c f p l w]
  then have "r = 0" by (rule conjunct1)
  have all: "\<forall>j < 3. \<forall>k < 800. wc_dat c' ! (j * 800 + k) = int (10000 * j + (3120 + k - 320)) \<and>
      wc_dat c' ! ((j + 3) * 800 + k) = - int (10000 * j + (3120 + k - 320))"
    using r by (elim conjE)
  have "wc_dat c' ! (1 * 800 + 0) = int (10000 * 1 + (3120 + 0 - 320))"
    using all [rule_format, of 1 0, THEN conjunct1] by simp
  moreover have "wc_dat c' ! ((2 + 3) * 800 + 799) = - int (10000 * 2 + (3120 + 799 - 320))"
    using all [rule_format, of 2 799, THEN conjunct2] by simp
  ultimately show ?thesis using w \<open>r = 0\<close> by (intro exI [of _ c'] exI [of _ fq']) simp
qed

subsection \<open>The pass\<close>

lemma wave_pass_total:
  assumes "cap_q_ok (wv_evq c)" shows "\<exists>c' fq'. wave_pass cx sagSt U I (c, fq) = Some (c', fq')"
proof (cases "pg_halfFull (wv_pg c)")
  case True
  let ?w = "wave_window U I c"
  let ?ww = "(wv_ww c)[wv_ix c := ?w]"
  obtain evs q where l: "wave_caps sagSt (wn_ts ?w + 200) (wn_ts (?ww ! ((wv_ix c + 1) mod N_WAVE_WIN)))
      (of_nat (pre_ms cx)) (of_nat (post_ms cx)) [] (wv_evq c) = Some (evs, q)"
    using wave_caps_pending [OF assms] by blast
  show ?thesis
    unfolding wave_pass_def Let_def fst_conv snd_conv l option.case prod.case using True
    by (cases "fold (\<lambda>e s. snd (wavePreCaptureLF cx ?ww e s)) evs (wv_cap c, fq)") simp
qed (simp add: wave_pass_def)

text \<open>The task waits for as many cycles after an event as the register asks, without the limit of 30
  the capture itself applies: with 72 cycles or more the samples are never all in the ring of
  1.2 s, so that however often the task runs, no event is recorded any more.\<close>

theorem long_recording_is_never_made:
  assumes "72 \<le> unat (wk_post cx)" "cap_q_ok (wv_evq c)" "pg_halfFull (wv_pg c)"
    and "ww = (wv_ww c)[wv_ix c := wave_window U I c]"
    and "unat (wn_ts (wave_window U I c) + 200) = unat (wn_ts (ww ! ((wv_ix c + 1) mod N_WAVE_WIN))) + 1200"
    and "\<forall>e \<in> set (cap_pending (wv_evq c)). unat (fst e) < 2 ^ 63"
    and "wave_pass cx sagSt U I (c, fq) = Some (c', fq')"
  shows "fq' = fq \<and> wv_cap c' = wv_cap c"
proof -
  let ?new = "wn_ts (wave_window U I c) + 200" and ?old = "wn_ts (ww ! ((wv_ix c + 1) mod N_WAVE_WIN))"
  let ?waits = "cap_waits sagSt ?new ?old (of_nat (pre_ms cx)) (of_nat (post_ms cx))"
  obtain evs q cap where p: "wave_caps sagSt ?new ?old (of_nat (pre_ms cx)) (of_nat (post_ms cx)) [] (wv_evq c) = Some (evs, q)"
    "fold (\<lambda>e s. snd (wavePreCaptureLF cx ww e s)) evs (wv_cap c, fq) = (cap, fq')" "wv_cap c' = cap"
    by (rule wave_pass_some [OF assms(3,7,4)]) auto
  have evs: "evs = filter (\<lambda>e. \<not> fst e < ?old) (takeWhile (\<lambda>e. \<not> ?waits e) (cap_pending (wv_evq c)))"
    using wave_caps_pending [OF assms(2), of sagSt ?new ?old "of_nat (pre_ms cx)" "of_nat (post_ms cx)" "[]"] p(1) by auto
  have post: "1200 \<le> post_ms cx" "post_ms cx < 2 ^ 32"
  proof -
    have u: "unat (wk_post cx) < 65536" using unsigned_less [of "wk_post cx"] by simp
    have d: "FREQ_HZ (wk_freq cx) = 60 \<or> FREQ_HZ (wk_freq cx) = 50" by (simp add: FREQ_HZ_def)
    have pm: "post_ms cx = unat (wk_post cx) * 1000 div FREQ_HZ (wk_freq cx)"
      using assms(1) by (auto simp: post_ms_def word_gt_0)
    have "72 * 1000 div FREQ_HZ (wk_freq cx) \<le> post_ms cx"
      unfolding pm using assms(1) by (intro div_le_mono mult_le_mono1)
    then show "1200 \<le> post_ms cx" using d by auto
    have "post_ms cx \<le> unat (wk_post cx) * 1000" unfolding pm by (rule div_le_dividend)
    then have "post_ms cx < 65536000" using u by linarith
    then show "post_ms cx < 2 ^ 32" by simp
  qed
  have "fst e < ?old" if e: "e \<in> set (cap_pending (wv_evq c))" "\<not> ?waits e" for e
  proof (rule ccontr)
    assume old: "\<not> fst e < ?old"
    have "unat (fst e) < 2 ^ 63" using assms(6) e(1) by blast
    then have "unat (fst e + of_nat (post_ms cx)) = unat (fst e) + post_ms cx"
      using post(2) unat_add_lem [of "fst e" "of_nat (post_ms cx)"] by (simp add: unat_of_nat)
    then have "\<not> fst e + of_nat (post_ms cx) < ?new"
      using old post(1) assms(5) by (simp add: word_less_nat_alt)
    then show False using old e(2) by (simp add: cap_waits_def)
  qed
  then have "evs = []"
    unfolding evs by (auto simp: filter_empty_conv dest: set_takeWhileD)
  then show ?thesis using p(2,3) by simp
qed

definition demo_chan :: wave_chan where
  "demo_chan = \<lparr>wv_ix = 0, wv_ww = map demo_W [0..<6], wv_pg = demo_pages\<lparr>pg_ts := 2200\<rparr>,
     wv_fft = \<lparr>ff_fr = 0, ff_re = 0, ff_vrms = [], ff_irms = [], ff_I = [], ff_U = []\<rparr>,
     wv_evq = putEventCap (1390, E_OC) cap_q_empty, wv_cap = demo_cap\<rparr>"

theorem long_recording_is_never_made_witness:
  "\<exists>c' fq'. wave_pass (demo_wctx\<lparr>wk_post := 90\<rparr>) 0 [] [] (demo_chan, fq) = Some (c', fq') \<and> fq' = fq \<and> wv_cap c' = demo_cap"
proof -
  let ?cx = "demo_wctx\<lparr>wk_post := 90\<rparr>" and ?q = "putEventCap (1390, E_OC) cap_q_empty"
  have q: "cap_q_ok ?q" "cap_pending ?q = [(1390, E_OC)]"
    using capq.put_items [of cap_q_empty "(1390, E_OC)"] capq.put_inv [of cap_q_empty "(1390, E_OC)"]
    by (simp_all add: cap_q_empty_def cap_q_ok_def cap_pending_def ring_items_def)
  then have qc: "cap_q_ok (wv_evq demo_chan)" by (simp add: demo_chan_def)
  obtain c' fq' where w: "wave_pass ?cx 0 [] [] (demo_chan, fq) = Some (c', fq')"
    using wave_pass_total [OF qc] by blast
  have ts: "wn_ts (wave_window [] [] demo_chan) = 2200"
    by (simp add: wave_window_def demo_chan_def demo_pages_def downSampling_def copyToWaveWindow_def Let_def)
  have old: "wn_ts ((wv_ww demo_chan)[wv_ix demo_chan := wave_window [] [] demo_chan] ! ((wv_ix demo_chan + 1) mod N_WAVE_WIN)) = 1200"
    by (simp add: demo_chan_def demo_W_def)
  have "fq' = fq \<and> wv_cap c' = wv_cap demo_chan"
    using long_recording_is_never_made [OF _ qc _ refl _ _ w] q ts old by (simp add: demo_wctx_def demo_chan_def demo_pages_def)
  then show ?thesis using w by (intro exI [of _ c'] exI [of _ fq']) (simp add: demo_chan_def)
qed

subsection \<open>The points to draw\<close>

lemma cycle_start_bound: "cycle_start i x xs = 0 \<or> (i \<le> cycle_start i x xs \<and> cycle_start i x xs < i + length xs)"
  by (induction i x xs rule: cycle_start.induct) auto

lemma waveDispIndex_bound:
  assumes "ix < nWin" "i < nPts" shows "ix \<le> waveDispIndex ix i nPts nWin \<and> waveDispIndex ix i nPts nWin < nWin"
proof (cases "nPts \<le> 1 \<or> ix \<ge> nWin - 1")
  case False
  have "i * (nWin - 1 - ix) div (nPts - 1) \<le> (nPts - 1) * (nWin - 1 - ix) div (nPts - 1)"
    using assms(2) by (intro div_le_mono mult_le_mono1) simp
  also have "\<dots> = nWin - 1 - ix" using False by simp
  finally show ?thesis using False assms by (simp add: waveDispIndex_def)
qed (use assms in \<open>auto simp: waveDispIndex_def\<close>)

lemma waveDispIndex_mono: "i \<le> i' \<Longrightarrow> waveDispIndex ix i nPts nWin \<le> waveDispIndex ix i' nPts nWin"
  by (auto simp: waveDispIndex_def intro!: div_le_mono)

text \<open>The points of the drawn wave lie inside the window whatever its samples are: 160 places in
  rising order from the zero crossing on, none beyond the last sample and none 320 or more
  samples behind the first.\<close>

theorem drawn_points_lie_in_window:
  assumes "length u0 = 1600" "ix = cycle_start 1 (u0 ! 0) (tl u0)"
  shows "length (disp_points u0) = 160 \<and> sorted (disp_points u0) \<and> disp_points u0 ! 0 = ix \<and>
    (\<forall>d \<in> set (disp_points u0). ix \<le> d \<and> d < 1600 \<and> d < ix + 320)"
proof -
  have ix: "ix < 1600" using cycle_start_bound [of 1 "u0 ! 0" "tl u0"] assms by auto
  let ?n = "min (ix + 320) L_LFWVWIN"
  have d: "disp_points u0 = map (\<lambda>i. waveDispIndex ix i 160 ?n) [0..<160]"
    by (simp only: disp_points_def Let_def assms(2))
  have s: "sorted (map (\<lambda>i. waveDispIndex ix i 160 ?n) [0..<160])"
    by (simp add: sorted_iff_nth_mono waveDispIndex_mono del: upt_Suc)
  have "waveDispIndex ix 0 160 ?n = ix" using ix by (auto simp: waveDispIndex_def)
  moreover have "ix \<le> waveDispIndex ix i 160 ?n \<and> waveDispIndex ix i 160 ?n < ?n" if "i < 160" for i
    using that ix by (intro waveDispIndex_bound) simp_all
  ultimately show ?thesis
    using s unfolding d by (auto simp del: upt_Suc simp: min_less_iff_conj)
qed

theorem drawn_points_lie_in_window_witness:
  "disp_points (replicate 1500 (- 1) @ replicate 100 1) ! 0 = cycle_start 1 (- 1) (tl (replicate 1500 (- 1) @ replicate 100 1)) \<and>
   sorted (disp_points (replicate 1500 (- 1) @ replicate 100 1))"
  using drawn_points_lie_in_window [of "replicate 1500 (- 1) @ replicate 100 1", OF _ refl] by (simp add: nth_append)

end
