(* ===== verification/Inputs.thy ===== *)
theory Inputs
  imports Settings
begin

text \<open>
  The digital inputs and keys (\<open>iom.c\<close>): the scan that runs every millisecond, its debouncing and
  the pulse counters. The pins are arguments: \<open>True\<close> is the level a pin reads, so that a signal
  on an input, which is active low, reads \<open>False\<close>. The build for three channels has no
  temperature inputs.
\<close>

section \<open>The scan\<close>

record di_buf =
  di_lastVal :: u8
  di_val :: u8
  di_accept :: u8

record di_chan =
  dc_buf :: di_buf
  dc_status :: u16
  dc_pi :: u32

record in_state =
  is_di :: "di_chan list"
  is_key :: "u8 list"

definition DI_raw :: "bool \<Rightarrow> u8" where
  "DI_raw pin = (if pin then 0 else 1)"

definition di_debounce :: "u16 \<Rightarrow> u16" where
  "di_debounce d = (if d < 4 then 4 else if d > 64 then 64 else d)"

definition pi_step :: "u16 \<Rightarrow> u32" where
  "pi_step sc = (if sc \<le> 1 then 1 else ucast sc)"

text \<open>One input: \<open>d\<close>, \<open>ty\<close> and \<open>sc\<close> are its debounce time, type and scale.\<close>

definition scan_input :: "u16 \<Rightarrow> u16 \<Rightarrow> u16 \<Rightarrow> bool \<Rightarrow> di_chan \<Rightarrow> di_chan" where
  "scan_input d ty sc pin c =
     (let raw = DI_raw pin; b = (dc_buf c)\<lparr>di_val := raw\<rparr>
      in if raw \<noteq> di_lastVal b
         then let b1 = b\<lparr>di_accept := di_accept b + 1\<rparr>
              in if unat (di_accept b1) \<ge> unat (di_debounce d)
                 then let rising = raw \<noteq> 0 \<and> di_lastVal b1 = 0
                      in \<lparr>dc_buf = b1\<lparr>di_lastVal := raw, di_accept := 0\<rparr>, dc_status = ucast raw,
                          dc_pi = (if ty = 1 \<and> rising then dc_pi c + pi_step sc else dc_pi c)\<rparr>
                 else c\<lparr>dc_buf := b1\<rparr>
         else c\<lparr>dc_buf := b\<lparr>di_accept := 0\<rparr>, dc_status := ucast raw\<rparr>)"

definition scanDI :: "io_cfg \<Rightarrow> bool list \<Rightarrow> in_state \<Rightarrow> in_state" where
  "scanDI cfg pins st =
     st\<lparr>is_di := map (\<lambda>i. scan_input (ic_debounce cfg ! i) (ic_diType cfg ! i) (ic_piConst cfg ! i) (pins ! i) (is_di st ! i))
                  [0..<4]\<rparr>"

definition scanKey :: "u8 list \<Rightarrow> in_state \<Rightarrow> in_state" where
  "scanKey keys st = st\<lparr>is_key := map (\<lambda>i. keys ! i) [0..<2]\<rparr>"

text \<open>What the task does before its first scan, and one turn of its loop.\<close>

definition iom_start :: "bool list \<Rightarrow> u8 list \<Rightarrow> in_state \<Rightarrow> in_state" where
  "iom_start pins keys st =
     st\<lparr>is_di := map (\<lambda>i. (is_di st ! i)\<lparr>dc_buf := (dc_buf (is_di st ! i))\<lparr>di_lastVal := (if pins ! i then 1 else 0), di_accept := 0\<rparr>\<rparr>)
                  [0..<4],
        is_key := map (\<lambda>i. keys ! i) [0..<2]\<rparr>"

definition iom_turn :: "io_cfg \<Rightarrow> bool list \<times> u8 list \<Rightarrow> in_state \<Rightarrow> in_state" where
  "iom_turn cfg io st = scanKey (snd io) (scanDI cfg (fst io) st)"

section \<open>Debouncing\<close>

text \<open>
  The history of one input over several scans, with the pin levels given as the presence of a
  signal; a channel rests at \<open>v\<close> when \<open>v\<close> is confirmed and no change is under way.
\<close>

definition scans :: "u16 \<Rightarrow> u16 \<Rightarrow> u16 \<Rightarrow> bool list \<Rightarrow> di_chan \<Rightarrow> di_chan" where
  "scans d ty sc signal c = fold (\<lambda>s. scan_input d ty sc (\<not> s)) signal c"

definition level :: "bool \<Rightarrow> u8" where
  "level v = (if v then 1 else 0)"

definition confirmed :: "bool \<Rightarrow> di_chan \<Rightarrow> bool" where
  "confirmed v c \<longleftrightarrow> di_lastVal (dc_buf c) = level v \<and> dc_status c = ucast (level v)"

definition rests :: "bool \<Rightarrow> di_chan \<Rightarrow> bool" where
  "rests v c \<longleftrightarrow> confirmed v c \<and> di_accept (dc_buf c) = 0"

abbreviation hold :: "u16 \<Rightarrow> nat" where
  "hold d \<equiv> unat (di_debounce d)"

lemma hold_range: "4 \<le> hold d" "hold d \<le> 64"
  by (auto simp: di_debounce_def word_less_nat_alt word_le_nat_alt not_less)

lemma scan_same:
  assumes "confirmed v c"
  shows "rests v (scan_input d ty sc (\<not> v) c) \<and> dc_pi (scan_input d ty sc (\<not> v) c) = dc_pi c"
  using assms by (auto simp: scan_input_def rests_def confirmed_def DI_raw_def level_def Let_def)

lemma scan_other:
  assumes "confirmed v c" "unat (di_accept (dc_buf c)) + 1 < hold d" "c' = scan_input d ty sc v c"
  shows "confirmed v c' \<and> unat (di_accept (dc_buf c')) = unat (di_accept (dc_buf c)) + 1 \<and> dc_pi c' = dc_pi c"
proof -
  have n: "unat (di_accept (dc_buf c) + 1) = unat (di_accept (dc_buf c)) + 1"
    using assms(2) hold_range(2) [of d] unat_add_lem [of "di_accept (dc_buf c)" 1] by simp
  then have "\<not> unat (di_accept (dc_buf c) + 1) \<ge> hold d" using assms(2) by simp
  then show ?thesis
    using assms(1) n unfolding assms(3)
    by (cases v) (simp_all add: scan_input_def confirmed_def DI_raw_def level_def Let_def)
qed

lemma scan_flip:
  assumes "confirmed v c" "unat (di_accept (dc_buf c)) + 1 = hold d" "c' = scan_input d ty sc v c"
  shows "rests (\<not> v) c' \<and> dc_pi c' = dc_pi c + (if ty = 1 \<and> \<not> v then pi_step sc else 0)"
proof -
  have n: "unat (di_accept (dc_buf c) + 1) = unat (di_accept (dc_buf c)) + 1"
    using assms(2) hold_range(2) [of d] unat_add_lem [of "di_accept (dc_buf c)" 1] by simp
  then have "unat (di_accept (dc_buf c) + 1) \<ge> hold d" using assms(2) by simp
  then show ?thesis
    using assms(1) unfolding assms(3)
    by (cases v) (simp_all add: scan_input_def rests_def confirmed_def DI_raw_def level_def Let_def)
qed

lemma scans_short:
  "confirmed v c \<Longrightarrow> unat (di_accept (dc_buf c)) + n < hold d \<Longrightarrow> c' = scans d ty sc (replicate n (\<not> v)) c \<Longrightarrow>
   confirmed v c' \<and> unat (di_accept (dc_buf c')) = unat (di_accept (dc_buf c)) + n \<and> dc_pi c' = dc_pi c"
proof (induction n arbitrary: c c')
  case 0
  then show ?case by (simp add: scans_def)
next
  case (Suc n)
  have "c' = scans d ty sc (replicate n (\<not> v)) (scan_input d ty sc v c)" using Suc.prems(3) by (simp add: scans_def)
  then show ?case
    using Suc.IH scan_other [OF Suc.prems(1) _ refl, of d ty sc] Suc.prems(2) by fastforce
qed

lemma scans_append: "scans d ty sc (xs @ ys) c = scans d ty sc ys (scans d ty sc xs c)"
  by (simp add: scans_def)

lemma scans_steady: "confirmed v c \<Longrightarrow> confirmed v (scans d ty sc (replicate n v) c) \<and>
    dc_pi (scans d ty sc (replicate n v) c) = dc_pi c \<and> (0 < n \<longrightarrow> rests v (scans d ty sc (replicate n v) c)) \<and>
    (rests v c \<longrightarrow> rests v (scans d ty sc (replicate n v) c))"
proof (induction n arbitrary: c)
  case (Suc n)
  have "scans d ty sc (replicate (Suc n) v) c = scans d ty sc (replicate n v) (scan_input d ty sc (\<not> v) c)"
    by (simp add: scans_def)
  then show ?case
    using Suc.IH [of "scan_input d ty sc (\<not> v) c"] scan_same [OF Suc.prems, of d ty sc] by (auto simp: rests_def)
qed (simp add: scans_def)

lemma scans_flip:
  assumes "rests v c" "hold d \<le> n" "c' = scans d ty sc (replicate n (\<not> v)) c"
  shows "rests (\<not> v) c' \<and> dc_pi c' = dc_pi c + (if ty = 1 \<and> \<not> v then pi_step sc else 0)"
proof -
  let ?m = "hold d - 1"
  have n: "n = ?m + 1 + (n - hold d)" using assms(2) hold_range(1) [of d] by simp
  let ?c1 = "scans d ty sc (replicate ?m (\<not> v)) c"
  have c1: "confirmed v ?c1" "unat (di_accept (dc_buf ?c1)) + 1 = hold d" "dc_pi ?c1 = dc_pi c"
    using scans_short [of v c ?m d, OF _ _ refl, of ty sc] assms(1) hold_range(1) [of d] by (simp_all add: rests_def)
  let ?c2 = "scan_input d ty sc v ?c1"
  have c2: "rests (\<not> v) ?c2" "dc_pi ?c2 = dc_pi c + (if ty = 1 \<and> \<not> v then pi_step sc else 0)"
    using scan_flip [OF c1(1,2) refl, of ty sc] c1(3) by simp_all
  have "c' = scans d ty sc (replicate (n - hold d) (\<not> v)) ?c2"
    unfolding assms(3) by (subst n) (simp only: replicate_add scans_append, simp add: scans_def)
  then show ?thesis
    using scans_steady [of "\<not> v" ?c2 d ty sc "n - hold d"] c2 by (simp add: rests_def)
qed

text \<open>
  Signals as masters of the inputs see them: \<open>disturbed v gs\<close> is mostly \<open>v\<close>, with a stretch of \<open>g\<close>
  opposite samples and then more than \<open>n\<close> samples of \<open>v\<close> for every \<open>(g, n)\<close>; a pulse is a stretch of
  signal and a stretch of none, each disturbed after its beginning.
\<close>

definition disturbed :: "bool \<Rightarrow> (nat \<times> nat) list \<Rightarrow> bool list" where
  "disturbed v gs = concat (map (\<lambda>(g, n). replicate g (\<not> v) @ replicate (Suc n) v) gs)"

definition shorter :: "nat \<Rightarrow> (nat \<times> nat) list \<Rightarrow> bool" where
  "shorter d gs \<longleftrightarrow> list_all (\<lambda>(g, n). g < d) gs"

type_synonym pulse = "(nat \<times> (nat \<times> nat) list) \<times> (nat \<times> (nat \<times> nat) list)"

definition pulse_signal :: "pulse \<Rightarrow> bool list" where
  "pulse_signal p = replicate (fst (fst p)) True @ disturbed True (snd (fst p)) @
     replicate (fst (snd p)) False @ disturbed False (snd (snd p))"

definition good_pulse :: "nat \<Rightarrow> pulse \<Rightarrow> bool" where
  "good_pulse d p \<longleftrightarrow> d \<le> fst (fst p) \<and> shorter d (snd (fst p)) \<and> d \<le> fst (snd p) \<and> shorter d (snd (snd p))"

lemma scans_disturbed:
  "rests v c \<Longrightarrow> shorter (hold d) gs \<Longrightarrow> c' = scans d ty sc (disturbed v gs) c \<Longrightarrow> rests v c' \<and> dc_pi c' = dc_pi c"
proof (induction gs arbitrary: c c')
  case Nil
  then show ?case by (simp add: disturbed_def scans_def)
next
  case (Cons gn gs)
  obtain g n where gn: "gn = (g, n)" by (cases gn)
  let ?c1 = "scans d ty sc (replicate g (\<not> v)) c"
  let ?c2 = "scans d ty sc (replicate (Suc n) v) ?c1"
  have "confirmed v ?c1 \<and> dc_pi ?c1 = dc_pi c"
    using scans_short [of v c g d, OF _ _ refl, of ty sc] Cons.prems(1,2) gn by (simp add: rests_def shorter_def)
  then have c2: "rests v ?c2" "dc_pi ?c2 = dc_pi c"
    using scans_steady [of v ?c1 d ty sc "Suc n"] by simp_all
  have "c' = scans d ty sc (disturbed v gs) ?c2"
    using Cons.prems(3) gn by (simp add: disturbed_def scans_append del: replicate_Suc)
  then show ?case using Cons.IH [OF c2(1)] c2(2) Cons.prems(2) by (simp add: shorter_def)
qed

lemma scans_pulse:
  assumes "rests False c" "good_pulse (hold d) p" "c' = scans d 1 sc (pulse_signal p) c"
  shows "rests False c' \<and> dc_pi c' = dc_pi c + pi_step sc"
proof -
  let ?c1 = "scans d 1 sc (replicate (fst (fst p)) True) c"
  let ?c2 = "scans d 1 sc (disturbed True (snd (fst p))) ?c1"
  let ?c3 = "scans d 1 sc (replicate (fst (snd p)) False) ?c2"
  have g: "hold d \<le> fst (fst p)" "shorter (hold d) (snd (fst p))" "hold d \<le> fst (snd p)" "shorter (hold d) (snd (snd p))"
    using assms(2) by (simp_all add: good_pulse_def)
  have c1: "rests True ?c1" "dc_pi ?c1 = dc_pi c + pi_step sc"
    using scans_flip [OF assms(1) g(1), of _ 1 sc] by simp_all
  have c2: "rests True ?c2" "dc_pi ?c2 = dc_pi ?c1"
    using scans_disturbed [OF c1(1) g(2) refl] by simp_all
  have c3: "rests False ?c3" "dc_pi ?c3 = dc_pi ?c2"
    using scans_flip [OF c2(1) g(3), of _ 1 sc] by simp_all
  have "c' = scans d 1 sc (disturbed False (snd (snd p))) ?c3"
    by (simp only: assms(3) pulse_signal_def scans_append)
  from scans_disturbed [OF c3(1) g(4) this] show ?thesis by (simp only: c1(2) c2(2) c3(2))
qed

lemma scans_pulses:
  "rests False c \<Longrightarrow> list_all (good_pulse (hold d)) ps \<Longrightarrow> c' = scans d 1 sc (concat (map pulse_signal ps)) c \<Longrightarrow>
   rests False c' \<and> dc_pi c' = dc_pi c + of_nat (length ps) * pi_step sc"
proof (induction ps arbitrary: c c')
  case (Cons p ps)
  let ?c1 = "scans d 1 sc (pulse_signal p) c"
  have c1: "rests False ?c1" "dc_pi ?c1 = dc_pi c + pi_step sc"
    using scans_pulse [OF Cons.prems(1) _ refl] Cons.prems(2) by simp_all
  then show ?case
    using Cons.IH [OF c1(1) _ refl] Cons.prems(2,3) by (simp add: scans_append algebra_simps)
qed (simp add: scans_def)

subsection \<open>The task\<close>

definition input_at :: "in_state \<Rightarrow> nat \<Rightarrow> di_chan" where
  "input_at st i = is_di st ! i"

text \<open>The signal on input \<open>i\<close> over the turns of the task.\<close>

definition signal_on :: "nat \<Rightarrow> (bool list \<times> u8 list) list \<Rightarrow> bool list" where
  "signal_on i ios = map (\<lambda>io. \<not> fst io ! i) ios"

lemma turns_scan:
  assumes "i < 4"
  shows "input_at (fold (iom_turn cfg) ios st) i =
    scans (ic_debounce cfg ! i) (ic_diType cfg ! i) (ic_piConst cfg ! i) (signal_on i ios) (input_at st i)"
proof (induction ios arbitrary: st)
  case (Cons io ios)
  have "input_at (iom_turn cfg io st) i = scan_input (ic_debounce cfg ! i) (ic_diType cfg ! i) (ic_piConst cfg ! i) (fst io ! i) (input_at st i)"
    using assms by (simp add: input_at_def iom_turn_def scanDI_def scanKey_def)
  then show ?case using Cons.IH by (simp add: scans_def signal_on_def)
qed (simp add: scans_def signal_on_def)

text \<open>C23. A pulse input counts pulses, not contact bounce: over any number of turns in which its signal
  is a train of pulses, each on and off for at least the debounce time (which is kept between 4 and
  64 scans whatever the setting is) and disturbed in between by shorter stretches, the counter
  rises by the scale for every pulse, modulo 2^32, and the state ends as off. Disturbances alone
  change nothing.\<close>

theorem pulses_are_counted:
  assumes "i < 4" "ic_diType cfg ! i = 1" "rests False (input_at st i)"
    and "signal_on i ios = disturbed False gs @ concat (map pulse_signal ps)"
    and "shorter (hold (ic_debounce cfg ! i)) gs" "list_all (good_pulse (hold (ic_debounce cfg ! i))) ps"
    and "c' = input_at (fold (iom_turn cfg) ios st) i"
  shows "dc_pi c' = dc_pi (input_at st i) + of_nat (length ps) * pi_step (ic_piConst cfg ! i) \<and>
    dc_status c' = 0 \<and> 4 \<le> hold (ic_debounce cfg ! i) \<and> hold (ic_debounce cfg ! i) \<le> 64"
proof -
  let ?d = "ic_debounce cfg ! i" and ?sc = "ic_piConst cfg ! i"
  let ?c1 = "scans ?d 1 ?sc (disturbed False gs) (input_at st i)"
  have c1: "rests False ?c1" "dc_pi ?c1 = dc_pi (input_at st i)"
    using scans_disturbed [OF assms(3,5) refl] by simp_all
  have "c' = scans ?d 1 ?sc (concat (map pulse_signal ps)) ?c1"
    by (simp add: assms(7,4,2) turns_scan [OF assms(1)] scans_append)
  then have "rests False c' \<and> dc_pi c' = dc_pi ?c1 + of_nat (length ps) * pi_step ?sc"
    by (rule scans_pulses [OF c1(1) assms(6)])
  then show ?thesis using c1(2) hold_range by (simp add: rests_def confirmed_def level_def)
qed

definition demo_io_cfg :: io_cfg where
  "demo_io_cfg = \<lparr>ic_modType = 0, ic_r0 = 0, ic_diType = [1, 0, 0, 0], ic_debounce = [5, 5, 5, 5], ic_piConst = [10, 0, 0, 0],
     ic_r = replicate 14 0\<rparr>"

definition demo_in :: in_state where
  "demo_in = \<lparr>is_di = replicate 4 \<lparr>dc_buf = \<lparr>di_lastVal = 0, di_val = 0, di_accept = 0\<rparr>, dc_status = 0, dc_pi = 100\<rparr>, is_key = [0, 0]\<rparr>"

definition demo_train :: "bool list" where
  "demo_train = disturbed False [(3, 0)] @ concat (map pulse_signal [((6, [(2, 1)]), (8, [])), ((5, []), (5, []))])"

lemma demo_hold: "hold (ic_debounce demo_io_cfg ! 0) = 5"
  by (simp add: demo_io_cfg_def di_debounce_def word_less_nat_alt)

lemma demo_step: "pi_step (ic_piConst demo_io_cfg ! 0) = 10"
  by (simp add: demo_io_cfg_def pi_step_def word_le_nat_alt)

lemma demo_rests: "rests False (input_at demo_in 0)"
  by (simp add: demo_in_def input_at_def rests_def confirmed_def level_def)

theorem pulses_are_counted_witness:
  "dc_pi (input_at (fold (iom_turn demo_io_cfg) (map (\<lambda>s. ([\<not> s, True, True, True], [0, 0])) demo_train) demo_in) 0) = 120"
proof -
  have s: "signal_on 0 (map (\<lambda>s. ([\<not> s, True, True, True], [0, 0])) demo_train) =
      disturbed False [(3, 0)] @ concat (map pulse_signal [((6, [(2, 1)]), (8, [])), ((5, []), (5, []))])"
    by (simp add: signal_on_def comp_def demo_train_def)
  have "dc_pi (input_at (fold (iom_turn demo_io_cfg) (map (\<lambda>s. ([\<not> s, True, True, True], [0, 0])) demo_train) demo_in) 0) =
      dc_pi (input_at demo_in 0) + of_nat (length [((6 :: nat, [(2 :: nat, 1 :: nat)]), (8 :: nat, [] :: (nat \<times> nat) list)), ((5, []), (5, []))]) *
        pi_step (ic_piConst demo_io_cfg ! 0)"
    by (rule conjunct1 [OF pulses_are_counted [OF _ _ demo_rests s _ _ refl]])
      (simp_all add: demo_hold shorter_def good_pulse_def, simp add: demo_io_cfg_def)
  then show ?thesis by (simp add: demo_step, simp add: demo_in_def input_at_def)
qed

text \<open>The start takes the levels of the pins for the states, which are their opposite: a signal that
  is already there when the device starts is counted as a pulse.\<close>

theorem signal_at_start_is_counted:
  assumes "i < 4" "ic_diType cfg ! i = 1" "length pins = 4" "\<not> pins ! i" "hold (ic_debounce cfg ! i) \<le> n"
    and "dc_status (is_di st ! i) = 0"
    and "c' = input_at (fold (iom_turn cfg) (replicate n (pins, keys)) (iom_start pins keys st)) i"
  shows "dc_pi c' = dc_pi (input_at st i) + pi_step (ic_piConst cfg ! i)"
proof -
  let ?c = "input_at (iom_start pins keys st) i"
  have c: "rests False ?c" "dc_pi ?c = dc_pi (input_at st i)"
    using assms(1,4,6) by (simp_all add: input_at_def iom_start_def rests_def confirmed_def level_def)
  have "signal_on i (replicate n (pins, keys)) = replicate n (\<not> False)"
    using assms(4) by (simp add: signal_on_def map_replicate_const)
  then have "c' = scans (ic_debounce cfg ! i) 1 (ic_piConst cfg ! i) (replicate n (\<not> False)) ?c"
    unfolding assms(7) turns_scan [OF assms(1)] assms(2) by (rule arg_cong)
  from scans_flip [OF c(1) assms(5) this] show ?thesis by (simp add: c(2))
qed

theorem signal_at_start_is_counted_witness:
  "dc_pi (input_at (fold (iom_turn demo_io_cfg) (replicate 7 ([False, True, True, True], [0, 0]))
     (iom_start [False, True, True, True] [0, 0] demo_in)) 0) = 110"
proof -
  have "dc_pi (input_at (fold (iom_turn demo_io_cfg) (replicate 7 ([False, True, True, True], [0, 0]))
     (iom_start [False, True, True, True] [0, 0] demo_in)) 0) = dc_pi (input_at demo_in 0) + pi_step (ic_piConst demo_io_cfg ! 0)"
    by (rule signal_at_start_is_counted [OF _ _ _ _ _ _ refl])
      (simp_all add: demo_hold, simp_all add: demo_io_cfg_def demo_in_def)
  then show ?thesis by (simp add: demo_step, simp add: demo_in_def input_at_def)
qed

end
