(* ===== verification/Watchdog.thy ===== *)
theory Watchdog
  imports Calendar
begin

text \<open>
  The clock and the supervision of the tasks (\<open>app_main.c\<close>): the tick interrupt with the counters
  derived from it, setting the time, and \<open>taskMonitor\<close>, which serves the external watchdog only
  while every task it supervises shows signs of life.
\<close>

section \<open>The clock\<close>

record clock =
  ck_WM :: u32
  ck_32 :: u32
  ck_64 :: u64
  ck_tick :: int
  ck_1s :: u32
  ck_10s :: u32
  ck_10m :: u32
  ck_15m :: u32
  ck_dmd :: u32
  ck_tod :: "tm list"
  ck_prevIdle :: u32
  ck_idle :: u32

definition show_seconds :: "clock \<Rightarrow> clock" where
  "show_seconds c =
     c\<lparr>ck_10s := ck_1s c div 10, ck_10m := ck_1s c div 600, ck_15m := ck_1s c div 900,
       ck_tod := replicate 3 (uLocalTime (ck_1s c))\<rparr>"

definition tickHandler :: "u32 \<Rightarrow> u32 \<Rightarrow> clock \<Rightarrow> clock" where
  "tickHandler idleCnt dInterval c =
     (let c1 = c\<lparr>ck_WM := ck_WM c + 1, ck_32 := ck_32 c + 1, ck_64 := ck_64 c + 1, ck_tick := ck_tick c + 1\<rparr>
      in if ck_tick c1 \<ge> 1000
         then let c2 = show_seconds (c1\<lparr>ck_1s := ck_1s c1 + 1, ck_idle := idleCnt - ck_prevIdle c1, ck_prevIdle := idleCnt, ck_tick := 0\<rparr>)
              in if dInterval > 0 then c2\<lparr>ck_dmd := ck_1s c2 div dInterval\<rparr> else c2
         else c1)"

text \<open>The flag of the result says that the measuring tasks are told of a jump of the time.\<close>

definition tickSet :: "u32 \<Rightarrow> u32 \<Rightarrow> u32 \<Rightarrow> clock \<Rightarrow> bool \<times> clock" where
  "tickSet sec msec mode c =
     (if sec \<noteq> ck_1s c
      then (mode \<noteq> 0 \<and> \<bar>sint (ck_1s c - sec)\<bar> > 1,
            let t = ucast sec * 1000 + ucast msec
            in show_seconds (c\<lparr>ck_1s := sec, ck_64 := t, ck_32 := ucast (t :: u64)\<rparr>))
      else (False, c))"

datatype clock_step = Tick u32 u32 | Set u32 u32 u32

definition clock_step :: "clock_step \<Rightarrow> clock \<Rightarrow> clock" where
  "clock_step s c = (case s of Tick i d \<Rightarrow> tickHandler i d c | Set t ms mode \<Rightarrow> snd (tickSet t ms mode c))"

definition clock_inv :: "clock \<Rightarrow> bool" where
  "clock_inv c \<longleftrightarrow> ck_10s c = ck_1s c div 10 \<and> ck_10m c = ck_1s c div 600 \<and> ck_15m c = ck_1s c div 900 \<and>
     ck_tod c = replicate 3 (uLocalTime (ck_1s c)) \<and> 0 \<le> ck_tick c \<and> ck_tick c < 1000"

lemma tickHandler_inv: "clock_inv c \<Longrightarrow> clock_inv (tickHandler i d c)"
  by (auto simp: clock_inv_def tickHandler_def show_seconds_def Let_def)

lemma tickSet_inv: "clock_inv c \<Longrightarrow> clock_inv (snd (tickSet t ms mode c))"
  by (auto simp: clock_inv_def tickSet_def show_seconds_def Let_def)

lemma clock_steps_inv: "clock_inv c \<Longrightarrow> clock_inv (fold clock_step ss c)"
  by (induction ss arbitrary: c) (auto simp: clock_step_def tickHandler_inv tickSet_inv split: clock_step.split)

text \<open>Ticks count: the milliseconds one by one, a second for every thousand.\<close>

lemma ticks:
  assumes "0 \<le> ck_tick c" "ck_tick c < 1000" "c' = fold (\<lambda>(i, d). tickHandler i d) ids c"
  shows "ck_64 c' = ck_64 c + of_nat (length ids) \<and> ck_1s c' = ck_1s c + of_int ((ck_tick c + int (length ids)) div 1000) \<and>
    ck_tick c' = (ck_tick c + int (length ids)) mod 1000"
  using assms
proof (induction ids arbitrary: c)
  case Nil
  then show ?case by simp
next
  case (Cons id ids)
  obtain i d where id: "id = (i, d)" by (cases id)
  let ?c1 = "tickHandler i d c"
  have c1: "ck_64 ?c1 = ck_64 c + 1" "ck_tick ?c1 = (if ck_tick c = 999 then 0 else ck_tick c + 1)"
    "ck_1s ?c1 = (if ck_tick c = 999 then ck_1s c + 1 else ck_1s c)"
    using Cons.prems(1,2) by (auto simp: tickHandler_def show_seconds_def Let_def)
  have IH: "ck_64 c' = ck_64 ?c1 + of_nat (length ids) \<and> ck_1s c' = ck_1s ?c1 + of_int ((ck_tick ?c1 + int (length ids)) div 1000) \<and>
    ck_tick c' = (ck_tick ?c1 + int (length ids)) mod 1000"
    using Cons.IH [of ?c1] Cons.prems c1(2) id by simp
  show ?case
  proof (cases "ck_tick c = 999")
    case True
    have "(1000 + int (length ids)) div 1000 = 1 + int (length ids) div 1000" "(1000 + int (length ids)) mod 1000 = int (length ids) mod 1000"
      by simp_all
    then show ?thesis using IH c1 True by simp
  next
    case False
    then show ?thesis using IH c1 by (simp add: algebra_simps)
  qed
qed

text \<open>The clock after the time was set: the time of day and the counters of 10 seconds, 10 and 15
  minutes always follow from the seconds; but the seconds keep their own phase, so after
  \<open>tickSet\<close> to a fraction of a second the millisecond clock and the second clock change over at
  different moments.\<close>

theorem clock_after_setting:
  assumes "clock_inv c" "sec \<noteq> ck_1s c" "c' = fold (\<lambda>(i, d). tickHandler i d) ids (snd (tickSet sec msec mode c))"
  shows "clock_inv c' \<and> ck_64 c' = ucast sec * 1000 + ucast msec + of_nat (length ids) \<and>
    ck_1s c' = sec + of_int ((ck_tick c + int (length ids)) div 1000)"
proof -
  let ?c0 = "snd (tickSet sec msec mode c)"
  have c0: "ck_64 ?c0 = ucast sec * 1000 + ucast msec" "ck_1s ?c0 = sec" "ck_tick ?c0 = ck_tick c"
    using assms(2) by (simp_all add: tickSet_def show_seconds_def Let_def)
  have inv: "clock_inv ?c0" by (rule tickSet_inv [OF assms(1)])
  have "clock_inv (fold (\<lambda>(i, d). tickHandler i d) ids c)" if "clock_inv c" for c
    using that by (induction ids arbitrary: c) (auto intro: tickHandler_inv)
  from this [OF inv] show ?thesis
    using ticks [of ?c0 c' ids] assms(1,3) c0 by (simp add: clock_inv_def)
qed

theorem clock_after_setting_witness:
  "\<exists>c. clock_inv c \<and> ck_1s c \<noteq> 1000 \<and>
    ck_64 (fold (\<lambda>(i, d). tickHandler i d) (replicate 600 (0, 0)) (snd (tickSet 1000 900 1 c))) = 1001500 \<and>
    ck_1s (fold (\<lambda>(i, d). tickHandler i d) (replicate 600 (0, 0)) (snd (tickSet 1000 900 1 c))) = 1000"
proof -
  let ?c = "show_seconds \<lparr>ck_WM = 0, ck_32 = 0, ck_64 = 0, ck_tick = 0, ck_1s = 5, ck_10s = 0, ck_10m = 0, ck_15m = 0, ck_dmd = 0,
    ck_tod = [], ck_prevIdle = 0, ck_idle = 0\<rparr>"
  have c: "clock_inv ?c" "ck_1s ?c \<noteq> 1000" "ck_tick ?c = 0" by (simp_all add: clock_inv_def show_seconds_def)
  have n: "ucast (1000 :: u32) * 1000 + ucast (900 :: u32) + of_nat (length (replicate 600 (0 :: u32, 0 :: u32))) = (1001500 :: u64)"
    "1000 + of_int ((ck_tick ?c + int (length (replicate 600 (0 :: u32, 0 :: u32)))) div 1000) = (1000 :: u32)"
    unfolding c(3) length_replicate by simp_all
  note r = clock_after_setting [OF c(1) c(2) [symmetric] refl, of "replicate 600 (0, 0)" 900 1, unfolded n]
  show ?thesis
    by (intro exI [of _ ?c] conjI, rule c(1), rule c(2), rule r [THEN conjunct2, THEN conjunct1], rule r [THEN conjunct2, THEN conjunct2])
qed

section \<open>The supervision of the tasks\<close>

record wdt =
  wd_enable :: u8
  wd_errCnt :: u8
  wd_count :: u16
  wd_limit :: u16

record wdt_state =
  wt_tbl :: "wdt list"
  wt_En :: u16
  wt_runFlag :: u16
  wt_reboot :: u16
  wt_sts :: u16
  wt_pin :: bool
  wt_clears :: nat

definition enableTaskMonitor :: "nat \<Rightarrow> u16 \<Rightarrow> wdt_state \<Rightarrow> wdt_state" where
  "enableTaskMonitor k limit s = s\<lparr>wt_tbl := (wt_tbl s)[k := (wt_tbl s ! k)\<lparr>wd_enable := 1, wd_limit := limit\<rparr>]\<rparr>"

definition execReboot :: "wdt_state \<Rightarrow> wdt_state" where
  "execReboot s = (if wt_En s \<noteq> 0 then s\<lparr>wt_reboot := 1\<rparr> else s\<lparr>wt_pin := True\<rparr>)"

definition wdtEnable :: "wdt_state \<Rightarrow> wdt_state" where
  "wdtEnable s = s\<lparr>wt_En := 1, wt_pin := True\<rparr>"

text \<open>One entry of the table: whether it is in error, and its new contents.\<close>

definition wdt_entry :: "wdt \<Rightarrow> bool \<times> wdt" where
  "wdt_entry w =
     (if wd_enable w \<noteq> 0
      then if wd_count w = 0
           then let w1 = w\<lparr>wd_errCnt := wd_errCnt w + 1\<rparr> in (unat (wd_errCnt w1) > unat (wd_limit w1), w1)
           else (False, w\<lparr>wd_count := 0, wd_errCnt := 0\<rparr>)
      else (False, w))"

definition taskMonitor :: "wdt_state \<Rightarrow> wdt_state" where
  "taskMonitor s =
     (if wt_En s = 0 then (if wt_runFlag s = 0 then s\<lparr>wt_pin := True\<rparr> else s)
      else let rs = map wdt_entry (wt_tbl s); err = (\<exists>r \<in> set rs. fst r)
           in s\<lparr>wt_tbl := map snd rs, wt_sts := (if err then 1 else 0),
                wt_clears := (if \<not> err \<and> wt_runFlag s \<noteq> 0 then wt_clears s + 1 else wt_clears s)\<rparr>)"

text \<open>Between two passes the tasks count up their entries.\<close>

definition alive :: "nat set \<Rightarrow> wdt_state \<Rightarrow> wdt_state" where
  "alive ks s = s\<lparr>wt_tbl := map (\<lambda>k. if k \<in> ks then (wt_tbl s ! k)\<lparr>wd_count := wd_count (wt_tbl s ! k) + 1\<rparr> else wt_tbl s ! k)
                            [0..<length (wt_tbl s)]\<rparr>"

definition pass :: "nat set \<Rightarrow> wdt_state \<Rightarrow> wdt_state" where
  "pass ks s = taskMonitor (alive ks s)"

text \<open>
  The state before a pass: every entry in use has been counted down, and the error count of entry
  \<open>j\<close>, which is silent, is \<open>e\<close>; all others are without errors.
\<close>

definition silent_since :: "nat \<Rightarrow> nat \<Rightarrow> wdt_state \<Rightarrow> bool" where
  "silent_since j e s \<longleftrightarrow> wt_En s \<noteq> 0 \<and> wt_runFlag s \<noteq> 0 \<and>
     (\<forall>k < length (wt_tbl s). wd_enable (wt_tbl s ! k) \<noteq> 0 \<longrightarrow> wd_count (wt_tbl s ! k) = 0) \<and>
     (j < length (wt_tbl s) \<longrightarrow> unat (wd_errCnt (wt_tbl s ! j)) = e)"

definition monitored :: "nat \<Rightarrow> wdt_state \<Rightarrow> bool" where
  "monitored j s \<longleftrightarrow> j < length (wt_tbl s) \<and> wd_enable (wt_tbl s ! j) \<noteq> 0"

lemma entry_alive: "wd_enable w \<noteq> 0 \<Longrightarrow> wd_count w \<noteq> 0 \<Longrightarrow> wdt_entry w = (False, w\<lparr>wd_count := 0, wd_errCnt := 0\<rparr>)"
  by (simp add: wdt_entry_def)

lemma entry_silent:
  "wd_enable w \<noteq> 0 \<Longrightarrow> wd_count w = 0 \<Longrightarrow>
   wdt_entry w = ((unat (wd_errCnt w) + 1) mod 256 > unat (wd_limit w), w\<lparr>wd_errCnt := wd_errCnt w + 1\<rparr>)"
  by (simp add: wdt_entry_def Let_def unat_word_ariths)

lemma entry_off: "wd_enable w = 0 \<Longrightarrow> wdt_entry w = (False, w)"
  by (simp add: wdt_entry_def)

definition after_pass :: "nat \<Rightarrow> wdt_state \<Rightarrow> nat \<Rightarrow> bool \<times> wdt" where
  "after_pass j s k = wdt_entry (if k \<noteq> j then (wt_tbl s ! k)\<lparr>wd_count := wd_count (wt_tbl s ! k) + 1\<rparr> else wt_tbl s ! k)"

lemma pass_eq:
  assumes "wt_En s \<noteq> 0" "wt_runFlag s \<noteq> 0"
  shows "pass (- {j}) s = s\<lparr>wt_tbl := map (\<lambda>k. snd (after_pass j s k)) [0..<length (wt_tbl s)],
    wt_sts := (if \<exists>k < length (wt_tbl s). fst (after_pass j s k) then 1 else 0),
    wt_clears := (if \<exists>k < length (wt_tbl s). fst (after_pass j s k) then wt_clears s else wt_clears s + 1)\<rparr>"
  using assms by (auto simp: pass_def taskMonitor_def alive_def Let_def after_pass_def comp_def)

lemma after_pass_living:
  assumes "silent_since j e s" "k < length (wt_tbl s)" "k \<noteq> j"
  shows "\<not> fst (after_pass j s k) \<and> wd_enable (snd (after_pass j s k)) = wd_enable (wt_tbl s ! k) \<and>
    (wd_enable (wt_tbl s ! k) \<noteq> 0 \<longrightarrow> wd_count (snd (after_pass j s k)) = 0)"
  using assms by (cases "wd_enable (wt_tbl s ! k) = 0") (auto simp: silent_since_def after_pass_def entry_off entry_alive)

lemma after_pass_silent:
  assumes "silent_since j e s" "monitored j s"
  shows "fst (after_pass j s j) \<longleftrightarrow> (e + 1) mod 256 > unat (wd_limit (wt_tbl s ! j))"
    "wd_enable (snd (after_pass j s j)) = wd_enable (wt_tbl s ! j)" "wd_limit (snd (after_pass j s j)) = wd_limit (wt_tbl s ! j)"
    "wd_count (snd (after_pass j s j)) = 0" "unat (wd_errCnt (snd (after_pass j s j))) = (e + 1) mod 256"
  using assms by (auto simp: silent_since_def monitored_def after_pass_def entry_silent unat_word_ariths)

lemma pass_silent:
  assumes "silent_since j e s" "monitored j s" "s' = pass (- {j}) s"
  shows "silent_since j ((e + 1) mod 256) s' \<and> monitored j s' \<and> wd_limit (wt_tbl s' ! j) = wd_limit (wt_tbl s ! j) \<and>
    wt_clears s' = (if (e + 1) mod 256 > unat (wd_limit (wt_tbl s ! j)) then wt_clears s else wt_clears s + 1)"
proof -
  have j: "j < length (wt_tbl s)" and on: "wt_En s \<noteq> 0" "wt_runFlag s \<noteq> 0"
    using assms(1,2) by (simp_all add: monitored_def silent_since_def)
  have err: "(\<exists>k < length (wt_tbl s). fst (after_pass j s k)) \<longleftrightarrow> (e + 1) mod 256 > unat (wd_limit (wt_tbl s ! j))"
    using after_pass_living [OF assms(1)] after_pass_silent(1) [OF assms(1,2)] j by metis
  note s' = assms(3) [unfolded pass_eq [OF on] err]
  have tbl: "wt_tbl s' ! k = snd (after_pass j s k)" if "k < length (wt_tbl s)" for k
    using that by (simp add: s')
  have len: "length (wt_tbl s') = length (wt_tbl s)" by (simp add: s')
  have "wd_count (wt_tbl s' ! k) = 0" if "k < length (wt_tbl s')" "wd_enable (wt_tbl s' ! k) \<noteq> 0" for k
    using that after_pass_living [OF assms(1), of k] after_pass_silent(4) [OF assms(1,2)] tbl [of k] len by (cases "k = j") auto
  then have "silent_since j ((e + 1) mod 256) s'"
    using on after_pass_silent(5) [OF assms(1,2)] tbl [OF j] by (simp add: silent_since_def, simp add: s')
  moreover have "monitored j s' \<and> wd_limit (wt_tbl s' ! j) = wd_limit (wt_tbl s ! j)"
    using assms(2) after_pass_silent(2,3) [OF assms(1,2)] tbl [OF j] len by (simp add: monitored_def)
  ultimately show ?thesis by (simp add: s')
qed

text \<open>C24. The watchdog is withheld because of a silent task, but not for good: as long as all others live,
  a task that stops counting lets the external watchdog be served in exactly those of the following
  passes whose number, counted by an 8-bit variable, does not exceed its limit. So after limit + 1
  passes it is withheld, yet only to the 255th pass, and a limit of 255 or more is never exceeded.\<close>

theorem silent_task_withholds_watchdog:
  assumes "silent_since j 0 s" "monitored j s" "limit = unat (wd_limit (wt_tbl s ! j))"
  shows "wt_clears ((pass (- {j}) ^^ n) s) = wt_clears s + length (filter (\<lambda>k. k mod 256 \<le> limit) [1..<Suc n])"
proof -
  have "silent_since j (n mod 256) ((pass (- {j}) ^^ n) s) \<and> monitored j ((pass (- {j}) ^^ n) s) \<and>
    wd_limit (wt_tbl ((pass (- {j}) ^^ n) s) ! j) = wd_limit (wt_tbl s ! j) \<and>
    wt_clears ((pass (- {j}) ^^ n) s) = wt_clears s + length (filter (\<lambda>k. k mod 256 \<le> limit) [1..<Suc n])"
  proof (induction n)
    case 0
    then show ?case using assms by simp
  next
    case (Suc n)
    then show ?case
      using pass_silent [of j "n mod 256" "(pass (- {j}) ^^ n) s", OF _ _ refl] assms(3) by (auto simp: mod_Suc_eq)
  qed
  then show ?thesis by simp
qed

text \<open>A hung file task, whose limit is 250 passes, keeps the watchdog away for 5 passes of 256.\<close>

definition demo_wdt :: wdt_state where
  "demo_wdt = enableTaskMonitor 9 250 (wdtEnable \<lparr>wt_tbl = replicate 32 \<lparr>wd_enable = 0, wd_errCnt = 0, wd_count = 0, wd_limit = 0\<rparr>,
     wt_En = 0, wt_runFlag = 1, wt_reboot = 0, wt_sts = 0, wt_pin = False, wt_clears = 0\<rparr>)"

theorem silent_task_withholds_watchdog_witness:
  "wt_clears ((pass (- {9}) ^^ 256) demo_wdt) = length (filter (\<lambda>k. k mod 256 \<le> (250 :: nat)) [1..<257]) \<and>
   length (filter (\<lambda>k. k mod 256 \<le> (250 :: nat)) [1..<257]) = 251"
proof -
  have len: "length (wt_tbl demo_wdt) = 32" by (simp add: demo_wdt_def enableTaskMonitor_def wdtEnable_def)
  have at: "wt_tbl demo_wdt ! 9 = \<lparr>wd_enable = 1, wd_errCnt = 0, wd_count = 0, wd_limit = 250\<rparr>"
    by (simp add: demo_wdt_def enableTaskMonitor_def wdtEnable_def)
  have zero: "wd_count (wt_tbl demo_wdt ! k) = 0" if "k < 32" for k
    using that by (simp add: demo_wdt_def enableTaskMonitor_def wdtEnable_def nth_list_update)
  have w: "silent_since 9 0 demo_wdt" "monitored 9 demo_wdt" "wt_clears demo_wdt = 0"
    using zero by (simp_all add: silent_since_def monitored_def len at) (simp_all add: demo_wdt_def enableTaskMonitor_def wdtEnable_def)
  have "wt_clears ((pass (- {9}) ^^ 256) demo_wdt) = wt_clears demo_wdt + length (filter (\<lambda>k. k mod 256 \<le> (250 :: nat)) [1..<Suc 256])"
    by (rule silent_task_withholds_watchdog [OF w(1,2)]) (simp add: at)
  moreover have "length (filter (\<lambda>k. k mod 256 \<le> (250 :: nat)) [1..<257]) = 251" by code_simp
  ultimately show ?thesis by (simp add: w(3) del: upt_Suc)
qed

text \<open>While every task counts, every pass serves the watchdog.\<close>

lemma living_tasks_keep_watchdog:
  assumes "silent_since (length (wt_tbl s)) e s"
  shows "wt_clears (pass (- {length (wt_tbl s)}) s) = wt_clears s + 1 \<and>
    silent_since (length (wt_tbl s)) e (pass (- {length (wt_tbl s)}) s)"
proof -
  have on: "wt_En s \<noteq> 0" "wt_runFlag s \<noteq> 0" using assms by (simp_all add: silent_since_def)
  have "\<not> (\<exists>k < length (wt_tbl s). fst (after_pass (length (wt_tbl s)) s k))"
    using after_pass_living [OF assms] by auto
  then show ?thesis
    using after_pass_living [OF assms] on unfolding pass_eq [OF on] by (auto simp: silent_since_def)
qed

end
