(* ===== verification/MaxMin.thy ===== *)
theory MaxMin
  imports Settings
begin

text \<open>
  The extreme values of the measurements (\<open>meter.c\<close>): their tracking, the part of the metering
  task that clears and saves them, and their file. A measured value is a rational number or
  \<open>None\<close> for NaN. The file is the list of the blocks written to it, one per meter.
\<close>

section \<open>Tracking\<close>

record mm_data =
  md_max :: "rat option"
  md_max_ts :: u32
  md_min :: "rat option"
  md_min_ts :: u32

definition mm_zero :: mm_data where
  "mm_zero = \<lparr>md_max = Some 0, md_max_ts = 0, md_min = Some 0, md_min_ts = 0\<rparr>"

definition flt_less :: "rat option \<Rightarrow> rat option \<Rightarrow> bool" where
  "flt_less a b = (case a of None \<Rightarrow> False | Some x \<Rightarrow> (case b of None \<Rightarrow> False | Some y \<Rightarrow> x < y))"

text \<open>The result counts the changes; taking the first value is none.\<close>

definition updateMaxMin :: "u32 \<Rightarrow> rat option \<Rightarrow> mm_data \<Rightarrow> nat \<times> mm_data" where
  "updateMaxMin now v m =
     (if (md_max m = Some 0 \<and> md_min m = Some 0) \<or> md_max m = None \<or> md_min m = None
      then (0, m\<lparr>md_max := v, md_min := v\<rparr>)
      else let (c1, m1) = (if flt_less (md_max m) v then (1, m\<lparr>md_max := v, md_max_ts := now\<rparr>) else (0, m));
               (c2, m2) = (if flt_less v (md_min m1) then (1, m1\<lparr>md_min := v, md_min_ts := now\<rparr>) else (0, m1))
           in (c1 + c2, m2))"

record maxmin =
  mx_fr :: u16
  mx_re :: u16
  mx_rstTime :: u32
  mx_ts :: u32
  mx_Freq :: mm_data
  mx_Temp :: mm_data
  mx_U :: "mm_data list"
  mx_Upp :: "mm_data list"
  mx_I :: "mm_data list"
  mx_Itot :: mm_data
  mx_In :: mm_data
  mx_Isum :: mm_data
  mx_P :: "mm_data list"
  mx_Q :: "mm_data list"
  mx_S :: "mm_data list"
  mx_PF :: "mm_data list"
  mx_THD_U :: "mm_data list"
  mx_THD_Upp :: "mm_data list"
  mx_THD_I :: "mm_data list"

text \<open>\<open>memset(pmm, 0, sizeof(MAXMIN))\<close>\<close>

definition maxmin0 :: maxmin where
  "maxmin0 = \<lparr>mx_fr = 0, mx_re = 0, mx_rstTime = 0, mx_ts = 0, mx_Freq = mm_zero, mx_Temp = mm_zero,
     mx_U = replicate 4 mm_zero, mx_Upp = replicate 4 mm_zero, mx_I = replicate 4 mm_zero, mx_Itot = mm_zero,
     mx_In = mm_zero, mx_Isum = mm_zero, mx_P = replicate 4 mm_zero, mx_Q = replicate 4 mm_zero,
     mx_S = replicate 4 mm_zero, mx_PF = replicate 4 mm_zero, mx_THD_U = replicate 3 mm_zero,
     mx_THD_Upp = replicate 3 mm_zero, mx_THD_I = replicate 3 mm_zero\<rparr>"

text \<open>The measured values the functions read, by the names they have in \<open>METERING\<close>.\<close>

record mm_src =
  ms_Freq :: "rat option"
  ms_Temp :: "rat option"
  ms_U :: "rat option list"
  ms_Upp :: "rat option list"
  ms_I :: "rat option list"
  ms_Itot :: "rat option"
  ms_In :: "rat option"
  ms_Isum :: "rat option"
  ms_P :: "rat option list"
  ms_Q :: "rat option list"
  ms_S :: "rat option list"
  ms_PF :: "rat option list"
  ms_THD_U :: "rat option list"
  ms_THD_Upp :: "rat option list"
  ms_THD_I :: "rat option list"

definition track :: "u32 \<Rightarrow> rat option list \<Rightarrow> mm_data list \<Rightarrow> nat \<times> mm_data list" where
  "track now vs ms = (let rs = map2 (updateMaxMin now) vs ms in (sum_list (map fst rs), map snd rs))"

text \<open>The counter \<open>online3\<close> skips the first passes of \<open>maxMinRmsFreq\<close>, which alone raises it.\<close>

definition maxMinRmsFreq :: "u32 \<Rightarrow> mm_src \<Rightarrow> u16 \<times> maxmin \<Rightarrow> u16 \<times> maxmin" where
  "maxMinRmsFreq now s st =
     (let online = fst st; x = snd st
      in if online < 5 then (online + 1, x)
         else let (cF, f) = updateMaxMin now (ms_Freq s) (mx_Freq x); (cU, u) = track now (ms_U s) (mx_U x);
                  (cV, v) = track now (ms_Upp s) (mx_Upp x); (cI, i) = track now (ms_I s) (mx_I x);
                  (cT, t) = updateMaxMin now (ms_Itot s) (mx_Itot x); (cN, n) = updateMaxMin now (ms_In s) (mx_In x);
                  (cS, m) = updateMaxMin now (ms_Isum s) (mx_Isum x); (cC, c) = updateMaxMin now (ms_Temp s) (mx_Temp x)
              in (online + 1, x\<lparr>mx_Freq := f, mx_U := u, mx_Upp := v, mx_I := i, mx_Itot := t, mx_In := n, mx_Isum := m, mx_Temp := c,
                    mx_fr := mx_fr x + of_nat (cF + cU + cV + cI + cT + cN + cS + cC)\<rparr>))"

definition maxMinPower :: "u32 \<Rightarrow> mm_src \<Rightarrow> u16 \<times> maxmin \<Rightarrow> u16 \<times> maxmin" where
  "maxMinPower now s st =
     (let online = fst st; x = snd st
      in if online < 5 then st
         else let (cP, p) = track now (ms_P s) (mx_P x); (cQ, q) = track now (ms_Q s) (mx_Q x);
                  (cS, a) = track now (ms_S s) (mx_S x); (cF, f) = track now (ms_PF s) (mx_PF x)
              in (online, x\<lparr>mx_P := p, mx_Q := q, mx_S := a, mx_PF := f, mx_fr := mx_fr x + of_nat (cP + cQ + cS + cF)\<rparr>))"

definition maxMinTHD :: "u32 \<Rightarrow> mm_src \<Rightarrow> u16 \<times> maxmin \<Rightarrow> u16 \<times> maxmin" where
  "maxMinTHD now s st =
     (let online = fst st; x = snd st
      in if online < 5 then st
         else let (cU, u) = track now (ms_THD_U s) (mx_THD_U x); (cV, v) = track now (ms_THD_Upp s) (mx_THD_Upp x);
                  (cI, i) = track now (ms_THD_I s) (mx_THD_I x)
              in (online, x\<lparr>mx_THD_U := u, mx_THD_Upp := v, mx_THD_I := i, mx_fr := mx_fr x + of_nat (cU + cV + cI)\<rparr>))"

section \<open>Clearing and saving\<close>

record mm_state =
  mm_x :: "maxmin list"
  mm_rst :: "u16 list"
  mm_dirty :: bool
  mm_lastSave :: u32
  mm_file :: "maxmin list option"
  mm_saves :: "u32 list"

text \<open>Whether the file can be opened is up to the file system; \<open>mm_saves\<close> notes the times of the saves.\<close>

definition storeMaxMin :: "bool \<Rightarrow> u32 \<Rightarrow> mm_state \<Rightarrow> mm_state" where
  "storeMaxMin ok now s = (if ok then s\<lparr>mm_file := Some (mm_x s), mm_saves := mm_saves s @ [now]\<rparr> else s)"

definition loadMaxMin :: "bool \<Rightarrow> mm_state \<Rightarrow> int \<times> mm_state" where
  "loadMaxMin ok s =
     (case mm_file s of
        None \<Rightarrow> (let s1 = s\<lparr>mm_x := replicate 3 maxmin0\<rparr>
                 in if ok then (0, s1\<lparr>mm_file := Some (mm_x s1)\<rparr>) else (-1, s1))
      | Some f \<Rightarrow> (0, s\<lparr>mm_x := map (\<lambda>k. if k < length f then f ! k else maxmin0) [0..<3]\<rparr>))"

text \<open>The part of a turn of the metering task that deals with the extremes of meter \<open>k\<close>.\<close>

definition mm_clear :: "bool \<Rightarrow> u32 \<Rightarrow> nat \<Rightarrow> mm_state \<Rightarrow> mm_state" where
  "mm_clear ok now k s =
     (if mm_rst s ! k = 0x1234
      then storeMaxMin ok now (s\<lparr>mm_rst := (mm_rst s)[k := 0], mm_x := (mm_x s)[k := maxmin0\<lparr>mx_rstTime := now\<rparr>]\<rparr>)
      else s)"

definition mm_note :: "u32 \<Rightarrow> nat \<Rightarrow> mm_state \<Rightarrow> mm_state" where
  "mm_note now k s =
     (let x = mm_x s ! k
      in if mx_fr x \<noteq> mx_re x
         then s\<lparr>mm_x := (mm_x s)[k := x\<lparr>mx_ts := now, mx_re := mx_fr x\<rparr>], mm_dirty := True\<rparr> else s)"

definition mm_save :: "bool \<Rightarrow> u32 \<Rightarrow> mm_state \<Rightarrow> mm_state" where
  "mm_save ok now s =
     (if mm_dirty s \<and> now - mm_lastSave s \<ge> 900
      then storeMaxMin ok now (s\<lparr>mm_dirty := False, mm_lastSave := now\<rparr>) else s)"

definition mm_turn :: "bool \<Rightarrow> u32 \<Rightarrow> mm_state \<Rightarrow> mm_state" where
  "mm_turn ok now s = fold (\<lambda>k s. mm_save ok now (mm_note now k (mm_clear ok now k s))) [0, 1, 2] s"

section \<open>The reset interval\<close>

text \<open>These two functions have no caller: the setting they read has no effect.\<close>

record mm_itv =
  mi_ts :: u32
  mi_rst :: u16

definition initMaxMinItv :: "u16 \<Rightarrow> nat \<times> nat \<times> nat \<Rightarrow> mm_itv \<Rightarrow> mm_itv" where
  "initMaxMinItv itv tod s =
     (let (mday, wday, mon) = tod
      in if itv = 0 then s\<lparr>mi_ts := of_nat mday\<rparr> else if itv = 1 then s\<lparr>mi_ts := of_nat wday\<rparr>
         else if itv = 2 then s\<lparr>mi_ts := of_nat mon\<rparr> else s)"

definition checkMaxMinItv :: "u16 \<Rightarrow> nat \<times> nat \<times> nat \<Rightarrow> mm_itv \<Rightarrow> mm_itv" where
  "checkMaxMinItv itv tod s =
     (let (mday, wday, mon) = tod
      in if itv = 0 then (if mi_ts s \<noteq> of_nat mday then \<lparr>mi_ts = of_nat mday, mi_rst = 0x1234\<rparr> else s)
         else if itv = 1 then (if mi_ts s \<noteq> of_nat wday then \<lparr>mi_ts = of_nat wday, mi_rst = 0x1234\<rparr> else s)
         else if itv = 2 then (if mi_ts s \<noteq> of_nat mon then \<lparr>mi_ts = of_nat wday, mi_rst = 0x1234\<rparr> else s)
         else s)"

section \<open>Properties\<close>

definition track_all :: "(u32 \<times> rat option) list \<Rightarrow> mm_data \<Rightarrow> mm_data" where
  "track_all vs m = fold (\<lambda>(t, v) m. snd (updateMaxMin t v m)) vs m"

definition numbers :: "rat option list \<Rightarrow> rat set" where
  "numbers vs = {x. Some x \<in> set vs}"

lemma numbers_simps [simp]: "numbers [] = {}" "numbers (None # vs) = numbers vs" "numbers (Some x # vs) = insert x (numbers vs)"
  by (auto simp: numbers_def)

lemma finite_numbers [simp]: "finite (numbers vs)"
proof -
  have "numbers vs \<subseteq> the ` set vs" by (force simp: numbers_def)
  then show ?thesis by (simp add: finite_subset)
qed

lemma track_on:
  "md_max m = Some a \<Longrightarrow> md_min m = Some b \<Longrightarrow> \<not> (a = 0 \<and> b = 0) \<Longrightarrow> b \<le> a \<Longrightarrow>
   md_max (track_all vs m) = Some (Max (insert a (numbers (map snd vs)))) \<and>
   md_min (track_all vs m) = Some (Min (insert b (numbers (map snd vs))))"
proof (induction vs arbitrary: m a b)
  case (Cons tv vs)
  obtain t v where tv: "tv = (t, v)" by (cases tv)
  let ?m1 = "snd (updateMaxMin t v m)"
  show ?case
  proof (cases v)
    case None
    then have m1: "?m1 = m" using Cons.prems by (simp add: updateMaxMin_def flt_less_def split: option.split)
    show ?thesis using Cons.IH [OF Cons.prems] m1 None tv by (simp add: track_all_def)
  next
    case (Some x)
    have m1: "md_max ?m1 = Some (max a x)" "md_min ?m1 = Some (min b x)"
      using Cons.prems Some by (auto simp: updateMaxMin_def flt_less_def max_def min_def)
    have nz: "\<not> (max a x = 0 \<and> min b x = 0)" "min b x \<le> max a x" using Cons.prems(3,4) by (auto simp: max_def min_def)
    have mx: "Max (insert (max a x) S) = Max (insert a (insert x S))" if "finite S" for S :: "rat set"
      by (cases "S = {}") (simp_all add: that ac_simps)
    have mn: "Min (insert (min b x) S) = Min (insert b (insert x S))" if "finite S" for S :: "rat set"
      by (cases "S = {}") (simp_all add: that ac_simps)
    show ?thesis using Cons.IH [OF m1 nz] mx [OF finite_numbers [of "map snd vs"]] mn [OF finite_numbers [of "map snd vs"]] Some tv by (simp add: track_all_def)
  qed
qed (simp add: track_all_def)

definition no_value :: "rat option \<Rightarrow> bool" where
  "no_value v \<longleftrightarrow> v = None \<or> v = Some 0"

lemma track_from_none:
  assumes "md_max m = v0" "md_min m = v0" "no_value v0" "ys = dropWhile no_value (map snd vs)"
  shows "md_max (track_all vs m) = (if ys = [] then last (v0 # map snd vs) else Some (Max (numbers ys))) \<and>
    md_min (track_all vs m) = (if ys = [] then last (v0 # map snd vs) else Some (Min (numbers ys)))"
  using assms
proof (induction vs arbitrary: m v0 ys)
  case Nil
  then show ?case by (simp add: track_all_def)
next
  case (Cons tv vs)
  obtain t v where tv: "tv = (t, v)" by (cases tv)
  let ?m1 = "snd (updateMaxMin t v m)"
  have m1: "md_max ?m1 = v" "md_min ?m1 = v" using Cons.prems(1-3) by (auto simp: updateMaxMin_def no_value_def)
  show ?case
  proof (cases "no_value v")
    case True
    have "ys = dropWhile no_value (map snd vs)" using Cons.prems(4) tv True by simp
    from Cons.IH [OF m1 True this] show ?thesis using tv by (simp add: track_all_def)
  next
    case False
    then obtain x where x: "v = Some x" "x \<noteq> 0" by (cases v) (auto simp: no_value_def)
    have "ys = Some x # map snd vs" using Cons.prems(4) tv False x by simp
    then show ?thesis using track_on [of ?m1 x x vs] m1 x tv by (simp add: track_all_def)
  qed
qed

text \<open>A tracked value of the block and the measured value it belongs to.\<close>

definition follows :: "(mm_src \<Rightarrow> rat option) \<Rightarrow> (maxmin \<Rightarrow> mm_data) \<Rightarrow> bool" where
  "follows v m \<longleftrightarrow> (v, m) \<in> {(ms_Freq, mx_Freq), (ms_Itot, mx_Itot), (ms_In, mx_In), (ms_Isum, mx_Isum), (ms_Temp, mx_Temp)} \<or>
     (\<exists>k < 4. (v, m) \<in> {(\<lambda>s. ms_U s ! k, \<lambda>x. mx_U x ! k), (\<lambda>s. ms_Upp s ! k, \<lambda>x. mx_Upp x ! k), (\<lambda>s. ms_I s ! k, \<lambda>x. mx_I x ! k)})"

definition four_phases :: "maxmin \<Rightarrow> bool" where
  "four_phases x \<longleftrightarrow> length (mx_U x) = 4 \<and> length (mx_Upp x) = 4 \<and> length (mx_I x) = 4"

definition four_values :: "mm_src \<Rightarrow> bool" where
  "four_values s \<longleftrightarrow> length (ms_U s) = 4 \<and> length (ms_Upp s) = 4 \<and> length (ms_I s) = 4"

lemma track_lengths: "length vs = 4 \<Longrightarrow> length ms = 4 \<Longrightarrow> length (snd (track now vs ms)) = 4"
  by (simp add: track_def Let_def)

lemma track_nth: "length vs = 4 \<Longrightarrow> length ms = 4 \<Longrightarrow> k < 4 \<Longrightarrow>
    snd (track now vs ms) ! k = snd (updateMaxMin now (vs ! k) (ms ! k))"
  by (simp add: track_def Let_def)

lemma rms_pass:
  assumes "four_phases x" "four_values s" "follows v m" "st = maxMinRmsFreq now s (o1, x)"
  shows "fst st = (o1 + 1) \<and> four_phases (snd st) \<and>
    m (snd st) = (if o1 < 5 then m x else snd (updateMaxMin now (v s) (m x)))"
  using assms
  by (auto simp: maxMinRmsFreq_def follows_def four_phases_def four_values_def track_lengths track_nth Let_def case_prod_beta)

text \<open>The passes that count, and the values of a run.\<close>

definition counted :: "u16 \<Rightarrow> 'a list \<Rightarrow> 'a list" where
  "counted o1 ps = map (\<lambda>i. ps ! i) (filter (\<lambda>i. 5 \<le> (unat o1 + i) mod 65536) [0..<length ps])"

lemma counted_Cons: "counted o1 (p # ps) = (if o1 < 5 then [] else [p]) @ counted (o1 + 1) ps"
proof -
  have "(unat (o1 + 1) + i) mod 65536 = (unat o1 + Suc i) mod 65536" for i
    by (simp add: unat_word_ariths mod_simps)
  moreover have "[0..<length (p # ps)] = 0 # map Suc [0..<length ps]" by (simp add: map_Suc_upt upt_conv_Cons del: upt_Suc)
  moreover have "unat o1 mod 65536 = unat o1" using unsigned_less [of o1] by simp
  ultimately show ?thesis
    by (auto simp: counted_def filter_map comp_def word_less_nat_alt not_less)
qed

definition rms_run :: "(u32 \<times> mm_src) list \<Rightarrow> u16 \<times> maxmin \<Rightarrow> u16 \<times> maxmin" where
  "rms_run ps st = fold (\<lambda>(t, s). maxMinRmsFreq t s) ps st"

lemma run_tracks:
  assumes "four_phases x" "\<forall>(t, s) \<in> set ps. four_values s" "follows v m"
  shows "m (snd (rms_run ps (o1, x))) = track_all (map (\<lambda>(t, s). (t, v s)) (counted o1 ps)) (m x)"
  using assms(1,2)
proof (induction ps arbitrary: o1 x)
  case Nil
  then show ?case by (simp add: rms_run_def track_all_def counted_def)
next
  case (Cons p ps)
  obtain t s where p: "p = (t, s)" by (cases p)
  obtain x1 where x1: "maxMinRmsFreq t s (o1, x) = (o1 + 1, x1)" "four_phases x1"
    "m x1 = (if o1 < 5 then m x else snd (updateMaxMin t (v s) (m x)))"
    using rms_pass [OF Cons.prems(1) _ assms(3) refl, of s t o1] Cons.prems(2) p
    by (metis (no_types, lifting) case_prodD list.set_intros(1) prod.collapse)
  have "m (snd (rms_run (p # ps) (o1, x))) = m (snd (rms_run ps (o1 + 1, x1)))" by (simp add: rms_run_def p x1)
  also have "\<dots> = track_all (map (\<lambda>(t, s). (t, v s)) (counted (o1 + 1) ps)) (m x1)"
    using Cons x1(2) by simp
  finally show ?case by (simp add: counted_Cons p x1(3) track_all_def)
qed

text \<open>C22. The extremes are those of the measurements that count, from a cleared block over any number of
  passes of \<open>maxMinRmsFreq\<close> without another clearing between: for the frequency, the temperature,
  the sums of current and the four values of phase voltage, line voltage and current, the maximum and the minimum are the largest
  and the smallest number measured since the first that is not zero. Zeros before it count as no
  measurement, zeros after it do; passes without a number (NaN) leave them as they are. Not counted are the passes
  in which the 16-bit counter of passes is below five: the first five after the start, and five
  more after every 65536. As long as all numbers are zero or missing the last one is shown.\<close>

theorem extremes_are_tracked:
  assumes "\<forall>(t, s) \<in> set ps. length (ms_U s) = 4 \<and> length (ms_Upp s) = 4 \<and> length (ms_I s) = 4"
    and "x' = snd (fold (\<lambda>(t, s). maxMinRmsFreq t s) ps (cnt, maxmin0\<lparr>mx_rstTime := t0\<rparr>))"
    and "k < 4"
    and "(v, m) \<in> {(ms_Freq, mx_Freq x'), (ms_Temp, mx_Temp x'), (ms_Itot, mx_Itot x'), (ms_In, mx_In x'), (ms_Isum, mx_Isum x'),
           (\<lambda>s. ms_U s ! k, mx_U x' ! k), (\<lambda>s. ms_Upp s ! k, mx_Upp x' ! k), (\<lambda>s. ms_I s ! k, mx_I x' ! k)}"
    and "vs = map (\<lambda>i. v (snd (ps ! i))) (filter (\<lambda>i. 5 \<le> (unat cnt + i) mod 65536) [0..<length ps])"
    and "ys = dropWhile (\<lambda>v. v = None \<or> v = Some 0) vs"
  shows "md_max m = (if ys = [] then last (Some 0 # vs) else Some (Max {y. Some y \<in> set ys})) \<and>
    md_min m = (if ys = [] then last (Some 0 # vs) else Some (Min {y. Some y \<in> set ys}))"
proof -
  let ?x0 = "maxmin0\<lparr>mx_rstTime := t0\<rparr>"
  have x': "x' = snd (rms_run ps (cnt, ?x0))" by (simp add: assms(2) rms_run_def)
  obtain f where f: "m = f x'" "follows v f" "f ?x0 = mm_zero"
    using assms(3,4) by (fastforce simp: follows_def maxmin0_def)
  have "four_phases ?x0" by (simp add: four_phases_def maxmin0_def)
  moreover have "\<forall>(t, s) \<in> set ps. four_values s" using assms(1) by (simp add: four_values_def)
  ultimately have m: "m = track_all (map (\<lambda>(t, s). (t, v s)) (counted cnt ps)) mm_zero"
    using run_tracks [OF _ _ f(2), of ?x0 ps cnt] f by (simp add: x')
  have vs: "map snd (map (\<lambda>(t, s). (t, v s)) (counted cnt ps)) = vs"
    by (simp add: assms(5) counted_def comp_def case_prod_beta)
  have "(\<lambda>v. v = None \<or> v = Some 0) = no_value" by (simp add: no_value_def fun_eq_iff)
  then have ys: "ys = dropWhile no_value (map snd (map (\<lambda>(t, s). (t, v s)) (counted cnt ps)))" unfolding assms(6) vs by simp
  show ?thesis
    using track_from_none [OF _ _ _ ys, of mm_zero "Some 0"] unfolding m vs numbers_def
    by (simp add: mm_zero_def no_value_def)
qed

definition demo_src :: "rat option \<Rightarrow> mm_src" where
  "demo_src v = \<lparr>ms_Freq = v, ms_Temp = None, ms_U = replicate 4 v, ms_Upp = replicate 4 v, ms_I = replicate 4 v,
     ms_Itot = v, ms_In = v, ms_Isum = v, ms_P = [], ms_Q = [], ms_S = [], ms_PF = [], ms_THD_U = [], ms_THD_Upp = [],
     ms_THD_I = []\<rparr>"

text \<open>Of the seven passes the first two still fall into the pause after a start.\<close>

theorem extremes_are_tracked_witness:
  "md_max (mx_U (snd (fold (\<lambda>(t, s). maxMinRmsFreq t s)
      (map (\<lambda>v. (1, demo_src v)) [Some 99, Some 98, Some 0, Some 5, None, Some 9, Some 7]) (3, maxmin0\<lparr>mx_rstTime := 1\<rparr>))) ! 2) = Some 9"
proof -
  let ?ps = "map (\<lambda>v. (1, demo_src v)) [Some 99, Some 98, Some 0, Some 5, None, Some 9, Some 7] :: (u32 \<times> mm_src) list"
  have l: "\<forall>(t, s) \<in> set ?ps. length (ms_U s) = 4 \<and> length (ms_Upp s) = 4 \<and> length (ms_I s) = 4"
    by (simp add: demo_src_def)
  have c: "filter (\<lambda>i. 5 \<le> (unat (3 :: u16) + i) mod 65536) [0..<length ?ps] = [2, 3, 4, 5, 6]"
    by (simp add: upt_rec)
  have vs: "map (\<lambda>i. ms_U (snd (?ps ! i)) ! 2) [2, 3, 4, 5, 6] = [Some 0, Some 5, None, Some 9, Some 7]" by (simp add: demo_src_def)
  have s: "{y :: rat. Some y \<in> set [Some 5, None, Some 9, Some 7]} = {5, 9, 7}" by auto
  let ?ys = "[Some 5, None, Some 9, Some 7] :: rat option list"
  let ?x = "snd (fold (\<lambda>(t, s). maxMinRmsFreq t s) ?ps (3, maxmin0\<lparr>mx_rstTime := 1\<rparr>))"
  have mem: "(\<lambda>s. ms_U s ! 2, mx_U ?x ! 2) \<in> {(ms_Freq, mx_Freq ?x), (ms_Temp, mx_Temp ?x), (ms_Itot, mx_Itot ?x),
      (ms_In, mx_In ?x), (ms_Isum, mx_Isum ?x), (\<lambda>s. ms_U s ! 2, mx_U ?x ! 2), (\<lambda>s. ms_Upp s ! 2, mx_Upp ?x ! 2),
      (\<lambda>s. ms_I s ! 2, mx_I ?x ! 2)}"
    by (simp only: insert_iff simp_thms)
  have "md_max (mx_U ?x ! 2) = (if ?ys = [] then last (Some 0 # Some 0 # ?ys) else Some (Max {y. Some y \<in> set ?ys}))"
    by (rule extremes_are_tracked [where k = 2 and v = "\<lambda>s. ms_U s ! 2" and vs = "Some 0 # ?ys",
          OF l refl _ mem, THEN conjunct1]) (simp_all only: c vs, simp_all)
  then show ?thesis unfolding s by simp
qed

subsection \<open>Saving\<close>

text \<open>Two blocks with the same extremes differ at most in the marks of the last save.\<close>

definition extremes :: "maxmin \<Rightarrow> maxmin" where
  "extremes x = x\<lparr>mx_ts := 0, mx_re := 0\<rparr>"

definition mm_part :: "bool \<Rightarrow> u32 \<Rightarrow> nat \<Rightarrow> mm_state \<Rightarrow> mm_state" where
  "mm_part ok now k s = mm_save ok now (mm_note now k (mm_clear ok now k s))"

definition no_reset :: "mm_state \<Rightarrow> bool" where
  "no_reset s \<longleftrightarrow> (\<forall>k < 3. mm_rst s ! k \<noteq> 0x1234)"

definition waiting :: "mm_state \<Rightarrow> nat \<Rightarrow> bool" where
  "waiting s k \<longleftrightarrow> mx_fr (mm_x s ! k) \<noteq> mx_re (mm_x s ! k)"

lemma mm_turn_parts: "mm_turn ok now s = mm_part ok now 2 (mm_part ok now 1 (mm_part ok now 0 s))"
  by (simp add: mm_turn_def mm_part_def)

lemma map_update_eq: "f y = f (xs ! k) \<Longrightarrow> map f (xs[k := y]) = map f xs"
  by (cases "k < length xs") (auto simp: map_update list_update_beyond intro: list_update_same_conv [THEN iffD2])

lemma mm_note_keeps: "map extremes (mm_x (mm_note now k s)) = map extremes (mm_x s)"
  by (auto simp: mm_note_def Let_def extremes_def intro!: map_update_eq)

lemma mm_part_result:
  assumes "no_reset s" "k < 3" "s' = mm_part True now k s"
  shows "map extremes (mm_x s') = map extremes (mm_x s) \<and> no_reset s' \<and>
    (\<forall>j. j \<noteq> k \<longrightarrow> mm_x s' ! j = mm_x s ! j) \<and>
    (if (mm_dirty s \<or> waiting s k) \<and> now - mm_lastSave s \<ge> 900
     then \<not> mm_dirty s' \<and> mm_lastSave s' = now \<and> mm_file s' = Some (mm_x s') \<and> mm_saves s' = mm_saves s @ [now]
     else (mm_dirty s' \<longleftrightarrow> mm_dirty s \<or> waiting s k) \<and> mm_lastSave s' = mm_lastSave s \<and> mm_file s' = mm_file s \<and>
       mm_saves s' = mm_saves s)"
proof -
  have c: "mm_clear True now k s = s" using assms(1,2) by (simp add: no_reset_def mm_clear_def)
  let ?n = "mm_note now k s"
  have n: "mm_dirty ?n = (mm_dirty s \<or> waiting s k)" "mm_lastSave ?n = mm_lastSave s" "mm_file ?n = mm_file s"
    "mm_saves ?n = mm_saves s" "mm_rst ?n = mm_rst s" "\<And>j. j \<noteq> k \<Longrightarrow> mm_x ?n ! j = mm_x s ! j"
    by (simp_all add: mm_note_def waiting_def Let_def)
  have x: "mm_x s' = mm_x ?n" "mm_rst s' = mm_rst ?n"
    by (simp_all add: assms(3) mm_part_def c mm_save_def storeMaxMin_def)
  have "no_reset s'" using assms(1) by (simp add: no_reset_def x n)
  then show ?thesis
    using mm_note_keeps [of now k s] n unfolding x
    by (simp add: assms(3) mm_part_def c mm_save_def storeMaxMin_def)
qed

text \<open>One meter's part of a turn, with a file system that opens the file or does not.\<close>

lemma extremes_cleared [simp]: "extremes (maxmin0\<lparr>mx_rstTime := t\<rparr>) = maxmin0\<lparr>mx_rstTime := t\<rparr>"
  by (simp add: extremes_def maxmin0_def)








text \<open>The flash is spared: without resets two saves are at least 15 minutes apart, whatever is measured
  between the turns.\<close>

definition mm_run :: "((maxmin list \<Rightarrow> maxmin list) \<times> u32) list \<Rightarrow> mm_state \<Rightarrow> mm_state" where
  "mm_run ts s = fold (\<lambda>(f, now) s. mm_turn True now (s\<lparr>mm_x := f (mm_x s)\<rparr>)) ts s"

definition spaced :: "mm_state \<Rightarrow> bool" where
  "spaced s \<longleftrightarrow> sorted_wrt (\<lambda>a b. unat a + 900 \<le> unat b) (mm_saves s) \<and>
     (\<forall>a \<in> set (mm_saves s). a \<le> mm_lastSave s)"

lemma mm_part_spaced:
  assumes "no_reset s" "k < 3" "spaced s" "mm_lastSave s \<le> now"
  shows "spaced (mm_part True now k s) \<and> mm_lastSave (mm_part True now k s) \<le> now \<and> no_reset (mm_part True now k s)"
proof -
  note p = mm_part_result [OF assms(1,2) refl, of now]
  have d: "unat (now - mm_lastSave s) = unat now - unat (mm_lastSave s)"
    using assms(4) by (simp add: unat_sub)
  have "unat a + 900 \<le> unat now" if "a \<in> set (mm_saves s)" "now - mm_lastSave s \<ge> 900" for a
  proof -
    have "unat a \<le> unat (mm_lastSave s)" using that(1) assms(3) by (auto simp: spaced_def word_le_nat_alt)
    moreover have "900 \<le> unat now - unat (mm_lastSave s)" using that(2) d by (simp add: word_le_nat_alt)
    ultimately show ?thesis by linarith
  qed
  then show ?thesis
    using p assms(3,4) by (auto simp: spaced_def sorted_wrt_append word_le_nat_alt split: if_splits)
qed

lemma mm_turn_spaced:
  assumes "no_reset s" "spaced s" "mm_lastSave s \<le> now"
  shows "spaced (mm_turn True now s) \<and> mm_lastSave (mm_turn True now s) \<le> now \<and> no_reset (mm_turn True now s)"
  unfolding mm_turn_parts using assms mm_part_spaced by simp

lemma saves_are_rare:
  "no_reset s \<Longrightarrow> spaced s \<Longrightarrow> sorted (mm_lastSave s # map snd ts) \<Longrightarrow> spaced (mm_run ts s)"
proof (induction ts arbitrary: s)
  case Nil
  then show ?case by (simp add: mm_run_def)
next
  case (Cons fn ts)
  obtain f now where fn: "fn = (f, now)" by (cases fn)
  let ?s = "s\<lparr>mm_x := f (mm_x s)\<rparr>"
  have "no_reset ?s" "spaced ?s" "mm_lastSave ?s \<le> now"
    using Cons.prems fn by (simp_all add: no_reset_def spaced_def)
  note t = mm_turn_spaced [OF this]
  have "sorted (mm_lastSave (mm_turn True now ?s) # map snd ts)"
    using t Cons.prems(3) fn by auto
  then show ?case using Cons.IH [of "mm_turn True now ?s"] t fn by (simp add: mm_run_def)
qed

text \<open>What was saved is there after a restart; a file of two meters leaves the third empty.\<close>

lemma extremes_survive_restart:
  assumes "length (mm_x s) = 3" "mm_x s' = x'" "mm_file s' = mm_file (storeMaxMin True now s)"
  shows "mm_x (snd (loadMaxMin ok s')) = mm_x s"
  using assms by (auto simp: loadMaxMin_def storeMaxMin_def intro!: nth_equalityI)

text \<open>The monthly interval would never come to rest: the day of the week is noted where the month is
  compared, so every further check clears the extremes again.\<close>

lemma monthly_interval_never_rests:
  assumes "mi_ts s \<noteq> of_nat mon" "mon < 13" "wday < 7" "wday \<noteq> mon"
  shows "mi_rst (((\<lambda>s. checkMaxMinItv 2 (mday, wday, mon) (s\<lparr>mi_rst := 0\<rparr>)) ^^ Suc n) s) = 0x1234"
proof -
  have ne: "(of_nat wday :: u32) \<noteq> of_nat mon" using assms(2-4) by (simp add: word_of_nat_eq_iff take_bit_nat_eq_self)
  have "mi_rst (((\<lambda>s. checkMaxMinItv 2 (mday, wday, mon) (s\<lparr>mi_rst := 0\<rparr>)) ^^ Suc n) s) = 0x1234 \<and>
    mi_ts (((\<lambda>s. checkMaxMinItv 2 (mday, wday, mon) (s\<lparr>mi_rst := 0\<rparr>)) ^^ Suc n) s) \<noteq> of_nat mon"
    using assms(1) ne by (induction n) (simp_all add: checkMaxMinItv_def)
  then show ?thesis by blast
qed

text \<open>The 16-bit counter of the first passes wraps: after 65536 seconds five are skipped again.\<close>

lemma tracking_pauses_after_wrap:
  "maxMinRmsFreq now v (0xFFFF, x) = (0, x') \<Longrightarrow> online < 5 \<Longrightarrow>
   snd (maxMinRmsFreq now2 v2 (online, x')) = x' \<and> snd (maxMinPower now2 v2 (online, x')) = x' \<and>
   snd (maxMinTHD now2 v2 (online, x')) = x'"
  by (simp add: maxMinRmsFreq_def maxMinPower_def maxMinTHD_def)

end
