(* ===== verification/Measure.thy ===== *)
theory Measure
  imports Feeder
begin

text \<open>
  From chip registers to measured values (\<open>ade9000.c\<close>): the registers collected every 200 ms and the
  calculations made of them once a second. The contents of the chip registers are functions of
  their address; floats are rational numbers, the functions of the mathematical library are
  arguments, and so is the value that stands for a division by zero. Channel gains are in the
  chip, scale factors in the configuration.
\<close>

section \<open>Collecting the registers\<close>

text \<open>
  \<open>inrms\<close>, \<open>isrms\<close> and \<open>urms_1012\<close> lie behind each other in \<open>METER_REGS\<close>, with six entries each
  (three times six for the last); \<open>rg_tail\<close> is that part of the memory.
\<close>

record meter_regs =
  rg_ix :: nat
  rg_urms :: "u32 list list"
  rg_irms :: "u32 list list"
  rg_tail :: "u32 list"
  rg_furms :: "u32 list list"
  rg_firms :: "u32 list list"
  rg_UIangle :: "u16 list list"
  rg_Uangle :: "u16 list list"
  rg_Iangle :: "u16 list list"

record chip =
  ch_fr :: nat
  ch_re :: nat
  ch_sr :: "meter_regs list"
  ch_rmsCalcF :: bool
  ch_watt :: "int list"
  ch_var :: "int list"
  ch_va :: "int list"
  ch_fwatt :: "int list"
  ch_fvar :: "int list"
  ch_fva :: "int list"

abbreviation (input) os_inrms :: nat where "os_inrms \<equiv> 0"
abbreviation (input) os_isrms :: nat where "os_isrms \<equiv> 6"
abbreviation (input) os_urms_1012 :: nat where "os_urms_1012 \<equiv> 12"

definition put_row :: "nat \<Rightarrow> (nat \<Rightarrow> 'a) \<Rightarrow> 'a list list \<Rightarrow> 'a list list" where
  "put_row ix f xss = map (\<lambda>i. (xss ! i)[ix := f i]) [0..<3]"

definition read_regs :: "(nat \<Rightarrow> u32) \<Rightarrow> (nat \<Rightarrow> u16) \<Rightarrow> meter_regs \<Rightarrow> meter_regs" where
  "read_regs reg32 reg16 r =
     (let ix = rg_ix r
      in r\<lparr>rg_irms := put_row ix (\<lambda>i. reg32 (0x20c + 0x20 * i)) (rg_irms r),
           rg_urms := put_row ix (\<lambda>i. reg32 (0x20d + 0x20 * i)) (rg_urms r),
           rg_firms := put_row ix (\<lambda>i. reg32 (0x20e + 0x20 * i)) (rg_firms r),
           rg_furms := put_row ix (\<lambda>i. reg32 (0x20f + 0x20 * i)) (rg_furms r),
           rg_tail := fold (\<lambda>i t. t[os_urms_1012 + 6 * i + ix := reg32 (0x21c + 0x20 * i)]) [0, 1, 2]
             ((rg_tail r)[os_inrms + ix := reg32 0x266, os_isrms + ix := reg32 0x269]),
           rg_Uangle := put_row ix (\<lambda>i. reg16 (0x482 + i)) (rg_Uangle r),
           rg_UIangle := put_row ix (\<lambda>i. reg16 (0x485 + i)) (rg_UIangle r),
           rg_Iangle := put_row ix (\<lambda>i. reg16 (0x488 + i)) (rg_Iangle r)\<rparr>)"

definition readRmsAngle :: "(nat \<Rightarrow> u32) \<Rightarrow> (nat \<Rightarrow> u16) \<Rightarrow> chip \<Rightarrow> chip" where
  "readRmsAngle reg32 reg16 c =
     (let r = read_regs reg32 reg16 (ch_sr c ! ch_fr c)
      in if rg_ix r + 1 \<ge> 5
         then c\<lparr>ch_sr := (ch_sr c)[ch_fr c := r\<lparr>rg_ix := 0\<rparr>], ch_fr := 1 - ch_fr c, ch_rmsCalcF := True\<rparr>
         else c\<lparr>ch_sr := (ch_sr c)[ch_fr c := r\<lparr>rg_ix := rg_ix r + 1\<rparr>]\<rparr>)"

definition readPhasePower :: "(nat \<Rightarrow> u32) \<Rightarrow> chip \<Rightarrow> chip" where
  "readPhasePower reg32 c =
     (let regs = (\<lambda>k. map (\<lambda>i. sint (reg32 (0x2e5 + 10 * (6 * i + k)))) [0..<3])
      in c\<lparr>ch_watt := regs 0, ch_var := regs 1, ch_va := regs 2, ch_fwatt := regs 3, ch_fvar := regs 4, ch_fva := regs 5\<rparr>)"

section \<open>Arithmetic of the calculations\<close>

record math_env =
  me_cos :: "rat \<Rightarrow> rat"
  me_sin :: "rat \<Rightarrow> rat"
  me_sqrt :: "rat \<Rightarrow> rat"
  me_acos :: "rat \<Rightarrow> rat"
  me_atan :: "rat \<Rightarrow> rat"
  me_atan2 :: "rat \<Rightarrow> rat \<Rightarrow> rat"
  me_nonfin :: rat

definition fdiv :: "math_env \<Rightarrow> rat \<Rightarrow> rat \<Rightarrow> rat" where
  "fdiv env a b = (if b = 0 then me_nonfin env else a / b)"

abbreviation (input) M_PI :: rat where "M_PI \<equiv> 3141592654 / 1000000000"

definition radians :: "rat \<Rightarrow> rat" where
  "radians a = a * (M_PI / 180)"

definition degrees :: "rat \<Rightarrow> rat" where
  "degrees r = (let f = r / (M_PI / 180) in if f < 0 then f + 360 else f)"

definition rtrunc :: "rat \<Rightarrow> int" where
  "rtrunc r = (if r < 0 then - \<lfloor>- r\<rfloor> else \<lfloor>r\<rfloor>)"

definition c_fmod :: "rat \<Rightarrow> rat \<Rightarrow> rat" where
  "c_fmod x y = x - y * of_int (rtrunc (x / y))"

definition safe_fmod :: "rat \<Rightarrow> rat \<Rightarrow> rat" where
  "safe_fmod x y = (if y = 0 then 0 else c_fmod x y)"

text \<open>Integer division of C truncates.\<close>

definition c_quot :: "int \<Rightarrow> int \<Rightarrow> int" where
  "c_quot a b = sgn a * sgn b * (\<bar>a\<bar> div \<bar>b\<bar>)"

definition summation :: "rat list \<Rightarrow> nat \<Rightarrow> rat" where
  "summation xs c = sum_list (take c xs)"

definition average :: "rat list \<Rightarrow> nat \<Rightarrow> rat" where
  "average xs c = sum_list (take c xs) / of_nat c"

text \<open>The array of the caller starts at \<open>os\<close> of the memory \<open>mem\<close>.\<close>

definition average_without_min_max :: "u32 list \<Rightarrow> nat \<Rightarrow> nat \<Rightarrow> int" where
  "average_without_min_max mem os len =
     (let ns = take len (drop os mem)
      in sint (sum_list ns) - sint (fold min ns (ns ! 0)) - sint (fold max ns (ns ! 0)))"

definition mean5 :: "u32 list \<Rightarrow> int" where
  "mean5 xs = c_quot (sint (sum_list (take 5 xs))) 5"

section \<open>The calculations\<close>

record meas_cfg =
  mc_wiring :: u16
  mc_vnorm :: rat
  mc_ct_dir :: "u16 list"
  mc_VA_type :: u16
  mc_PF_sign :: u16
  mc_zctScale :: rat
  mc_vscale :: rat
  mc_iscale :: rat
  mc_igscale :: rat
  mc_wscale :: rat
  mc_inoload :: rat
  mc_I_start :: rat
  mc_In_A :: rat
  mc_Slope :: rat
  mc_InOfs :: rat
  mc_InOfsI :: rat
  mc_sumMax :: rat

record meas =
  cn_U :: "rat list"
  cn_fU :: "rat list"
  cn_U1012 :: "rat list"
  cn_I :: "rat list"
  cn_fI :: "rat list"
  cn_Isum :: rat
  cn_In :: rat
  cn_In1 :: rat
  cn_Is :: rat
  cn_Uangle :: "rat list"
  cn_UIangle :: "rat list"
  cn_Iangle :: "rat list"
  cn_rmsInit :: bool
  mv_Freq :: rat
  mv_U :: "rat list"
  mv_fU :: "rat list"
  mv_Upp :: "rat list"
  mv_I :: "rat list"
  mv_fI :: "rat list"
  mv_Itot :: rat
  mv_In :: rat
  mv_Isum :: rat
  mv_Ig :: rat
  mv_Uangle :: "rat list"
  mv_Iangle :: "rat list"
  mv_Pangle :: "rat list"
  mv_Ubal :: "rat list"
  mv_Ibal :: "rat list"
  mv_Uzs :: "rat list"
  mv_Izs :: "rat list"
  mv_UUndev :: "rat list"
  mv_UOvdev :: "rat list"

abbreviation (input) WM_3LL2CT :: u16 where "WM_3LL2CT \<equiv> 2"
abbreviation (input) WM_3LL3CT :: u16 where "WM_3LL3CT \<equiv> 3"
abbreviation (input) WM_1LL2CT :: u16 where "WM_1LL2CT \<equiv> 7"

definition scaleAngle :: "rat \<Rightarrow> u16 \<Rightarrow> rat" where
  "scaleAngle freq raw = of_nat (unat raw) * (360 / 1024000) * freq"

definition getAngle :: "math_env \<Rightarrow> meas_cfg \<Rightarrow> rat \<Rightarrow> u16 list \<Rightarrow> rat" where
  "getAngle env cfg freq angle =
     (let as = map (scaleAngle freq) (take 5 angle);
          x = sum_list (map (\<lambda>a. me_cos env (radians a)) as); y = sum_list (map (\<lambda>a. me_sin env (radians a)) as)
      in 360 - degrees (me_atan2 env (fdiv env y (mc_sumMax cfg)) (fdiv env x (mc_sumMax cfg))))"

abbreviation (input) PICKUP_VOLT_RAW :: rat where "PICKUP_VOLT_RAW \<equiv> 52702092 * 10 / (169776 / 100) * 2"

definition cut_scale :: "rat \<Rightarrow> rat \<Rightarrow> u32 list \<Rightarrow> rat" where
  "cut_scale limit scale xs = (if of_int (mean5 xs) < limit then 0 else of_int (mean5 xs) * scale)"

definition scaleIgrms :: "meas_cfg \<Rightarrow> meas \<Rightarrow> int \<Rightarrow> rat" where
  "scaleIgrms cfg m v =
     (let v1 = mc_Slope cfg * (mv_I m ! 3 - mc_InOfsI cfg) + mc_InOfs cfg; v2 = of_int v * mc_igscale cfg - v1
      in if v2 < 0 then 0 else v2)"

definition scaleRms :: "meas_cfg \<Rightarrow> meter_regs \<Rightarrow> meas \<Rightarrow> meas" where
  "scaleRms cfg r m =
     (let volt = (\<lambda>xss. map (\<lambda>i. cut_scale PICKUP_VOLT_RAW (mc_vscale cfg) (xss ! i)) [0..<3]);
          amp = (\<lambda>xss. map (\<lambda>i. cut_scale (mc_inoload cfg) (mc_iscale cfg) (xss ! i)) [0..<3])
      in m\<lparr>cn_U := volt (rg_urms r), cn_fU := volt (rg_furms r),
           cn_U1012 := volt (map (\<lambda>i. take 6 (drop (os_urms_1012 + 6 * i) (rg_tail r))) [0..<3]),
           cn_I := amp (rg_irms r), cn_fI := amp (rg_firms r)\<rparr>)"

text \<open>
  The sum of the currents is replaced by the local variable \<open>rms\<close>, which the function never sets:
  \<open>rms0\<close> is what it happens to hold. Ten values are averaged from arrays of six.
\<close>

definition neutral :: "meas_cfg \<Rightarrow> rat \<Rightarrow> meter_regs \<Rightarrow> meas \<Rightarrow> meas" where
  "neutral cfg rms0 r m =
     (let m1 = m\<lparr>cn_Isum := rms0\<rparr>
      in if cn_Isum m1 = 0 then m1\<lparr>cn_In := 0, cn_Is := 0\<rparr>
         else let insum = average_without_min_max (rg_tail r) os_inrms 10;
                  issum = average_without_min_max (rg_tail r) os_isrms 10
              in m1\<lparr>cn_In1 := of_int (c_quot insum 8) * mc_igscale cfg, cn_In := scaleIgrms cfg m1 (c_quot insum 8),
                    cn_Is := of_int (c_quot issum 8) * mc_iscale cfg\<rparr>)"

definition angles :: "math_env \<Rightarrow> meas_cfg \<Rightarrow> meter_regs \<Rightarrow> meas \<Rightarrow> meas" where
  "angles env cfg r m =
     (let g = (\<lambda>xss. map (\<lambda>i. getAngle env cfg (mv_Freq m) (xss ! i)) [0..<3])
      in m\<lparr>cn_Uangle := g (rg_Uangle r), cn_UIangle := g (rg_UIangle r), cn_Iangle := g (rg_Iangle r)\<rparr>)"

definition toAngle :: "rat \<Rightarrow> rat" where
  "toAngle v = (if v > 360 then v - 360 else if v < 0 then 360 + v else v)"

text \<open>\<open>calcUIAngle\<close>: the angle of the current that has no transformer.\<close>

definition calcUIAngle :: "math_env \<Rightarrow> meas \<Rightarrow> rat" where
  "calcUIAngle env m =
     (if mv_I m ! 1 = 0 then 0
      else let Ia = cn_Iangle m ! 0; a = (if Ia > 180 then 360 - Ia else Ia);
               t0 = fdiv env (cn_I m ! 0 - cn_I m ! 2 * me_cos env ((180 - a) * M_PI / 180)) (cn_I m ! 1)
           in if Ia > 180
              then cn_UIangle m ! 0 + (180 - me_acos env t0 * 180 / M_PI) - cn_Uangle m ! 1
              else let t = c_fmod (cn_UIangle m ! 0 + (180 + me_acos env t0 * 180 / M_PI)) 360
                   in c_fmod (cn_Uangle m ! 2 - t) 360 - 180)"

definition pangle :: "rat \<Rightarrow> rat \<Rightarrow> rat" where
  "pangle i a = (if i = 0 then 0 else a)"

definition wiring_angles :: "math_env \<Rightarrow> meas_cfg \<Rightarrow> meas \<Rightarrow> meas" where
  "wiring_angles env cfg m =
     (let w = mc_wiring cfg; U = cn_Uangle m; V = cn_UIangle m; I = mv_I m
      in if w = WM_3LL3CT \<or> w = WM_3LL2CT
         then let m0 = (if w = WM_3LL2CT then m\<lparr>cn_Iangle := (cn_Iangle m)[1 := calcUIAngle env m]\<rparr> else m);
                  ua = [0, toAngle (U ! 2 + 180), U ! 0]; A = cn_Iangle m0;
                  i0 = toAngle (ua ! 0 + V ! 0); ia = [i0, toAngle (i0 + A ! 0), toAngle (i0 + A ! 2)]
              in m0\<lparr>mv_Uangle := ua, mv_Iangle := ia, mv_Pangle := map (\<lambda>k. pangle (I ! k) (toAngle (ua ! k - ia ! k))) [0..<3]\<rparr>
         else if w = WM_3LN3CT
         then let ua = [0, U ! 0, U ! 2]
              in m\<lparr>mv_Uangle := ua, mv_Iangle := map (\<lambda>k. toAngle (ua ! k + V ! k)) [0..<3],
                   mv_Pangle := map (\<lambda>k. pangle (I ! k) (360 - V ! k)) [0..<3]\<rparr>
         else if w = WM_1LL2CT
         then let ua = [0, 0, U ! 2]
              in m\<lparr>mv_Uangle := ua, mv_Iangle := [toAngle (ua ! 0 + V ! 0), 0, toAngle (ua ! 2 + V ! 2)],
                   mv_Pangle := [pangle (I ! 0) (360 - V ! 0), 0, pangle (I ! 2) (360 - V ! 2)]\<rparr>
         else if IS_WM_1LN1CT w
         then m\<lparr>mv_Uangle := [0, U ! 0, U ! 2], mv_Iangle := map (\<lambda>k. toAngle (V ! k)) [0..<3],
                mv_Pangle := map (\<lambda>k. pangle (I ! k) (360 - V ! k)) [0..<3]\<rparr>
         else m)"

definition direct_angles :: "meas_cfg \<Rightarrow> meas \<Rightarrow> meas" where
  "direct_angles cfg m =
     m\<lparr>mv_Iangle := map (\<lambda>k. if mc_ct_dir cfg ! k \<noteq> 0 \<and> mv_I m ! k \<noteq> 0 then toAngle (mv_Iangle m ! k + 180) else mv_Iangle m ! k)
                     [0..<3]\<rparr>"

definition calcAbsAngle :: "math_env \<Rightarrow> meas_cfg \<Rightarrow> meas \<Rightarrow> meas" where
  "calcAbsAngle env cfg m = direct_angles cfg (wiring_angles env cfg m)"

text \<open>Symmetrical components: magnitude and angle of the zero, positive and negative sequence.\<close>

abbreviation (input) rad120 :: rat where "rad120 \<equiv> 2094395102 / 1000000000"
abbreviation (input) rad240 :: rat where "rad240 \<equiv> 4188790205 / 1000000000"

definition seq_of :: "math_env \<Rightarrow> rat \<Rightarrow> rat \<Rightarrow> rat list" where
  "seq_of env x y = [me_sqrt env (x * x + y * y), degrees (if x = 0 then 0 else me_atan env (y / x))]"

definition calcSeqComponent :: "math_env \<Rightarrow> rat list \<Rightarrow> rat list \<Rightarrow> rat list" where
  "calcSeqComponent env mag angle =
     (let rad = (\<lambda>i. radians (angle ! i)); px = (\<lambda>i d. mag ! i * me_cos env (d + rad i)); py = (\<lambda>i d. mag ! i * me_sin env (d + rad i));
          x = (\<lambda>i. mag ! i * me_cos env (rad i)); y = (\<lambda>i. mag ! i * me_sin env (rad i))
      in seq_of env ((x 0 + x 1 + x 2) / 3) ((y 0 + y 1 + y 2) / 3) @
         seq_of env ((x 0 + px 1 rad120 + px 2 rad240) / 3) ((y 0 + py 1 rad120 + py 2 rad240) / 3) @
         seq_of env ((x 0 + px 1 rad240 + px 2 rad120) / 3) ((y 0 + py 1 rad240 + py 2 rad120) / 3))"

definition calcUnbalance :: "rat list \<Rightarrow> rat list" where
  "calcUnbalance s =
     (if s ! 2 = 0 then [0, 0]
      else let un = s ! 4 / s ! 2; uo = s ! 0 / s ! 2
           in [if un > 1 then 100 else un * 100, if uo > 3 then 300 else uo * 100])"

definition calcDeviation :: "math_env \<Rightarrow> rat list \<Rightarrow> rat \<Rightarrow> rat list \<times> rat list \<Rightarrow> rat list \<times> rat list" where
  "calcDeviation env U nom dev =
     fold (\<lambda>i (un, ov). if U ! i < nom then (un[i := fdiv env (nom - U ! i) nom * 100], ov)
                       else if U ! i > nom then (un, ov[i := fdiv env (U ! i - nom) nom * 100])
                       else (un[i := 0], ov[i := 0])) [0, 1, 2] dev"

definition calcPhaseCurrent :: "math_env \<Rightarrow> meas \<Rightarrow> rat \<Rightarrow> rat \<Rightarrow> rat" where
  "calcPhaseCurrent env m i1 i3 =
     (let a = (if cn_Iangle m ! 0 > 180 then 360 - cn_Iangle m ! 0 else cn_Iangle m ! 0)
      in me_sqrt env (i1 * i1 + i3 * i3 + 2 * i1 * i3 * me_cos env (a * M_PI / 180)))"

text \<open>Currents of a wiring; when the second phase is computed the third still is that of the last second.\<close>

definition with_average :: "rat list \<Rightarrow> rat list" where
  "with_average xs = xs @ [average xs 3]"

definition currents :: "math_env \<Rightarrow> meas_cfg \<Rightarrow> meas \<Rightarrow> meas" where
  "currents env cfg m0 =
     (let w = mc_wiring cfg; m = m0\<lparr>mv_In := cn_In m0 * (mc_zctScale cfg / 1000), mv_Isum := cn_Is m0\<rparr>; I = cn_I m; fI = cn_fI m
      in if IS_WM_1LN1CT w
         then m\<lparr>mv_I := with_average [I ! 0, I ! 1, I ! 2], mv_fI := with_average [fI ! 0, fI ! 1, fI ! 2], mv_Isum := 0\<rparr>
         else if w = WM_1LL2CT
         then m\<lparr>mv_I := [I ! 0, 0, I ! 2, (I ! 0 + I ! 2) / 2], mv_fI := [fI ! 0, 0, fI ! 2, (fI ! 0 + fI ! 2) / 2]\<rparr>
         else let i1 = (if w = WM_3LL2CT then calcPhaseCurrent env m (I ! 0) (mv_I m ! 2) else I ! 1);
                  f1 = (if w = WM_3LL2CT then calcPhaseCurrent env m (I ! 0) (I ! 2) else fI ! 1)
              in m\<lparr>mv_I := with_average [I ! 0, i1, I ! 2], mv_fI := with_average [fI ! 0, f1, fI ! 2]\<rparr>)"

definition current_balance :: "math_env \<Rightarrow> meas_cfg \<Rightarrow> meas \<Rightarrow> meas" where
  "current_balance env cfg m0 =
     (let w = mc_wiring cfg; m = m0\<lparr>mv_Itot := summation (mv_I m0) 3\<rparr>
      in if IS_WM_1LN1CT w then m\<lparr>mv_Ibal := [0, 0]\<rparr>
         else if w = WM_1LL2CT
         then let b = fdiv env \<bar>mv_I m ! 3 - cn_I m ! 0\<bar> (mv_I m ! 3) * 100 in m\<lparr>mv_Ibal := [b, b]\<rparr>
         else let s = calcSeqComponent env (mv_I m) (mv_Iangle m) in m\<lparr>mv_Izs := s, mv_Ibal := calcUnbalance s\<rparr>)"

definition voltages :: "meas_cfg \<Rightarrow> meas \<Rightarrow> meas" where
  "voltages cfg m =
     (let w = mc_wiring cfg; U = cn_U m; fU = cn_fU m
      in if w = WM_3LL3CT \<or> w = WM_3LL2CT
         then m\<lparr>mv_U := with_average [U ! 0, U ! 2, U ! 1], mv_fU := with_average [fU ! 0, fU ! 2, fU ! 1]\<rparr>
         else if w = WM_1LL2CT
         then m\<lparr>mv_U := [U ! 0, 0, U ! 2, (U ! 0 + U ! 2) / 2], mv_fU := [fU ! 0, 0, fU ! 2, (fU ! 0 + fU ! 2) / 2]\<rparr>
         else m\<lparr>mv_U := with_average [U ! 0, U ! 1, U ! 2], mv_fU := with_average [fU ! 0, fU ! 1, fU ! 2]\<rparr>)"

definition voltage_balance :: "math_env \<Rightarrow> meas_cfg \<Rightarrow> meas \<Rightarrow> meas" where
  "voltage_balance env cfg m =
     (let w = mc_wiring cfg
      in if IS_WM_1LN1CT w then m\<lparr>mv_Ubal := [0, 0]\<rparr>
         else if w = WM_1LL2CT
         then let b = fdiv env \<bar>mv_U m ! 3 - mv_U m ! 0\<bar> (mv_U m ! 3) * 100 in m\<lparr>mv_Ubal := [b, b]\<rparr>
         else let s = calcSeqComponent env (mv_U m) (mv_Uangle m) in m\<lparr>mv_Uzs := s, mv_Ubal := calcUnbalance s\<rparr>)"

definition calcLineVolt :: "math_env \<Rightarrow> meas \<Rightarrow> nat \<Rightarrow> rat" where
  "calcLineVolt env m ph =
     (let v1 = (if ph = 0 then mv_U m ! 0 else if ph = 1 then mv_U m ! 1 else mv_U m ! 2);
          v2 = (if ph = 0 then mv_U m ! 1 else if ph = 1 then mv_U m ! 2 else mv_U m ! 0);
          angle = safe_fmod (cn_Uangle m ! (if ph = 1 then 0 else 1) + 180) 360;
          r = me_sqrt env (v1 * v1 + v2 * v2 + 2 * v1 * v2 * me_cos env (radians angle))
      in if r < 10 then 0 else r)"

definition line_voltages :: "math_env \<Rightarrow> meas_cfg \<Rightarrow> meas \<Rightarrow> meas" where
  "line_voltages env cfg m =
     (let w = mc_wiring cfg; U = mv_U m
      in if w = WM_3LN3CT
         then m\<lparr>mv_Upp := with_average (map (calcLineVolt env m) [0, 1, 2]), mv_Ig := mv_Isum m\<rparr>
         else if w = WM_3LL3CT \<or> w = WM_3LL2CT
         then m\<lparr>mv_Upp := with_average [U ! 0, U ! 1, U ! 2], mv_Ig := (if mv_In m > 2 then 2 else mv_In m)\<rparr>
         else if w = WM_1LL2CT
         then m\<lparr>mv_Upp := [U ! 0, U ! 2, U ! 0 + U ! 2, (U ! 0 + U ! 2) / 2], mv_Ig := mv_In m\<rparr>
         else if IS_WM_1LN1CT w then m\<lparr>mv_Upp := [U ! 0, 0, 0, U ! 0], mv_Ig := mv_In m\<rparr>
         else m)"

text \<open>
  \<open>calcRmsAngle\<close>; the result of the first call is thrown away. What follows in the code, the
  extremes and the quality statistics, is in the theories \<open>MaxMin\<close> and \<open>Quality\<close>.
\<close>

definition calcRmsAngle :: "math_env \<Rightarrow> meas_cfg \<Rightarrow> rat \<Rightarrow> chip \<times> meas \<Rightarrow> chip \<times> meas" where
  "calcRmsAngle env cfg rms0 st =
     (let c = fst st; m = snd st; r = ch_sr c ! ch_re c; c1 = c\<lparr>ch_re := 1 - ch_re c\<rparr>
      in if cn_rmsInit m
         then let m1 = calcAbsAngle env cfg (angles env cfg r (neutral cfg rms0 r (scaleRms cfg r m)));
                  m2 = line_voltages env cfg (voltage_balance env cfg (voltages cfg (current_balance env cfg (currents env cfg m1))));
                  (un, ov) = calcDeviation env (mv_U m2) (mc_vnorm cfg) (mv_UUndev m2, mv_UOvdev m2)
              in (c1, m2\<lparr>mv_UUndev := un, mv_UOvdev := ov\<rparr>)
         else (c1, m\<lparr>cn_rmsInit := True\<rparr>))"

subsection \<open>Powers\<close>

record power =
  pw_P :: "rat list"
  pw_Q :: "rat list"
  pw_S :: "rat list"
  pw_fP :: "rat list"
  pw_fQ :: "rat list"
  pw_fS :: "rat list"
  pw_PF :: "rat list"
  pw_dPF :: "rat list"
  pw_D :: "rat list"

definition scalePowerAcc :: "meas_cfg \<Rightarrow> int \<Rightarrow> rat" where
  "scalePowerAcc cfg raw = of_int raw * mc_wscale cfg / 20694066"

definition calcPF :: "rat list \<Rightarrow> rat list \<Rightarrow> rat list \<Rightarrow> u16 \<Rightarrow> rat list" where
  "calcPF P Q S mode =
     map (\<lambda>i. let pf0 = (if P ! i = 0 \<or> S ! i = 0 then 0 else \<bar>P ! i / S ! i * 100\<bar>); pf = (if pf0 > 100 then 100 else pf0)
              in if mode = 0 then (if P ! i \<ge> 0 then pf else - pf) else (if P ! i * Q ! i \<ge> 0 then - pf else pf)) [0..<4]"

definition calcD :: "math_env \<Rightarrow> rat list \<Rightarrow> rat list \<Rightarrow> rat list \<Rightarrow> rat list" where
  "calcD env P fQ S =
     map (\<lambda>i. let sq = S ! i * S ! i - P ! i * P ! i - fQ ! i * fQ ! i in if sq \<ge> 0 then me_sqrt env sq else 0) [0..<4]"

text \<open>One phase of an active or reactive power, and of an apparent power.\<close>

definition phase_power :: "meas_cfg \<Rightarrow> meas \<Rightarrow> int list \<Rightarrow> nat \<Rightarrow> rat" where
  "phase_power cfg m raw i =
     (let v = (if cn_I m ! i = 0 then 0 else scalePowerAcc cfg (raw ! i)); w = mc_wiring cfg
      in if (w = WM_3LL3CT \<or> w = WM_3LL2CT \<or> w = WM_1LL2CT) \<and> i = 1 then 0 else v)"

definition directed :: "meas_cfg \<Rightarrow> nat \<Rightarrow> rat \<Rightarrow> rat" where
  "directed cfg i v = (if mc_ct_dir cfg ! i \<noteq> 0 then - v else v)"

definition phase_va :: "math_env \<Rightarrow> meas_cfg \<Rightarrow> rat \<Rightarrow> rat \<Rightarrow> rat \<Rightarrow> rat" where
  "phase_va env cfg p q s =
     (let v = (if mc_VA_type cfg = 0 then s else me_sqrt env (p * p + q * q))
      in if mc_wiring cfg = WM_3LL3CT \<or> mc_wiring cfg = WM_3LL2CT then v * me_sqrt env 3 / 2 else v)"

definition with_total :: "(nat \<Rightarrow> rat) \<Rightarrow> rat list" where
  "with_total f = map f [0..<3] @ [summation (map f [0..<3]) 3]"

definition calcPower :: "math_env \<Rightarrow> meas_cfg \<Rightarrow> chip \<Rightarrow> meas \<Rightarrow> power" where
  "calcPower env cfg c m =
     (let p = (\<lambda>i. directed cfg i (phase_power cfg m (ch_watt c) i)); q = (\<lambda>i. directed cfg i (phase_power cfg m (ch_var c) i));
          fp = (\<lambda>i. directed cfg i (phase_power cfg m (ch_fwatt c) i)); fq = (\<lambda>i. directed cfg i (phase_power cfg m (ch_fvar c) i));
          sa = (\<lambda>i. phase_va env cfg (p i) (q i) (phase_power cfg m (ch_va c) i));
          fs = (\<lambda>i. phase_va env cfg (fp i) (fq i) (phase_power cfg m (ch_fva c) i));
          P = with_total p; Q = with_total q; S = with_total sa; fP = with_total fp; fQ = with_total fq; fS = with_total fs
      in \<lparr>pw_P = P, pw_Q = Q, pw_S = S, pw_fP = fP, pw_fQ = fQ, pw_fS = fS, pw_PF = calcPF P Q S (mc_PF_sign cfg),
          pw_dPF = calcPF fP fQ fS (mc_PF_sign cfg), pw_D = calcD env P fQ S\<rparr>)"

definition calcTHD :: "math_env \<Rightarrow> meas_cfg \<Rightarrow> rat list \<Rightarrow> rat list \<times> rat list \<Rightarrow> rat list \<times> rat list" where
  "calcTHD env cfg I thd =
     (let phase = (\<lambda>i. if I ! i \<ge> mc_I_start cfg
                    then let nh = fst thd ! i / 100; nt = me_sqrt env (1 + nh * nh); ih = fdiv env (nh * I ! i) nt
                         in (fst thd ! i, fdiv env ih (mc_In_A cfg) * 100)
                    else (0, 0))
      in (map (\<lambda>i. fst (phase i)) [0..<3], map (\<lambda>i. snd (phase i)) [0..<3]))"

section \<open>Properties\<close>

lemma calcPF_nth:
  assumes "i < 4"
  shows "\<bar>calcPF P Q S mode ! i\<bar> \<le> 100 \<and> (P ! i = 0 \<longrightarrow> calcPF P Q S mode ! i = 0) \<and>
    (mode = 0 \<longrightarrow> 0 \<le> calcPF P Q S mode ! i * P ! i) \<and> (mode \<noteq> 0 \<longrightarrow> calcPF P Q S mode ! i * (P ! i * Q ! i) \<le> 0)"
proof -
  let ?pf0 = "if P ! i = 0 \<or> S ! i = 0 then 0 else \<bar>P ! i / S ! i * 100\<bar>"
  let ?pf = "if ?pf0 > 100 then 100 else ?pf0"
  have pf: "0 \<le> ?pf" "?pf \<le> 100" "P ! i = 0 \<Longrightarrow> ?pf = 0" by auto
  have eq: "calcPF P Q S mode ! i = (if mode = 0 then (if P ! i \<ge> 0 then ?pf else - ?pf) else (if P ! i * Q ! i \<ge> 0 then - ?pf else ?pf))"
    using assms by (simp add: calcPF_def Let_def)
  show ?thesis
    unfolding eq using pf
    by (auto simp: zero_le_mult_iff mult_le_0_iff)
qed

text \<open>Power factors lie between -100 and 100 whatever the chip reports, are zero without active power,
  and carry the sign of the convention that is set: of the active power, or minus that of
  active times reactive power; the total powers are the sums of the phases, and a reversed
  transformer changes the sign of the phase's active and reactive power only.\<close>

theorem power_factor_in_range:
  assumes "i < 4" "w = calcPower env cfg c m"
  shows "\<bar>pw_PF w ! i\<bar> \<le> 100 \<and> (pw_P w ! i = 0 \<longrightarrow> pw_PF w ! i = 0) \<and>
    (mc_PF_sign cfg = 0 \<longrightarrow> 0 \<le> pw_PF w ! i * pw_P w ! i) \<and> (mc_PF_sign cfg \<noteq> 0 \<longrightarrow> pw_PF w ! i * (pw_P w ! i * pw_Q w ! i) \<le> 0) \<and>
    pw_P w ! 3 = pw_P w ! 0 + pw_P w ! 1 + pw_P w ! 2 \<and> pw_S w ! 3 = pw_S w ! 0 + pw_S w ! 1 + pw_S w ! 2 \<and>
    (i < 3 \<longrightarrow> pw_P w ! i = (if mc_ct_dir cfg ! i \<noteq> 0 then - phase_power cfg m (ch_watt c) i else phase_power cfg m (ch_watt c) i))"
proof -
  have pf: "pw_PF w = calcPF (pw_P w) (pw_Q w) (pw_S w) (mc_PF_sign cfg)" by (simp add: assms(2) calcPower_def Let_def)
  have tot: "with_total f ! 3 = with_total f ! 0 + with_total f ! 1 + with_total f ! 2" for f
    by (simp add: with_total_def summation_def numeral_3_eq_3 numeral_2_eq_2)
  have at: "i < 3 \<Longrightarrow> with_total f ! i = f i" for f
    by (simp add: with_total_def nth_append)
  have P: "pw_P w = with_total (\<lambda>i. directed cfg i (phase_power cfg m (ch_watt c) i))"
    by (simp add: assms(2) calcPower_def Let_def)
  have S: "\<exists>f. pw_S w = with_total f" by (simp add: assms(2) calcPower_def Let_def, blast)
  show ?thesis
    using calcPF_nth [OF assms(1), of "pw_P w" "pw_Q w" "pw_S w" "mc_PF_sign cfg"] tot at S unfolding pf
    by (auto simp: P directed_def)
qed

definition demo_math :: math_env where
  "demo_math = \<lparr>me_cos = (\<lambda>_. 1), me_sin = (\<lambda>_. 0), me_sqrt = id, me_acos = (\<lambda>_. 0), me_atan = (\<lambda>_. 0), me_atan2 = (\<lambda>_ _. 0), me_nonfin = 0\<rparr>"

definition demo_cfg :: meas_cfg where
  "demo_cfg = \<lparr>mc_wiring = 1, mc_vnorm = 220, mc_ct_dir = [0, 1, 0], mc_VA_type = 0, mc_PF_sign = 0, mc_zctScale = 1000, mc_vscale = 1 / 10000,
     mc_iscale = 1 / 1000, mc_igscale = 1 / 1000, mc_wscale = 20694066, mc_inoload = 100, mc_I_start = 1, mc_In_A = 50, mc_Slope = 0,
     mc_InOfs = 0, mc_InOfsI = 0, mc_sumMax = 5\<rparr>"

definition demo_meas :: meas where
  "demo_meas = \<lparr>cn_U = [0, 0, 0], cn_fU = [0, 0, 0], cn_U1012 = [0, 0, 0], cn_I = [1, 1, 1], cn_fI = [0, 0, 0], cn_Isum = 0, cn_In = 0, cn_In1 = 0,
     cn_Is = 0, cn_Uangle = [0, 0, 0], cn_UIangle = [0, 0, 0], cn_Iangle = [0, 0, 0], cn_rmsInit = True, mv_Freq = 60, mv_U = [0, 0, 0, 0],
     mv_fU = [0, 0, 0, 0], mv_Upp = [0, 0, 0, 0], mv_I = [0, 0, 0, 0], mv_fI = [0, 0, 0, 0], mv_Itot = 0, mv_In = 0, mv_Isum = 0, mv_Ig = 0,
     mv_Uangle = [0, 0, 0], mv_Iangle = [0, 0, 0], mv_Pangle = [0, 0, 0], mv_Ubal = [0, 0], mv_Ibal = [0, 0], mv_Uzs = [], mv_Izs = [],
     mv_UUndev = [0, 0, 0], mv_UOvdev = [0, 0, 0]\<rparr>"

definition demo_regs :: meter_regs where
  "demo_regs = \<lparr>rg_ix = 0, rg_urms = replicate 3 (replicate 6 0), rg_irms = replicate 3 (replicate 6 0), rg_tail = replicate 30 0,
     rg_furms = replicate 3 (replicate 6 0), rg_firms = replicate 3 (replicate 6 0), rg_UIangle = replicate 3 (replicate 6 0),
     rg_Uangle = replicate 3 (replicate 6 0), rg_Iangle = replicate 3 (replicate 6 0)\<rparr>"

definition demo_chip :: chip where
  "demo_chip = \<lparr>ch_fr = 0, ch_re = 0, ch_sr = [demo_regs, demo_regs], ch_rmsCalcF = False, ch_watt = [300, 200, 100], ch_var = [0, 10, 20],
     ch_va = [400, 200, 100], ch_fwatt = [0, 0, 0], ch_fvar = [0, 0, 0], ch_fva = [0, 0, 0]\<rparr>"

theorem power_factor_in_range_witness:
  "pw_P (calcPower demo_math demo_cfg demo_chip demo_meas) ! 1 = - 200 \<and> \<bar>pw_PF (calcPower demo_math demo_cfg demo_chip demo_meas) ! 1\<bar> \<le> 100"
  using power_factor_in_range [of 1 "calcPower demo_math demo_cfg demo_chip demo_meas" demo_math demo_cfg demo_chip demo_meas, OF _ refl]
  by (simp add: phase_power_def demo_cfg_def demo_meas_def demo_chip_def scalePowerAcc_def)

subsection \<open>Angles\<close>

definition angle_ok :: "rat \<Rightarrow> bool" where
  "angle_ok a \<longleftrightarrow> 0 \<le> a \<and> a \<le> 360"

lemma degrees_range: "\<bar>r\<bar> \<le> M_PI \<Longrightarrow> angle_ok (degrees r)"
  by (auto simp: degrees_def angle_ok_def Let_def field_simps)

lemma getAngle_ok: "(\<And>y x. \<bar>me_atan2 env y x\<bar> \<le> M_PI) \<Longrightarrow> angle_ok (getAngle env cfg f xs)"
  using degrees_range [of "me_atan2 env y x" for y x] by (simp add: getAngle_def Let_def angle_ok_def)

lemma toAngle_ok: "- 360 \<le> v \<Longrightarrow> v \<le> 720 \<Longrightarrow> angle_ok (toAngle v)"
  by (auto simp: toAngle_def angle_ok_def)

lemma toAngle_sum: "angle_ok a \<Longrightarrow> angle_ok b \<Longrightarrow> angle_ok (toAngle (a + b))"
  by (rule toAngle_ok) (auto simp: angle_ok_def)

lemma toAngle_diff: "angle_ok a \<Longrightarrow> angle_ok b \<Longrightarrow> angle_ok (toAngle (a - b))"
  by (rule toAngle_ok) (auto simp: angle_ok_def)

lemma toAngle_half: "angle_ok a \<Longrightarrow> angle_ok (toAngle (a + 180))"
  by (rule toAngle_ok) (auto simp: angle_ok_def)

lemma angle_ok_consts [simp]: "angle_ok 0" by (simp add: angle_ok_def)

lemma pangle_ok: "angle_ok a \<Longrightarrow> angle_ok (pangle i a)" "angle_ok a \<Longrightarrow> angle_ok (pangle i (360 - a))"
  by (auto simp: pangle_def angle_ok_def)

lemma toAngle_minus: "angle_ok a \<Longrightarrow> angle_ok (toAngle (- a))"
  by (rule toAngle_ok) (auto simp: angle_ok_def)

lemmas angle_rules = toAngle_minus toAngle_sum toAngle_diff toAngle_half pangle_ok angle_ok_consts

definition angles_ok :: "rat list \<Rightarrow> bool" where
  "angles_ok xs \<longleftrightarrow> length xs = 3 \<and> list_all angle_ok xs"

lemma angles_ok_nth: "angles_ok xs \<Longrightarrow> k < 3 \<Longrightarrow> angle_ok (xs ! k)"
  by (auto simp: angles_ok_def list_all_length)

lemma angles_ok_3: "angles_ok [a, b, c] \<longleftrightarrow> angle_ok a \<and> angle_ok b \<and> angle_ok c"
  by (simp add: angles_ok_def)

lemma angles_ok_map: "angles_ok (map f [0..<3]) \<longleftrightarrow> angle_ok (f 0) \<and> angle_ok (f 1) \<and> angle_ok (f 2)"
  by (simp add: angles_ok_def upt_conv_Cons numeral_2_eq_2)

definition views_ok :: "meas \<Rightarrow> bool" where
  "views_ok m \<longleftrightarrow> angles_ok (mv_Uangle m) \<and> angles_ok (mv_Iangle m) \<and> angles_ok (mv_Pangle m)"

lemma direct_angles_ok: "views_ok m \<Longrightarrow> views_ok (direct_angles cfg m)"
  by (auto simp: views_ok_def direct_angles_def angles_ok_map angles_ok_nth intro!: toAngle_half)

lemma toAngle_id: "angle_ok a \<Longrightarrow> angle_ok (toAngle a)"
  by (auto simp: angle_ok_def toAngle_def)

lemma wiring_angles_ok:
  assumes "angles_ok (cn_Uangle m)" "angles_ok (cn_UIangle m)" "angles_ok (cn_Iangle m)"
    and "mc_wiring cfg = 1 \<or> mc_wiring cfg = 2 \<or> mc_wiring cfg = 3 \<or> mc_wiring cfg = 7 \<or> IS_WM_1LN1CT (mc_wiring cfg)"
  shows "views_ok (wiring_angles env cfg m)"
proof -
  have n: "angle_ok (cn_Uangle m ! 0)" "angle_ok (cn_Uangle m ! 2)" "angle_ok (cn_UIangle m ! 0)" "angle_ok (cn_UIangle m ! 1)"
    "angle_ok (cn_UIangle m ! 2)" "angle_ok (cn_Iangle m ! 0)" "angle_ok (cn_Iangle m ! 2)"
    using assms(1-3) by (simp_all add: angles_ok_nth)
  note n = n n(4) [unfolded One_nat_def]
  consider "mc_wiring cfg = 1" | "mc_wiring cfg = 2" | "mc_wiring cfg = 3" | "mc_wiring cfg = 7"
    | "mc_wiring cfg \<noteq> 1" "mc_wiring cfg \<noteq> 2" "mc_wiring cfg \<noteq> 3" "mc_wiring cfg \<noteq> 7" "IS_WM_1LN1CT (mc_wiring cfg)"
    using assms(4) by blast
  then show ?thesis
  proof cases
    case 1
    then show ?thesis by (simp add: wiring_angles_def Let_def views_ok_def angles_ok_map angles_ok_3 n angle_rules toAngle_id)
  next
    case 2
    then show ?thesis by (simp add: wiring_angles_def Let_def views_ok_def angles_ok_map angles_ok_3 n angle_rules toAngle_id)
  next
    case 3
    then show ?thesis by (simp add: wiring_angles_def Let_def views_ok_def angles_ok_map angles_ok_3 n angle_rules toAngle_id)
  next
    case 4
    then show ?thesis by (simp add: wiring_angles_def Let_def views_ok_def angles_ok_3 n angle_rules toAngle_id)
  next
    case 5
    then show ?thesis by (simp add: wiring_angles_def Let_def views_ok_def angles_ok_map angles_ok_3 n angle_rules toAngle_id)
  qed
qed

lemma angles_raw_ok:
  "(\<And>y x. \<bar>me_atan2 env y x\<bar> \<le> M_PI) \<Longrightarrow> angles_ok (cn_Uangle (angles env cfg r m)) \<and>
    angles_ok (cn_UIangle (angles env cfg r m)) \<and> angles_ok (cn_Iangle (angles env cfg r m))"
  by (simp add: angles_def Let_def angles_ok_map getAngle_ok)

text \<open>The later steps leave the angles and the phase values alone.\<close>

lemma later_steps:
  "mv_Uangle (currents env cfg m) = mv_Uangle m" "mv_Iangle (currents env cfg m) = mv_Iangle m" "mv_Pangle (currents env cfg m) = mv_Pangle m"
  "mv_Uangle (current_balance env cfg m) = mv_Uangle m" "mv_Iangle (current_balance env cfg m) = mv_Iangle m"
  "mv_Pangle (current_balance env cfg m) = mv_Pangle m" "mv_I (current_balance env cfg m) = mv_I m"
  "mv_Uangle (voltages cfg m) = mv_Uangle m" "mv_Iangle (voltages cfg m) = mv_Iangle m" "mv_Pangle (voltages cfg m) = mv_Pangle m"
  "mv_I (voltages cfg m) = mv_I m"
  "mv_Uangle (voltage_balance env cfg m) = mv_Uangle m" "mv_Iangle (voltage_balance env cfg m) = mv_Iangle m"
  "mv_Pangle (voltage_balance env cfg m) = mv_Pangle m" "mv_I (voltage_balance env cfg m) = mv_I m" "mv_U (voltage_balance env cfg m) = mv_U m"
  "mv_Uangle (line_voltages env cfg m) = mv_Uangle m" "mv_Iangle (line_voltages env cfg m) = mv_Iangle m"
  "mv_Pangle (line_voltages env cfg m) = mv_Pangle m" "mv_I (line_voltages env cfg m) = mv_I m" "mv_U (line_voltages env cfg m) = mv_U m"
  "cn_U (current_balance env cfg m) = cn_U m" "cn_U (currents env cfg m) = cn_U m"
  by (simp_all add: currents_def current_balance_def voltages_def voltage_balance_def line_voltages_def Let_def)

text \<open>C20. Angles are angles: for every wiring that is in use, whatever the chip registers hold, the voltage,
  current and power angles a master reads after a second's calculation lie between 0 and 360
  degrees, the reversal of transformers included.\<close>

theorem angles_in_range:
  assumes "\<And>y x. \<bar>me_atan2 env y x\<bar> \<le> M_PI" "cn_rmsInit m" "IS_WM_1LN1CT w \<or> w = 1 \<or> w = 2 \<or> w = 3 \<or> w = 7" "w = mc_wiring cfg"
    and "calcRmsAngle env cfg rms0 (c, m) = (c', m')" "k < 3"
  shows "0 \<le> mv_Uangle m' ! k \<and> mv_Uangle m' ! k \<le> 360 \<and> 0 \<le> mv_Iangle m' ! k \<and> mv_Iangle m' ! k \<le> 360 \<and>
    0 \<le> mv_Pangle m' ! k \<and> mv_Pangle m' ! k \<le> 360"
proof -
  let ?r = "ch_sr c ! ch_re c"
  let ?a = "calcAbsAngle env cfg (angles env cfg ?r (neutral cfg rms0 ?r (scaleRms cfg ?r m)))"
  have "views_ok ?a"
    unfolding calcAbsAngle_def
    using angles_raw_ok [OF assms(1), of cfg ?r "neutral cfg rms0 ?r (scaleRms cfg ?r m)"] assms(3,4)
    by (intro direct_angles_ok wiring_angles_ok) auto
  moreover have "mv_Uangle m' = mv_Uangle ?a \<and> mv_Iangle m' = mv_Iangle ?a \<and> mv_Pangle m' = mv_Pangle ?a"
    using assms(2,5) by (auto simp: calcRmsAngle_def Let_def later_steps split: prod.splits)
  ultimately show ?thesis
    using assms(6) angles_ok_nth unfolding views_ok_def angle_ok_def by metis
qed

theorem angles_in_range_witness:
  "\<exists>c' m'. calcRmsAngle demo_math demo_cfg 1 (demo_chip, demo_meas) = (c', m') \<and> 0 \<le> mv_Iangle m' ! 1 \<and> mv_Iangle m' ! 1 \<le> 360"
proof -
  obtain c' m' where r: "calcRmsAngle demo_math demo_cfg 1 (demo_chip, demo_meas) = (c', m')" by (rule prod.exhaust)
  have "0 \<le> mv_Uangle m' ! 1 \<and> mv_Uangle m' ! 1 \<le> 360 \<and> 0 \<le> mv_Iangle m' ! 1 \<and> mv_Iangle m' ! 1 \<le> 360 \<and>
    0 \<le> mv_Pangle m' ! 1 \<and> mv_Pangle m' ! 1 \<le> 360"
    by (rule angles_in_range [OF _ _ _ refl r]) (simp_all add: demo_math_def demo_meas_def demo_cfg_def)
  then show ?thesis using r by (intro exI [of _ c'] exI [of _ m']) simp
qed

subsection \<open>Voltages and currents\<close>

lemma calc_from_buffer:
  assumes "cn_rmsInit m" "mc_wiring cfg = 1" "calcRmsAngle env cfg rms0 (c, m) = (c', m')" "k < 3"
  shows "mv_U m' ! k = cut_scale PICKUP_VOLT_RAW (mc_vscale cfg) (rg_urms (ch_sr c ! ch_re c) ! k) \<and>
    mv_I m' ! k = cut_scale (mc_inoload cfg) (mc_iscale cfg) (rg_irms (ch_sr c ! ch_re c) ! k) \<and>
    mv_U m' ! 3 = (mv_U m' ! 0 + mv_U m' ! 1 + mv_U m' ! 2) / 3 \<and> mv_I m' ! 3 = (mv_I m' ! 0 + mv_I m' ! 1 + mv_I m' ! 2) / 3 \<and>
    ch_re c' = 1 - ch_re c"
proof -
  let ?r = "ch_sr c ! ch_re c"
  let ?a = "calcAbsAngle env cfg (angles env cfg ?r (neutral cfg rms0 ?r (scaleRms cfg ?r m)))"
  have cn: "cn_U ?a = cn_U (scaleRms cfg ?r m)" "cn_I ?a = cn_I (scaleRms cfg ?r m)"
    by (simp_all add: calcAbsAngle_def direct_angles_def wiring_angles_def angles_def neutral_def Let_def)
  have U: "mv_U m' = with_average [cn_U ?a ! 0, cn_U ?a ! 1, cn_U ?a ! 2]"
    using assms(1-3) by (auto simp: calcRmsAngle_def Let_def later_steps voltages_def IS_WM_1LN1CT_def split: prod.splits)
  have I: "mv_I m' = with_average [cn_I ?a ! 0, cn_I ?a ! 1, cn_I ?a ! 2]"
    using assms(1-3) by (auto simp: calcRmsAngle_def Let_def later_steps currents_def IS_WM_1LN1CT_def split: prod.splits)
  have re: "ch_re c' = 1 - ch_re c"
    using assms(1,3) by (auto simp: calcRmsAngle_def Let_def split: prod.splits)
  have k: "k = 0 \<or> k = 1 \<or> k = 2" using assms(4) by linarith
  have wa: "with_average [x, y, z] ! 0 = x" "with_average [x, y, z] ! 1 = y" "with_average [x, y, z] ! 2 = z"
    "with_average [x, y, z] ! 3 = (x + y + z) / 3" for x y z
    by (simp_all add: with_average_def average_def numeral_3_eq_3 numeral_2_eq_2)
  show ?thesis
    using k unfolding U I cn wa re
    by (elim disjE; simp only: wa; simp add: scaleRms_def Let_def upt_conv_Cons numeral_2_eq_2)
qed

text \<open>The buffer after some of the five readings of a second.\<close>

definition holds_reads :: "nat \<Rightarrow> ((nat \<Rightarrow> u32) \<times> (nat \<Rightarrow> u16)) list \<Rightarrow> chip \<Rightarrow> bool" where
  "holds_reads b rs c \<longleftrightarrow> b < 2 \<and> length (ch_sr c) = 2 \<and> ch_re c = b \<and>
     (\<forall>k < 3. length (rg_urms (ch_sr c ! b) ! k) = 6 \<and> length (rg_irms (ch_sr c ! b) ! k) = 6 \<and>
        take (length rs) (rg_urms (ch_sr c ! b) ! k) = map (\<lambda>r. fst r (0x20d + 0x20 * k)) rs \<and>
        take (length rs) (rg_irms (ch_sr c ! b) ! k) = map (\<lambda>r. fst r (0x20c + 0x20 * k)) rs)"

lemma holds_reads_step:
  assumes "holds_reads b rs c" "ch_fr c = b" "rg_ix (ch_sr c ! b) = length rs" "length rs < 5" "c' = readRmsAngle f g c"
  shows "holds_reads b (rs @ [(f, g)]) c' \<and> (length rs < 4 \<longrightarrow> ch_fr c' = b \<and> rg_ix (ch_sr c' ! b) = length rs + 1)"
proof -
  let ?n = "length rs" and ?r = "read_regs f g (ch_sr c ! b)"
  have row: "take (?n + 1) (xs[?n := x]) = take ?n xs @ [x]" if "length xs = 6" for xs and x :: u32
    using assms(4) that by (simp add: take_Suc_conv_app_nth [of ?n] take_update_cancel)
  have at: "rg_urms ?r ! k = (rg_urms (ch_sr c ! b) ! k)[?n := f (0x20d + 0x20 * k)]"
    "rg_irms ?r ! k = (rg_irms (ch_sr c ! b) ! k)[?n := f (0x20c + 0x20 * k)]" if "k < 3" for k
    using that by (simp_all add: read_regs_def put_row_def assms(3) Let_def del: upt_Suc)
  have ix: "rg_ix ?r = ?n" by (simp add: read_regs_def assms(3) Let_def)
  have sr: "rg_urms (ch_sr c' ! b) = rg_urms ?r" "rg_irms (ch_sr c' ! b) = rg_irms ?r" "length (ch_sr c') = 2" "ch_re c' = b"
    "?n < 4 \<Longrightarrow> ch_fr c' = b" "?n < 4 \<Longrightarrow> rg_ix (ch_sr c' ! b) = ?n + 1"
    using assms(1,2) ix by (simp_all add: assms(5) readRmsAngle_def Let_def holds_reads_def)
  show ?thesis using assms(1) sr row at by (simp add: holds_reads_def)
qed

lemma holds_reads_run:
  assumes "holds_reads b [] c" "ch_fr c = b" "rg_ix (ch_sr c ! b) = 0" "length rs \<le> 5"
  shows "holds_reads b rs (fold (\<lambda>(f, g). readRmsAngle f g) rs c) \<and>
    (length rs < 5 \<longrightarrow> ch_fr (fold (\<lambda>(f, g). readRmsAngle f g) rs c) = b \<and>
       rg_ix (ch_sr (fold (\<lambda>(f, g). readRmsAngle f g) rs c) ! b) = length rs)"
  using assms(4)
proof (induction rs rule: rev_induct)
  case Nil
  then show ?case using assms by simp
next
  case (snoc fg rs)
  obtain f g where fg: "fg = (f, g)" by (rule prod.exhaust)
  then show ?case
    using snoc holds_reads_step [of b rs "fold (\<lambda>(f, g). readRmsAngle f g) rs c" _ f g, OF _ _ _ _ refl] by auto
qed

lemma mean5_of_small:
  assumes "take 5 xs = map h rs" "length rs = 5" "\<forall>r \<in> set rs. unat (h r) < 2 ^ 28"
  shows "mean5 xs = int ((\<Sum>r\<leftarrow>rs. unat (h r)) div 5)"
proof -
  have sum_le: "(\<Sum>r\<leftarrow>rs. unat (h r)) \<le> length rs * (2 ^ 28 - 1)" using assms(3) by (induction rs) force+
  have w: "sum_list (map h rs) = of_nat (\<Sum>r\<leftarrow>rs. unat (h r))" by (induction rs) simp_all
  have "sint (sum_list (map h rs)) = int (\<Sum>r\<leftarrow>rs. unat (h r))"
    unfolding w using sum_le assms(2) by (simp add: signed_of_nat signed_take_bit_int_eq_self)
  moreover have "c_quot (int n) 5 = int (n div 5)" for n by (cases "n = 0") (simp_all add: c_quot_def zdiv_int)
  ultimately show ?thesis unfolding mean5_def assms(1) by (simp only:)
qed

text \<open>C19. Measured voltages and currents are the means of the five readings of the last second. In a
  four-wire connection, after five readings of the chip, whatever its registers hold each time
  as long as they are below 2 to the 28 (full scale is below 2 to the 26, and the sum of five
  must fit a signed word), into the buffer that is collected and is calculated next: the voltage of phase k
  is the mean of the five values of the register 0x20d + 0x20 k, the current that of 0x20c + 0x20 k,
  rounded down, times the scale of voltage or current, or zero when the mean lies below the pick-up voltage or the
  no-load current; the fourth value is the average of the three, and the other buffer is
  calculated next.\<close>

theorem measured_values_are_scaled_means:
  assumes "length readings = 5" "\<forall>(reg32, reg16) \<in> set readings. \<forall>a. unat (reg32 a) < 2 ^ 28"
    and "b < 2" "ch_fr c = b" "ch_re c = b" "length (ch_sr c) = 2" "rg_ix (ch_sr c ! b) = 0"
    and "\<forall>k < 3. length (rg_urms (ch_sr c ! b) ! k) = 6 \<and> length (rg_irms (ch_sr c ! b) ! k) = 6"
    and "cn_rmsInit m" "mc_wiring cfg = 1" "k < 3"
    and "calcRmsAngle env cfg rms0 (fold (\<lambda>(reg32, reg16). readRmsAngle reg32 reg16) readings c, m) = (c', m')"
    and "mean = (\<lambda>a. of_nat ((\<Sum>(reg32, reg16)\<leftarrow>readings. unat (reg32 a)) div 5) :: rat)"
  shows "mv_U m' ! k = (if mean (0x20d + 0x20 * k) < 52702092 * 10 / (169776 / 100) * 2 then 0
                        else mean (0x20d + 0x20 * k) * mc_vscale cfg) \<and>
    mv_I m' ! k = (if mean (0x20c + 0x20 * k) < mc_inoload cfg then 0 else mean (0x20c + 0x20 * k) * mc_iscale cfg) \<and>
    mv_U m' ! 3 = (mv_U m' ! 0 + mv_U m' ! 1 + mv_U m' ! 2) / 3 \<and> mv_I m' ! 3 = (mv_I m' ! 0 + mv_I m' ! 1 + mv_I m' ! 2) / 3 \<and>
    ch_re c' = 1 - b"
proof -
  let ?c = "fold (\<lambda>(f, g). readRmsAngle f g) readings c"
  have "holds_reads b [] c" using assms(3,5,6,8) by (simp add: holds_reads_def)
  then have h: "holds_reads b readings ?c" using holds_reads_run [OF _ assms(4,7)] assms(1) by simp
  have re: "ch_re ?c = b" using h by (simp add: holds_reads_def)
  have t: "take 5 (rg_urms (ch_sr ?c ! b) ! k) = map (\<lambda>r. fst r (0x20d + 0x20 * k)) readings"
    "take 5 (rg_irms (ch_sr ?c ! b) ! k) = map (\<lambda>r. fst r (0x20c + 0x20 * k)) readings"
    using h assms(1,11) by (simp_all add: holds_reads_def)
  have small: "\<forall>r \<in> set readings. unat (fst r a) < 2 ^ 28" for a using assms(2) by auto
  have m: "of_int (mean5 (rg_urms (ch_sr ?c ! b) ! k)) = mean (0x20d + 0x20 * k)"
    "of_int (mean5 (rg_irms (ch_sr ?c ! b) ! k)) = mean (0x20c + 0x20 * k)"
    unfolding mean5_of_small [OF t(1) assms(1) small] mean5_of_small [OF t(2) assms(1) small] assms(13)
    by (simp_all only: of_int_of_nat_eq split_def)
  show ?thesis
    using calc_from_buffer [OF assms(9,10,12,11)] unfolding re cut_scale_def m by blast
qed

lemma demo_cfg_wiring: "mc_wiring demo_cfg = 1" "cn_rmsInit demo_meas"
  by (simp_all add: demo_cfg_def demo_meas_def)

text \<open>Readings of 2199998 to 2200002, whose mean is 220 V.\<close>

definition demo_readings :: "((nat \<Rightarrow> u32) \<times> (nat \<Rightarrow> u16)) list" where
  "demo_readings = map (\<lambda>v. ((\<lambda>_. v), (\<lambda>_. 0))) [2199998, 2200002, 2200000, 2199999, 2200001]"

theorem measured_values_are_scaled_means_witness:
  "\<exists>c' m'. calcRmsAngle demo_math demo_cfg 1 (fold (\<lambda>(reg32, reg16). readRmsAngle reg32 reg16) demo_readings demo_chip, demo_meas) = (c', m') \<and>
     mv_U m' ! 1 = 220 \<and> ch_re c' = 1"
proof -
  obtain c' m' where r: "calcRmsAngle demo_math demo_cfg 1
      (fold (\<lambda>(reg32, reg16). readRmsAngle reg32 reg16) demo_readings demo_chip, demo_meas) = (c', m')"
    by (rule prod.exhaust)
  have chip: "(0 :: nat) < 2" "ch_fr demo_chip = 0" "ch_re demo_chip = 0" "length (ch_sr demo_chip) = 2" "rg_ix (ch_sr demo_chip ! 0) = 0"
    "\<forall>k < 3. length (rg_urms (ch_sr demo_chip ! 0) ! k) = 6 \<and> length (rg_irms (ch_sr demo_chip ! 0) ! k) = 6"
    by (simp_all add: demo_chip_def demo_regs_def)
  have l: "length demo_readings = 5" "\<forall>(reg32, reg16) \<in> set demo_readings. \<forall>a. unat (reg32 a) < 2 ^ 28"
    by (simp_all add: demo_readings_def)
  have mean: "(\<Sum>(reg32, reg16)\<leftarrow>demo_readings. unat (reg32 a)) div 5 = 2200000" for a by (simp add: demo_readings_def)
  show ?thesis
    using measured_values_are_scaled_means [OF l chip demo_cfg_wiring(2,1) _ r refl, of 1] r mean
    by (intro exI [of _ c'] exI [of _ m']) (simp add: demo_cfg_def)
qed

subsection \<open>The neutral current\<close>

lemma sint_steady: "x < 2 ^ 31 \<Longrightarrow> sint (of_nat x :: u32) = int x"
  by (simp add: signed_of_nat signed_take_bit_int_eq_self)

lemma word_le_small: "x < 2 ^ 31 \<Longrightarrow> y < 2 ^ 31 \<Longrightarrow> (of_nat x :: u32) \<le> of_nat y \<longleftrightarrow> x \<le> y"
  by (simp add: word_le_nat_alt unat_of_nat)

lemma word_max_small: "x < 2 ^ 31 \<Longrightarrow> y < 2 ^ 31 \<Longrightarrow> max (of_nat x :: u32) (of_nat y) = of_nat (max x y)"
  by (auto simp: max_def word_le_small)

lemma ten_of_two_arrays:
  assumes "x < 2 ^ 27" "y < 2 ^ 27"
    and "take 10 (drop os mem) = [of_nat x, of_nat x, of_nat x, of_nat x, of_nat x, 0, of_nat y, of_nat y, of_nat y, of_nat y]"
  shows "c_quot (average_without_min_max mem os 10) 8 = int ((5 * x + 4 * y - max x y) div 8)"
proof -
  let ?x = "of_nat x :: u32" and ?y = "of_nat y :: u32"
  have m: "fold min [?x, ?x, ?x, ?x, ?x, 0, ?y, ?y, ?y, ?y] ?x = 0" "fold max [?x, ?x, ?x, ?x, ?x, 0, ?y, ?y, ?y, ?y] ?x = of_nat (max x y)"
    using assms(1,2) by (simp_all add: max.commute [of _ 0] word_max_small max.commute [of y x])
  have s: "sum_list [?x, ?x, ?x, ?x, ?x, 0, ?y, ?y, ?y, ?y] = of_nat (5 * x + 4 * y)" by simp
  have "sint (of_nat (5 * x + 4 * y) :: u32) = int (5 * x + 4 * y)" "sint (of_nat (max x y) :: u32) = int (max x y)"
    using assms(1,2) by (intro sint_steady; simp add: max_def)+
  then have a: "average_without_min_max mem os 10 = int (5 * x + 4 * y) - int (max x y)"
    unfolding average_without_min_max_def Let_def assms(3) s nth_Cons_0 m by simp
  have "max x y \<le> 5 * x + 4 * y" by simp
  then have "average_without_min_max mem os 10 = int (5 * x + 4 * y - max x y)" unfolding a by (simp only: of_nat_diff)
  then show ?thesis by (auto simp: c_quot_def zdiv_int sgn_if)
qed

definition tail_put :: "(nat \<Rightarrow> u32) \<Rightarrow> nat \<Rightarrow> u32 list \<Rightarrow> u32 list" where
  "tail_put reg32 ix t = fold (\<lambda>i t. t[os_urms_1012 + 6 * i + ix := reg32 (0x21c + 0x20 * i)]) [0, 1, 2]
     (t[os_inrms + ix := reg32 0x266, os_isrms + ix := reg32 0x269])"

lemma read_step:
  assumes "ch_fr c = 0" "ch_sr c = [r0, r1]" "c' = readRmsAngle reg32 reg16 c"
  shows "\<exists>r. ch_sr c' = [r, r1] \<and> ch_re c' = ch_re c \<and> ch_fr c' = (if rg_ix r0 < 4 then 0 else 1) \<and>
    rg_ix r = (if rg_ix r0 < 4 then rg_ix r0 + 1 else 0) \<and> rg_tail r = tail_put reg32 (rg_ix r0) (rg_tail r0)"
  using assms by (auto simp: readRmsAngle_def read_regs_def Let_def tail_put_def)

lemma reads:
  assumes "ch_fr c = 0" "ch_sr c = [r0, r1]" "rg_ix r0 = 0" "n \<le> 4"
  shows "\<exists>r. ch_sr ((readRmsAngle reg32 reg16 ^^ n) c) = [r, r1] \<and> ch_re ((readRmsAngle reg32 reg16 ^^ n) c) = ch_re c \<and>
    ch_fr ((readRmsAngle reg32 reg16 ^^ n) c) = 0 \<and> rg_ix r = n \<and> rg_tail r = fold (tail_put reg32) [0..<n] (rg_tail r0)"
  using assms(4)
proof (induction n)
  case 0
  then show ?case using assms by simp
next
  case (Suc n)
  then obtain r where r: "ch_sr ((readRmsAngle reg32 reg16 ^^ n) c) = [r, r1]" "ch_re ((readRmsAngle reg32 reg16 ^^ n) c) = ch_re c"
    "ch_fr ((readRmsAngle reg32 reg16 ^^ n) c) = 0" "rg_ix r = n" "rg_tail r = fold (tail_put reg32) [0..<n] (rg_tail r0)"
    by auto
  show ?case using read_step [OF r(3,1) refl, of reg32 reg16] r Suc.prems by simp
qed

lemma five_reads:
  assumes "ch_fr c = 0" "ch_sr c = [r0, r1]" "rg_ix r0 = 0" "c' = (readRmsAngle reg32 reg16 ^^ 5) c"
  shows "\<exists>r. ch_sr c' = [r, r1] \<and> ch_re c' = ch_re c \<and> ch_fr c' = 1 \<and> rg_tail r = fold (tail_put reg32) [0..<5] (rg_tail r0)"
proof -
  obtain r where r: "ch_sr ((readRmsAngle reg32 reg16 ^^ 4) c) = [r, r1]" "ch_re ((readRmsAngle reg32 reg16 ^^ 4) c) = ch_re c"
    "ch_fr ((readRmsAngle reg32 reg16 ^^ 4) c) = 0" "rg_ix r = 4" "rg_tail r = fold (tail_put reg32) [0..<4] (rg_tail r0)"
    using reads [OF assms(1-3) order.refl] by blast
  have c': "c' = readRmsAngle reg32 reg16 ((readRmsAngle reg32 reg16 ^^ 4) c)"
  proof -
    have five: "(5 :: nat) = Suc 4" by simp
    show ?thesis unfolding assms(4) five funpow.simps(2) o_apply by (rule refl)
  qed
  have "[0..<5] = [0..<4] @ [4 :: nat]" by (simp add: upt_rec)
  then show ?thesis using read_step [OF r(3,1) c'] r by auto
qed

lemma tail_at_put:
  assumes "length t = 30" "ix < 5" "i < 18"
  shows "tail_put reg32 ix t ! i = (if i = ix then reg32 0x266 else if i = 6 + ix then reg32 0x269 else if i = 12 + ix then reg32 0x21c else t ! i)"
  using assms by (auto simp: tail_put_def nth_list_update)

lemma length_tail_put [simp]: "length (tail_put reg32 ix t) = length t"
  by (simp add: tail_put_def)

lemma tails_at:
  assumes "n \<le> 5" "i < 18"
  shows "fold (tail_put reg32) [0..<n] (replicate 30 0) ! i =
    (if i < n then reg32 0x266 else if 6 \<le> i \<and> i < 6 + n then reg32 0x269 else if 12 \<le> i \<and> i < 12 + n then reg32 0x21c else 0) \<and>
    length (fold (tail_put reg32) [0..<n] (replicate 30 0)) = 30"
  using assms
proof (induction n)
  case (Suc n)
  then show ?case using tail_at_put [of "fold (tail_put reg32) [0..<n] (replicate 30 0)" n i reg32] by auto
qed auto

lemma collected_tail:
  assumes "t = fold (tail_put reg32) [0..<5] (replicate 30 0)"
  shows "take 10 (drop 0 t) = replicate 5 (reg32 0x266) @ [0] @ replicate 4 (reg32 0x269)"
    "take 10 (drop 6 t) = replicate 5 (reg32 0x269) @ [0] @ replicate 4 (reg32 0x21c)"
proof -
  have len: "length t = 30" using tails_at [of 5 0 reg32] assms by simp
  have at: "i < 18 \<Longrightarrow> t ! i = (if i < 5 then reg32 0x266 else if 6 \<le> i \<and> i < 11 then reg32 0x269 else if 12 \<le> i \<and> i < 17 then reg32 0x21c else 0)" for i
    using tails_at [of 5 i reg32] assms by simp
  show "take 10 (drop 0 t) = replicate 5 (reg32 0x266) @ [0] @ replicate 4 (reg32 0x269)"
    using len by (intro nth_equalityI) (auto simp: at nth_append nth_Cons')
  show "take 10 (drop 6 t) = replicate 5 (reg32 0x269) @ [0] @ replicate 4 (reg32 0x21c)"
    using len by (intro nth_equalityI) (auto simp: at nth_append nth_Cons')
qed

lemma neutral_steps:
  "cn_In1 (currents env cfg m) = cn_In1 m" "cn_In1 (current_balance env cfg m) = cn_In1 m" "cn_In1 (voltages cfg m) = cn_In1 m"
  "cn_In1 (voltage_balance env cfg m) = cn_In1 m" "cn_In1 (line_voltages env cfg m) = cn_In1 m"
  "mv_Isum (current_balance env cfg m) = mv_Isum m" "mv_Isum (voltages cfg m) = mv_Isum m"
  "mv_Isum (voltage_balance env cfg m) = mv_Isum m" "mv_Isum (line_voltages env cfg m) = mv_Isum m"
  by (simp_all add: currents_def current_balance_def voltages_def voltage_balance_def line_voltages_def Let_def)

lemma currents_neutral: "mc_wiring cfg = 1 \<Longrightarrow> mv_Isum (currents env cfg m) = cn_Is m"
  unfolding currents_def by (simp add: Let_def IS_WM_1LN1CT_def word_le_nat_alt)

text \<open>The neutral currents are not the measured ones: the code averages ten entries of arrays that
  hold six and are filled with five. From steady registers n, s and u (neutral current, its
  computed counterpart and the voltage of phase one) the second value comes out as
  (5 s + 4 u less the greater) / 8, dominated by the voltage, the first as
  (5 n + 4 s less the greater) / 8; and whether they are computed at all depends on a variable
  that was never set.\<close>

theorem neutral_current_is_mixed:
  assumes "ch_fr c = 0" "ch_re c = 0" "ch_sr c = [r0, r1]" "rg_ix r0 = 0" "rg_tail r0 = replicate 30 0"
    and "reg32 0x266 = of_nat n" "reg32 0x269 = of_nat s" "reg32 0x21c = of_nat u" "n < 2 ^ 27" "s < 2 ^ 27" "u < 2 ^ 27"
    and "cn_rmsInit m" "mc_wiring cfg = 1"
    and "calcRmsAngle env cfg rms0 ((readRmsAngle reg32 reg16 ^^ 5) c, m) = (c', m')"
  shows "mv_Isum m' = (if rms0 = 0 then 0 else of_nat ((5 * s + 4 * u - max s u) div 8) * mc_iscale cfg) \<and>
    (rms0 \<noteq> 0 \<longrightarrow> cn_In1 m' = of_nat ((5 * n + 4 * s - max n s) div 8) * mc_igscale cfg)"
proof -
  let ?c1 = "(readRmsAngle reg32 reg16 ^^ 5) c"
  obtain r where r: "ch_sr ?c1 = [r, r1]" "ch_re ?c1 = 0" "rg_tail r = fold (tail_put reg32) [0..<5] (replicate 30 0)"
    using five_reads [OF assms(1,3,4) refl, of reg32 reg16] assms(2,5) by auto
  have rr: "ch_sr ?c1 ! ch_re ?c1 = r" by (simp add: r)
  note t = collected_tail [OF r(3), unfolded assms(6-8)]
  have av1: "c_quot (average_without_min_max (rg_tail r) 0 10) 8 = int ((5 * n + 4 * s - max n s) div 8)"
    by (rule ten_of_two_arrays [OF assms(9,10)]) (subst t(1), simp add: numeral_eq_Suc)
  have av2: "c_quot (average_without_min_max (rg_tail r) 6 10) 8 = int ((5 * s + 4 * u - max s u) div 8)"
    by (rule ten_of_two_arrays [OF assms(10,11)]) (subst t(2), simp add: numeral_eq_Suc)
  note av = av1 av2
  let ?a = "calcAbsAngle env cfg (angles env cfg r (neutral cfg rms0 r (scaleRms cfg r m)))"
  have cn: "cn_Is ?a = cn_Is (neutral cfg rms0 r (scaleRms cfg r m))" "cn_In1 ?a = cn_In1 (neutral cfg rms0 r (scaleRms cfg r m))"
    by (simp_all add: calcAbsAngle_def direct_angles_def wiring_angles_def angles_def Let_def)
  have m': "mv_Isum m' = cn_Is ?a \<and> cn_In1 m' = cn_In1 ?a"
    using assms(12,14) currents_neutral [OF assms(13)]
    by (auto simp: calcRmsAngle_def Let_def rr neutral_steps split: prod.splits)
  show ?thesis
    unfolding m' [THEN conjunct1] m' [THEN conjunct2] cn by (simp add: neutral_def Let_def av)
qed

text \<open>A neutral current of zero next to a phase at 220 V reads 3 times 2200000 / 8 raw units.\<close>

theorem neutral_current_is_mixed_witness:
  "\<exists>c' m'. calcRmsAngle demo_math demo_cfg 1
      ((readRmsAngle (\<lambda>a. if a = 0x21c then 2200000 else 0) (\<lambda>_. 0) ^^ 5) demo_chip, demo_meas) = (c', m') \<and>
     mv_Isum m' = 825000 * (1 / 1000)"
proof -
  let ?c = "(readRmsAngle (\<lambda>a. if a = 0x21c then 2200000 else 0) (\<lambda>_. 0) ^^ 5) demo_chip"
  obtain c' m' where r: "calcRmsAngle demo_math demo_cfg 1 (?c, demo_meas) = (c', m')" by (rule prod.exhaust)
  have chip: "ch_fr demo_chip = 0" "ch_re demo_chip = 0" "ch_sr demo_chip = [demo_regs, demo_regs]" "rg_ix demo_regs = 0"
    "rg_tail demo_regs = replicate 30 0"
    by (simp_all add: demo_chip_def demo_regs_def)
  have "mv_Isum m' = (if (1 :: rat) = 0 then 0 else of_nat ((5 * 0 + 4 * 2200000 - max 0 2200000) div 8) * mc_iscale demo_cfg)"
    by (rule neutral_current_is_mixed [OF chip _ _ _ _ _ _ demo_cfg_wiring(2,1) r, THEN conjunct1, of 0]) simp_all
  then have "mv_Isum m' = 825000 * (1 / 1000)" by (simp add: demo_cfg_def)
  then show ?thesis using r by blast
qed

subsection \<open>What else the calculations show\<close>

text \<open>The line voltage between the first two phases ignores the angle between them: the angle of the
  next pair is used.\<close>

lemma line_voltage_ignores_its_angle:
  "calcLineVolt env (m\<lparr>cn_Uangle := (cn_Uangle m)[0 := a]\<rparr>) 0 = calcLineVolt env m 0"
  "calcLineVolt env (m\<lparr>cn_Uangle := (cn_Uangle m)[2 := a]\<rparr>) 2 = calcLineVolt env m 2"
  by (simp_all add: calcLineVolt_def)

text \<open>The under-voltage of a phase stays when its voltage gets too high, and the other way round.\<close>

lemma deviation_keeps_other_side:
  assumes "calcDeviation env U nom (un, ov) = (un', ov')" "k < 3"
  shows "(U ! k > nom \<longrightarrow> un' ! k = un ! k) \<and> (U ! k < nom \<longrightarrow> ov' ! k = ov ! k)"
  using assms by (auto simp: calcDeviation_def less_Suc_eq numeral_3_eq_3 numeral_2_eq_2 nth_list_update split: if_splits)

text \<open>The second current of a connection with two transformers uses the third current of the second
  before.\<close>

lemma second_current_lags:
  assumes "mc_wiring cfg = 2"
  shows "mv_I (currents env cfg m) ! 1 = calcPhaseCurrent env m (cn_I m ! 0) (mv_I m ! 2)"
  using assms by (simp add: currents_def Let_def IS_WM_1LN1CT_def with_average_def calcPhaseCurrent_def)

end
