(* ===== verification/Spec2Isabelle.thy ===== *)
theory Spec2Isabelle
  imports Crc Queues LogFifo Modbus SmbRtu SmbTcp CmdProc Energy Demand Alarm FsTask PqEvent Web Retention Trend Quality
    Settings Feeder Wave Inputs Watchdog MaxMin Measure
begin

text \<open>
  The firmware of the SV300, a power-quality meter with three measuring channels, as a library of
  definitions and theorems. All paths below are relative to \<open>src/src\<close>. The model is that of
  the three-channel build (\<open>CH3\<close>, \<open>HWV1\<close>, \<open>HWV2\<close>, \<open>NOSDMEM\<close>, so \<open>METER_CH_COUNT\<close> is 3
  and the log directories are name prefixes of one flat flash file system).

  \<^bold>\<open>How the program works.\<close>
  Interrupts and the meter tasks read the ADE9000 chips, average the readings and, once a
  second, feed the consumers: energy counters and demands (\<open>meter.c\<close>), alarms (\<open>alarm.c\<close>),
  power-quality events (\<open>ade9000.c\<close>) and weekly statistics (\<open>Quality.c\<close>), trends (\<open>alarm.c\<close>).
  These keep their results in RAM and hand everything that has to reach the flash to one
  file task, through a queue of jobs and through small mailboxes, so that no measuring task
  waits for the flash. Masters read and write the registers by serial Modbus (\<open>smb_rtu.c\<close>),
  Modbus TCP (\<open>smb_tcp.c\<close> and the callbacks of the TCP stack) and the web server (\<open>web.c\<close>);
  commands they send go through a queue to the command task.

  \<^bold>\<open>The theories.\<close>
  \<^item> \<open>C_Prelude\<close>: the names of the machine integers, bytes of words, arrays. \<open>Ring\<close>: index rings,
    with the locale of a queue that stays usable below its capacity and its laws.
  \<^item> \<open>Crc\<close> (\<open>crc.c\<close>): both checksums, equal to the bit-serial definitions; which damage they detect.
  \<^item> \<open>Queues\<close> (\<open>modbus.c\<close>, \<open>meter.c\<close>, \<open>snmp_trap.c\<close>, \<open>proxy.c\<close>): command queue, job queue of the file
    task, trap queue, proxy rings; each an interpretation of the locale of \<open>Ring\<close>.
  \<^item> \<open>LogFifo\<close> (\<open>alarm.c\<close>, \<open>meter.c\<close>): the histories of 1024 alarms and events, the windows of 32
    that a master reads, their files. The specification is the list of the newest entries.
  \<^item> \<open>Modbus\<close> (\<open>modbus.c\<close>): frames, address map, reads and writes of registers. \<open>SmbRtu\<close>: the receiver
    of the serial line. \<open>SmbTcp\<close>: sessions and framing over TCP. \<open>CmdProc\<close>: the command task.
  \<^item> \<open>Energy\<close> (\<open>meter.c\<close>): counting with carried fractions, month change, the two FRAM copies.
    \<open>Demand\<close>: intervals, maxima, hourly and quarter-hour logs, the mailbox of deferred writes.
  \<^item> \<open>Alarm\<close> (\<open>alarm.c\<close>): the supervision of 32 conditions and what a change sets off.
  \<^item> \<open>PqEvent\<close> (\<open>ade9000.c\<close>, \<open>meter.c\<close>): sags, swells, interruptions, over-currents, the queues of
    wave and RMS captures.
  \<^item> \<open>FsTask\<close> (\<open>meter.c\<close>, \<open>alarm.c\<close>): the file task; the file system is a list of named contents.
  \<^item> \<open>Calendar\<close>, \<open>Retention\<close> (\<open>meter.c\<close>, \<open>alarm.c\<close>, \<open>Quality.c\<close>): dates in file names, the search for
    the oldest file, budgets and ages. Two locales state what a search and a trim promise and
    are interpreted on the searches for energy archives, trends and quality logs.
  \<^item> \<open>Trend\<close> (\<open>alarm.c\<close>): recording of chosen channels. \<open>Quality\<close> (\<open>Quality.c\<close>): the ten-minute
    statistics, the weekly report after EN 50160 and its files.
  \<^item> \<open>Settings\<close> (\<open>meter.c\<close>, \<open>alarm.c\<close>, \<open>app_main.c\<close>): the layout of the settings and their files, defaults,
    normalisation, saving, factory reset, start; the specification is that what was saved comes
    back, and that whatever is loaded is usable. \<open>Feeder\<close> (\<open>meter.c\<close>, \<open>ade9000.c\<close>, \<open>modbus.c\<close>): which
    inputs of which chip serve a feeder, redirection and gain, the simple register map.
  \<^item> \<open>Measure\<close> (\<open>ade9000.c\<close>): from chip registers to voltages, currents, angles and powers. \<open>MaxMin\<close>
    (\<open>meter.c\<close>): their extremes and the file of these. \<open>Wave\<close> (\<open>meter.c\<close>, \<open>ade9000.c\<close>): the ring of
    sample pages, windows of samples, captures.
  \<^item> \<open>Inputs\<close> (\<open>iom.c\<close>): debouncing and pulse counting. \<open>Watchdog\<close> (\<open>app_main.c\<close>): clock, supervision.
  \<^item> \<open>Web\<close> (\<open>web.c\<close>): sessions, parsing, rights, every handler that changes the device.

  \<^bold>\<open>Conventions.\<close>
  Structures are records, unions of bytes and words are bytes with explicit decoding, machine
  integers are words of their width (or integers where the code's C type cannot overflow at the
  values it sees, which is then stated). Memory outside an array is not modelled: a function
  that would write there returns \<open>None\<close>. A critical section of the code is one step. The clock,
  the pins, the chip registers, the kernel and the libraries (HTTP, SNMP, HMAC, sockets, file
  system calls that may fail) are arguments of the definitions, gathered in records that end in
  \<open>_ctx\<close> or \<open>_env\<close>. Floating point numbers of the measuring path are rational numbers, \<open>rat\<close>,
  so no theorem speaks of rounding; where the code reinterprets the bits of a float the bits are
  modelled. Loops that the code bounds by a counter are structural recursions over that bound.

  \<^bold>\<open>What is shown.\<close>
  Per component: an invariant of its state kept by all of its operations, the result of each
  operation, the refusal of bad input without an effect, and across components that a request
  ends in the flash. Where the code does not do what it means to, the theorem states what it
  does, and the accompanying text says so.

  \<^bold>\<open>Bounds.\<close>
  Fuel appears in three places: the command task drains its queue within 8 steps and the file
  task within 32, the capacities of the queues; the trims delete one file per step and their
  fuel is the number of files. \<open>wave_caps\<close> is a loop without a bound in the code and is a partial
  function whose termination is a theorem, also for \<open>wave_caps_among\<close>, in which the metering task acts
  on the queue between its steps.

  \<^bold>\<open>Not modelled.\<close>
  Access to chip registers, SPI, DMA and interrupts, the gains and the initialisation of the chips;
  the frequency analysis (FFT), whose results depend on rounding; the scale factors that
  \<open>buildSettings\<close> derives from the settings; the detection of transients, which has no caller;
  report pages of the web server, which only print values; the creation of the tasks, the console
  and the vendored libraries.
\<close>

section \<open>From the serial line to the flash\<close>

text \<open>C26. Saving the settings works end to end: a write of 0x1234 to register 7799, received while
  no command waits, is echoed; the next pass of the command task then raises the save request
  (and leaves no command), and the file task's next idle turn saves settings, alarm and
  power-quality definitions and the energy registers, in this order and once, with the
  firmware's own layout version whatever the settings block contains.\<close>

theorem save_command_saves:
  assumes "mb_ready st" "cmd_q_ok (mb_cmdq st)" "cmd_pending (mb_cmdq st) = []"
    and "pr 1 = 6" "be16 (pr 2) (pr 3) = 7799" "be16 (pr 4) (pr 5) = 0x1234"
    and "modbusSlvProcFrame cw pr False st = (reply, st')"
    and "cmd_pass 8 (c\<lparr>cs_cmdq := mb_cmdq st'\<rparr>) = Some c'"
    and "fs_idle (c', y) = (c'', y')"
  shows "reply = echo (pr 0) 6 7799 0x1234 \<and> cmd_pending (cs_cmdq c') = [] \<and>
    fy_calls y' = fy_calls y @ [SaveSettings 0x2610, StoreAlarmDef, StorePqeDef, StoreEnergy] \<and>
    fs_idle (c''\<lparr>cs_factReset := 0, cs_rebootFlag := 0\<rparr>, y') = (c''\<lparr>cs_factReset := 0, cs_rebootFlag := 0\<rparr>, y')"
proof -
  have f: "handleFetchCmd 7799 0x1234 (count_rx st) = None"
    by (simp add: handleFetchCmd_def)
  have r: "reply = echo (pr 0) 6 7799 0x1234" "st' = put_cmd 7799 0x1234 (count_rx st)"
    using assms(1,4-7) f
    by (auto simp: modbusSlvProcFrame_def Let_def modbusSlvChkFrame_def init_smb_def frame_write1_def writeSingleMem_def
        count_rx_def set_reg_def split: if_splits)
  have q: "mb_cmdq st' = putCmdQ (7799, 0x1234) (mb_cmdq st)"
    by (simp add: r(2) put_cmd_def count_rx_def set_reg_def)
  have ok: "cmd_q_ok (mb_cmdq st')" unfolding q by (rule cmdq.put_inv [OF assms(2)]) simp
  have pend: "cmd_pending (mb_cmdq st') = [(7799, 0x1234)]"
    unfolding q using putCmdQ_pending [OF assms(2)] assms(3) by simp
  obtain q' where c': "c' = (cmd_exec (7799, 0x1234) (c\<lparr>cs_cmdq := mb_cmdq st'\<rparr>))\<lparr>cs_cmdq := q'\<rparr>"
    "cmd_pending q' = []"
    using cmd_pass_pending [of "c\<lparr>cs_cmdq := mb_cmdq st'\<rparr>" 8] ok pend assms(8) by auto
  have save: "cs_saveSetting c' = 0x1234"
    by (simp add: c'(1) cmd_exec_def reqSaveSettings_def Let_def)
  then have "cs_saveSetting c'' = 0"
    "fy_calls y' = fy_calls y @ [SaveSettings 0x2610, StoreAlarmDef, StorePqeDef, StoreEnergy]"
    using fs_idle_saves [OF save, of y] assms(9) by simp_all
  then show ?thesis using r(1) c' by (simp add: fs_idle_def Let_def)
qed

definition save_frame :: "nat \<Rightarrow> u8" where
  "save_frame = frame_at [1, 6, 0x1e, 0x77, 0x12, 0x34]"

definition sys_start :: fs_sys where
  "sys_start = \<lparr>fy_setting_layoutVer = 7, fy_db_layoutVer = 7, fy_runFlag = True, fy_wdtEn = True, fy_calls = []\<rparr>"

theorem save_command_saves_witness:
  "\<exists>reply st' c' c'' y'. modbusSlvProcFrame (\<lambda>_ r. r) save_frame False mb_start = (reply, st') \<and>
    cmd_pass 8 (cmd_start\<lparr>cs_cmdq := mb_cmdq st'\<rparr>) = Some c' \<and> fs_idle (c', sys_start) = (c'', y') \<and>
    (reply = echo (save_frame 0) 6 7799 0x1234 \<and> cmd_pending (cs_cmdq c') = [] \<and>
     fy_calls y' = fy_calls sys_start @ [SaveSettings 0x2610, StoreAlarmDef, StorePqeDef, StoreEnergy] \<and>
     fs_idle (c''\<lparr>cs_factReset := 0, cs_rebootFlag := 0\<rparr>, y') = (c''\<lparr>cs_factReset := 0, cs_rebootFlag := 0\<rparr>, y'))"
proof -
  have f: "save_frame 1 = 6" "be16 (save_frame 2) (save_frame 3) = 7799" "be16 (save_frame 4) (save_frame 5) = 0x1234"
    by (simp_all add: save_frame_def frame_at_def be16_def)
  have s: "mb_ready mb_start" "cmd_q_ok (mb_cmdq mb_start)" "cmd_pending (mb_cmdq mb_start) = []"
    by (simp_all add: mb_start_def cmd_q_empty_ok)
  obtain reply st' where m: "modbusSlvProcFrame (\<lambda>_ r. r) save_frame False mb_start = (reply, st')"
    by (cases "modbusSlvProcFrame (\<lambda>_ r. r) save_frame False mb_start")
  have "mb_cmdq st' = putCmdQ (7799, 0x1234) cmd_q_empty"
    using m f by (auto simp: modbusSlvProcFrame_def Let_def modbusSlvChkFrame_def init_smb_def frame_write1_def
        writeSingleMem_def handleFetchCmd_def put_cmd_def count_rx_def set_reg_def mb_start_def split: if_splits)
  then have "cmd_q_ok (mb_cmdq st')" using cmdq.put_inv [OF cmd_q_empty_ok(1)] by simp
  then obtain c' where c: "cmd_pass 8 (cmd_start\<lparr>cs_cmdq := mb_cmdq st'\<rparr>) = Some c'"
    using cmd_pass_pending [of "cmd_start\<lparr>cs_cmdq := mb_cmdq st'\<rparr>" 8] cmdq.items_le_cap by fastforce
  obtain c'' y' where i: "fs_idle (c', sys_start) = (c'', y')" by (cases "fs_idle (c', sys_start)")
  show ?thesis using save_command_saves [OF s f m c i] m c i by blast
qed

lemma dec_digit: "\<exists>c cs. dec n = c # cs \<and> c \<noteq> CHR ''f''"
proof (induction n rule: dec.induct)
  case (1 n)
  have d: "(char_of (48 + m) :: char) \<noteq> CHR ''f''" if "m < 10" for m :: nat
  proof
    assume "(char_of (48 + m) :: char) = CHR ''f''"
    then have "of_char (char_of (48 + m) :: char) = (102 :: nat)" by simp
    then show False using that by simp
  qed
  show ?case
  proof (cases "n < 10")
    case True
    then show ?thesis using d by (simp add: dec.simps [of n])
  next
    case False
    then show ?thesis using 1 by (auto simp: dec.simps [of n])
  qed
qed

lemma pad0_digit: "\<exists>c cs. pad0 w n = c # cs \<and> c \<noteq> CHR ''f''"
proof (cases "w - length (dec n)")
  case 0
  then show ?thesis using dec_digit by (simp add: pad0_def)
next
  case (Suc k)
  then show ?thesis by (simp add: pad0_def)
qed

lemma month_not_history:
  "''alm_alog0_'' @ pad0 4 y @ pad0 2 m @ ''.d'' \<noteq> getAlarmFifoFileName mid"
  using pad0_digit [of 4 y] by (auto simp: getAlarmFifoFileName_def)

text \<open>C27. An alarm reaches the flash: when a change is stored with both queues free, the next turn
  of the file task appends exactly the 16 bytes of that change to the file of its month and
  rewrites the meter's history file from the history array, whatever has been written to
  memory in between, and touches no other file.\<close>

theorem alarm_reaches_flash:
  assumes "fs_q_ok (av_fsQ v)" "fs_pending (av_fsQ v) = []"
    and "trap_q_ok (av_trap v)" "length (trap_pending (av_trap v)) < 16"
    and "storeAlarmLog cx mid ix status x (m, v) = Some (m', v')" "mid < 3"
    and "fs_drain 31 env (av_fsQ v', d) = Some (q', d')" "\<forall>nm. fe_open env nm"
    and "month = ''alm_alog0_'' @ pad0 4 (am_year m) @ pad0 2 (am_mon m) @ ''.d''"
  shows "fcontent month d' = fcontent month d @ alarm_log_bytes (am_alog m') \<and>
    Some (fcontent (getAlarmFifoFileName mid) d') = map_option (fifo_bytes 0 alarm_log_bytes)
      (alarmFifoFileAppend (fe_sysTick1s env) True (fe_alarmFifo env mid) None) \<and>
    (\<forall>nm. nm \<noteq> month \<and> nm \<noteq> getAlarmFifoFileName mid \<longrightarrow> fcontent nm d' = fcontent nm d)"
proof -
  have room: "length (fs_pending (av_fsQ v)) < 30" using assms(2) by simp
  obtain mem where q: "fs_pending (av_fsQ v') =
      [fs_inline (mem_put (cx_alog cx mid) (alarm_log_bytes (am_alog m')) mem) (al_msg (cx_alog cx mid) m),
       fs_inline (mem_put (cx_alog cx mid) (alarm_log_bytes (am_alog m')) mem) (af_msg (cx_alog cx mid) mid)]"
    "fs_q_ok (av_fsQ v')"
    using alarm_announced [OF assms(1) room assms(3,4,5)] assms(2) by auto
  obtain f where f: "alarmFifoFileAppend (fe_sysTick1s env) True (fe_alarmFifo env mid) None = Some f"
    by (simp add: alarmFifoFileAppend_def Let_def)
  have month: "month = fm_fname (al_msg (cx_alog cx mid) m)" using assms(9) by (simp add: al_msg_def)
  have ne: "month \<noteq> getAlarmFifoFileName mid" unfolding assms(9) by (rule month_not_history)
  have "d' = fold (fs_exec env) (fs_pending (av_fsQ v')) d"
    using fs_drain_fold [OF q(2), of 31 env d] q(1) assms(7) by simp
  then have "d' = fwrite_all (getAlarmFifoFileName mid) (fifo_bytes 0 alarm_log_bytes f)
      (fappend month (alarm_log_bytes (am_alog m')) d)"
    using fs_exec_al [OF _ month] fs_exec_af [OF assms(6) _ f] assms(8) by (simp add: q(1))
  then show ?thesis using f ne by (simp add: fcontent_fwrite_all fcontent_fappend)
qed

theorem alarm_reaches_flash_witness:
  "\<exists>m' v' q' d'. storeAlarmLog demo_ctx 1 0 1 80 (demo_alarm_meter, demo_env) = Some (m', v') \<and>
    fs_drain 31 demo_fs_env (av_fsQ v', []) = Some (q', d') \<and>
    (fcontent ''alm_alog0_202609.d'' d' = fcontent ''alm_alog0_202609.d'' [] @ alarm_log_bytes (am_alog m') \<and>
     Some (fcontent (getAlarmFifoFileName 1) d') = map_option (fifo_bytes 0 alarm_log_bytes)
       (alarmFifoFileAppend (fe_sysTick1s demo_fs_env) True (fe_alarmFifo demo_fs_env 1) None) \<and>
     (\<forall>nm. nm \<noteq> ''alm_alog0_202609.d'' \<and> nm \<noteq> getAlarmFifoFileName 1 \<longrightarrow> fcontent nm d' = fcontent nm []))"
proof -
  have "log_ok (am_fifo demo_alarm_meter)" by (simp add: demo_alarm_meter_def log_empty_ok)
  then obtain m' v' where s: "storeAlarmLog demo_ctx 1 0 1 80 (demo_alarm_meter, demo_env) = Some (m', v')"
    using storeAlarmLog_ok by blast
  have e: "fs_q_ok (av_fsQ demo_env)" "fs_pending (av_fsQ demo_env) = []" "trap_q_ok (av_trap demo_env)"
    "length (trap_pending (av_trap demo_env)) < 16"
    by (simp_all add: demo_env_def fs_q_empty_ok trap_q_empty_ok)
  have "fs_q_ok (av_fsQ v')" "length (fs_pending (av_fsQ v')) \<le> 31"
    using alarm_announced [OF e(1) _ e(3,4) s] e(2) by auto
  then obtain q' d' where d: "fs_drain 31 demo_fs_env (av_fsQ v', []) = Some (q', d')"
    using fs_drain_fold by blast
  have n: "''alm_alog0_202609.d'' =
      ''alm_alog0_'' @ pad0 4 (am_year demo_alarm_meter) @ pad0 2 (am_mon demo_alarm_meter) @ ''.d''"
    by (simp add: demo_alarm_meter_def pad0_def dec.simps, code_simp)
  have o: "\<forall>nm. fe_open demo_fs_env nm" by (simp add: demo_fs_env_def)
  show ?thesis using alarm_reaches_flash [OF e s _ d o n] s d by (intro exI conjI) auto
qed

end
